(* ===== verification/Prelude.thy ===== *)
theory Prelude imports Main "HOL-Library.Word" "HOL-Library.Sublist" begin

text \<open>
  Shared vocabulary of the development: the Python exceptions the modelled code raises or
  catches, the state-and-exception functions that stand for its methods, the string methods it
  uses, and the generic lemmas on lists the components need.

  Strings are lists of characters. The methods below follow Python on ASCII text: the AT lines
  are decoded from ASCII, and the configuration values the code validates are ASCII.
\<close>

named_theorems py_eval \<open>evaluation rules of the method combinators\<close>
named_theorems str_simps \<open>rewrite rules of the string methods\<close>


text \<open>A byte string is a list of bytes.\<close>

type_synonym byte = "8 word"
type_synonym bytes = "byte list"


section \<open>Exceptions and methods\<close>

text \<open>The exception classes of the code. \<open>Cancelled\<close> is \<open>asyncio.CancelledError\<close>, which is not an
  \<open>Exception\<close> in Python: \<open>except Exception\<close> lets it through.\<close>

datatype pyexn =
    ValueError string
  | RuntimeError string
  | OSError string
  | StopAsyncIteration
  | AtTimeoutError string
  | AtCommandError string string
  | AtClosedError
  | PcmEnableError string
  | BusyDeviceError
  | DiskFullError
  | EdgeNotConnected
  | BufferError string
  | RtcNotJoined
  | RtcPushBackpressure
  | RtcError string
  | FrameError string
  | HttpError nat string
  | ModemInitFailed string string
  | ModemDiscoveryError string
  | WatcherError string
  | EnvFileError string
  | SerialPcmError string
  | OtherError string
  | Cancelled

definition is_exception :: "pyexn \<Rightarrow> bool" where
  "is_exception e \<longleftrightarrow> e \<noteq> Cancelled"

text \<open>The class name, as \<open>exc.__class__.__name__\<close> gives it.\<close>

fun class_name :: "pyexn \<Rightarrow> string" where
  "class_name (ValueError _) = ''ValueError''"
| "class_name (RuntimeError _) = ''RuntimeError''"
| "class_name (OSError _) = ''OSError''"
| "class_name StopAsyncIteration = ''StopAsyncIteration''"
| "class_name (AtTimeoutError _) = ''AtTimeoutError''"
| "class_name (AtCommandError _ _) = ''AtCommandError''"
| "class_name AtClosedError = ''AtError''"
| "class_name (PcmEnableError _) = ''PcmEnableError''"
| "class_name BusyDeviceError = ''BusyDeviceError''"
| "class_name DiskFullError = ''DiskFullError''"
| "class_name EdgeNotConnected = ''EdgeNotConnected''"
| "class_name (BufferError _) = ''SqliteEventBufferError''"
| "class_name RtcNotJoined = ''RtcNotJoined''"
| "class_name RtcPushBackpressure = ''RtcPushBackpressure''"
| "class_name (RtcError _) = ''RtcError''"
| "class_name (FrameError _) = ''FrameError''"
| "class_name (HttpError _ _) = ''HTTPException''"
| "class_name (ModemInitFailed _ _) = ''ModemInitFailedError''"
| "class_name (ModemDiscoveryError _) = ''ModemDiscoveryError''"
| "class_name (WatcherError _) = ''UsbDeviceWatcherError''"
| "class_name (EnvFileError _) = ''EnvFileError''"
| "class_name (SerialPcmError _) = ''SerialPcmError''"
| "class_name (OtherError c) = c"
| "class_name Cancelled = ''CancelledError''"

text \<open>A method on a state: it returns a value or raises, and leaves a state behind either way.\<close>

type_synonym ('s, 'a) proc = "'s \<Rightarrow> (pyexn + 'a) \<times> 's"

definition ret :: "'a \<Rightarrow> ('s, 'a) proc" where
  "ret x s = (Inr x, s)"

definition raise :: "pyexn \<Rightarrow> ('s, 'a) proc" where
  "raise e s = (Inl e, s)"

definition bindm :: "('s, 'a) proc \<Rightarrow> ('a \<Rightarrow> ('s, 'b) proc) \<Rightarrow> ('s, 'b) proc" where
  "bindm m k s = (case m s of (Inl e, s') \<Rightarrow> (Inl e, s') | (Inr x, s') \<Rightarrow> k x s')"

definition seqm :: "('s, 'a) proc \<Rightarrow> ('s, 'b) proc \<Rightarrow> ('s, 'b) proc" where
  "seqm m k = bindm m (\<lambda>_. k)"

text \<open>\<open>try: m except: h\<close> where \<open>h e = None\<close> means the clause does not match \<open>e\<close>.\<close>

definition catchm :: "('s, 'a) proc \<Rightarrow> (pyexn \<Rightarrow> ('s, 'a) proc option) \<Rightarrow> ('s, 'a) proc" where
  "catchm m h s = (case m s of
       (Inl e, s') \<Rightarrow> (case h e of None \<Rightarrow> (Inl e, s') | Some k \<Rightarrow> k s')
     | (Inr x, s') \<Rightarrow> (Inr x, s'))"

text \<open>\<open>with contextlib.suppress(Exception): m\<close>.\<close>

definition suppress :: "('s, unit) proc \<Rightarrow> ('s, unit) proc" where
  "suppress m = catchm m (\<lambda>e. if is_exception e then Some (ret ()) else None)"

text \<open>\<open>try: m finally: f\<close>: an exception of \<open>f\<close> replaces that of \<open>m\<close>.\<close>

definition finallym :: "('s, 'a) proc \<Rightarrow> ('s, unit) proc \<Rightarrow> ('s, 'a) proc" where
  "finallym m f s = (case m s of (r, s') \<Rightarrow>
     (case f s' of (Inl e, s'') \<Rightarrow> (Inl e, s'') | (Inr _, s'') \<Rightarrow> (r, s'')))"

definition modify :: "('s \<Rightarrow> 's) \<Rightarrow> ('s, unit) proc" where
  "modify f s = (Inr (), f s)"

definition raised :: "(pyexn + 'a) \<times> 's \<Rightarrow> bool" where
  "raised r \<longleftrightarrow> (case fst r of Inl _ \<Rightarrow> True | Inr _ \<Rightarrow> False)"

lemmas method_defs = ret_def raise_def bindm_def seqm_def catchm_def suppress_def finallym_def modify_def

lemma bindm_ret [py_eval, simp]: "bindm (ret x) k s = k x s"
  by (simp add: method_defs)

lemma bindm_raise [py_eval, simp]: "bindm (raise e) k s = (Inl e, s)"
  by (simp add: method_defs)

lemma seqm_modify [py_eval, simp]: "seqm (modify f) k s = k (f s)"
  by (simp add: method_defs)

lemma bindm_assoc: "bindm (bindm m k) l s = bindm m (\<lambda>x. bindm (k x) l) s"
  by (simp add: bindm_def split: prod.splits sum.splits)

lemma bindm_eq_Inr:
  "bindm m k s = (Inr y, t) \<longleftrightarrow> (\<exists>x s'. m s = (Inr x, s') \<and> k x s' = (Inr y, t))"
  by (auto simp: bindm_def split: prod.splits sum.splits)

lemma suppress_cases:
  "suppress m s = (if (\<exists>s'. m s = (Inl Cancelled, s')) then m s else (Inr (), snd (m s)))"
  by (auto simp: method_defs is_exception_def split: prod.splits sum.splits)

lemma raised_simps [simp]:
  "raised (Inl e, s)" "\<not> raised (Inr x, s)"
  by (simp_all add: raised_def)


section \<open>Python string methods on ASCII text\<close>

definition is_space :: "char \<Rightarrow> bool" where
  "is_space c \<longleftrightarrow> (let n = (of_char c :: nat) in (9 \<le> n \<and> n \<le> 13) \<or> (28 \<le> n \<and> n \<le> 32))"

definition lower_char :: "char \<Rightarrow> char" where
  "lower_char c = (let n = (of_char c :: nat) in if 65 \<le> n \<and> n \<le> 90 then char_of (n + 32) else c)"

definition upper_char :: "char \<Rightarrow> char" where
  "upper_char c = (let n = (of_char c :: nat) in if 97 \<le> n \<and> n \<le> 122 then char_of (n - 32) else c)"

definition lower :: "string \<Rightarrow> string" where
  "lower s = map lower_char s"

definition upper :: "string \<Rightarrow> string" where
  "upper s = map upper_char s"

definition lstrip_by :: "(char \<Rightarrow> bool) \<Rightarrow> string \<Rightarrow> string" where
  "lstrip_by P s = dropWhile P s"

definition rstrip_by :: "(char \<Rightarrow> bool) \<Rightarrow> string \<Rightarrow> string" where
  "rstrip_by P s = rev (dropWhile P (rev s))"

definition strip_by :: "(char \<Rightarrow> bool) \<Rightarrow> string \<Rightarrow> string" where
  "strip_by P s = rstrip_by P (lstrip_by P s)"

definition strip :: "string \<Rightarrow> string" where
  "strip s = strip_by is_space s"

definition startswith :: "string \<Rightarrow> string \<Rightarrow> bool" where
  "startswith p s \<longleftrightarrow> take (length p) s = p"

definition endswith :: "string \<Rightarrow> string \<Rightarrow> bool" where
  "endswith p s \<longleftrightarrow> startswith (rev p) (rev s)"

text \<open>The operator \<open>t in s\<close>.\<close>

fun contains_str :: "string \<Rightarrow> string \<Rightarrow> bool" where
  "contains_str t [] = (t = [])"
| "contains_str t (c # s) = (startswith t (c # s) \<or> contains_str t s)"

text \<open>\<open>s.split(c, 1)\<close> and \<open>s.split(c)\<close> for a one-character separator.\<close>

definition split_once :: "char \<Rightarrow> string \<Rightarrow> string list" where
  "split_once c s = (if c \<in> set s
     then [takeWhile (\<lambda>x. x \<noteq> c) s, tl (dropWhile (\<lambda>x. x \<noteq> c) s)] else [s])"

fun split_on :: "char \<Rightarrow> string \<Rightarrow> string list" where
  "split_on c [] = [[]]"
| "split_on c (x # xs) = (if x = c then [] # split_on c xs
     else (case split_on c xs of [] \<Rightarrow> [[x]] | y # ys \<Rightarrow> (x # y) # ys))"

fun join_with :: "string \<Rightarrow> string list \<Rightarrow> string" where
  "join_with sep [] = []"
| "join_with sep [x] = x"
| "join_with sep (x # xs) = x @ sep @ join_with sep xs"

text \<open>\<open>int(s)\<close> on ASCII text: surrounding white space, one optional sign, decimal digits with single
  underscores between them; \<open>None\<close> is \<open>ValueError\<close>.\<close>

definition is_digit :: "char \<Rightarrow> bool" where
  "is_digit c \<longleftrightarrow> (let n = (of_char c :: nat) in 48 \<le> n \<and> n \<le> 57)"

definition digit_val :: "char \<Rightarrow> int" where
  "digit_val c = int (of_char c) - 48"

fun digits_val :: "int \<Rightarrow> string \<Rightarrow> int option" where
  "digits_val acc [] = Some acc"
| "digits_val acc (c # s) =
     (if is_digit c then digits_val (10 * acc + digit_val c) s
      else if c = CHR ''_'' then
        (case s of [] \<Rightarrow> None
         | d # s' \<Rightarrow> if is_digit d then digits_val (10 * acc + digit_val d) s' else None)
      else None)"

definition unsigned_int :: "string \<Rightarrow> int option" where
  "unsigned_int s = (case s of [] \<Rightarrow> None
     | c # s' \<Rightarrow> if is_digit c then digits_val (digit_val c) s' else None)"

definition py_int :: "string \<Rightarrow> int option" where
  "py_int s = (case strip s of [] \<Rightarrow> None
     | c # t \<Rightarrow> if c = CHR ''-'' then map_option uminus (unsigned_int t)
                else if c = CHR ''+'' then unsigned_int t
                else unsigned_int (c # t))"

text \<open>Decimal notation of a natural number, as an f-string prints it.\<close>

fun nat_str :: "nat \<Rightarrow> string" where
  "nat_str n = (if n < 10 then [char_of (48 + n)] else nat_str (n div 10) @ [char_of (48 + n mod 10)])"

declare nat_str.simps [simp del]

lemma digit_char: "d < 10 \<Longrightarrow> is_digit (char_of (48 + d :: nat)) \<and> digit_val (char_of (48 + d :: nat)) = int d"
  by (simp add: is_digit_def digit_val_def of_char_of)

lemma digits_val_append_digit:
  "d < 10 \<Longrightarrow> \<forall>c \<in> set s. is_digit c \<Longrightarrow>
   digits_val acc (s @ [char_of (48 + d :: nat)]) = map_option (\<lambda>v. 10 * v + int d) (digits_val acc s)"
  by (induction s arbitrary: acc) (auto simp: digit_char)

lemma nat_str_digits: "\<forall>c \<in> set (nat_str n). is_digit c"
proof (induction n rule: nat_str.induct)
  case (1 n)
  then show ?case
    by (cases "n < 10") (auto simp: nat_str.simps [of n] digit_char)
qed

lemma nat_str_nonempty [simp]: "nat_str n \<noteq> []"
  by (subst nat_str.simps) simp

lemma digits_val_nat_str: "digits_val 0 (nat_str n) = Some (int n)"
proof (induction n rule: nat_str.induct)
  case (1 n)
  show ?case
  proof (cases "n < 10")
    case True
    then show ?thesis by (simp add: nat_str.simps [of n] digit_char)
  next
    case False
    moreover have "10 * int (n div 10) + int (n mod 10) = int n"
      by (metis mult_div_mod_eq of_nat_add of_nat_mult of_nat_numeral)
    ultimately show ?thesis
      using "1.IH" nat_str_digits [of "n div 10"]
      by (simp add: nat_str.simps [of n] digits_val_append_digit)
  qed
qed

lemma digit_not_space: "is_digit c \<Longrightarrow> \<not> is_space c"
  by (auto simp: is_digit_def is_space_def Let_def)

lemma startswith_append [simp, str_simps]: "startswith p (p @ s)"
  by (simp add: startswith_def)

lemma startswith_iff: "startswith p s \<longleftrightarrow> (\<exists>t. s = p @ t)"
  unfolding startswith_def by (metis append_eq_conv_conj append_take_drop_id)

lemma contains_str_iff: "contains_str t s \<longleftrightarrow> (\<exists>u v. s = u @ t @ v)"
proof (induction s)
  case Nil
  then show ?case by auto
next
  case (Cons c s)
  have "(\<exists>v. c # s = [] @ t @ v) \<or> (\<exists>u v. s = u @ t @ v) \<longleftrightarrow> (\<exists>u v. c # s = u @ t @ v)"
    by (metis append_Cons append_Nil append_eq_Cons_conv)
  then have "startswith t (c # s) \<or> (\<exists>u v. s = u @ t @ v) \<longleftrightarrow> (\<exists>u v. c # s = u @ t @ v)"
    by (simp add: startswith_iff)
  with Cons show ?case by simp
qed

lemma contains_single [str_simps]: "contains_str [c] s \<longleftrightarrow> c \<in> set s"
  by (auto simp: contains_str_iff in_set_conv_decomp)

lemma contains_mid: "contains_str t (u @ t @ v)"
  by (auto simp: contains_str_iff)

lemma rstrip_by_Nil [simp]: "rstrip_by P [] = []"
  by (simp add: rstrip_by_def)

lemma set_strip_by: "set (strip_by P s) \<subseteq> set s"
  unfolding strip_by_def rstrip_by_def lstrip_by_def
  by (metis set_dropWhileD set_rev subsetI)

lemma strip_by_id:
  assumes "s \<noteq> []" and "\<not> P (hd s)" and "\<not> P (last s)"
  shows "strip_by P s = s"
proof -
  have "dropWhile P s = s"
    using assms(1,2) by (cases s) auto
  moreover have "dropWhile P (rev s) = rev s"
    using assms(1,3) by (cases s rule: rev_cases) auto
  ultimately show ?thesis
    by (simp add: strip_by_def lstrip_by_def rstrip_by_def)
qed

lemma strip_by_hd: "strip_by P s \<noteq> [] \<Longrightarrow> \<not> P (hd (strip_by P s))"
proof -
  assume ne: "strip_by P s \<noteq> []"
  let ?t = "dropWhile P s"
  have "strip_by P s @ rev (takeWhile P (rev ?t)) = ?t"
    by (simp add: strip_by_def lstrip_by_def rstrip_by_def)
      (metis rev_append rev_rev_ident takeWhile_dropWhile_id)
  with ne have "hd (strip_by P s) = hd ?t" and "?t \<noteq> []"
    by (metis hd_append2, metis append_is_Nil_conv)
  then show ?thesis by (simp add: hd_dropWhile)
qed

lemma strip_by_last: "strip_by P s \<noteq> [] \<Longrightarrow> \<not> P (last (strip_by P s))"
  by (simp add: strip_by_def rstrip_by_def last_rev hd_dropWhile)

lemma strip_by_idem [simp]: "strip_by P (strip_by P s) = strip_by P s"
proof (cases "strip_by P s = []")
  case True
  moreover have "strip_by P [] = []" by (simp add: strip_by_def lstrip_by_def)
  ultimately show ?thesis by simp
next
  case False
  then show ?thesis by (simp add: strip_by_id [OF False] strip_by_hd [OF False] strip_by_last [OF False])
qed

lemma py_int_nat_str:
  assumes "\<forall>c \<in> set u. is_space c"
  shows "py_int (u @ nat_str n) = Some (int n)"
proof -
  obtain c t where ct: "nat_str n = c # t" by (cases "nat_str n") auto
  have dig: "\<forall>x \<in> set (c # t). is_digit x" using nat_str_digits [of n] ct by simp
  have "strip (u @ nat_str n) = strip (nat_str n)"
    using assms by (simp add: strip_def strip_by_def lstrip_by_def)
  also have "\<dots> = nat_str n"
    unfolding strip_def
    by (rule strip_by_id) (use ct dig in \<open>auto simp: digit_not_space\<close>)
  finally have st: "strip (u @ nat_str n) = c # t" by (simp add: ct)
  have "c \<noteq> CHR ''-''" "c \<noteq> CHR ''+''" using dig by (auto simp: is_digit_def)
  moreover have "unsigned_int (c # t) = Some (int n)"
    using digits_val_nat_str [of n] dig ct by (simp add: unsigned_int_def)
  ultimately show ?thesis by (simp add: py_int_def st)
qed

lemma strip_by_none: "(\<And>c. c \<in> set s \<Longrightarrow> \<not> P c) \<Longrightarrow> strip_by P s = s"
  by (cases "s = []") (auto simp: strip_by_id, simp add: strip_by_def lstrip_by_def)


section \<open>Lists\<close>

text \<open>Dropping from the front while a bound is exceeded: the drop-oldest rule of the buffers.\<close>

lemma sum_list_tl: "xs \<noteq> [] \<Longrightarrow> sum_list (map f (tl xs)) = sum_list (map f xs) - (f (hd xs) :: nat)"
  by (cases xs) auto

lemma drop_Suc_tl: "drop (Suc n) xs = drop n (tl xs)"
  by (simp add: drop_Suc)

text \<open>The maximum of a fold, from any start.\<close>

lemma foldl_max: "foldl (\<lambda>peak s. max peak (f s)) (a :: nat) ss = max a (foldl (\<lambda>peak s. max peak (f s)) 0 ss)"
proof (induction ss arbitrary: a)
  case (Cons s ss)
  from Cons.IH [of "max a (f s)"] Cons.IH [of "f s"] show ?case by (simp add: max.assoc)
qed simp

lemma filter_sorted_take:
  "sorted (map f xs) \<Longrightarrow> (\<And>x. x \<in> set xs \<Longrightarrow> P x \<longleftrightarrow> f x \<le> n) \<Longrightarrow>
   filter P xs = takeWhile P xs"
proof (induction xs)
  case Nil
  then show ?case by simp
next
  case (Cons x xs)
  show ?case
  proof (cases "P x")
    case True
    with Cons show ?thesis by simp
  next
    case False
    with Cons.prems have "\<forall>y \<in> set xs. \<not> P y"
      by (metis dual_order.trans list.set_intros(1,2) list.simps(9) sorted_simps(2) image_eqI set_map)
    with False show ?thesis by simp
  qed
qed

end
