(* ===== verification/Serial_Protocol.thy ===== *)
theory Serial_Protocol imports Prelude begin

text \<open>
  The AT command client of \<open>modem_controller/serial_protocol.py\<close>: classification of the lines a modem
  sends, the reader that turns them into responses and unsolicited result codes (URCs), and \<open>send\<close>.
  The serial stream is an input: the lines that arrive before a command's deadline. A registered URC
  handler runs as its own task, so the model records the URCs handed to the handlers.
\<close>

datatype urc_type = RING | NO_CARRIER | BUSY | NO_DIALTONE | NO_ANSWER | CLIP | CREG | CMTI | OTHER

record at_response =
  ar_ok :: bool
  ar_lines :: "string list"
  ar_error :: "pyexn option"

text \<open>\<open>str(exc)\<close> of the exceptions of this module.\<close>

fun exc_message :: "pyexn \<Rightarrow> string" where
  "exc_message (AtTimeoutError command) = ''timed out waiting for response to '' @ [CHR 39] @ command @ [CHR 39]"
| "exc_message (AtCommandError code detail) = (if detail = [] then code else code @ '': '' @ detail)"
| "exc_message AtClosedError = ''client_closed''"
| "exc_message (RuntimeError m) = m"
| "exc_message (OSError m) = m"
| "exc_message (ValueError m) = m"
| "exc_message (OtherError m) = m"
| "exc_message _ = []"

definition is_at_error :: "pyexn \<Rightarrow> bool" where
  "is_at_error e \<longleftrightarrow> (case e of AtTimeoutError _ \<Rightarrow> True | AtCommandError _ _ \<Rightarrow> True
     | AtClosedError \<Rightarrow> True | _ \<Rightarrow> False)"

definition urc_patterns :: "(string \<times> urc_type) list" where
  "urc_patterns = [(''RING'', RING), (''NO CARRIER'', NO_CARRIER), (''BUSY'', BUSY),
     (''NO DIALTONE'', NO_DIALTONE), (''NO ANSWER'', NO_ANSWER), (''+CLIP'', CLIP), (''+CREG'', CREG),
     (''+CMTI'', CMTI)]"

fun first_urc :: "(string \<times> urc_type) list \<Rightarrow> string \<Rightarrow> urc_type option" where
  "first_urc [] line = None"
| "first_urc ((pat, t) # ps) line =
     (if line = pat \<or> startswith (pat @ '':'') line \<or> startswith (pat @ '' '') line
      then Some t else first_urc ps line)"

definition classify_urc :: "string \<Rightarrow> urc_type option" where
  "classify_urc line = first_urc urc_patterns line"

record at_client =
  ac_closed :: bool
  ac_pending :: "string list"
  ac_responses :: "at_response list"
  ac_written :: "string list"
  ac_handlers :: nat
  ac_urcs :: "(nat \<times> urc_type \<times> string) list"

definition at_client_init :: at_client where
  "at_client_init = \<lparr>ac_closed = False, ac_pending = [], ac_responses = [], ac_written = [],
     ac_handlers = 0, ac_urcs = []\<rparr>"

definition on_urc :: "at_client \<Rightarrow> at_client" where
  "on_urc c = c\<lparr>ac_handlers := ac_handlers c + 1\<rparr>"

definition respond :: "bool \<Rightarrow> pyexn option \<Rightarrow> at_client \<Rightarrow> at_client" where
  "respond ok err c = c\<lparr>ac_responses := ac_responses c @ [\<lparr>ar_ok = ok, ar_lines = ac_pending c, ar_error = err\<rparr>],
     ac_pending := []\<rparr>"

definition cme_error :: string where "cme_error = ''+CME ERROR''"
definition cms_error :: string where "cms_error = ''+CMS ERROR''"

text \<open>The error a terminal line carries; \<open>Some None\<close> is \<open>OK\<close>, \<open>None\<close> is no terminal.\<close>

definition terminal :: "string \<Rightarrow> pyexn option option" where
  "terminal line =
     (if line = ''OK'' then Some None
      else if line = ''ERROR'' then Some (Some (AtCommandError ''ERROR'' []))
      else if startswith cme_error line then
        Some (Some (AtCommandError cme_error (lstrip_by (\<lambda>c. c \<in> set '': '') (drop (length cme_error) line))))
      else if startswith cms_error line then
        Some (Some (AtCommandError cms_error (lstrip_by (\<lambda>c. c \<in> set '': '') (drop (length cms_error) line))))
      else None)"

definition dispatch_line :: "string \<Rightarrow> at_client \<Rightarrow> at_client" where
  "dispatch_line line c = (case terminal line of
       Some err \<Rightarrow> respond (err = None) err c
     | None \<Rightarrow> (case classify_urc line of
           Some t \<Rightarrow> c\<lparr>ac_urcs := ac_urcs c @ map (\<lambda>h. (h, t, line)) [0..<ac_handlers c]\<rparr>
         | None \<Rightarrow> c\<lparr>ac_pending := ac_pending c @ [line]\<rparr>))"

definition strip_line :: "string \<Rightarrow> string" where
  "strip_line raw = strip_by (\<lambda>c. c = CHR 13 \<or> c = CHR 10 \<or> c = CHR '' '') raw"

text \<open>\<open>_read_loop\<close> on the raw lines that arrive; an empty raw line is end of file, which answers a
  waiting command (\<open>waiting\<close>: the command lock is held) and ends the loop.\<close>

fun read_loop :: "bool \<Rightarrow> string list \<Rightarrow> at_client \<Rightarrow> at_client" where
  "read_loop waiting [] c = c"
| "read_loop waiting (raw # raws) c =
     (if raw = [] then
        (if waiting then c\<lparr>ac_responses := ac_responses c @ [\<lparr>ar_ok = False, ar_lines = [],
           ar_error = Some (AtCommandError ''EOF'' ''modem closed connection'')\<rparr>]\<rparr> else c)
      else let line = strip_line raw in
        if line = [] then read_loop waiting raws c
        else read_loop waiting raws (dispatch_line line c))"

definition cr_line :: "string \<Rightarrow> string" where
  "cr_line command = (if endswith [CHR 13] command then command else command @ [CHR 13])"

text \<open>\<open>send\<close>: \<open>arriving\<close> is what the reader reads between the write and the deadline.\<close>

definition at_send :: "string list \<Rightarrow> string \<Rightarrow> (at_client, at_response) proc" where
  "at_send arriving command c =
     (if ac_closed c then raise AtClosedError c
      else let c1 = c\<lparr>ac_pending := [], ac_written := ac_written c @ [cr_line command]\<rparr>;
               c2 = read_loop True arriving c1
           in case ac_responses c2 of
                [] \<Rightarrow> raise (AtTimeoutError command) c2
              | r # rs \<Rightarrow> (case ar_error r of
                    Some e \<Rightarrow> raise e (c2\<lparr>ac_responses := rs\<rparr>)
                  | None \<Rightarrow> ret r (c2\<lparr>ac_responses := rs\<rparr>)))"

definition at_aclose :: "at_client \<Rightarrow> at_client" where
  "at_aclose c = c\<lparr>ac_closed := True\<rparr>"


section \<open>Behaviour\<close>

text \<open>The lines of a response body and the URCs among arriving lines.\<close>

definition body_lines :: "string list \<Rightarrow> string list" where
  "body_lines raws = filter (\<lambda>l. l \<noteq> [] \<and> classify_urc l = None) (map strip_line raws)"

definition urc_calls :: "nat \<Rightarrow> string \<Rightarrow> (nat \<times> urc_type \<times> string) list" where
  "urc_calls n l = (case classify_urc l of None \<Rightarrow> [] | Some t \<Rightarrow> map (\<lambda>h. (h, t, l)) [0..<n])"

definition urc_lines :: "nat \<Rightarrow> string list \<Rightarrow> (nat \<times> urc_type \<times> string) list" where
  "urc_lines n raws = concat (map (urc_calls n) (filter (\<lambda>l. l \<noteq> []) (map strip_line raws)))"

lemma urc_calls_simps [simp]:
  "classify_urc l = None \<Longrightarrow> urc_calls n l = []"
  "classify_urc l = Some t \<Longrightarrow> urc_calls n l = map (\<lambda>h. (h, t, l)) [0..<n]"
  by (simp_all add: urc_calls_def)

definition no_terminal :: "string list \<Rightarrow> bool" where
  "no_terminal raws \<longleftrightarrow> (\<forall>raw \<in> set raws. raw \<noteq> [] \<and> terminal (strip_line raw) = None)"

lemma read_loop_body:
  "no_terminal raws \<Longrightarrow> read_loop w (raws @ rest) c = read_loop w rest
     (c\<lparr>ac_pending := ac_pending c @ body_lines raws,
        ac_urcs := ac_urcs c @ urc_lines (ac_handlers c) raws\<rparr>)"
proof (induction raws arbitrary: c)
  case Nil
  then show ?case by (simp add: body_lines_def urc_lines_def)
next
  case (Cons raw raws)
  then have t: "raw \<noteq> []" "terminal (strip_line raw) = None" "no_terminal raws"
    by (auto simp: no_terminal_def)
  show ?case
    using t Cons.IH
    by (cases "strip_line raw = []"; cases "classify_urc (strip_line raw)")
      (simp_all add: dispatch_line_def Let_def body_lines_def urc_lines_def)
qed

lemma terminal_nonempty: "terminal l = Some e \<Longrightarrow> l \<noteq> []"
  by (auto simp: terminal_def startswith_def cme_error_def cms_error_def)

lemma nonempty_strip_line: "strip_line raw \<noteq> [] \<Longrightarrow> raw \<noteq> []"
  by (auto simp: strip_line_def strip_by_def lstrip_by_def)

lemma at_send_answer:
  assumes "\<not> ac_closed c" and "ac_responses c = []" and "no_terminal raws"
    and "terminal (strip_line fin) = Some err"
  shows "at_send (raws @ [fin]) command c
      = (case err of None \<Rightarrow> Inr \<lparr>ar_ok = True, ar_lines = body_lines raws, ar_error = None\<rparr>
         | Some e \<Rightarrow> Inl e,
         c\<lparr>ac_pending := [], ac_responses := [], ac_written := ac_written c @ [cr_line command],
           ac_urcs := ac_urcs c @ urc_lines (ac_handlers c) raws\<rparr>)"
proof -
  have fin: "strip_line fin \<noteq> []" "fin \<noteq> []"
    using terminal_nonempty [OF assms(4)] nonempty_strip_line by blast+
  show ?thesis
    using assms fin
    by (cases err) (simp_all add: at_send_def read_loop_body dispatch_line_def respond_def Let_def
        ret_def raise_def)
qed

lemma at_send_timeout:
  assumes "\<not> ac_closed c" and "ac_responses c = []" and "no_terminal raws"
  shows "at_send raws command c = (Inl (AtTimeoutError command),
    c\<lparr>ac_pending := body_lines raws, ac_written := ac_written c @ [cr_line command],
      ac_urcs := ac_urcs c @ urc_lines (ac_handlers c) raws\<rparr>)"
  using assms(1,2) read_loop_body [OF assms(3), of True "[]"]
  by (simp add: at_send_def Let_def raise_def)

text \<open>C8. A command on a client with no unread response is answered by the first terminal line that
  arrives: the response body is the non-blank non-URC lines before it, every URC among them goes to
  every handler in order and never into the body, an error terminal raises, and no response is left
  over when nothing follows the terminal.\<close>

theorem send_collects_body_and_urcs:
  assumes "\<not> ac_closed c" and "ac_responses c = []" and "no_terminal raws"
    and "terminal (strip_line fin) = Some err"
  shows "\<exists>c'. at_send (raws @ [fin]) command c
      = (case err of None \<Rightarrow> Inr \<lparr>ar_ok = True, ar_lines = body_lines raws, ar_error = None\<rparr>
         | Some e \<Rightarrow> Inl e, c')
    \<and> ac_urcs c' = ac_urcs c @ urc_lines (ac_handlers c) raws
    \<and> ac_written c' = ac_written c @ [cr_line command]
    \<and> ac_responses c' = [] \<and> ac_pending c' = []"
  using at_send_answer [OF assms] by simp

definition at_ex :: at_client where
  "at_ex = on_urc at_client_init"

lemma send_collects_body_and_urcs_witness:
  "\<exists>c'. at_send ([''+CSQ: 21,99'', ''RING''] @ [''OK'']) ''AT+CSQ'' at_ex
      = (Inr \<lparr>ar_ok = True, ar_lines = [''+CSQ: 21,99''], ar_error = None\<rparr>, c')
    \<and> ac_urcs c' = [(0, RING, ''RING'')]"
proof -
  have "\<not> ac_closed at_ex" "ac_responses at_ex = []"
    and "no_terminal [''+CSQ: 21,99'', ''RING'']" and "terminal (strip_line ''OK'') = Some None"
    by (code_simp, code_simp, code_simp, code_simp)
  note send = send_collects_body_and_urcs [OF this, of "''AT+CSQ''"]
  have "body_lines [''+CSQ: 21,99'', ''RING''] = [''+CSQ: 21,99'']"
    and "urc_lines (ac_handlers at_ex) [''+CSQ: 21,99'', ''RING''] = [(0, RING, ''RING'')]"
    and "ac_urcs at_ex = []"
    by (code_simp, code_simp, code_simp)
  with send show ?thesis by auto
qed

text \<open>Responses are matched to commands by position only. After a command that timed out, its late
  answer is what the next command gets, whatever the modem answers to that one, whose own answer
  stays queued for the command after it.\<close>

theorem late_response_answers_next_command:
  assumes "\<not> ac_closed c" and "ac_responses c = []" and "no_terminal raws"
    and "no_terminal late" and "terminal (strip_line fin) = Some None"
    and "no_terminal raws'" and "terminal (strip_line fin') = Some err"
    and "at_send raws command c = (r1, c1)"
    and "at_send (raws' @ [fin']) command' (read_loop False (late @ [fin]) c1) = (r2, c2)"
  shows "(r1 = Inl (AtTimeoutError command))
    \<and> (r2 = Inr \<lparr>ar_ok = True, ar_lines = body_lines raws @ body_lines late, ar_error = None\<rparr>)
    \<and> (map ar_lines (ac_responses c2) = [body_lines raws'])"
proof -
  have fin: "strip_line fin \<noteq> []" "fin \<noteq> []" "strip_line fin' \<noteq> []" "fin' \<noteq> []"
    using terminal_nonempty [OF assms(5)] terminal_nonempty [OF assms(7)]
    by (auto simp: strip_line_def strip_by_def lstrip_by_def)
  let ?c1 = "c\<lparr>ac_pending := body_lines raws, ac_written := ac_written c @ [cr_line command],
    ac_urcs := ac_urcs c @ urc_lines (ac_handlers c) raws\<rparr>"
  have "at_send raws command c = (Inl (AtTimeoutError command), ?c1)"
    by (rule at_send_timeout [OF assms(1-3)])
  with assms(8) have c1: "r1 = Inl (AtTimeoutError command)" "c1 = ?c1" by simp_all
  then have "r1 = Inl (AtTimeoutError command)" by simp
  moreover have "r2 = Inr \<lparr>ar_ok = True, ar_lines = body_lines raws @ body_lines late, ar_error = None\<rparr>"
    and "map ar_lines (ac_responses c2) = [body_lines raws']"
    using assms(1,2,9) c1(2) fin read_loop_body [OF assms(4), of False "[fin]"] assms(5,7)
      read_loop_body [OF assms(6), of True "[fin']"]
    by (auto simp: at_send_def Let_def dispatch_line_def respond_def ret_def)
  ultimately show ?thesis by blast
qed

lemma late_response_answers_next_command_witness:
  "fst (at_send [''ERROR''] ''AT+CPCMREG=1'' (read_loop False [''OK'']
      (snd (at_send [] ''AT+CPCMREG=1'' at_client_init))))
    = Inr \<lparr>ar_ok = True, ar_lines = [], ar_error = None\<rparr>"
proof -
  obtain r1 c1 where c1: "at_send [] ''AT+CPCMREG=1'' at_client_init = (r1, c1)" by fastforce
  obtain r2 c2 where c2: "at_send ([] @ [''ERROR'']) ''AT+CPCMREG=1'' (read_loop False ([] @ [''OK'']) c1)
    = (r2, c2)" by fastforce
  have pre: "\<not> ac_closed at_client_init" "ac_responses at_client_init = []" "no_terminal []"
    by (simp_all add: at_client_init_def no_terminal_def)
  have fin: "terminal (strip_line ''OK'') = Some None"
    "terminal (strip_line ''ERROR'') = Some (Some (AtCommandError ''ERROR'' []))"
    by code_simp+
  from late_response_answers_next_command [OF pre pre(3) fin(1) pre(3) fin(2) c1 c2] c1 c2
  show ?thesis by (simp add: body_lines_def)
qed

end
