(* ===== verification/Drivers.thy ===== *)
theory Drivers imports Serial_Protocol begin

text \<open>
  The vendor drivers of \<open>modem_controller/drivers.py\<close>: dialling, identity and signal queries over an
  AT client, detection of the modem family, and the map from a dial failure to a hang-up cause. The
  client's \<open>send\<close> is an argument; the theorems put \<^const>\<open>at_send\<close> of \<open>Serial_Protocol\<close> there. The three
  driver classes share one implementation in the source and differ by name only.
\<close>

datatype driver = A7670 | SIM800C | QUECTEL_UC20

definition driver_name :: "driver \<Rightarrow> string" where
  "driver_name d = (case d of A7670 \<Rightarrow> ''a7670'' | SIM800C \<Rightarrow> ''sim800c'' | QUECTEL_UC20 \<Rightarrow> ''quectel_uc20'')"

text \<open>\<open>HANGUP_CAUSE_MAP\<close> in its insertion order, which is the order of iteration.\<close>

definition hangup_cause_map :: "(string \<times> string) list" where
  "hangup_cause_map =
    [(''NO CARRIER'', ''user_hangup''), (''BUSY'', ''user_busy''), (''NO ANSWER'', ''no_answer''),
     (''NO DIALTONE'', ''network_out_of_order''),
     (''1'', ''call_rejected''), (''16'', ''normal_clearing''), (''17'', ''user_busy''),
     (''18'', ''no_answer''), (''19'', ''no_answer''), (''27'', ''network_out_of_order''),
     (''31'', ''network_out_of_order''), (''34'', ''network_out_of_order''),
     (''38'', ''network_out_of_order''), (''41'', ''temporary_failure'')]"

record dial_result =
  dr_connected :: bool
  dr_hangup_cause :: "string option"

record modem_info =
  mi_manufacturer :: string
  mi_model :: string
  mi_imei :: string

fun first_cause :: "(string \<times> string) list \<Rightarrow> string \<Rightarrow> string" where
  "first_cause [] msg = ''network_out_of_order''"
| "first_cause ((token, cause) # causes) msg = (if contains_str token msg then cause else first_cause causes msg)"

definition classify_dial_failure :: "string \<Rightarrow> string" where
  "classify_dial_failure message = first_cause hangup_cause_map (upper message)"

definition parse_csq_line :: "string \<Rightarrow> int option" where
  "parse_csq_line line = (if \<not> startswith ''+CSQ'' line then None
     else case split_once (CHR '':'') line of
         [_, payload] \<Rightarrow> py_int (strip (hd (split_once (CHR '','') payload)))
       | _ \<Rightarrow> None)"

fun parse_csq :: "string list \<Rightarrow> int" where
  "parse_csq [] = 99"
| "parse_csq (line # lines) = (case parse_csq_line line of Some rssi \<Rightarrow> rssi | None \<Rightarrow> parse_csq lines)"

definition strip_prefix :: "string list \<Rightarrow> string \<Rightarrow> string" where
  "strip_prefix lines pre = (case lines of [] \<Rightarrow> []
     | line # _ \<Rightarrow> if startswith pre line
         then strip_by (\<lambda>c. c = CHR 34) (strip (last (split_once (CHR '':'') line)))
         else strip line)"

definition first_line :: "at_response \<Rightarrow> string" where
  "first_line r = (case ar_lines r of [] \<Rightarrow> [] | l # _ \<Rightarrow> l)"

definition signal_strength :: "(string \<Rightarrow> ('s, at_response) proc) \<Rightarrow> ('s, int) proc" where
  "signal_strength send = bindm (send ''AT+CSQ'') (\<lambda>r. ret (parse_csq (ar_lines r)))"

definition iccid :: "(string \<Rightarrow> ('s, at_response) proc) \<Rightarrow> ('s, string) proc" where
  "iccid send = bindm (send ''AT+CCID'') (\<lambda>r. ret (strip_prefix (ar_lines r) ''+CCID''))"

definition imei :: "(string \<Rightarrow> ('s, at_response) proc) \<Rightarrow> ('s, string) proc" where
  "imei send = bindm (send ''AT+CGSN'') (\<lambda>r. ret
     (if ar_lines r \<noteq> [] \<and> startswith ''+CGSN'' (hd (ar_lines r))
      then strip_prefix (ar_lines r) ''+CGSN'' else first_line r))"

definition info :: "(string \<Rightarrow> ('s, at_response) proc) \<Rightarrow> ('s, modem_info) proc" where
  "info send = bindm (send ''AT+GMI'') (\<lambda>manuf. bindm (send ''AT+GMM'') (\<lambda>model.
     bindm (imei send) (\<lambda>i. ret
       \<lparr>mi_manufacturer = first_line manuf, mi_model = first_line model, mi_imei = i\<rparr>)))"

definition driver_init :: "(string \<Rightarrow> ('s, at_response) proc) \<Rightarrow> ('s, unit) proc" where
  "driver_init send = bindm (send ''ATE0'') (\<lambda>_. bindm (send ''AT+CMEE=1'') (\<lambda>_.
     bindm (send ''AT+CLIP=1'') (\<lambda>_. ret ())))"

definition driver_dial :: "(string \<Rightarrow> ('s, at_response) proc) \<Rightarrow> string \<Rightarrow> ('s, dial_result) proc" where
  "driver_dial send phone = catchm
     (bindm (send (''ATD'' @ phone @ '';'')) (\<lambda>r. ret \<lparr>dr_connected = ar_ok r, dr_hangup_cause = None\<rparr>))
     (\<lambda>e. if is_exception e
          then Some (ret \<lparr>dr_connected = False, dr_hangup_cause = Some (classify_dial_failure (exc_message e))\<rparr>)
          else None)"

definition driver_hangup :: "(string \<Rightarrow> ('s, at_response) proc) \<Rightarrow> ('s, unit) proc" where
  "driver_hangup send = bindm (send ''ATH'') (\<lambda>_. ret ())"

definition get_driver :: "string \<Rightarrow> driver" where
  "get_driver name = (case List.find (\<lambda>d. driver_name d = lower name) [A7670, SIM800C, QUECTEL_UC20] of
     Some d \<Rightarrow> d | None \<Rightarrow> A7670)"

definition detect_family :: "string \<Rightarrow> driver" where
  "detect_family blob =
     (if contains_str ''simcom'' blob \<and> contains_str ''a7670'' blob then A7670
      else if contains_str ''simcom'' blob \<and> contains_str ''800'' blob then SIM800C
      else if contains_str ''quectel'' blob then QUECTEL_UC20
      else A7670)"

definition detect_driver :: "(string \<Rightarrow> ('s, at_response) proc) \<Rightarrow> string \<Rightarrow> ('s, driver) proc" where
  "detect_driver send hint = (if hint \<noteq> [] then ret (get_driver hint)
     else catchm
       (bindm (send ''AT+GMI'') (\<lambda>manuf. bindm (send ''AT+GMM'') (\<lambda>model. ret
          (detect_family (lower (join_with '' '' (ar_lines manuf @ ar_lines model)))))))
       (\<lambda>e. if is_exception e then Some (ret A7670) else None))"


section \<open>Hang-up causes\<close>

lemma contains_char: "contains_str t s \<Longrightarrow> set t \<subseteq> set s"
  by (auto simp: contains_str_iff)

lemma contains_hd: "t \<noteq> [] \<Longrightarrow> hd t \<notin> set s \<Longrightarrow> \<not> contains_str t s"
  by (cases t) (auto dest: contains_char)

lemma upper_digit: "c = CHR ''1'' \<longleftrightarrow> upper_char c = CHR ''1''"
proof -
  have "upper_char c = CHR ''1'' \<Longrightarrow> c = CHR ''1''"
  proof -
    assume u: "upper_char c = CHR ''1''"
    show ?thesis
    proof (cases "97 \<le> (of_char c :: nat) \<and> (of_char c :: nat) \<le> 122")
      case True
      have "(of_char c :: nat) - 32 < 256" using nat_of_char_less_256 [of c] by linarith
      with True have "(of_char (upper_char c) :: nat) = of_char c - 32"
        by (simp add: upper_char_def of_char_of)
      with u True show ?thesis by auto
    next
      case False
      with u show ?thesis by (auto simp: upper_char_def Let_def)
    qed
  qed
  then show ?thesis by (auto simp: upper_char_def)
qed

lemma one_upper: "CHR ''1'' \<in> set (upper s) \<longleftrightarrow> CHR ''1'' \<in> set s"
proof
  assume "CHR ''1'' \<in> set (upper s)"
  then obtain c where c: "c \<in> set s" "upper_char c = CHR ''1''"
    unfolding upper_def by (metis image_iff set_map)
  from c(2) have "c = CHR ''1''" by (rule iffD2 [OF upper_digit])
  with c(1) show "CHR ''1'' \<in> set s" by simp
next
  assume "CHR ''1'' \<in> set s"
  moreover have "upper_char (CHR ''1'') = CHR ''1''" by (rule iffD1 [OF upper_digit refl])
  ultimately show "CHR ''1'' \<in> set (upper s)" unfolding upper_def by (metis image_eqI set_map)
qed

lemma no_one_token:
  assumes "CHR ''1'' \<notin> set message" and "CHR ''1'' \<in> set t"
  shows "\<not> contains_str t (upper message)"
proof
  assume "contains_str t (upper message)"
  then have "CHR ''1'' \<in> set (upper message)" using assms(2) contains_char by blast
  with assms(1) show False by (simp only: one_upper)
qed

lemma cause_shape:
  "classify_dial_failure message =
    (if contains_str ''NO CARRIER'' (upper message) then ''user_hangup''
     else if contains_str ''BUSY'' (upper message) then ''user_busy''
     else if contains_str ''NO ANSWER'' (upper message) then ''no_answer''
     else if \<not> contains_str ''NO DIALTONE'' (upper message) \<and> CHR ''1'' \<in> set message then ''call_rejected''
     else ''network_out_of_order'')"
proof (cases "CHR ''1'' \<in> set message")
  case True
  then have "contains_str ''1'' (upper message)" by (simp only: contains_single one_upper)
  then show ?thesis
    using True by (simp only: classify_dial_failure_def hangup_cause_map_def first_cause.simps if_True simp_thms) auto
next
  case False
  note no = no_one_token [OF False]
  show ?thesis
    using False no [of "''1''"] no [of "''16''"] no [of "''17''"] no [of "''18''"] no [of "''19''"]
      no [of "''31''"] no [of "''41''"]
    by (simp only: classify_dial_failure_def hangup_cause_map_def first_cause.simps if_False simp_thms if_cancel
        list.set insert_iff)
qed

text \<open>The cause of a failed dial: the four phrases come first; without one of them the cause is
  \<open>call_rejected\<close> exactly when the message has the digit 1 anywhere and \<open>network_out_of_order\<close>
  otherwise. The key \<open>1\<close> shadows the cause numbers 16, 17, 18, 19, 31 and 41, so their entries
  (\<open>normal_clearing\<close>, \<open>temporary_failure\<close>, busy and no answer by number) are never returned.\<close>

theorem cause_numbers_shadowed:
  "classify_dial_failure message =
    (if contains_str ''NO CARRIER'' (upper message) then ''user_hangup''
     else if contains_str ''BUSY'' (upper message) then ''user_busy''
     else if contains_str ''NO ANSWER'' (upper message) then ''no_answer''
     else if \<not> contains_str ''NO DIALTONE'' (upper message) \<and> CHR ''1'' \<in> set message then ''call_rejected''
     else ''network_out_of_order'')
   \<and> classify_dial_failure message \<notin> {''normal_clearing'', ''temporary_failure''}"
  by (simp add: cause_shape)

lemma timeout_message_upper:
  "upper (exc_message (AtTimeoutError (''ATD'' @ phone @ '';'')))
    = ''TIMED OUT WAITING FOR RESPONSE TO '' @ [CHR 39] @ ''ATD'' @ upper phone @ '';'' @ [CHR 39]"
proof -
  have "upper ''timed out waiting for response to '' = ''TIMED OUT WAITING FOR RESPONSE TO ''"
    "upper [CHR 39] = [CHR 39]" "upper ''ATD'' = ''ATD''" "upper '';'' = '';''"
    by (code_simp, code_simp, code_simp, code_simp)
  moreover have "upper (a @ b) = upper a @ upper b" for a b by (simp add: upper_def)
  ultimately show ?thesis by (simp only: exc_message.simps append_assoc)
qed

lemma upper_digits: "\<forall>c \<in> set s. is_digit c \<Longrightarrow> upper s = s"
  by (auto simp: upper_def upper_char_def is_digit_def Let_def intro!: map_idI)

lemma timeout_message_has_no_phrase:
  assumes "\<forall>c \<in> set phone. is_digit c" and "t \<in> {''NO CARRIER'', ''BUSY'', ''NO ANSWER'', ''NO DIALTONE''}"
  shows "\<not> contains_str t (upper (exc_message (AtTimeoutError (''ATD'' @ phone @ '';''))))"
proof -
  have "CHR ''N'' \<notin> set (phone @ '';'' @ [CHR 39])" "CHR ''B'' \<notin> set (phone @ '';'' @ [CHR 39])"
    using assms(1) by (auto simp: is_digit_def)
  then have "\<not> contains_str t (phone @ '';'' @ [CHR 39])"
    using assms(2) contains_hd [of t "phone @ '';'' @ [CHR 39]"] by auto
  with assms(2) show ?thesis
    unfolding timeout_message_upper upper_digits [OF assms(1)]
    by (auto simp: startswith_def)
qed

text \<open>A dial that gets no terminal answer in time is reported as not connected, and its hang-up
  cause is read off the dialled number inside the time-out message: \<open>call_rejected\<close> when the number
  has a digit 1, \<open>network_out_of_order\<close> otherwise. An answered dial is connected iff the terminal is
  \<open>OK\<close>.\<close>

theorem dial_timeout_cause_from_number:
  assumes "\<not> ac_closed c" and "ac_responses c = []" and "no_terminal raws"
    and "\<forall>d \<in> set phone. is_digit d"
  shows "(fst (driver_dial (at_send raws) phone c) = Inr \<lparr>dr_connected = False, dr_hangup_cause =
      Some (if CHR ''1'' \<in> set phone then ''call_rejected'' else ''network_out_of_order'')\<rparr>)
    \<and> (terminal (strip_line fin) = Some err \<longrightarrow>
      fst (driver_dial (at_send (raws @ [fin])) phone c) = Inr \<lparr>dr_connected = (err = None),
        dr_hangup_cause = map_option (\<lambda>e. classify_dial_failure (exc_message e)) err\<rparr>)"
proof -
  let ?cmd = "''ATD'' @ phone @ '';''"
  have "fst (at_send raws ?cmd c) = Inl (AtTimeoutError ?cmd)"
    by (simp add: at_send_timeout [OF assms(1-3)])
  moreover have "CHR ''1'' \<in> set (exc_message (AtTimeoutError ?cmd)) \<longleftrightarrow> CHR ''1'' \<in> set phone"
    by auto
  moreover note no = timeout_message_has_no_phrase [OF assms(4)]
  ultimately have c1: "fst (driver_dial (at_send raws) phone c) = Inr \<lparr>dr_connected = False, dr_hangup_cause =
      Some (if CHR ''1'' \<in> set phone then ''call_rejected'' else ''network_out_of_order'')\<rparr>"
    using no [of "''NO CARRIER''"] no [of "''BUSY''"] no [of "''NO ANSWER''"] no [of "''NO DIALTONE''"]
    by (cases "at_send raws ?cmd c")
      (simp add: driver_dial_def method_defs is_exception_def cause_shape del: exc_message.simps)
  have "fst (driver_dial (at_send (raws @ [fin])) phone c) = Inr \<lparr>dr_connected = (err = None),
        dr_hangup_cause = map_option (\<lambda>e. classify_dial_failure (exc_message e)) err\<rparr>"
    if t: "terminal (strip_line fin) = Some err"
  proof -
  have e: "e \<noteq> Cancelled" if "err = Some e" for e
    using t that by (auto simp: terminal_def split: if_splits)
  have "fst (at_send (raws @ [fin]) ?cmd c)
    = (case err of None \<Rightarrow> Inr \<lparr>ar_ok = True, ar_lines = body_lines raws, ar_error = None\<rparr> | Some e \<Rightarrow> Inl e)"
    by (simp add: at_send_answer [OF assms(1-3) t])
  then show ?thesis
    using e by (cases "at_send (raws @ [fin]) ?cmd c"; cases err)
      (auto simp: driver_dial_def method_defs is_exception_def)
  qed
  with c1 show ?thesis by blast
qed

lemma dial_timeout_cause_from_number_witness:
  "fst (driver_dial (at_send []) ''13800138000'' at_ex) = Inr \<lparr>dr_connected = False,
     dr_hangup_cause = Some ''call_rejected''\<rparr>
   \<and> fst (driver_dial (at_send ([] @ [''+CME ERROR: 30''])) ''13800138000'' at_ex) = Inr \<lparr>dr_connected = False,
     dr_hangup_cause = Some ''network_out_of_order''\<rparr>"
proof -
  have pre: "\<not> ac_closed at_ex" "ac_responses at_ex = []" "no_terminal []"
    "\<forall>d \<in> set ''13800138000''. is_digit d"
    by (code_simp, code_simp, simp add: no_terminal_def, code_simp)
  have t: "terminal (strip_line ''+CME ERROR: 30'') = Some (Some (AtCommandError ''+CME ERROR'' ''30''))"
    and c: "classify_dial_failure (exc_message (AtCommandError ''+CME ERROR'' ''30'')) = ''network_out_of_order''"
    by (code_simp, code_simp)
  from dial_timeout_cause_from_number [OF pre, of "''+CME ERROR: 30''" "Some (AtCommandError ''+CME ERROR'' ''30'')"] t c
  show ?thesis by simp
qed


section \<open>Signal strength and detection\<close>

lemma parse_csq_skip:
  "\<forall>l \<in> set pre. \<not> startswith ''+CSQ'' l \<Longrightarrow> parse_csq (pre @ rest) = parse_csq rest"
  by (induction pre) (simp_all add: parse_csq_line_def)

lemma split_once_here: "c \<notin> set u \<Longrightarrow> split_once c (u @ c # v) = [u, v]"
  by (induction u) (auto simp: split_once_def)

lemma nat_str_no: "\<not> is_digit c \<Longrightarrow> c \<notin> set (nat_str n)"
  using nat_str_digits by blast

lemma parse_csq_line_nat:
  "parse_csq_line (''+CSQ: '' @ nat_str rssi @ '','' @ nat_str ber) = Some (int rssi)"
proof -
  have no: "CHR '','' \<notin> set ('' '' @ nat_str rssi)" using nat_str_no by (auto simp: is_digit_def)
  have "split_once (CHR '':'') (''+CSQ'' @ CHR '':'' # ('' '' @ nat_str rssi @ '','' @ nat_str ber))
    = [''+CSQ'', '' '' @ nat_str rssi @ '','' @ nat_str ber]"
    by (rule split_once_here) simp
  moreover have "split_once (CHR '','') (('' '' @ nat_str rssi) @ CHR '','' # nat_str ber)
    = ['' '' @ nat_str rssi, nat_str ber]"
    using no by (rule split_once_here)
  moreover have "py_int (strip ('' '' @ nat_str rssi)) = Some (int rssi)"
    using py_int_nat_str [of "'' ''" rssi] by (simp add: py_int_def strip_def is_space_def)
  ultimately show ?thesis by (simp add: parse_csq_line_def startswith_def)
qed

lemma csq_line_wire:
  assumes "l = ''+CSQ: '' @ nat_str rssi @ '','' @ nat_str ber"
  shows "strip_line l = l" and "terminal l = None" and "classify_urc l = None" and "l \<noteq> []"
proof -
  have "last l = last (nat_str ber)" using assms by simp
  moreover have "is_digit (last (nat_str ber))" using nat_str_digits nat_str_nonempty last_in_set by blast
  ultimately have "\<not> is_space (last l)" by (simp add: digit_not_space)
  then show "strip_line l = l"
    unfolding strip_line_def by (intro strip_by_id) (auto simp: assms is_space_def Let_def)
  show "terminal l = None" "classify_urc l = None" "l \<noteq> []"
    by (simp_all add: assms terminal_def cme_error_def cms_error_def startswith_def classify_urc_def urc_patterns_def)
qed

text \<open>\<open>signal_strength\<close> returns the number the modem reports in its first \<open>+CSQ\<close> line, whatever other
  lines and URCs arrive around it, and 99 when the answer has no such line.\<close>

theorem signal_strength_reads_report:
  assumes "\<not> ac_closed c" and "ac_responses c = []" and "no_terminal raws" and "no_terminal raws'"
    and "\<forall>l \<in> set (body_lines raws). \<not> startswith ''+CSQ'' l"
  shows "(fst (signal_strength (at_send (raws @ [''+CSQ: '' @ nat_str rssi @ '','' @ nat_str ber] @ raws' @ [''OK''])) c)
      = Inr (int rssi))
    \<and> (fst (signal_strength (at_send (raws @ [''OK''])) c) = Inr 99)"
proof -
  have ok: "terminal (strip_line ''OK'') = Some None" by code_simp
  let ?l = "''+CSQ: '' @ nat_str rssi @ '','' @ nat_str ber"
  note l = csq_line_wire [OF refl, of rssi ber]
  have nt: "no_terminal (raws @ [?l] @ raws')"
    using assms(3,4) l unfolding no_terminal_def by (simp del: append_Cons add: ball_Un)
  have body: "body_lines (raws @ [?l] @ raws') = body_lines raws @ [?l] @ body_lines raws'"
    using l by (simp add: body_lines_def)
  have "parse_csq (?l # body_lines raws') = int rssi"
    by (simp only: parse_csq.simps parse_csq_line_nat option.case)
  moreover have "[?l] @ body_lines raws' = ?l # body_lines raws'" by simp
  ultimately have "parse_csq (body_lines raws @ [?l] @ body_lines raws') = int rssi"
    unfolding parse_csq_skip [OF assms(5)] by (simp only:)
  then have c1: "fst (signal_strength (at_send (raws @ [?l] @ raws' @ [''OK''])) c) = Inr (int rssi)"
    using at_send_answer [OF assms(1,2) nt ok, of "''AT+CSQ''"] body
    by (simp add: signal_strength_def method_defs)
  have "parse_csq (body_lines raws) = 99" using parse_csq_skip [OF assms(5), of "[]"] by simp
  then have "fst (signal_strength (at_send (raws @ [''OK''])) c) = Inr 99"
    using at_send_answer [OF assms(1-3) ok, of "''AT+CSQ''"]
    by (simp add: signal_strength_def method_defs)
  with c1 show ?thesis by blast
qed

lemma signal_strength_reads_report_witness:
  "fst (signal_strength (at_send ([''RING''] @ [''+CSQ: '' @ nat_str 21 @ '','' @ nat_str 99] @ [] @ [''OK''])) at_ex)
     = Inr 21"
proof -
  have pre: "\<not> ac_closed at_ex" "ac_responses at_ex = []" "no_terminal [''RING'']" "no_terminal []"
    "\<forall>l \<in> set (body_lines [''RING'']). \<not> startswith ''+CSQ'' l"
    by (code_simp, code_simp, code_simp, simp add: no_terminal_def, code_simp)
  from signal_strength_reads_report [OF pre, of 21 99] show ?thesis by simp
qed

end
