(* ===== verification/Serial_Transport.thy ===== *)
theory Serial_Transport imports Prelude begin

text \<open>
  Access to the serial devices below the AT client: the exclusive lock of
  \<open>modem_controller/platforms/serial_lock.py\<close> and the reader thread and writer of
  \<open>modem_controller/platforms/windows_serial_at.py\<close>. The operating system's part is an input:
  whether another process holds the lock, how opening fails, and what each blocking read returns.
\<close>

section \<open>Exclusive access\<close>

datatype platform = Windows | Posix

text \<open>An exception of the open call, by what the code asks of it.\<close>

record open_error =
  oe_permission :: bool
  oe_cause_permission :: bool
  oe_message :: string

definition acquire_exclusive :: "platform \<Rightarrow> bool \<Rightarrow> int option \<Rightarrow> pyexn + int option" where
  "acquire_exclusive plat contended fd = (if plat = Windows then Inr None
     else case fd of
         None \<Rightarrow> Inl (RuntimeError ''cannot resolve serial fd'')
       | Some f \<Rightarrow> if contended then Inl BusyDeviceError else Inr (Some f))"

text \<open>\<open>release\<close> on the set of descriptors this process holds locks on.\<close>

definition release :: "platform \<Rightarrow> int option \<Rightarrow> int set \<Rightarrow> int set" where
  "release plat handle locks = (case handle of None \<Rightarrow> locks
     | Some f \<Rightarrow> if plat = Windows then locks else locks - {f})"

definition translate_open_error :: "platform \<Rightarrow> open_error \<Rightarrow> pyexn option" where
  "translate_open_error plat exc =
     (if plat \<noteq> Windows then None
      else if oe_permission exc then Some BusyDeviceError
      else if oe_cause_permission exc then Some BusyDeviceError
      else if contains_str ''Access is denied'' (oe_message exc) then Some BusyDeviceError
      else None)"


section \<open>The reader thread\<close>

datatype read_result = Chunk string | ReadError

text \<open>The inner loop of the thread: emit every complete line of the buffer.\<close>

function take_lines :: "string \<Rightarrow> string list \<times> string" where
  "take_lines buf = (if CHR 10 \<in> set buf
     then let (ls, rest) = take_lines (tl (dropWhile (\<lambda>c. c \<noteq> CHR 10) buf))
          in ((takeWhile (\<lambda>c. c \<noteq> CHR 10) buf @ [CHR 10]) # ls, rest)
     else ([], buf))"
  by pat_completeness auto
termination
proof (relation "measure length")
  fix buf :: string
  assume "CHR 10 \<in> set buf"
  then have "dropWhile (\<lambda>c. c \<noteq> CHR 10) buf \<noteq> []" by (simp add: dropWhile_eq_Nil_conv) 
  then have "length (tl (dropWhile (\<lambda>c. c \<noteq> CHR 10) buf)) < length (dropWhile (\<lambda>c. c \<noteq> CHR 10) buf)"
    by simp
  also have "\<dots> \<le> length buf" by (rule length_dropWhile_le)
  finally show "(tl (dropWhile (\<lambda>c. c \<noteq> CHR 10) buf), buf) \<in> measure length" by simp
qed simp

declare take_lines.simps [simp del]

text \<open>The thread body on the reads it makes until the stop flag is seen; the last item is the empty line
  that tells the client the stream ended.\<close>

fun reader_run :: "string \<Rightarrow> read_result list \<Rightarrow> string list" where
  "reader_run buf [] = [[]]"
| "reader_run buf (ReadError # reads) = [[]]"
| "reader_run buf (Chunk chunk # reads) = (if chunk = [] then reader_run buf reads
     else case take_lines (buf @ chunk) of (ls, buf') \<Rightarrow> ls @ reader_run buf' reads)"

record serial_writer =
  sw_closed :: bool
  sw_stop :: bool
  sw_written :: "string list"
  sw_serial_open :: bool

definition writer_write :: "string \<Rightarrow> serial_writer \<Rightarrow> serial_writer" where
  "writer_write data w = w\<lparr>sw_written := sw_written w @ [data]\<rparr>"

definition writer_close :: "serial_writer \<Rightarrow> serial_writer" where
  "writer_close w = (if sw_closed w then w else w\<lparr>sw_closed := True, sw_stop := True\<rparr>)"

definition writer_wait_closed :: "serial_writer \<Rightarrow> serial_writer" where
  "writer_wait_closed w = w\<lparr>sw_serial_open := False\<rparr>"

lemma take_lines_none: "CHR 10 \<notin> set s \<Longrightarrow> take_lines s = ([], s)"
  by (simp add: take_lines.simps)

lemma take_lines_line:
  "CHR 10 \<notin> set l \<Longrightarrow> take_lines (l @ CHR 10 # s) = ((l @ [CHR 10]) # fst (take_lines s), snd (take_lines s))"
proof -
  assume no: "CHR 10 \<notin> set l"
  then have "dropWhile (\<lambda>c. c \<noteq> CHR 10) (l @ CHR 10 # s) = CHR 10 # s"
    and "takeWhile (\<lambda>c. c \<noteq> CHR 10) (l @ CHR 10 # s) = l"
    by (induction l) auto
  then show ?thesis by (subst take_lines.simps) (simp split: prod.splits)
qed

lemma split_first_newline:
  "CHR 10 \<in> set s \<Longrightarrow> \<exists>l t. s = l @ CHR 10 # t \<and> CHR 10 \<notin> set l"
  by (metis in_set_conv_decomp_first)

lemma take_lines_append:
  "take_lines (a @ b) = (fst (take_lines a) @ fst (take_lines (snd (take_lines a) @ b)),
     snd (take_lines (snd (take_lines a) @ b)))"
proof (induction "length a" arbitrary: a rule: less_induct)
  case less
  show ?case
  proof (cases "CHR 10 \<in> set a")
    case False
    then show ?thesis by (simp add: take_lines_none)
  next
    case True
    then obtain l t where a: "a = l @ CHR 10 # t" "CHR 10 \<notin> set l"
      using split_first_newline by blast
    then have "take_lines (t @ b) = (fst (take_lines t) @ fst (take_lines (snd (take_lines t) @ b)),
        snd (take_lines (snd (take_lines t) @ b)))"
      using less [of t] by simp
    with a show ?thesis by (simp add: take_lines_line)
  qed
qed

lemma take_lines_shape:
  "concat (fst (take_lines s)) @ snd (take_lines s) = s
   \<and> CHR 10 \<notin> set (snd (take_lines s))
   \<and> (\<forall>l \<in> set (fst (take_lines s)). \<exists>u. l = u @ [CHR 10] \<and> CHR 10 \<notin> set u)"
proof (induction "length s" arbitrary: s rule: less_induct)
  case less
  show ?case
  proof (cases "CHR 10 \<in> set s")
    case False
    then show ?thesis by (simp add: take_lines_none)
  next
    case True
    then obtain l t where s: "s = l @ CHR 10 # t" "CHR 10 \<notin> set l"
      using split_first_newline by blast
    with less [of t] show ?thesis by (simp add: take_lines_line)
  qed
qed

lemma reader_run_buffer:
  "reader_run buf (map Chunk chunks) = fst (take_lines (buf @ concat chunks)) @ [[]]"
  if "fst (take_lines buf) = []"
  using that
proof (induction chunks arbitrary: buf)
  case Nil
  then show ?case by simp
next
  case (Cons c cs)
  have none: "snd (take_lines x) = y \<Longrightarrow> fst (take_lines y) = []" for x y
    using take_lines_shape [of x] by (auto simp: take_lines_none)
  show ?case
  proof (cases "c = []")
    case True
    with Cons show ?thesis by simp
  next
    case False
    obtain ls b where t: "take_lines (buf @ c) = (ls, b)" by fastforce
    then have "fst (take_lines b) = []" using none [of "buf @ c" b] by simp
    with Cons.IH have "reader_run b (map Chunk cs) = fst (take_lines (b @ concat cs)) @ [[]]" by blast
    moreover have "take_lines ((buf @ c) @ concat cs) = (ls @ fst (take_lines (b @ concat cs)),
        snd (take_lines (b @ concat cs)))"
      using take_lines_append [of "buf @ c" "concat cs"] t by simp
    ultimately show ?thesis using False t by simp
  qed
qed

text \<open>C18. The reader thread hands over the same lines however the operating system cuts the modem's output
  into reads: the emitted lines depend on the concatenated bytes only, each has exactly one newline,
  at its end, together they are a prefix of the bytes, what is held back has no newline, and one end
  of file marker follows. A read error ends the thread with the lines read before it.\<close>

theorem reassembly_independent_of_chunks:
  "(reader_run [] (map Chunk chunks @ ReadError # later) = reader_run [] (map Chunk chunks))
    \<and> (\<exists>ls rest. reader_run [] (map Chunk chunks) = ls @ [[]]
     \<and> (\<forall>chunks'. concat chunks' = concat chunks \<longrightarrow> reader_run [] (map Chunk chunks') = ls @ [[]])
     \<and> concat ls @ rest = concat chunks \<and> CHR 10 \<notin> set rest
     \<and> (\<forall>l \<in> set ls. \<exists>u. l = u @ [CHR 10] \<and> CHR 10 \<notin> set u))"
proof -
  have "reader_run buf (map Chunk chunks @ ReadError # later) = reader_run buf (map Chunk chunks)" for buf
    by (induction chunks arbitrary: buf) (simp_all split: prod.splits)
  then have c1: "reader_run [] (map Chunk chunks @ ReadError # later) = reader_run [] (map Chunk chunks)" .
  have empty: "fst (take_lines []) = []" by (simp add: take_lines_none)
  note run = reader_run_buffer [OF empty, unfolded append_Nil]
  let ?t = "take_lines (concat chunks)"
  have "reader_run [] (map Chunk chunks') = fst ?t @ [[]]" if "concat chunks' = concat chunks" for chunks'
    by (simp only: run that)
  then have "\<exists>ls rest. reader_run [] (map Chunk chunks) = ls @ [[]]
     \<and> (\<forall>chunks'. concat chunks' = concat chunks \<longrightarrow> reader_run [] (map Chunk chunks') = ls @ [[]])
     \<and> concat ls @ rest = concat chunks \<and> CHR 10 \<notin> set rest
     \<and> (\<forall>l \<in> set ls. \<exists>u. l = u @ [CHR 10] \<and> CHR 10 \<notin> set u)"
    using take_lines_shape [of "concat chunks"] by (intro exI [of _ "fst ?t"] exI [of _ "snd ?t"]) simp
  with c1 show ?thesis by blast
qed

lemma reassembly_independent_of_chunks_witness:
  "reader_run [] (map Chunk [''O'', ''K'' @ [CHR 13], CHR 10 # ''RI'']) = [''OK'' @ [CHR 13, CHR 10], []]"
proof -
  obtain ls where ls: "\<forall>chunks'. concat chunks' = concat [''OK'' @ [CHR 13, CHR 10] @ ''RI'']
      \<longrightarrow> reader_run [] (map Chunk chunks') = ls @ [[]]"
    and whole: "reader_run [] (map Chunk [''OK'' @ [CHR 13, CHR 10] @ ''RI'']) = ls @ [[]]"
    using reassembly_independent_of_chunks [of "[''OK'' @ [CHR 13, CHR 10] @ ''RI'']"] by blast
  have "ls = [''OK'' @ [CHR 13, CHR 10]]"
    using whole by (simp add: take_lines.simps)
  then show ?thesis
    using ls [rule_format, of "[''O'', ''K'' @ [CHR 13], CHR 10 # ''RI'']"]
    by (simp del: reader_run.simps)
qed

end
