(* ===== verification/At_Client.thy ===== *)
theory At_Client imports Drivers Serial_Transport begin

text \<open>
  The call client of \<open>modem_controller/at_client.py\<close>. A call's event stream is a generator object: the
  model keeps, for every call, where its generator is suspended and the queue it has captured. Queues
  are heap objects named by the call that created them, because \<open>_call_queue\<close> is replaced while a
  stream or a pending hang-up still holds the old one. An operation that awaits the modem is two
  steps, before and after the await, so that every interleaving of the client's tasks is a list of
  steps. Call identifiers come from a counter in place of \<open>uuid4\<close>.
\<close>

section \<open>Events and streams\<close>

datatype event_kind = CONNECTED | REMOTE_HANGUP

record at_event =
  ae_event :: event_kind
  ae_call :: nat
  ae_cause :: "string option"

definition connected_event :: "nat \<Rightarrow> at_event" where
  "connected_event cid = \<lparr>ae_event = CONNECTED, ae_call = cid, ae_cause = None\<rparr>"

definition hangup_event :: "nat \<Rightarrow> string \<Rightarrow> at_event" where
  "hangup_event cid cause = \<lparr>ae_event = REMOTE_HANGUP, ae_call = cid, ae_cause = Some cause\<rparr>"

lemma event_simps [simp]:
  "ae_event (connected_event c) = CONNECTED" "ae_call (connected_event c) = c"
  "ae_event (hangup_event c x) = REMOTE_HANGUP" "ae_call (hangup_event c x) = c"
  "ae_cause (hangup_event c x) = Some x"
  by (simp_all add: connected_event_def hangup_event_def)

text \<open>What the code that consumes a call's stream relies on: \<open>connected\<close> at most once and before the
  hang-up, the hang-up at most once and last.\<close>

definition well_formed_call :: "at_event list \<Rightarrow> bool" where
  "well_formed_call evs \<longleftrightarrow> map ae_event evs \<in>
     {[], [CONNECTED], [REMOTE_HANGUP], [CONNECTED, REMOTE_HANGUP]}"

text \<open>The events a stream can have yielded at a stage: 0 before connected, 1 before the hang-up, 2 over.\<close>

definition stage_events :: "nat \<Rightarrow> at_event list \<Rightarrow> bool" where
  "stage_events n evs \<longleftrightarrow> (if n = 0 then evs = []
     else if n = 1 then map ae_event evs \<in> {[], [CONNECTED]} else well_formed_call evs)"

lemma stage_events_wf: "stage_events n evs \<Longrightarrow> well_formed_call evs"
  by (auto simp: stage_events_def well_formed_call_def split: if_splits)

lemma stage_events_mono: "stage_events n evs \<Longrightarrow> n \<le> m \<Longrightarrow> stage_events m evs"
  by (auto simp: stage_events_def well_formed_call_def split: if_splits)

lemma stage_events_Nil [simp]: "stage_events n []"
  by (simp add: stage_events_def well_formed_call_def)

fun opt_list :: "'a option \<Rightarrow> 'a list" where
  "opt_list None = []"
| "opt_list (Some x) = [x]"

text \<open>The interface of an event stream: one pull, given what its environment did before it.\<close>

locale call_stream =
  fixes pull :: "'e \<Rightarrow> 's \<Rightarrow> at_event option \<times> 's" and stage :: "'s \<Rightarrow> nat"
  assumes pull_stage: "stage s \<le> stage (snd (pull e s))"
    and pull_connected: "fst (pull e s) = Some ev \<Longrightarrow> ae_event ev = CONNECTED \<Longrightarrow>
      stage s = 0 \<and> 0 < stage (snd (pull e s))"
    and pull_hangup: "fst (pull e s) = Some ev \<Longrightarrow> ae_event ev = REMOTE_HANGUP \<Longrightarrow>
      stage s \<le> 1 \<and> 2 \<le> stage (snd (pull e s))"
begin

fun pulls :: "'e list \<Rightarrow> 's \<Rightarrow> at_event list" where
  "pulls [] s = []"
| "pulls (e # es) s = opt_list (fst (pull e s)) @ pulls es (snd (pull e s))"

lemma pull_extends:
  assumes "stage_events (stage s) evs"
  shows "stage_events (stage (snd (pull e s))) (evs @ opt_list (fst (pull e s)))"
proof (cases "fst (pull e s)")
  case None
  then show ?thesis using stage_events_mono [OF assms pull_stage] by simp
next
  case (Some ev)
  show ?thesis
  proof (cases "ae_event ev")
    case CONNECTED
    then have "evs = []" "0 < stage (snd (pull e s))"
      using assms pull_connected [OF Some] by (auto simp: stage_events_def)
    with CONNECTED Some show ?thesis by (simp add: stage_events_def well_formed_call_def)
  next
    case REMOTE_HANGUP
    then have "stage s \<le> 1" "2 \<le> stage (snd (pull e s))" using pull_hangup [OF Some] by simp_all
    with assms REMOTE_HANGUP Some show ?thesis
      by (auto simp: stage_events_def well_formed_call_def split: if_splits)
  qed
qed

lemma pulls_extend: "stage_events (stage s) evs \<Longrightarrow> well_formed_call (evs @ pulls es s)"
proof (induction es arbitrary: s evs)
  case Nil
  then show ?case by (simp add: stage_events_wf)
next
  case (Cons e es)
  from Cons.IH [OF pull_extends [OF Cons.prems]] show ?case by simp
qed

lemma pulls_well_formed: "stage s = 0 \<Longrightarrow> well_formed_call (pulls es s)"
  using pulls_extend [of s "[]" es] by simp

end


section \<open>The mock client\<close>

text \<open>Where the generator of \<open>MockATClient.dial\<close> is suspended. The environment of a pull says whether the
  wait ran its full time (\<open>_wait_or_cancelled\<close>).\<close>

datatype mock_stream = MockDialing nat | MockTalking nat | MockOver

fun mock_pull :: "bool \<Rightarrow> mock_stream \<Rightarrow> at_event option \<times> mock_stream" where
  "mock_pull slept (MockDialing cid) = (if slept then (Some (connected_event cid), MockTalking cid)
     else (Some (hangup_event cid ''manual_hangup''), MockOver))"
| "mock_pull slept (MockTalking cid) =
     (Some (hangup_event cid (if slept then ''normal_clearing'' else ''manual_hangup'')), MockOver)"
| "mock_pull slept MockOver = (None, MockOver)"

fun mock_stage :: "mock_stream \<Rightarrow> nat" where
  "mock_stage (MockDialing _) = 0" | "mock_stage (MockTalking _) = 1" | "mock_stage MockOver = 2"

interpretation mock: call_stream mock_pull mock_stage
proof
  fix s e ev
  show "mock_stage s \<le> mock_stage (snd (mock_pull e s))" by (cases s) auto
  show "fst (mock_pull e s) = Some ev \<Longrightarrow> ae_event ev = CONNECTED \<Longrightarrow>
      mock_stage s = 0 \<and> 0 < mock_stage (snd (mock_pull e s))"
    by (cases s) (auto split: if_splits)
  show "fst (mock_pull e s) = Some ev \<Longrightarrow> ae_event ev = REMOTE_HANGUP \<Longrightarrow>
      mock_stage s \<le> 1 \<and> 2 \<le> mock_stage (snd (mock_pull e s))"
    by (cases s) (auto split: if_splits)
qed


section \<open>The serial client\<close>

datatype call_stream_state =
    SingleEvent at_event
  | NotStarted
  | Draining nat bool
  | HangupYielded
  | Exhausted

text \<open>The loop of \<open>_urc_stream\<close> from one \<open>get\<close> to the next suspension.\<close>

fun drain :: "nat \<Rightarrow> bool \<Rightarrow> at_event option list \<Rightarrow>
    at_event option \<times> call_stream_state \<times> at_event option list" where
  "drain q seen [] = (None, Draining q seen, [])"
| "drain q seen (None # evs) = (None, Exhausted, evs)"
| "drain q seen (Some ev # evs) = (if ae_event ev = CONNECTED
     then if seen then drain q seen evs else (Some ev, Draining q True, evs)
     else (Some ev, HangupYielded, evs))"

fun serial_pull :: "at_event option list \<Rightarrow> call_stream_state \<times> at_event option list \<Rightarrow>
    at_event option \<times> call_stream_state \<times> at_event option list" where
  "serial_pull arrived (SingleEvent ev, q) = (Some ev, Exhausted, q @ arrived)"
| "serial_pull arrived (NotStarted, q) = (None, NotStarted, q @ arrived)"
| "serial_pull arrived (Draining r seen, q) = drain r seen (q @ arrived)"
| "serial_pull arrived (HangupYielded, q) = (None, Exhausted, q @ arrived)"
| "serial_pull arrived (Exhausted, q) = (None, Exhausted, q @ arrived)"

fun serial_stage :: "call_stream_state \<times> at_event option list \<Rightarrow> nat" where
  "serial_stage (SingleEvent _, _) = 0"
| "serial_stage (NotStarted, _) = 0"
| "serial_stage (Draining _ seen, _) = (if seen then 1 else 0)"
| "serial_stage (HangupYielded, _) = 2"
| "serial_stage (Exhausted, _) = 2"

lemma drain_stage:
  "serial_stage (Draining q seen, []) \<le> serial_stage (snd (drain q seen evs))"
  "fst (drain q seen evs) = Some ev \<Longrightarrow> ae_event ev = CONNECTED \<Longrightarrow>
     \<not> seen \<and> 0 < serial_stage (snd (drain q seen evs))"
  "fst (drain q seen evs) = Some ev \<Longrightarrow> ae_event ev = REMOTE_HANGUP \<Longrightarrow>
     2 \<le> serial_stage (snd (drain q seen evs))"
  by (induction q seen evs rule: drain.induct) (auto split: if_splits)

interpretation serial: call_stream serial_pull serial_stage
proof
  fix s :: "call_stream_state \<times> at_event option list" and e ev
  obtain st q where s: "s = (st, q)" by (cases s)
  show "serial_stage s \<le> serial_stage (snd (serial_pull e s))"
    using drain_stage(1) [of _ _ "q @ e"] by (cases st) (auto simp: s)
  show "fst (serial_pull e s) = Some ev \<Longrightarrow> ae_event ev = CONNECTED \<Longrightarrow>
      serial_stage s = 0 \<and> 0 < serial_stage (snd (serial_pull e s))"
    using drain_stage(2) [of _ _ "q @ e" ev] by (cases st) (auto simp: s)
  show "fst (serial_pull e s) = Some ev \<Longrightarrow> ae_event ev = REMOTE_HANGUP \<Longrightarrow>
      serial_stage s \<le> 1 \<and> 2 \<le> serial_stage (snd (serial_pull e s))"
    using drain_stage(3) [of _ _ "q @ e" ev] by (cases st) (auto simp: s)
qed

text \<open>The client's state. \<open>sc_poller\<close> is the running poller's call and whether it awaits \<open>AT+CLCC\<close>;
  \<open>sc_dialing\<close> and \<open>sc_hangups\<close> are the dial and the hang-ups suspended in the driver; \<open>sc_out\<close> records
  what the streams have yielded.\<close>

record serial_client =
  sc_next :: nat
  sc_active :: "nat option"
  sc_call_queue :: "nat option"
  sc_queues :: "nat \<Rightarrow> at_event option list"
  sc_poller :: "(nat \<times> bool) option"
  sc_dialing :: "nat option"
  sc_hangups :: "(nat \<times> nat option) list"
  sc_streams :: "nat \<Rightarrow> call_stream_state option"
  sc_at_closed :: bool
  sc_lock :: "int option"
  sc_out :: "at_event list"

definition serial_client_init :: "int option \<Rightarrow> serial_client" where
  "serial_client_init lock = \<lparr>sc_next = 0, sc_active = None, sc_call_queue = None, sc_queues = (\<lambda>_. []),
     sc_poller = None, sc_dialing = None, sc_hangups = [], sc_streams = (\<lambda>_. None), sc_at_closed = False,
     sc_lock = lock, sc_out = []\<rparr>"

definition hangup_urc_cause :: "urc_type \<Rightarrow> string option" where
  "hangup_urc_cause t = (case t of
       NO_CARRIER \<Rightarrow> map_of hangup_cause_map ''NO CARRIER''
     | BUSY \<Rightarrow> map_of hangup_cause_map ''BUSY''
     | NO_ANSWER \<Rightarrow> map_of hangup_cause_map ''NO ANSWER''
     | NO_DIALTONE \<Rightarrow> map_of hangup_cause_map ''NO DIALTONE''
     | _ \<Rightarrow> None)"

definition queue_put :: "nat \<Rightarrow> at_event option \<Rightarrow> serial_client \<Rightarrow> serial_client" where
  "queue_put q item c = c\<lparr>sc_queues := (sc_queues c)(q := sc_queues c q @ [item])\<rparr>"

definition reset_call_state :: "serial_client \<Rightarrow> serial_client" where
  "reset_call_state c = c\<lparr>sc_active := None, sc_call_queue := None, sc_poller := None\<rparr>"

definition dial_begin :: "(serial_client, nat) proc" where
  "dial_begin c = (let cid = sc_next c; c1 = c\<lparr>sc_next := cid + 1\<rparr> in
     case sc_active c1 of
       Some a \<Rightarrow> raise (RuntimeError (''another call is active (call_id='' @ nat_str a @ '')'')) c1
     | None \<Rightarrow> ret cid (c1\<lparr>sc_active := Some cid, sc_call_queue := Some cid, sc_dialing := Some cid,
         sc_queues := (sc_queues c1)(cid := [])\<rparr>))"

definition set_stream :: "nat \<Rightarrow> call_stream_state \<Rightarrow> serial_client \<Rightarrow> serial_client" where
  "set_stream cid st c = c\<lparr>sc_streams := (sc_streams c)(cid \<mapsto> st)\<rparr>"

definition dial_end :: "pyexn + dial_result \<Rightarrow> nat \<Rightarrow> (serial_client, nat) proc" where
  "dial_end outcome cid c0 = (let c = c0\<lparr>sc_dialing := None\<rparr> in
     case outcome of
       Inl e \<Rightarrow> if is_exception e
         then ret cid (set_stream cid (SingleEvent (hangup_event cid (classify_dial_failure (exc_message e))))
           (reset_call_state c))
         else raise e c
     | Inr r \<Rightarrow> if \<not> dr_connected r
         then let cause = (case dr_hangup_cause r of None \<Rightarrow> ''network_out_of_order''
                  | Some x \<Rightarrow> if x = [] then ''network_out_of_order'' else x)
              in ret cid (set_stream cid (SingleEvent (hangup_event cid cause)) (reset_call_state c))
         else ret cid (set_stream cid NotStarted (c\<lparr>sc_poller := Some (cid, False)\<rparr>)))"

text \<open>\<open>hangup\<close> up to the driver call, which captures the queue, and after it; the driver's own failure is
  logged and changes nothing.\<close>

definition hangup_begin :: "nat \<Rightarrow> serial_client \<Rightarrow> serial_client" where
  "hangup_begin cid c = (if sc_active c \<noteq> Some cid then c
     else c\<lparr>sc_hangups := sc_hangups c @ [(cid, sc_call_queue c)]\<rparr>)"

definition hangup_end :: "serial_client \<Rightarrow> serial_client" where
  "hangup_end c = (case sc_hangups c of [] \<Rightarrow> c
     | (cid, queue) # hs \<Rightarrow> let c1 = c\<lparr>sc_hangups := hs\<rparr> in
         (case queue of None \<Rightarrow> c1 | Some q \<Rightarrow> queue_put q (Some (hangup_event cid ''manual_hangup'')) c1))"

definition sc_on_urc :: "urc_type \<Rightarrow> serial_client \<Rightarrow> serial_client" where
  "sc_on_urc t c = (case (sc_active c, sc_call_queue c) of
       (Some cid, Some q) \<Rightarrow> (case hangup_urc_cause t of
           None \<Rightarrow> c | Some cause \<Rightarrow> queue_put q (Some (hangup_event cid cause)) c)
     | _ \<Rightarrow> c)"

definition clcc_line_active :: "string \<Rightarrow> bool" where
  "clcc_line_active line = (startswith ''+CLCC'' line \<and>
     (case split_once (CHR '':'') line of
        [_, payload] \<Rightarrow> let parts = map strip (split_on (CHR '','') payload)
          in 3 \<le> length parts \<and> parts ! 2 = ''0''
      | _ \<Rightarrow> False))"

definition clcc_has_active_call :: "string list \<Rightarrow> bool" where
  "clcc_has_active_call lines = list_ex clcc_line_active lines"

text \<open>\<open>_poll_for_connected\<close>: waking from the sleep, and the reply (or \<open>AtError\<close>) to \<open>AT+CLCC\<close>.\<close>

definition poll_wake :: "serial_client \<Rightarrow> serial_client" where
  "poll_wake c = (case sc_poller c of
       Some (cid, False) \<Rightarrow> if sc_active c \<noteq> Some cid then c\<lparr>sc_poller := None\<rparr>
         else c\<lparr>sc_poller := Some (cid, True)\<rparr>
     | _ \<Rightarrow> c)"

definition poll_reply :: "pyexn + at_response \<Rightarrow> serial_client \<Rightarrow> serial_client" where
  "poll_reply reply c = (case sc_poller c of
       Some (cid, True) \<Rightarrow>
         (case reply of
            Inl e \<Rightarrow> if is_at_error e \<and> sc_active c = Some cid then c\<lparr>sc_poller := Some (cid, False)\<rparr>
                     else c\<lparr>sc_poller := None\<rparr>
          | Inr r \<Rightarrow> if clcc_has_active_call (ar_lines r)
              then let c1 = c\<lparr>sc_poller := None\<rparr> in
                (case sc_call_queue c1 of None \<Rightarrow> c1 | Some q \<Rightarrow> queue_put q (Some (connected_event cid)) c1)
              else if sc_active c = Some cid then c\<lparr>sc_poller := Some (cid, False)\<rparr>
              else c\<lparr>sc_poller := None\<rparr>)
     | _ \<Rightarrow> c)"

text \<open>The \<open>finally\<close> of \<open>_urc_stream\<close>, one \<open>__anext__\<close>, and \<open>aclose\<close> of the generator.\<close>

definition stream_finally :: "nat \<Rightarrow> serial_client \<Rightarrow> serial_client" where
  "stream_finally cid c = (if sc_active c = Some cid then reset_call_state c else c)"

definition start_stream :: "nat \<Rightarrow> serial_client \<Rightarrow> serial_client" where
  "start_stream cid c = (if sc_streams c cid = Some NotStarted
     then case sc_call_queue c of None \<Rightarrow> set_stream cid Exhausted c
        | Some q \<Rightarrow> set_stream cid (Draining q False) c
     else c)"

fun stream_queue :: "call_stream_state \<Rightarrow> nat option" where
  "stream_queue (Draining q _) = Some q"
| "stream_queue _ = None"

definition stream_next :: "nat \<Rightarrow> serial_client \<Rightarrow> at_event option \<times> serial_client" where
  "stream_next cid c0 = (let c = start_stream cid c0 in
     case sc_streams c cid of
       None \<Rightarrow> (None, c)
     | Some st \<Rightarrow>
         let q = (case stream_queue st of None \<Rightarrow> [] | Some r \<Rightarrow> sc_queues c r);
             (ev, st', q') = serial_pull [] (st, q);
             c1 = set_stream cid st' (case stream_queue st of None \<Rightarrow> c
                    | Some r \<Rightarrow> c\<lparr>sc_queues := (sc_queues c)(r := q')\<rparr>);
             c2 = c1\<lparr>sc_out := sc_out c1 @ opt_list ev\<rparr>
         in (ev, if st' = Exhausted \<and> (st = HangupYielded \<or> stream_queue st \<noteq> None)
                 then stream_finally cid c2 else c2))"

definition stream_close :: "nat \<Rightarrow> serial_client \<Rightarrow> serial_client" where
  "stream_close cid c = (case sc_streams c cid of
       None \<Rightarrow> c
     | Some st \<Rightarrow> let c1 = set_stream cid Exhausted c in
         if st = HangupYielded \<or> stream_queue st \<noteq> None then stream_finally cid c1 else c1)"

definition sc_aclose :: "serial_client \<Rightarrow> serial_client" where
  "sc_aclose c =
     (let c1 = (case sc_call_queue c of None \<Rightarrow> c | Some q \<Rightarrow> queue_put q None c)
      in c1\<lparr>sc_poller := None, sc_at_closed := True, sc_lock := None\<rparr>)"

text \<open>The steps of the client and their interleavings.\<close>

datatype sc_step =
    Dial | DialDone "pyexn + dial_result" | HangupBegin nat | HangupDone | Urc urc_type
  | PollWake | PollReply "pyexn + at_response" | Next nat | CloseStream nat | Aclose

fun run_step :: "sc_step \<Rightarrow> serial_client \<Rightarrow> serial_client" where
  "run_step Dial c = snd (dial_begin c)"
| "run_step (DialDone outcome) c = (case sc_dialing c of None \<Rightarrow> c | Some cid \<Rightarrow> snd (dial_end outcome cid c))"
| "run_step (HangupBegin cid) c = hangup_begin cid c"
| "run_step HangupDone c = hangup_end c"
| "run_step (Urc t) c = sc_on_urc t c"
| "run_step PollWake c = poll_wake c"
| "run_step (PollReply r) c = poll_reply r c"
| "run_step (Next cid) c = snd (stream_next cid c)"
| "run_step (CloseStream cid) c = stream_close cid c"
| "run_step Aclose c = sc_aclose c"

fun run_steps :: "sc_step list \<Rightarrow> serial_client \<Rightarrow> serial_client" where
  "run_steps [] c = c"
| "run_steps (s # ss) c = run_steps ss (run_step s c)"

inductive reachable :: "serial_client \<Rightarrow> bool" where
  reachable_init: "reachable (serial_client_init lock)"
| reachable_step: "reachable c \<Longrightarrow> reachable (run_step s c)"

lemma reachable_run: "reachable c \<Longrightarrow> reachable (run_steps ss c)"
  by (induction ss arbitrary: c) (auto intro: reachable_step)


section \<open>The invariant\<close>

definition live :: "call_stream_state option \<Rightarrow> bool" where
  "live st \<longleftrightarrow> (case st of Some NotStarted \<Rightarrow> True | Some (Draining _ _) \<Rightarrow> True | Some HangupYielded \<Rightarrow> True
     | _ \<Rightarrow> False)"

definition stage_of :: "call_stream_state option \<Rightarrow> nat" where
  "stage_of st = (case st of None \<Rightarrow> 0 | Some s \<Rightarrow> serial_stage (s, []))"

definition calls_of :: "nat \<Rightarrow> at_event list \<Rightarrow> at_event list" where
  "calls_of cid evs = filter (\<lambda>e. ae_call e = cid) evs"

definition own_event :: "nat \<Rightarrow> at_event \<Rightarrow> bool" where
  "own_event cid ev \<longleftrightarrow> ae_call ev = cid \<and> (ae_event ev = REMOTE_HANGUP \<longrightarrow> ae_cause ev \<noteq> None)"

definition own_stream :: "nat \<Rightarrow> call_stream_state \<Rightarrow> bool" where
  "own_stream cid st \<longleftrightarrow> (case st of SingleEvent ev \<Rightarrow> own_event cid ev | Draining q _ \<Rightarrow> q = cid | _ \<Rightarrow> True)"

definition sc_inv :: "serial_client \<Rightarrow> bool" where
  "sc_inv c \<longleftrightarrow> sc_call_queue c = sc_active c
     \<and> (\<forall>a. sc_active c = Some a \<longrightarrow> a < sc_next c)
     \<and> (\<forall>d. sc_dialing c = Some d \<longrightarrow> sc_active c = Some d \<and> sc_streams c d = None)
     \<and> (\<forall>p b. sc_poller c = Some (p, b) \<longrightarrow> sc_active c = Some p)
     \<and> (\<forall>h q. (h, Some q) \<in> set (sc_hangups c) \<longrightarrow> h = q)
     \<and> (\<forall>cid. sc_streams c cid \<noteq> None \<longrightarrow> cid < sc_next c)
     \<and> (\<forall>cid. live (sc_streams c cid) \<longrightarrow> sc_active c = Some cid)
     \<and> (\<forall>cid st. sc_streams c cid = Some st \<longrightarrow> own_stream cid st)
     \<and> (\<forall>q ev. Some ev \<in> set (sc_queues c q) \<longrightarrow> own_event q ev)
     \<and> (\<forall>cid. stage_events (stage_of (sc_streams c cid)) (calls_of cid (sc_out c)))
     \<and> (\<forall>ev \<in> set (sc_out c). own_event (ae_call ev) ev)"

lemma own_connected [simp]: "own_event q (connected_event cid) \<longleftrightarrow> q = cid"
  by (auto simp: own_event_def)

lemma own_hangup [simp]: "own_event q (hangup_event cid x) \<longleftrightarrow> q = cid"
  by (auto simp: own_event_def)

lemma sc_inv_init: "sc_inv (serial_client_init lock)"
  by (simp add: sc_inv_def serial_client_init_def live_def stage_of_def calls_of_def)

lemma sc_inv_queue_put:
  "sc_inv c \<Longrightarrow> (case item of None \<Rightarrow> True | Some ev \<Rightarrow> own_event q ev) \<Longrightarrow> sc_inv (queue_put q item c)"
  unfolding sc_inv_def queue_put_def by (auto split: option.splits)

lemma sc_inv_poller:
  "sc_inv c \<Longrightarrow> (\<forall>p b. po = Some (p, b) \<longrightarrow> sc_active c = Some p) \<Longrightarrow> sc_inv (c\<lparr>sc_poller := po\<rparr>)"
  unfolding sc_inv_def by simp

lemma sc_inv_dial_begin: "sc_inv c \<Longrightarrow> sc_inv (snd (dial_begin c))"
  unfolding sc_inv_def dial_begin_def
  by (auto simp: Let_def raise_def ret_def live_def less_Suc_eq split: option.splits)

lemma sc_inv_hangup_begin: "sc_inv c \<Longrightarrow> sc_inv (hangup_begin cid c)"
  unfolding sc_inv_def hangup_begin_def by auto

lemma sc_inv_hangup_end: "sc_inv c \<Longrightarrow> sc_inv (hangup_end c)"
proof -
  assume inv: "sc_inv c"
  show ?thesis
  proof (cases "sc_hangups c")
    case Nil
    with inv show ?thesis by (simp add: hangup_end_def)
  next
    case (Cons h hs)
    obtain cid queue where h: "h = (cid, queue)" by (cases h)
    have "sc_inv (c\<lparr>sc_hangups := hs\<rparr>)" using inv Cons unfolding sc_inv_def by auto
    moreover have "queue = Some q \<Longrightarrow> cid = q" for q using inv Cons h unfolding sc_inv_def by auto
    ultimately show ?thesis
      using Cons h by (auto simp: hangup_end_def Let_def sc_inv_queue_put split: option.splits)
  qed
qed

lemma sc_inv_urc: "sc_inv c \<Longrightarrow> sc_inv (sc_on_urc t c)"
proof -
  assume inv: "sc_inv c"
  then have "sc_call_queue c = sc_active c" unfolding sc_inv_def by simp
  with inv show ?thesis
    by (auto simp: sc_on_urc_def sc_inv_queue_put split: option.splits)
qed

lemma sc_inv_active: "sc_inv c \<Longrightarrow> sc_call_queue c = sc_active c"
  and sc_inv_poller_active: "sc_inv c \<Longrightarrow> sc_poller c = Some (p, b) \<Longrightarrow> sc_active c = Some p"
  unfolding sc_inv_def by auto

lemma sc_inv_poll_wake: "sc_inv c \<Longrightarrow> sc_inv (poll_wake c)"
  by (auto simp: poll_wake_def intro!: sc_inv_poller split: option.splits bool.splits)

lemma sc_inv_poll_reply: "sc_inv c \<Longrightarrow> sc_inv (poll_reply r c)"
proof -
  assume inv: "sc_inv c"
  have none: "sc_inv (c\<lparr>sc_poller := None\<rparr>)" using inv by (intro sc_inv_poller) auto
  have some: "sc_inv (c\<lparr>sc_poller := Some (p, False)\<rparr>)" if "sc_active c = Some p" for p
    using inv that by (intro sc_inv_poller) auto
  have conn: "sc_inv (queue_put p (Some (connected_event p)) (c\<lparr>sc_poller := None\<rparr>))" for p
    by (rule sc_inv_queue_put [OF none]) simp
  show ?thesis
    using inv none some conn sc_inv_active [OF inv] sc_inv_poller_active [OF inv]
    by (auto simp: poll_reply_def Let_def split: option.splits bool.splits sum.splits)
qed

lemma sc_inv_aclose: "sc_inv c \<Longrightarrow> sc_inv (sc_aclose c)"
proof -
  assume inv: "sc_inv c"
  have upd: "sc_inv c1 \<Longrightarrow> sc_inv (c1\<lparr>sc_poller := None, sc_at_closed := True, sc_lock := None\<rparr>)" for c1
    unfolding sc_inv_def by simp
  show ?thesis
    unfolding sc_aclose_def Let_def
    by (rule upd) (use inv in \<open>auto simp: sc_inv_queue_put split: option.splits\<close>)
qed

lemma sc_inv_stage: "sc_inv c \<Longrightarrow> stage_events (stage_of (sc_streams c cid)) (calls_of cid (sc_out c))"
  unfolding sc_inv_def by blast

lemma sc_inv_set_stream:
  assumes "sc_inv c" and "cid < sc_next c" and "sc_dialing c \<noteq> Some cid"
    and "live (Some st) \<Longrightarrow> sc_active c = Some cid" and "own_stream cid st"
    and "stage_events (stage_of (Some st)) (calls_of cid (sc_out c))"
  shows "sc_inv (set_stream cid st c)"
  using assms unfolding sc_inv_def set_stream_def by auto

lemma sc_inv_reset:
  assumes "sc_inv c" and "\<And>cid. \<not> live (sc_streams c cid)" and "sc_dialing c = None"
  shows "sc_inv (reset_call_state c)"
  using assms unfolding sc_inv_def reset_call_state_def by auto

lemma sc_inv_dial_end:
  assumes inv: "sc_inv c" and cid: "sc_dialing c = Some cid"
  shows "sc_inv (snd (dial_end outcome cid c))"
proof -
  have act: "sc_active c = Some cid" "sc_streams c cid = None" "cid < sc_next c"
    using inv cid unfolding sc_inv_def by auto
  have out: "calls_of cid (sc_out c) = []"
    using sc_inv_stage [OF inv, of cid] act(2) by (simp add: stage_of_def stage_events_def)
  have dead: "\<not> live (sc_streams c k)" for k
  proof
    assume "live (sc_streams c k)"
    then have "sc_active c = Some k" using inv unfolding sc_inv_def by blast
    with act \<open>live (sc_streams c k)\<close> show False by (simp add: live_def)
  qed
  let ?c = "c\<lparr>sc_dialing := None\<rparr>"
  have c0: "sc_inv ?c" using inv unfolding sc_inv_def by simp
  then have r: "sc_inv (reset_call_state ?c)" using dead by (intro sc_inv_reset) auto
  have single: "sc_inv (set_stream cid (SingleEvent (hangup_event cid x)) (reset_call_state ?c))" for x
    by (rule sc_inv_set_stream [OF r])
      (simp_all add: act out live_def own_stream_def reset_call_state_def)
  have "sc_inv (?c\<lparr>sc_poller := Some (cid, False)\<rparr>)"
    using c0 act by (intro sc_inv_poller) auto
  then have started: "sc_inv (set_stream cid NotStarted (?c\<lparr>sc_poller := Some (cid, False)\<rparr>))"
    by (rule sc_inv_set_stream) (simp_all add: act out own_stream_def)
  show ?thesis
    using single started c0
    by (cases outcome) (simp_all add: dial_end_def Let_def ret_def raise_def)
qed

lemma sc_inv_finally:
  assumes "sc_inv c" and "sc_streams c cid \<noteq> None" and "\<not> live (sc_streams c cid)"
  shows "sc_inv (stream_finally cid c)"
proof (cases "sc_active c = Some cid")
  case True
  have "\<not> live (sc_streams c k)" for k
    using assms True unfolding sc_inv_def by (cases "k = cid") auto
  moreover have "sc_dialing c = None"
    using assms True unfolding sc_inv_def by (cases "sc_dialing c") auto
  ultimately show ?thesis using assms(1) True by (simp add: stream_finally_def sc_inv_reset)
next
  case False
  with assms(1) show ?thesis by (simp add: stream_finally_def)
qed

lemma serial_stage_queue: "serial_stage (st, q) = stage_of (Some st)"
  by (cases st) (simp_all add: stage_of_def)

lemma sc_inv_start: "sc_inv c \<Longrightarrow> sc_inv (start_stream cid c)"
proof -
  assume inv: "sc_inv c"
  show ?thesis
  proof (cases "sc_streams c cid = Some NotStarted")
    case True
    have act: "sc_active c = Some cid" "sc_call_queue c = Some cid" "cid < sc_next c" "sc_dialing c \<noteq> Some cid"
      using inv True unfolding sc_inv_def by (auto simp: live_def)
    have "stage_events 0 (calls_of cid (sc_out c))"
      using sc_inv_stage [OF inv, of cid] True by (simp add: stage_of_def)
    then have "sc_inv (set_stream cid (Draining cid False) c)"
      using inv act by (intro sc_inv_set_stream) (auto simp: own_stream_def stage_of_def)
    with True act show ?thesis by (simp add: start_stream_def)
  next
    case False
    with inv show ?thesis by (simp add: start_stream_def)
  qed
qed

lemma drain_facts:
  "drain q seen evs = (ev, st', evs') \<Longrightarrow>
    (\<forall>e. ev = Some e \<longrightarrow> Some e \<in> set evs) \<and> set evs' \<subseteq> set evs
    \<and> (st' = Exhausted \<or> st' = HangupYielded \<or> (\<exists>s. st' = Draining q s))"
  by (induction q seen evs rule: drain.induct) (auto split: if_splits)

lemma serial_pull_facts:
  assumes "serial_pull [] (st, evs) = (ev, st', evs')" and "own_stream cid st"
    and "\<And>e. Some e \<in> set evs \<Longrightarrow> own_event cid e"
  shows "ev = Some e \<Longrightarrow> own_event cid e" and "set evs' \<subseteq> set evs"
    and "own_stream cid st'" and "live (Some st') \<Longrightarrow> live (Some st)"
  using assms drain_facts [of _ _ "evs" ev st' evs'] by (cases st; force simp: own_stream_def live_def)+

lemma sc_inv_queue_event: "sc_inv c \<Longrightarrow> Some ev \<in> set (sc_queues c q) \<Longrightarrow> own_event q ev"
  unfolding sc_inv_def by blast

lemma sc_inv_set_queue:
  "sc_inv c \<Longrightarrow> (\<And>ev. Some ev \<in> set evs \<Longrightarrow> own_event r ev) \<Longrightarrow> sc_inv (c\<lparr>sc_queues := (sc_queues c)(r := evs)\<rparr>)"
  unfolding sc_inv_def by auto

lemma calls_of_append:
  "(\<And>e. ev = Some e \<Longrightarrow> own_event cid e) \<Longrightarrow>
   calls_of k (evs @ opt_list ev) = (if k = cid then calls_of k evs @ opt_list ev else calls_of k evs)"
  by (cases ev) (auto simp: calls_of_def own_event_def)

lemma sc_inv_advance:
  assumes inv: "sc_inv c" and "cid < sc_next c" and "sc_dialing c \<noteq> Some cid"
    and "live (Some st) \<Longrightarrow> sc_active c = Some cid" and "own_stream cid st"
    and stage: "stage_events (stage_of (Some st)) (calls_of cid (sc_out c) @ opt_list ev)"
    and own: "\<And>e. ev = Some e \<Longrightarrow> own_event cid e"
  shows "sc_inv (set_stream cid st c\<lparr>sc_out := sc_out c @ opt_list ev\<rparr>)"
proof -
  have own': "\<forall>e \<in> set (opt_list ev). own_event (ae_call e) e"
    using own by (cases ev) (auto simp: own_event_def)
  have "stage_events (stage_of (((sc_streams c)(cid \<mapsto> st)) k)) (calls_of k (sc_out c @ opt_list ev))" for k
    using stage sc_inv_stage [OF inv, of k] calls_of_append [OF own, where k = k and evs = "sc_out c"] by simp
  with inv own' assms(2-5) show ?thesis
    unfolding sc_inv_def set_stream_def by auto
qed

lemma sc_inv_next: "sc_inv c0 \<Longrightarrow> sc_inv (snd (stream_next cid c0))"
proof -
  assume inv0: "sc_inv c0"
  define c where "c = start_stream cid c0"
  have inv: "sc_inv c" using inv0 by (simp add: c_def sc_inv_start)
  show ?thesis
  proof (cases "sc_streams c cid")
    case None
    with inv show ?thesis by (simp add: stream_next_def Let_def flip: c_def)
  next
    case (Some st)
    define q where "q = (case stream_queue st of None \<Rightarrow> [] | Some r \<Rightarrow> sc_queues c r)"
    obtain ev st' q' where p: "serial_pull [] (st, q) = (ev, st', q')"
      by (cases "serial_pull [] (st, q)") auto
    have own: "own_stream cid st" and lt: "cid < sc_next c" and nd: "sc_dialing c \<noteq> Some cid"
      using inv Some unfolding sc_inv_def by auto
    have sq: "stream_queue st = Some r \<Longrightarrow> r = cid" for r
      using own by (cases st) (auto simp: own_stream_def)
    have q: "Some e \<in> set q \<Longrightarrow> own_event cid e" for e
    proof (cases "stream_queue st")
      case (Some r)
      moreover have "r = cid" using sq [OF Some] .
      ultimately show "Some e \<in> set q \<Longrightarrow> own_event cid e"
        using inv unfolding sc_inv_def q_def by auto
    qed (simp add: q_def)
    note facts = serial_pull_facts [OF p own q]
    have "stage_events (serial_stage (st, q)) (calls_of cid (sc_out c))"
      using sc_inv_stage [OF inv, of cid] Some by (simp add: serial_stage_queue)
    from serial.pull_extends [OF this, of "[]"]
    have stage: "stage_events (stage_of (Some st')) (calls_of cid (sc_out c) @ opt_list ev)"
      by (simp add: p serial_stage_queue)
    define c1 where "c1 = (case stream_queue st of None \<Rightarrow> c
        | Some r \<Rightarrow> c\<lparr>sc_queues := (sc_queues c)(r := q')\<rparr>)"
    define c2 where "c2 = set_stream cid st' c1\<lparr>sc_out := sc_out c1 @ opt_list ev\<rparr>"
    have "set q' \<subseteq> set (sc_queues c cid)" if "stream_queue st \<noteq> None"
      using facts(2) sq that by (auto simp: q_def)
    then have inv1: "sc_inv c1"
    proof (cases "stream_queue st")
      case None
      with inv show ?thesis by (simp add: c1_def)
    next
      case (Some r)
      have "r = cid" using sq [OF Some] .
      moreover have "own_event cid e" if "Some e \<in> set q'" for e
        using sc_inv_queue_event [OF inv] \<open>stream_queue st \<noteq> None \<Longrightarrow> set q' \<subseteq> set (sc_queues c cid)\<close> Some that
        by blast
      ultimately show ?thesis
        using sc_inv_set_queue [OF inv, of q' r] Some by (simp add: c1_def)
    qed
    have same: "sc_next c1 = sc_next c" "sc_dialing c1 = sc_dialing c" "sc_out c1 = sc_out c"
      "sc_active c1 = sc_active c" "sc_streams c1 = sc_streams c"
      by (simp_all add: c1_def split: option.splits)
    have live': "live (Some st') \<Longrightarrow> sc_active c = Some cid"
      using facts(4) inv Some unfolding sc_inv_def by metis
    have inv2: "sc_inv c2"
      unfolding c2_def
      by (rule sc_inv_advance [OF inv1]) (use facts(1,3) stage live' lt nd in \<open>simp_all add: same\<close>)
    have fin: "sc_inv (stream_finally cid c2)" if "st' = Exhausted"
      using inv2 that by (intro sc_inv_finally) (auto simp: c2_def set_stream_def live_def)
    show ?thesis
      using inv2 fin unfolding c2_def set_stream_def
      by (simp add: stream_next_def Let_def Some p set_stream_def flip: c_def q_def c1_def)
  qed
qed

lemma sc_inv_close: "sc_inv c \<Longrightarrow> sc_inv (stream_close cid c)"
proof -
  assume inv: "sc_inv c"
  show ?thesis
  proof (cases "sc_streams c cid")
    case None
    with inv show ?thesis by (simp add: stream_close_def)
  next
    case (Some st)
    have lt: "cid < sc_next c" and nd: "sc_dialing c \<noteq> Some cid"
      using inv Some unfolding sc_inv_def by auto
    have "stage_events (stage_of (Some st)) (calls_of cid (sc_out c))"
      using sc_inv_stage [OF inv, of cid] Some by simp
    then have "stage_events 2 (calls_of cid (sc_out c))"
      by (rule stage_events_mono) (cases st; simp add: stage_of_def)
    then have "sc_inv (set_stream cid Exhausted c)"
      using inv lt nd by (intro sc_inv_set_stream) (auto simp: live_def own_stream_def stage_of_def)
    then show ?thesis
      using sc_inv_finally [of "set_stream cid Exhausted c" cid]
      by (simp add: stream_close_def Some set_stream_def live_def Let_def)
  qed
qed

lemma sc_inv_step: "sc_inv c \<Longrightarrow> sc_inv (run_step s c)"
  by (cases s) (auto simp: sc_inv_dial_begin sc_inv_dial_end sc_inv_hangup_begin sc_inv_hangup_end sc_inv_urc
      sc_inv_poll_wake sc_inv_poll_reply sc_inv_next sc_inv_close sc_inv_aclose split: option.splits)

lemma reachable_inv: "reachable c \<Longrightarrow> sc_inv c"
  by (induction rule: reachable.induct) (auto intro: sc_inv_init sc_inv_step)


section \<open>Calls\<close>

text \<open>C6. In every interleaving of dials, hang-ups, URCs, polls, pulls and closes, what a call's stream
  has yielded is well formed (\<open>connected\<close> at most once and first, the hang-up at most once and last),
  every yielded hang-up has a cause, and a stream that can still yield belongs to the active call.\<close>

theorem call_events_well_formed:
  assumes "reachable c"
  shows "(well_formed_call (calls_of cid (sc_out c)))
    \<and> (ev \<in> set (sc_out c) \<longrightarrow> ae_event ev = REMOTE_HANGUP \<longrightarrow> ae_cause ev \<noteq> None)
    \<and> (live (sc_streams c cid) \<longrightarrow> sc_active c = Some cid)"
  using reachable_inv [OF assms] stage_events_wf [OF sc_inv_stage [OF reachable_inv [OF assms]]]
  unfolding sc_inv_def own_event_def by blast

definition dial_ok :: sc_step where
  "dial_ok = DialDone (Inr \<lparr>dr_connected = True, dr_hangup_cause = None\<rparr>)"

definition clcc_active :: sc_step where
  "clcc_active = PollReply (Inr \<lparr>ar_ok = True, ar_lines = [''+CLCC: 1,0,0,0,0''], ar_error = None\<rparr>)"

definition call_ex :: serial_client where
  "call_ex = run_steps [Dial, dial_ok, PollWake, clcc_active, Next 0, Urc BUSY, HangupBegin 0, HangupDone,
     Next 0] (serial_client_init None)"

lemma reachable_call_ex: "reachable call_ex"
  unfolding call_ex_def by (intro reachable_run reachable_init)

lemma call_events_well_formed_witness:
  "well_formed_call (calls_of 0 (sc_out call_ex))
   \<and> map ae_cause (sc_out call_ex) = [None, Some ''user_busy'']"
proof -
  have "map ae_cause (sc_out call_ex) = [None, Some ''user_busy'']" by code_simp
  with call_events_well_formed [OF reachable_call_ex, of 0] show ?thesis by blast
qed



lemma drain_progress:
  "None \<notin> set evs \<Longrightarrow> Some h \<in> set evs \<Longrightarrow> ae_event h = REMOTE_HANGUP \<Longrightarrow> drain q seen evs = (ev, st', evs') \<Longrightarrow>
   (\<exists>e. ev = Some e \<and> Some e \<in> set evs \<and> ae_event e = REMOTE_HANGUP \<and> st' = HangupYielded)
   \<or> (st' = Draining q True \<and> length evs' < length evs \<and> None \<notin> set evs' \<and> Some h \<in> set evs' \<and> set evs' \<subseteq> set evs)"
proof (induction q seen evs rule: drain.induct)
  case (3 q seen e evs)
  show ?case
  proof (cases "ae_event e")
    case CONNECTED
    with 3 show ?thesis by (cases seen) auto
  next
    case REMOTE_HANGUP
    with 3 show ?thesis by auto
  qed
qed simp_all

lemma next_draining:
  assumes "sc_streams c a = Some (Draining a seen)" and "drain a seen (sc_queues c a) = (ev, st', q')"
    and "st' \<noteq> Exhausted"
  shows "snd (stream_next a c) = c\<lparr>sc_queues := (sc_queues c)(a := q'), sc_streams := (sc_streams c)(a \<mapsto> st'),
    sc_out := sc_out c @ opt_list ev\<rparr>"
  using assms by (simp add: stream_next_def start_stream_def Let_def set_stream_def)

lemma next_hangup_yielded:
  assumes "sc_streams c a = Some HangupYielded" and "sc_active c = Some a"
  shows "sc_active (snd (stream_next a c)) = None" and "sc_out (snd (stream_next a c)) = sc_out c"
  using assms by (simp_all add: stream_next_def start_stream_def Let_def set_stream_def stream_finally_def
      reset_call_state_def)

lemma pulls_reach_hangup:
  "None \<notin> set (sc_queues c a) \<Longrightarrow> Some h \<in> set (sc_queues c a) \<Longrightarrow> ae_event h = REMOTE_HANGUP \<Longrightarrow>
   sc_streams c a = Some (Draining a seen) \<Longrightarrow> sc_active c = Some a \<Longrightarrow>
   \<exists>n e. n \<le> length (sc_queues c a) + 1 \<and> Some e \<in> set (sc_queues c a) \<and> ae_event e = REMOTE_HANGUP
     \<and> e \<in> set (sc_out (run_steps (replicate n (Next a)) c))
     \<and> sc_active (run_steps (replicate n (Next a)) c) = None"
proof (induction "length (sc_queues c a)" arbitrary: c seen rule: less_induct)
  case less
  obtain ev st' q' where d: "drain a seen (sc_queues c a) = (ev, st', q')"
    by (cases "drain a seen (sc_queues c a)") auto
  consider (hang) e where "ev = Some e" "Some e \<in> set (sc_queues c a)" "ae_event e = REMOTE_HANGUP" "st' = HangupYielded"
    | (more_events) "st' = Draining a True" "length q' < length (sc_queues c a)" "None \<notin> set q'" "Some h \<in> set q'"
        "set q' \<subseteq> set (sc_queues c a)"
    using drain_progress [OF less.prems(1-3) d] by blast
  then show ?case
  proof cases
    case hang
    let ?c1 = "snd (stream_next a c)"
    have c1: "sc_streams ?c1 a = Some HangupYielded" "sc_active ?c1 = Some a" "e \<in> set (sc_out ?c1)"
      using next_draining [OF less.prems(4) d] hang less.prems(5) by simp_all
    have "length (sc_queues c a) \<ge> 1" using hang(2) by (cases "sc_queues c a") auto
    then show ?thesis
      using next_hangup_yielded [OF c1(1,2)] c1(3) hang
      by (intro exI [of _ 2] exI [of _ e]) (simp add: numeral_2_eq_2)
  next
    case more_events
    let ?c1 = "snd (stream_next a c)"
    have c1: "sc_queues ?c1 a = q'" "sc_streams ?c1 a = Some (Draining a True)" "sc_active ?c1 = Some a"
      using next_draining [OF less.prems(4) d] more_events less.prems(5) by simp_all
    from less.hyps [of ?c1 True] c1 more_events less.prems(3)
    obtain n e where n: "n \<le> length q' + 1" "Some e \<in> set q'" "ae_event e = REMOTE_HANGUP"
      "e \<in> set (sc_out (run_steps (replicate n (Next a)) ?c1))"
      "sc_active (run_steps (replicate n (Next a)) ?c1) = None"
      by auto
    then show ?thesis
      using more_events by (intro exI [of _ "Suc n"] exI [of _ e]) auto
  qed
qed



text \<open>Where a \<open>connected\<close> event can be: a queue, a one-event stream, or what was yielded.\<close>

definition has_connected :: "serial_client \<Rightarrow> bool" where
  "has_connected c \<longleftrightarrow> (\<exists>q ev. Some ev \<in> set (sc_queues c q) \<and> ae_event ev = CONNECTED)
     \<or> (\<exists>cid ev. sc_streams c cid = Some (SingleEvent ev) \<and> ae_event ev = CONNECTED)
     \<or> (\<exists>ev \<in> set (sc_out c). ae_event ev = CONNECTED)"

definition reports_active :: "sc_step \<Rightarrow> bool" where
  "reports_active s \<longleftrightarrow> (case s of PollReply (Inr r) \<Rightarrow> clcc_has_active_call (ar_lines r) | _ \<Rightarrow> False)"

lemma has_connected_put:
  "has_connected (queue_put q item c) \<Longrightarrow> (\<And>ev. item = Some ev \<Longrightarrow> ae_event ev \<noteq> CONNECTED) \<Longrightarrow> has_connected c"
  unfolding has_connected_def queue_put_def by (auto split: if_splits)

lemma has_connected_fields:
  "sc_queues c' = sc_queues c \<Longrightarrow> sc_streams c' = sc_streams c \<Longrightarrow> sc_out c' = sc_out c \<Longrightarrow>
   has_connected c' = has_connected c"
  by (simp add: has_connected_def)

lemma has_connected_stream:
  "has_connected (set_stream cid st c) \<Longrightarrow> (\<And>ev. st = SingleEvent ev \<Longrightarrow> ae_event ev \<noteq> CONNECTED) \<Longrightarrow> has_connected c"
  unfolding has_connected_def set_stream_def by (auto split: if_splits)

lemma has_connected_reset [simp]: "has_connected (reset_call_state c) = has_connected c"
  by (rule has_connected_fields) (simp_all add: reset_call_state_def)

lemma has_connected_finally [simp]: "has_connected (stream_finally cid c) = has_connected c"
  by (simp add: stream_finally_def)

lemma has_connected_start: "has_connected (start_stream cid c) \<Longrightarrow> has_connected c"
  by (auto simp: start_stream_def dest: has_connected_stream split: if_splits option.splits)

lemma has_connected_next: "has_connected (snd (stream_next cid c0)) \<Longrightarrow> has_connected c0"
proof -
  define c where "c = start_stream cid c0"
  assume hc: "has_connected (snd (stream_next cid c0))"
  have "has_connected c"
  proof (cases "sc_streams c cid")
    case None
    with hc show ?thesis by (simp add: stream_next_def Let_def flip: c_def)
  next
    case (Some st)
    define q where "q = (case stream_queue st of None \<Rightarrow> [] | Some r \<Rightarrow> sc_queues c r)"
    obtain ev st' q' where p: "serial_pull [] (st, q) = (ev, st', q')"
      by (cases "serial_pull [] (st, q)") auto
    have sub: "stream_queue st = Some r \<Longrightarrow> set q' \<subseteq> set (sc_queues c r)"
      and ev: "ev = Some e \<Longrightarrow> st = SingleEvent e \<or> (\<exists>r. stream_queue st = Some r \<and> Some e \<in> set (sc_queues c r))"
      and st': "st' \<noteq> SingleEvent e" for r e
      using p drain_facts [of _ _ q ev st' q'] by (cases st; force simp: q_def)+
    define c1 where "c1 = (case stream_queue st of None \<Rightarrow> c
        | Some r \<Rightarrow> c\<lparr>sc_queues := (sc_queues c)(r := q')\<rparr>)"
    have subs: "set (sc_queues c1 k) \<subseteq> set (sc_queues c k)" for k
      using sub by (auto simp: c1_def split: option.splits if_splits)
    have same: "sc_streams c1 = sc_streams c" "sc_out c1 = sc_out c"
      by (simp_all add: c1_def split: option.splits)
    have "has_connected (set_stream cid st' c1\<lparr>sc_out := sc_out c1 @ opt_list ev\<rparr>)"
      using hc by (simp add: stream_next_def Let_def Some p set_stream_def flip: c_def q_def c1_def
          split: if_splits)
    then have "(\<exists>k e. Some e \<in> set (sc_queues c1 k) \<and> ae_event e = CONNECTED)
      \<or> (\<exists>k e. ((sc_streams c)(cid \<mapsto> st')) k = Some (SingleEvent e) \<and> ae_event e = CONNECTED)
      \<or> (\<exists>e \<in> set (sc_out c) \<union> set (opt_list ev). ae_event e = CONNECTED)"
      by (simp add: has_connected_def set_stream_def same del: fun_upd_apply)
    then consider k e where "Some e \<in> set (sc_queues c k)" "ae_event e = CONNECTED"
      | k e where "((sc_streams c)(cid \<mapsto> st')) k = Some (SingleEvent e)" "ae_event e = CONNECTED"
      | e where "e \<in> set (sc_out c) \<union> set (opt_list ev)" "ae_event e = CONNECTED"
      using subs by blast
    then show ?thesis
    proof cases
      case 1
      then show ?thesis unfolding has_connected_def by blast
    next
      case 2
      then show ?thesis using st' unfolding has_connected_def by (auto split: if_splits)
    next
      case 3
      then show ?thesis
        using ev [of e] Some unfolding has_connected_def by (cases ev) auto
    qed
  qed
  then show ?thesis unfolding c_def by (rule has_connected_start)
qed

lemma has_connected_step:
  assumes "has_connected (run_step s c)" and "\<not> reports_active s"
  shows "has_connected c"
proof (cases s)
  case Dial
  then show ?thesis
    using assms(1) unfolding has_connected_def
    by (auto simp: dial_begin_def Let_def ret_def raise_def split: option.splits if_splits)
next
  case (DialDone outcome)
  have d: "has_connected (c\<lparr>sc_dialing := None\<rparr>) = has_connected c"
    "has_connected (c\<lparr>sc_dialing := None, sc_poller := Some p\<rparr>) = has_connected c" for p
    by (rule has_connected_fields; simp)+
  show ?thesis
    using assms(1) d DialDone
    by (auto simp: dial_end_def Let_def ret_def raise_def dest!: has_connected_stream
        split: option.splits sum.splits if_splits)
next
  case (HangupBegin cid)
  then show ?thesis using assms(1) by (simp add: hangup_begin_def has_connected_def split: if_splits)
next
  case HangupDone
  have d: "has_connected (c\<lparr>sc_hangups := hs\<rparr>) = has_connected c" for hs
    by (rule has_connected_fields) simp_all
  show ?thesis
    using assms(1) HangupDone d
    by (auto simp: hangup_end_def Let_def dest!: has_connected_put split: list.splits option.splits)
next
  case (Urc t)
  then show ?thesis
    using assms(1) by (auto simp: sc_on_urc_def dest!: has_connected_put split: option.splits)
next
  case PollWake
  then show ?thesis
    using assms(1) by (auto simp: poll_wake_def has_connected_def split: option.splits bool.splits if_splits)
next
  case (PollReply reply)
  have d: "has_connected (c\<lparr>sc_poller := p\<rparr>) = has_connected c" for p
    by (rule has_connected_fields) simp_all
  show ?thesis
    using assms d PollReply
    by (auto simp: poll_reply_def reports_active_def split: option.splits bool.splits sum.splits if_splits)
next
  case (Next cid)
  then show ?thesis using assms(1) has_connected_next by simp
next
  case (CloseStream cid)
  then show ?thesis
    using assms(1) by (auto simp: stream_close_def Let_def dest!: has_connected_stream split: option.splits if_splits)
next
  case Aclose
  have d: "has_connected (c1\<lparr>sc_poller := None, sc_at_closed := True, sc_lock := None\<rparr>) = has_connected c1" for c1
    by (rule has_connected_fields) simp_all
  show ?thesis
    using assms(1) Aclose d
    by (auto simp: sc_aclose_def Let_def dest!: has_connected_put split: option.splits)
qed

text \<open>C16. A stream yields \<open>connected\<close> only if the modem reported an active call: without an \<open>AT+CLCC\<close> reply
  that lists a call in state 0 no run yields it, whatever the answer to \<open>ATD\<close> was.\<close>

theorem connected_needs_clcc_report:
  assumes "ev \<in> set (sc_out (run_steps ss (serial_client_init lock)))" and "ae_event ev = CONNECTED"
  shows "\<exists>r. PollReply (Inr r) \<in> set ss \<and> clcc_has_active_call (ar_lines r)"
proof -
  have "has_connected (run_steps ss c) \<Longrightarrow> \<not> has_connected c \<Longrightarrow> \<exists>s \<in> set ss. reports_active s" for c
    by (induction ss arbitrary: c) (auto dest: has_connected_step)
  moreover have "has_connected (run_steps ss (serial_client_init lock))"
    using assms unfolding has_connected_def by blast
  moreover have "\<not> has_connected (serial_client_init lock)"
    by (simp add: has_connected_def serial_client_init_def)
  ultimately obtain s where "s \<in> set ss" "reports_active s" by blast
  then show ?thesis
    by (auto simp: reports_active_def split: sc_step.splits sum.splits)
qed

lemma connected_needs_clcc_report_witness:
  "\<exists>r. PollReply (Inr r) \<in> set [Dial, dial_ok, PollWake, clcc_active, Next 0] \<and> clcc_has_active_call (ar_lines r)"
proof -
  have "sc_out (run_steps [Dial, dial_ok, PollWake, clcc_active, Next 0] (serial_client_init None))
    = [connected_event 0]" by code_simp
  then show ?thesis
    using connected_needs_clcc_report [of "connected_event 0" "[Dial, dial_ok, PollWake, clcc_active, Next 0]" None]
    by simp
qed

text \<open>The state a cancelled dial leaves behind.\<close>

definition abandoned :: "nat \<Rightarrow> serial_client \<Rightarrow> bool" where
  "abandoned d c \<longleftrightarrow> sc_active c = Some d \<and> sc_streams c d = None \<and> sc_dialing c = None"

lemma abandoned_step: "abandoned d c \<Longrightarrow> abandoned d (run_step s c)"
proof (cases s)
  case (Next cid)
  assume ab: "abandoned d c"
  have st: "abandoned d (start_stream cid c)"
    using ab by (auto simp: abandoned_def start_stream_def set_stream_def split: option.splits)
  show ?thesis
  proof (cases "cid = d")
    case True
    with st Next show ?thesis by (simp add: stream_next_def Let_def abandoned_def)
  next
    case False
    with st Next show ?thesis
      by (auto simp: stream_next_def Let_def abandoned_def set_stream_def stream_finally_def
          split: option.splits prod.splits)
  qed
qed (auto simp: abandoned_def dial_begin_def ret_def raise_def hangup_begin_def hangup_end_def queue_put_def
    sc_on_urc_def poll_wake_def poll_reply_def stream_close_def set_stream_def stream_finally_def sc_aclose_def
    Let_def split: option.splits list.splits bool.splits sum.splits)

text \<open>A dial cancelled while it waits for the modem leaves the client unusable: \<open>CancelledError\<close> passes the
  handler that resets the call state, the call has no stream whose end could reset it, and in every
  later run of the client each dial raises.\<close>

theorem cancelled_dial_blocks_client:
  assumes "reachable c" and "sc_dialing c = Some d"
  shows "fst (dial_begin (run_steps ss (run_step (DialDone (Inl Cancelled)) c)))
    = Inl (RuntimeError (''another call is active (call_id='' @ nat_str d @ '')''))"
proof -
  have "sc_active c = Some d" "sc_streams c d = None"
    using reachable_inv [OF assms(1)] assms(2) unfolding sc_inv_def by auto
  then have "abandoned d (run_step (DialDone (Inl Cancelled)) c)"
    using assms(2) by (simp add: abandoned_def dial_end_def is_exception_def raise_def)
  moreover have "abandoned d c \<Longrightarrow> abandoned d (run_steps ss c)" for c
    by (induction ss arbitrary: c) (auto simp: abandoned_step)
  ultimately have "sc_active (run_steps ss (run_step (DialDone (Inl Cancelled)) c)) = Some d"
    by (simp add: abandoned_def)
  then show ?thesis by (simp add: dial_begin_def raise_def Let_def)
qed

lemma cancelled_dial_blocks_client_witness:
  "fst (dial_begin (run_steps [Urc NO_CARRIER, Next 0, Aclose]
      (run_step (DialDone (Inl Cancelled)) (run_steps [Dial] (serial_client_init None)))))
    = Inl (RuntimeError (''another call is active (call_id='' @ nat_str 0 @ '')''))"
proof -
  have "sc_dialing (run_steps [Dial] (serial_client_init None)) = Some 0" by code_simp
  from cancelled_dial_blocks_client [OF reachable_run [OF reachable_init] this] show ?thesis .
qed


section \<open>The PCM switch and opening a modem\<close>

definition except_at_error :: "('s, 'a) proc \<Rightarrow> (pyexn \<Rightarrow> ('s, 'a) proc) \<Rightarrow> ('s, 'a) proc" where
  "except_at_error m h = catchm m (\<lambda>e. if is_at_error e then Some (h e) else None)"

definition cpcmreg_enable :: "(string \<Rightarrow> ('s, at_response) proc) \<Rightarrow> ('s, unit) proc" where
  "cpcmreg_enable send = except_at_error
     (bindm (send ''AT+CPCMREG=1'') (\<lambda>_. ret ()))
     (\<lambda>_. seqm (except_at_error (bindm (send ''AT+CPCMREG=0'') (\<lambda>_. ret ())) (\<lambda>_. ret ()))
        (except_at_error (bindm (send ''AT+CPCMREG=1'') (\<lambda>_. ret ()))
          (\<lambda>e2. raise (PcmEnableError (exc_message e2)))))"

definition cpcmreg_disable :: "(string \<Rightarrow> ('s, at_response) proc) \<Rightarrow> ('s, unit) proc" where
  "cpcmreg_disable send = except_at_error (bindm (send ''AT+CPCMREG=0'') (\<lambda>_. ret ())) (\<lambda>_. ret ())"

text \<open>The AT client with what arrives during each of its next commands.\<close>

definition wire_send :: "string \<Rightarrow> (at_client \<times> string list list, at_response) proc" where
  "wire_send command w = (case w of (c, arrivals) \<Rightarrow>
     (case at_send (case arrivals of [] \<Rightarrow> [] | a # _ \<Rightarrow> a) command c of (r, c') \<Rightarrow> (r, (c', tl arrivals))))"

record tty =
  tt_writer_open :: bool
  tt_at :: at_client
  tt_locks :: "int set"

text \<open>\<open>create_from_tty\<close>: \<open>fail\<close> is how opening fails, \<open>fd\<close> the descriptor found on the transport,
  \<open>contended\<close> whether another process holds its lock. Closing the AT client closes the writer.\<close>

definition create_from_tty ::
  "platform \<Rightarrow> open_error option \<Rightarrow> int option \<Rightarrow> bool \<Rightarrow> (string \<Rightarrow> (at_client, at_response) proc) \<Rightarrow> string
   \<Rightarrow> (tty, serial_client \<times> driver) proc" where
  "create_from_tty plat fail fd contended send hint s =
    (case fail of
       Some exc \<Rightarrow> (case translate_open_error plat exc of
           Some busy \<Rightarrow> raise busy s
         | None \<Rightarrow> raise (RuntimeError ''failed to open'') s)
     | None \<Rightarrow>
        let s1 = s\<lparr>tt_writer_open := True\<rparr> in
        (case acquire_exclusive plat contended fd of
           Inl e \<Rightarrow> raise e (s1\<lparr>tt_writer_open := False\<rparr>)
         | Inr handle \<Rightarrow>
             let locked = (case handle of None \<Rightarrow> tt_locks s1 | Some f \<Rightarrow> insert f (tt_locks s1));
                 (r, at) = bindm (detect_driver send hint) (\<lambda>d. bindm (driver_init send) (\<lambda>_. ret d)) at_client_init;
                 s2 = s1\<lparr>tt_at := at, tt_locks := locked\<rparr>
             in (case r of
                   Inr d \<Rightarrow> ret (serial_client_init handle, d) s2
                 | Inl e \<Rightarrow> if is_exception e
                     then raise e (s2\<lparr>tt_at := at_aclose at, tt_writer_open := False,
                       tt_locks := release plat handle locked\<rparr>)
                     else raise e s2)))"

lemma terminal_at_error: "terminal l = Some (Some e) \<Longrightarrow> is_at_error e"
  by (auto simp: terminal_def is_at_error_def split: if_splits)

text \<open>The client after a command whose terminal answer came in time.\<close>

definition answered :: "at_client \<Rightarrow> string \<Rightarrow> string list \<Rightarrow> at_client" where
  "answered c command raws = c\<lparr>ac_pending := [], ac_responses := [],
     ac_written := ac_written c @ [cr_line command],
     ac_urcs := ac_urcs c @ urc_lines (ac_handlers c) raws\<rparr>"

lemma answered_simps [simp]:
  "ac_closed (answered c x raws) = ac_closed c" "ac_responses (answered c x raws) = []"
  "ac_written (answered c x raws) = ac_written c @ [cr_line x]"
  by (simp_all add: answered_def)

lemma wire_send_answer:
  assumes "\<not> ac_closed c" and "ac_responses c = []" and "no_terminal raws" and "terminal (strip_line fin) = Some err"
  shows "wire_send command (c, (raws @ [fin]) # rest)
    = (case err of None \<Rightarrow> Inr \<lparr>ar_ok = True, ar_lines = body_lines raws, ar_error = None\<rparr>
         | Some e \<Rightarrow> Inl e, (answered c command raws, rest))"
  using at_send_answer [OF assms, of command] by (simp add: wire_send_def answered_def)

text \<open>When the modem answers each command in time, enabling the PCM stream succeeds iff it accepts the
  first or the second \<open>AT+CPCMREG=1\<close>; between them comes one \<open>AT+CPCMREG=0\<close> whose answer does not matter;
  the only exception is \<open>PcmEnableError\<close> with the second refusal's text; and disabling never raises.\<close>

theorem cpcmreg_enable_retries_once:
  assumes "\<not> ac_closed c" and "ac_responses c = []"
    and "no_terminal raws1" and "terminal (strip_line fin1) = Some err1"
    and "no_terminal raws2" and "terminal (strip_line fin2) = Some err2"
    and "no_terminal raws3" and "terminal (strip_line fin3) = Some err3"
    and "cpcmreg_enable wire_send (c, [raws1 @ [fin1], raws2 @ [fin2], raws3 @ [fin3]]) = (r, (c', rest))"
  shows "(r = (if err1 = None then Inr () else case err3 of None \<Rightarrow> Inr ()
      | Some e \<Rightarrow> Inl (PcmEnableError (exc_message e))))
    \<and> (ac_written c' = ac_written c @ map cr_line (if err1 = None then [''AT+CPCMREG=1'']
      else [''AT+CPCMREG=1'', ''AT+CPCMREG=0'', ''AT+CPCMREG=1'']))
    \<and> (fst (cpcmreg_disable wire_send (c, [raws2 @ [fin2]])) = Inr ())"
proof -
  let ?c1 = "answered c ''AT+CPCMREG=1'' raws1"
  let ?c2 = "answered ?c1 ''AT+CPCMREG=0'' raws2"
  note s1 = wire_send_answer [OF assms(1-4), of "''AT+CPCMREG=1''"]
  note s2 = wire_send_answer [OF _ _ assms(5,6), of ?c1 "''AT+CPCMREG=0''"]
  note s3 = wire_send_answer [OF _ _ assms(7,8), of ?c2 "''AT+CPCMREG=1''"]
  note s0 = wire_send_answer [OF assms(1,2) assms(5,6), of "''AT+CPCMREG=0''"]
  have e: "err1 = Some e \<Longrightarrow> is_at_error e" "err2 = Some e \<Longrightarrow> is_at_error e" "err3 = Some e \<Longrightarrow> is_at_error e" for e
    using terminal_at_error assms(4,6,8) by blast+
  have "fst (cpcmreg_disable wire_send (c, [raws2 @ [fin2]])) = Inr ()"
    using e(2) by (cases err2) (simp_all add: cpcmreg_disable_def except_at_error_def method_defs s0)
  moreover have "r = (if err1 = None then Inr () else case err3 of None \<Rightarrow> Inr ()
      | Some e \<Rightarrow> Inl (PcmEnableError (exc_message e)))
    \<and> ac_written c' = ac_written c @ map cr_line (if err1 = None then [''AT+CPCMREG=1'']
      else [''AT+CPCMREG=1'', ''AT+CPCMREG=0'', ''AT+CPCMREG=1''])"
  proof (cases err1)
    case None
    then show ?thesis
      using assms(9) by (auto simp: cpcmreg_enable_def except_at_error_def method_defs s1)
  next
    case (Some e1)
    then show ?thesis
      using assms(1,2,9) e
      by (cases err2; cases err3)
        (auto simp: cpcmreg_enable_def except_at_error_def method_defs s1 s2 s3)
  qed
  ultimately show ?thesis by blast
qed

lemma cpcmreg_enable_retries_once_witness:
  "fst (cpcmreg_enable wire_send (at_ex, [[] @ [''ERROR''], [] @ [''OK''], [] @ [''+CME ERROR: 3'']]))
    = Inl (PcmEnableError ''+CME ERROR: 3'')"
proof -
  have pre: "\<not> ac_closed at_ex" "ac_responses at_ex = []" "no_terminal []"
    by (code_simp, code_simp, simp add: no_terminal_def)
  have t: "terminal (strip_line ''ERROR'') = Some (Some (AtCommandError ''ERROR'' []))"
    "terminal (strip_line ''OK'') = Some None"
    "terminal (strip_line ''+CME ERROR: 3'') = Some (Some (AtCommandError ''+CME ERROR'' ''3''))"
    by (code_simp, code_simp, code_simp)
  obtain r c' rest where run: "cpcmreg_enable wire_send (at_ex, [[] @ [''ERROR''], [] @ [''OK''], [] @ [''+CME ERROR: 3'']])
    = (r, (c', rest))" by (metis prod.exhaust)
  from cpcmreg_enable_retries_once [OF pre(1,2) pre(3) t(1) pre(3) t(2) pre(3) t(3) run] run
  show ?thesis by simp
qed

text \<open>When the modem is slow the retry reads stale answers: if the first \<open>AT+CPCMREG=1\<close> times out and its
  \<open>OK\<close> arrives during the reset, the reset takes that answer, the second \<open>AT+CPCMREG=1\<close> takes the answer
  of the reset, and the call reports success although the modem refused the second enable; that
  refusal stays queued for the command after it.\<close>

theorem cpcmreg_enable_takes_stale_answers:
  assumes "\<not> ac_closed c" and "ac_responses c = []"
    and "no_terminal raws1" and "no_terminal late" and "terminal (strip_line fin1) = Some None"
    and "no_terminal raws2" and "terminal (strip_line fin2) = Some None"
    and "no_terminal raws3" and "terminal (strip_line fin3) = Some (Some refusal)"
    and "cpcmreg_enable wire_send (c, [raws1, late @ [fin1] @ raws2 @ [fin2], raws3 @ [fin3]]) = (r, (c', rest))"
  shows "(r = Inr ())
    \<and> (map ar_error (ac_responses c') = [Some refusal])"
proof -
  have fin: "strip_line fin1 \<noteq> []" "fin1 \<noteq> []" "strip_line fin2 \<noteq> []" "fin2 \<noteq> []"
    "strip_line fin3 \<noteq> []" "fin3 \<noteq> []"
    using terminal_nonempty [OF assms(5)] terminal_nonempty [OF assms(7)] terminal_nonempty [OF assms(9)]
      nonempty_strip_line by blast+
  show ?thesis
    using assms fin
    by (auto simp: cpcmreg_enable_def except_at_error_def method_defs wire_send_def at_send_timeout
        at_send_def [of "late @ _"] at_send_def [of "raws3 @ _"]
        read_loop_body dispatch_line_def respond_def Let_def is_at_error_def)
qed

lemma cpcmreg_enable_takes_stale_answers_witness:
  "fst (cpcmreg_enable wire_send (at_ex, [[], [] @ [''OK''] @ [] @ [''OK''], [] @ [''ERROR'']])) = Inr ()"
proof -
  have pre: "\<not> ac_closed at_ex" "ac_responses at_ex = []" "no_terminal []"
    by (code_simp, code_simp, simp add: no_terminal_def)
  have t: "terminal (strip_line ''OK'') = Some None"
    "terminal (strip_line ''ERROR'') = Some (Some (AtCommandError ''ERROR'' []))"
    by (code_simp, code_simp)
  obtain r c' rest where run: "cpcmreg_enable wire_send
      (at_ex, [[], [] @ [''OK''] @ [] @ [''OK''], [] @ [''ERROR'']]) = (r, (c', rest))" by (metis prod.exhaust)
  from cpcmreg_enable_takes_stale_answers [OF pre(1,2) pre(3) pre(3) t(1) pre(3) t(1) pre(3) t(2) run] run
  show ?thesis by simp
qed

text \<open>Opening a modem leaks nothing when it fails with an exception: the writer is closed and exactly the
  locks held before are held. On success the writer is open and on POSIX the descriptor is locked. A
  cancellation during detection passes the handler and leaves the writer open and the lock taken.\<close>

theorem create_from_tty_releases:
  assumes "create_from_tty plat fail fd contended send hint s = (r, s')"
    and "\<not> tt_writer_open s" and "\<forall>f. fd = Some f \<longrightarrow> f \<notin> tt_locks s"
  shows "(r = Inl e \<longrightarrow> e \<noteq> Cancelled \<longrightarrow> \<not> tt_writer_open s' \<and> tt_locks s' = tt_locks s)
    \<and> (r = Inr (client, d) \<longrightarrow> tt_writer_open s' \<and> sc_lock client = (if plat = Windows then None else fd)
      \<and> tt_locks s' = tt_locks s \<union> set_option (sc_lock client))
    \<and> (r = Inl Cancelled \<longrightarrow> tt_writer_open s' \<and> (plat = Posix \<longrightarrow> (\<exists>f. fd = Some f \<and> f \<in> tt_locks s')))"
  using assms
  by (auto simp: create_from_tty_def raise_def ret_def Let_def translate_open_error_def acquire_exclusive_def
      release_def is_exception_def serial_client_init_def
      split: option.splits if_splits sum.splits prod.splits platform.splits)

definition tty_ex :: tty where
  "tty_ex = \<lparr>tt_writer_open = False, tt_at = at_client_init, tt_locks = {}\<rparr>"

lemma create_from_tty_releases_witness:
  "\<not> tt_writer_open (snd (create_from_tty Posix None (Some 7) False (at_send [''ERROR'']) ''a7670'' tty_ex))"
proof -
  let ?run = "create_from_tty Posix None (Some 7) False (at_send [''ERROR'']) ''a7670'' tty_ex"
  obtain r s' where run: "?run = (r, s')" by (metis prod.exhaust)
  have "case fst ?run of Inl e \<Rightarrow> e = AtCommandError ''ERROR'' [] | Inr _ \<Rightarrow> False" by code_simp
  with run have r: "r = Inl (AtCommandError ''ERROR'' [])" by (auto split: sum.splits)
  from create_from_tty_releases [OF run] r run show ?thesis by (simp add: tty_ex_def)
qed

end
