(* ===== verification/Drop_Oldest.thy ===== *)
theory Drop_Oldest imports Prelude begin

text \<open>
  The contract shared by every bounded buffer of the edge: the PCM ring, the jitter buffer, the
  in-memory frame deque and the SQLite frame table all take a new element by dropping a (possibly
  empty) run of the oldest ones. The locale states that contract once; the ring and the jitter
  buffer interpret it, and the contents of the deque and of the table are given exactly by \<open>newest\<close>.
\<close>

datatype 'x queue_op = Push 'x | Pop

fun pushed :: "'x queue_op list \<Rightarrow> 'x list" where
  "pushed [] = []"
| "pushed (Push x # ops) = x # pushed ops"
| "pushed (Pop # ops) = pushed ops"

text \<open>Run a sequence of operations; the result lists what the pops took out, in order.\<close>

fun run_queue :: "('s \<Rightarrow> 'x list) \<Rightarrow> ('x \<Rightarrow> 's \<Rightarrow> 's) \<Rightarrow> ('s \<Rightarrow> 's) \<Rightarrow> 's \<Rightarrow> 'x queue_op list
    \<Rightarrow> 'x list \<times> 's" where
  "run_queue content push pop s [] = ([], s)"
| "run_queue content push pop s (Push x # ops) = run_queue content push pop (push x s) ops"
| "run_queue content push pop s (Pop # ops) =
     (case run_queue content push pop (pop s) ops of (out, s') \<Rightarrow> (take 1 (content s) @ out, s'))"

lemma pushed_map_Push [simp]: "pushed (map Push xs) = xs"
  by (induction xs) auto

lemma subseq_drop_append: "subseq (drop k xs @ ys) (xs @ ys)"
  by (metis append_take_drop_id subseq_rev_drop_many append.assoc subseq_append_iff
      list_emb_append2 subseq_order.order_refl)

text \<open>The newest \<open>n\<close> elements of a list.\<close>

definition newest :: "nat \<Rightarrow> 'a list \<Rightarrow> 'a list" where
  "newest n xs = drop (length xs - n) xs"

lemma newest_all [simp]: "length xs \<le> n \<Longrightarrow> newest n xs = xs"
  by (simp add: newest_def)

lemma length_newest [simp]: "length (newest n xs) = min n (length xs)"
  by (simp add: newest_def)

lemma newest_newest_append: "newest n (newest n xs @ ys) = newest n (xs @ ys)"
  by (cases "length xs \<le> n") (auto simp: newest_def add.commute)

lemma map_newest: "map f (newest n xs) = newest n (map f xs)"
  by (simp add: newest_def drop_map)

lemma newest_is_drop: "\<exists>k. newest n xs = drop k xs"
  by (auto simp: newest_def)

text \<open>\<open>deque(maxlen=m).append\<close> drops from the front what exceeds \<open>m\<close>.\<close>

definition deque_append :: "nat \<Rightarrow> 'a list \<Rightarrow> 'a \<Rightarrow> 'a list" where
  "deque_append m xs x = drop (length xs + 1 - m) (xs @ [x])"

lemma deque_append_newest: "deque_append m xs x = newest m (xs @ [x])"
  by (simp add: deque_append_def newest_def)

locale drop_oldest =
  fixes inv :: "'s \<Rightarrow> bool"
    and content :: "'s \<Rightarrow> 'x list"
    and push :: "'x \<Rightarrow> 's \<Rightarrow> 's"
    and pop :: "'s \<Rightarrow> 's"
  assumes inv_push: "inv s \<Longrightarrow> inv (push x s)"
    and inv_pop: "inv s \<Longrightarrow> inv (pop s)"
    and content_push: "inv s \<Longrightarrow>
      content (push x s) = content s \<or> (\<exists>k. content (push x s) = drop k (content s) @ [x])"
    and content_pop: "inv s \<Longrightarrow> content (pop s) = tl (content s)"
begin

lemma push_subseq: "inv s \<Longrightarrow> subseq (content (push x s)) (content s @ [x])"
  using content_push [of s x] subseq_drop_append [of _ "content s" "[x]"]
  by (auto intro: subseq_order.order_trans)

lemma run_inv: "inv s \<Longrightarrow> inv (snd (run_queue content push pop s ops))"
proof (induction ops arbitrary: s)
  case Nil
  then show ?case by simp
next
  case (Cons op ops)
  then show ?case
    by (cases op) (auto simp: inv_push inv_pop split: prod.splits, metis inv_pop snd_conv)
qed

text \<open>Nothing is invented, duplicated or reordered: what came out, followed by what is still
  queued, is a subsequence of what was queued at the start followed by what was pushed.\<close>

lemma run_fifo:
  "inv s \<Longrightarrow> run_queue content push pop s ops = (out, s') \<Longrightarrow>
   subseq (out @ content s') (content s @ pushed ops)"
proof (induction ops arbitrary: s out)
  case Nil
  then show ?case by simp
next
  case (Cons op ops)
  show ?case
  proof (cases op)
    case (Push x)
    with Cons.prems Cons.IH [OF inv_push]
    have "subseq (out @ content s') (content (push x s) @ pushed ops)"
      by simp
    moreover have "subseq (content (push x s) @ pushed ops) ((content s @ [x]) @ pushed ops)"
      using push_subseq [OF Cons.prems(1)] by (rule list_emb_append_mono) simp
    ultimately show ?thesis
      using Push by (auto intro: subseq_order.order_trans)
  next
    case Pop
    with Cons.prems obtain out' where
      run: "run_queue content push pop (pop s) ops = (out', s')" and
      out: "out = take 1 (content s) @ out'"
      by (auto split: prod.splits)
    from Cons.IH [OF inv_pop [OF Cons.prems(1)] run]
    have "subseq (out' @ content s') (tl (content s) @ pushed ops)"
      by (simp add: content_pop Cons.prems(1))
    with out Pop show ?thesis
      by (cases "content s") auto
  qed
qed

end

end
