(* ===== verification/Event_Buffer.thy ===== *)
theory Event_Buffer imports Drop_Oldest begin

text \<open>
  The durable frame buffer of \<open>transport/sqlite_buffer.py\<close>. The table \<open>pending_events\<close> is the list
  of its rows in insertion order, each a sequence number and a serialised frame; \<open>eb_next\<close> is the
  next AUTOINCREMENT value. \<open>eb_read_ok\<close> and \<open>eb_write_ok\<close> say whether SQLite statements succeed.
  \<open>iter_pending\<close> is a generator: its state is the last sequence number it has passed and the rest of
  the page it is reading. Protobuf parsing is a parameter, \<open>None\<close> where it raises.
\<close>

record 'p ebuf =
  eb_open :: bool
  eb_capacity :: int
  eb_rows :: "(int \<times> 'p) list"
  eb_next :: int
  eb_evicted :: int
  eb_read_ok :: bool
  eb_write_ok :: bool

definition sqlite_error :: pyexn where
  "sqlite_error = OtherError ''sqlite3.Error''"

definition ebuf_init :: "int \<Rightarrow> pyexn + 'p ebuf" where
  "ebuf_init capacity_rows =
     (if capacity_rows \<le> 0 then Inl (ValueError ''capacity_rows must be positive'')
      else Inr \<lparr>eb_open = False, eb_capacity = capacity_rows, eb_rows = [], eb_next = 1,
                eb_evicted = 0, eb_read_ok = True, eb_write_ok = True\<rparr>)"

definition ebuf_open :: "('p ebuf, unit) proc" where
  "ebuf_open b =
     (if eb_open b then ret () b
      else if \<not> eb_write_ok b then raise (BufferError ''failed to open buffer'') b
      else ret () (b\<lparr>eb_open := True\<rparr>))"

definition ebuf_close :: "('p ebuf, unit) proc" where
  "ebuf_close b = (if eb_open b then ret () (b\<lparr>eb_open := False\<rparr>) else ret () b)"

definition require_open :: "('p ebuf, unit) proc" where
  "require_open b = (if eb_open b then ret () b else raise (BufferError ''buffer not opened'') b)"

text \<open>\<open>_enforce_capacity_locked\<close>: delete the \<open>excess\<close> smallest sequence numbers.\<close>

definition enforce_capacity :: "('p ebuf, int) proc" where
  "enforce_capacity b =
     (if \<not> eb_read_ok b then raise sqlite_error b
      else let count = int (length (eb_rows b)) in
        if count \<le> eb_capacity b then ret 0 b
        else if \<not> eb_write_ok b then raise sqlite_error b
        else let excess = count - eb_capacity b;
                 victims = take (nat excess) (sort (map fst (eb_rows b)));
                 rows' = filter (\<lambda>r. fst r \<notin> set victims) (eb_rows b)
             in ret (count - int (length rows')) (b\<lparr>eb_rows := rows'\<rparr>))"

definition ebuf_append :: "'p \<Rightarrow> ('p ebuf, int) proc" where
  "ebuf_append payload = seqm require_open (\<lambda>b.
     if \<not> eb_write_ok b then raise (BufferError ''append failed'') b
     else let seq = eb_next b in
       bindm enforce_capacity (\<lambda>evicted b'. ret seq (b'\<lparr>eb_evicted := eb_evicted b' + evicted\<rparr>))
         (b\<lparr>eb_rows := eb_rows b @ [(seq, payload)], eb_next := seq + 1\<rparr>))"

definition ebuf_len :: "('p ebuf, int) proc" where
  "ebuf_len = seqm require_open (\<lambda>b.
     if \<not> eb_read_ok b then raise sqlite_error b else ret (int (length (eb_rows b))) b)"

definition delete_through :: "int \<Rightarrow> ('p ebuf, int) proc" where
  "delete_through seq = seqm require_open (\<lambda>b.
     if \<not> eb_write_ok b then raise (BufferError ''delete_through failed'') b
     else let rows' = filter (\<lambda>r. seq < fst r) (eb_rows b)
          in ret (int (length (eb_rows b)) - int (length rows')) (b\<lparr>eb_rows := rows'\<rparr>))"

definition ebuf_clear :: "('p ebuf, int) proc" where
  "ebuf_clear = seqm require_open (\<lambda>b.
     if \<not> eb_write_ok b then raise (BufferError ''clear failed'') b
     else ret (int (length (eb_rows b))) (b\<lparr>eb_rows := []\<rparr>))"


section \<open>The generator\<close>

type_synonym 'p pager = "int \<times> (int \<times> 'p) list"

definition pager_start :: "'p pager" where
  "pager_start = (-1, [])"

definition fetch_page :: "int \<Rightarrow> (int \<times> 'p) list \<Rightarrow> (int \<times> 'p) list" where
  "fetch_page last_yielded rows = take 256 (sort_key fst (filter (\<lambda>r. last_yielded < fst r) rows))"

text \<open>The inner loop: skip corrupt rows up to the next one that parses.\<close>

fun scan_page :: "('p \<Rightarrow> 'm option) \<Rightarrow> int \<Rightarrow> (int \<times> 'p) list
    \<Rightarrow> ((int \<times> 'm) \<times> (int \<times> 'p) list) option \<times> int" where
  "scan_page parse l [] = (None, l)"
| "scan_page parse l ((seq, p) # rest) =
     (case parse p of None \<Rightarrow> scan_page parse seq rest | Some m \<Rightarrow> (Some ((seq, m), rest), seq))"

definition pager_end :: "'p pager \<Rightarrow> int" where
  "pager_end it = (if snd it = [] then fst it else fst (last (snd it)))"

lemma scan_page_None: "scan_page parse l page = (None, l') \<Longrightarrow> l' = pager_end (l, page)"
  by (induction parse l page rule: scan_page.induct)
    (auto simp: pager_end_def split: option.splits if_splits)

lemma fetch_page_last:
  assumes "fetch_page l rows \<noteq> []"
  shows "last (fetch_page l rows) \<in> set rows \<and> l < fst (last (fetch_page l rows))"
proof -
  have "last (fetch_page l rows) \<in> set (fetch_page l rows)"
    using assms by simp
  then have "last (fetch_page l rows) \<in> set (sort_key fst (filter (\<lambda>r. l < fst r) rows))"
    unfolding fetch_page_def by (rule in_set_takeD)
  then show ?thesis by simp
qed

lemma rows_after_smaller:
  fixes rows :: "(int \<times> 'p) list"
  assumes "r \<in> set rows" and "l < fst r"
  shows "length (filter (\<lambda>x. fst r < fst x) rows) < length (filter (\<lambda>x. l < fst x) rows)"
proof -
  have "filter (\<lambda>x. fst r < fst x) rows = filter (\<lambda>x. fst r < fst x) (filter (\<lambda>x. l < fst x) rows)"
    by (subst filter_filter) (rule filter_cong [OF refl], use assms(2) in auto)
  also have "length \<dots> < length (filter (\<lambda>x. l < fst x) rows)"
    by (rule length_filter_less [of r]) (use assms in auto)
  finally show ?thesis .
qed

lemma pager_progress:
  assumes "scan_page parse (fst it) (snd it) = (None, l)" and "fetch_page l rows \<noteq> []"
  shows "length (filter (\<lambda>r. pager_end (l, fetch_page l rows) < fst r) rows)
    < length (filter (\<lambda>r. pager_end it < fst r) rows)"
  using assms fetch_page_last [of l rows] rows_after_smaller [of "last (fetch_page l rows)" rows l]
    scan_page_None [of parse "fst it" "snd it" l]
  by (simp add: pager_end_def)

text \<open>\<open>next(it)\<close>: the next pair, or \<open>None\<close> when the generator returns.\<close>

function pager_next :: "('p \<Rightarrow> 'm option) \<Rightarrow> (int \<times> 'p) list \<Rightarrow> 'p pager
    \<Rightarrow> (int \<times> 'm) option \<times> 'p pager" where
  "pager_next parse rows it = (case scan_page parse (fst it) (snd it) of
       (Some (pair, rest), l) \<Rightarrow> (Some pair, (l, rest))
     | (None, l) \<Rightarrow>
         if fetch_page l rows = [] then (None, (l, []))
         else pager_next parse rows (l, fetch_page l rows))"
  by pat_completeness auto
termination
  by (relation "measure (\<lambda>(parse, rows, it). length (filter (\<lambda>r. pager_end it < fst r) rows))")
    (auto dest!: sym [of _ "scan_page _ _ _"] intro: pager_progress)

declare pager_next.simps [simp del]


section \<open>What the generator yields\<close>

definition corrupt :: "('p \<Rightarrow> 'm option) \<Rightarrow> int \<times> 'p \<Rightarrow> bool" where
  "corrupt parse r \<longleftrightarrow> parse (snd r) = None"

text \<open>The rows still ahead of the generator: what it passed is \<open>dead\<close>, its page is a prefix of the
  rest.\<close>

definition ahead :: "(int \<times> 'p) list \<Rightarrow> 'p pager \<Rightarrow> (int \<times> 'p) list \<Rightarrow> bool" where
  "ahead rows it live \<longleftrightarrow> (\<exists>dead. rows = dead @ live \<and> (\<forall>r \<in> set dead. fst r \<le> fst it))
     \<and> sorted_wrt (<) (map fst live) \<and> (\<forall>r \<in> set live. fst it < fst r) \<and> prefix (snd it) live"

lemma scan_page_SomeD:
  "scan_page parse l page = (Some ((s, m), rest), l') \<Longrightarrow>
   \<exists>pre p. page = pre @ (s, p) # rest \<and> (\<forall>r \<in> set pre. corrupt parse r) \<and> parse p = Some m \<and> l' = s"
proof (induction parse l page rule: scan_page.induct)
  case (1 parse l)
  then show ?case by simp
next
  case (2 parse l seq p page)
  show ?case
  proof (cases "parse p")
    case None
    with "2.IH" "2.prems" obtain pre q where
      "page = pre @ (s, q) # rest" "\<forall>r \<in> set pre. corrupt parse r" "parse q = Some m" "l' = s"
      by auto
    with None show ?thesis
      by (intro exI [of _ "(seq, p) # pre"] exI [of _ q]) (simp add: corrupt_def)
  next
    case (Some m')
    with "2.prems" show ?thesis by (intro exI [of _ "[]"] exI [of _ p]) simp
  qed
qed

lemma scan_page_NoneD: "scan_page parse l page = (None, l') \<Longrightarrow> \<forall>r \<in> set page. corrupt parse r"
  by (induction parse l page rule: scan_page.induct) (auto simp: corrupt_def split: option.splits)

lemma ahead_advance:
  assumes "ahead rows (l, page) (pre @ beyond)" and "l' = (if pre = [] then l else fst (last pre))"
    and "prefix page' beyond"
  shows "ahead rows (l', page') beyond"
proof -
  from assms(1) obtain dead where d: "rows = dead @ pre @ beyond" "\<forall>r \<in> set dead. fst r \<le> l"
    "sorted_wrt (<) (map fst (pre @ beyond))" "\<forall>r \<in> set (pre @ beyond). l < fst r"
    by (auto simp: ahead_def)
  have l': "\<forall>r \<in> set (dead @ pre). fst r \<le> l'"
  proof (cases pre rule: rev_cases)
    case Nil
    with d(2) assms(2) show ?thesis by simp
  next
    case (snoc ys y)
    with d assms(2) show ?thesis by (fastforce simp: sorted_wrt_append)
  qed
  have "\<forall>r \<in> set beyond. l' < fst r"
    using d(3,4) assms(2) by (cases pre rule: rev_cases) (auto simp: sorted_wrt_append)
  with l' d(1,3) assms(3) show ?thesis
    unfolding ahead_def by (intro conjI exI [of _ "dead @ pre"]) (auto simp: sorted_wrt_append)
qed

lemma ahead_fetch:
  assumes "ahead rows (l, []) live"
  shows "fetch_page l rows = take 256 live"
proof -
  from assms obtain dead where d: "rows = dead @ live" "\<forall>r \<in> set dead. fst r \<le> l"
    "sorted_wrt (<) (map fst live)" "\<forall>r \<in> set live. l < fst r"
    by (auto simp: ahead_def)
  have "filter (\<lambda>r. l < fst r) rows = live"
    using d(1,2,4) by (auto simp: filter_empty_conv filter_id_conv)
  moreover have "sort_key fst live = live"
    using d(3) by (intro sort_key_id_if_sorted) (simp add: strict_sorted_imp_sorted)
  ultimately show ?thesis by (simp add: fetch_page_def)
qed

lemma pager_next_None:
  "ahead rows it live \<Longrightarrow> \<forall>r \<in> set live. corrupt parse r \<Longrightarrow> fst (pager_next parse rows it) = None"
proof (induction parse rows it arbitrary: live rule: pager_next.induct)
  case (1 parse rows it)
  obtain o' l where sc: "scan_page parse (fst it) (snd it) = (o', l)" by fastforce
  from "1.prems"(1) obtain beyond where live: "live = snd it @ beyond"
    by (auto simp: ahead_def prefix_def)
  have None: "o' = None"
    using scan_page_SomeD [of parse "fst it" "snd it"] sc "1.prems"(2) live
    by (cases o') (fastforce simp: corrupt_def)+
  have l: "l = (if snd it = [] then fst it else fst (last (snd it)))"
    using scan_page_None [of parse "fst it" "snd it" l] sc None by (simp add: pager_end_def)
  have adv: "prefix q beyond \<Longrightarrow> ahead rows (l, q) beyond" for q
    using ahead_advance [of rows "fst it" "snd it" "snd it" beyond l q] "1.prems"(1) live l by simp
  have fetch: "fetch_page l rows = take 256 beyond" by (rule ahead_fetch [OF adv]) simp
  show ?case
  proof (cases "beyond = []")
    case True
    with sc None fetch show ?thesis by (simp add: pager_next.simps [of parse rows it])
  next
    case False
    with "1.IH" [OF sc [symmetric] _ _ adv] sc None fetch live "1.prems"(2)
    show ?thesis by (simp add: pager_next.simps [of parse rows it] take_is_prefix)
  qed
qed

lemma pager_next_Some:
  "ahead rows it (pre @ (s, p) # rest) \<Longrightarrow> \<forall>r \<in> set pre. corrupt parse r \<Longrightarrow> parse p = Some m \<Longrightarrow>
   \<exists>page. pager_next parse rows it = (Some (s, m), (s, page)) \<and> ahead rows (s, page) rest"
proof (induction parse rows it arbitrary: pre rule: pager_next.induct)
  case (1 parse rows it)
  let ?live = "pre @ (s, p) # rest"
  obtain o' l where sc: "scan_page parse (fst it) (snd it) = (o', l)" by fastforce
  from "1.prems"(1) obtain beyond where live: "?live = snd it @ beyond"
    by (auto simp: ahead_def prefix_def)
  show ?case
  proof (cases o')
    case (Some y)
    then obtain s' m' pg where y: "o' = Some ((s', m'), pg)" by (cases y) auto
    from scan_page_SomeD [of parse "fst it" "snd it" s' m' pg l] sc y obtain pre' p' where
      pg: "snd it = pre' @ (s', p') # pg" "\<forall>r \<in> set pre'. corrupt parse r" "parse p' = Some m'" "l = s'"
      by auto
    have split: "pre @ (s, p) # rest = pre' @ (s', p') # pg @ beyond" using live pg(1) by simp
    have ncorr: "\<not> corrupt parse (s, p)" "\<not> corrupt parse (s', p')"
      using "1.prems"(3) pg(3) by (simp_all add: corrupt_def)
    have "takeWhile (corrupt parse) (pre @ (s, p) # rest) = pre"
      using "1.prems"(2) ncorr(1) by (simp add: takeWhile_append2)
    moreover have "takeWhile (corrupt parse) (pre' @ (s', p') # pg @ beyond) = pre'"
      using pg(2) ncorr(2) by (simp add: takeWhile_append2)
    ultimately have eq: "pre' = pre" using split by simp
    with split have same: "s' = s" "p' = p" "rest = pg @ beyond" by auto
    with y pg "1.prems"(3) have "pager_next parse rows it = (Some (s, m), (s, pg))"
      using sc by (simp add: pager_next.simps [of parse rows it])
    moreover have "ahead rows (s, pg) rest"
      by (rule ahead_advance [of rows "fst it" "snd it" "pre @ [(s, p)]"])
        (use "1.prems"(1) same in auto)
    ultimately show ?thesis by blast
  next
    case None
    from scan_page_NoneD [of parse "fst it" "snd it" l] sc None
    have corr: "\<forall>r \<in> set (snd it). corrupt parse r" by simp
    have "length (snd it) \<le> length pre"
    proof (rule ccontr)
      assume "\<not> ?thesis"
      then have "(s, p) \<in> set (snd it)"
        using arg_cong [OF live, of "\<lambda>xs. xs ! length pre"] by (simp add: nth_append)
      with corr "1.prems"(3) show False by (auto simp: corrupt_def)
    qed
    have "take (length (snd it)) pre = snd it"
      using arg_cong [OF live, of "take (length (snd it))"] \<open>length (snd it) \<le> length pre\<close> by simp
    then obtain pre2 where pre2: "pre = snd it @ pre2"
      by (metis append_take_drop_id)
    with live have beyond: "beyond = pre2 @ (s, p) # rest" by simp
    note pre2 = pre2 beyond
    have l: "l = (if snd it = [] then fst it else fst (last (snd it)))"
      using scan_page_None [of parse "fst it" "snd it" l] sc None by (simp add: pager_end_def)
    have adv: "prefix q beyond \<Longrightarrow> ahead rows (l, q) beyond" for q
      using ahead_advance [of rows "fst it" "snd it" "snd it" beyond l q] "1.prems"(1) live l by simp
    have fetch: "fetch_page l rows = take 256 beyond" by (rule ahead_fetch [OF adv]) simp
    then have ne: "fetch_page l rows \<noteq> []" using pre2(2) by simp
    have "ahead rows (l, fetch_page l rows) (pre2 @ (s, p) # rest)"
      using adv [of "take 256 beyond", OF take_is_prefix] unfolding fetch pre2(2) .
    from "1.IH" [OF sc [symmetric] None ne this] pre2(1) "1.prems"(2,3) sc None ne
    show ?thesis by (simp add: pager_next.simps [of parse rows it])
  qed
qed


section \<open>The table\<close>

definition ebuf_inv :: "'p ebuf \<Rightarrow> bool" where
  "ebuf_inv b \<longleftrightarrow> 0 < eb_capacity b \<and> int (length (eb_rows b)) \<le> eb_capacity b
     \<and> sorted_wrt (<) (map fst (eb_rows b)) \<and> (\<forall>r \<in> set (eb_rows b). 0 < fst r \<and> fst r < eb_next b)
     \<and> 0 < eb_next b"

definition healthy :: "'p ebuf \<Rightarrow> bool" where
  "healthy b \<longleftrightarrow> eb_open b \<and> eb_read_ok b \<and> eb_write_ok b"

lemma ebuf_init_inv: "ebuf_init n = Inr b \<Longrightarrow> ebuf_inv b"
  by (auto simp: ebuf_init_def ebuf_inv_def split: if_splits)

lemma filter_not_in_take:
  "distinct (map fst xs) \<Longrightarrow> filter (\<lambda>r. fst r \<notin> set (take n (map fst xs))) xs = drop n xs"
proof (induction xs arbitrary: n)
  case Nil
  then show ?case by simp
next
  case (Cons x xs)
  show ?case
  proof (cases n)
    case 0
    then show ?thesis by simp
  next
    case (Suc m)
    have "filter (\<lambda>r. fst r \<noteq> fst x \<and> fst r \<notin> set (take m (map fst xs))) xs
        = filter (\<lambda>r. fst r \<notin> set (take m (map fst xs))) xs"
      by (rule filter_cong) (use Cons.prems in \<open>auto simp: rev_image_eqI\<close>)
    with Suc Cons show ?thesis by simp
  qed
qed

lemma require_open_healthy [simp]: "eb_open b \<Longrightarrow> seqm require_open k b = k b"
  by (simp add: require_open_def seqm_def bindm_def ret_def)

text \<open>On a healthy table an append keeps the newest \<open>capacity\<close> rows and never reuses a number.\<close>

lemma ebuf_append_healthy:
  assumes "healthy b" and "ebuf_inv b"
  shows "ebuf_append p b = (Inr (eb_next b),
    b\<lparr>eb_rows := newest (nat (eb_capacity b)) (eb_rows b @ [(eb_next b, p)]), eb_next := eb_next b + 1,
      eb_evicted := eb_evicted b + int (length (eb_rows b) + 1 - nat (eb_capacity b))\<rparr>)"
proof -
  let ?rows = "eb_rows b @ [(eb_next b, p)]"
  let ?e = "nat (int (length ?rows) - eb_capacity b)"
  have sorted: "sorted_wrt (<) (map fst ?rows)"
    using assms(2) by (auto simp: ebuf_inv_def sorted_wrt_append)
  then have "sort (map fst ?rows) = map fst ?rows"
    by (intro sorted_sort_id) (rule strict_sorted_imp_sorted)
  moreover have "distinct (map fst ?rows)"
    using sorted by (simp only: strict_sorted_iff)
  ultimately have *: "filter (\<lambda>r. fst r \<notin> set (take ?e (sort (map fst ?rows)))) ?rows = drop ?e ?rows"
    by (simp only: filter_not_in_take)
  have e: "?e = length ?rows - nat (eb_capacity b)" "?e \<le> length ?rows"
    using assms(2) by (auto simp: ebuf_inv_def)
  show ?thesis
  proof (cases "int (length ?rows) \<le> eb_capacity b")
    case True
    then show ?thesis
      using assms(1) by (simp add: ebuf_append_def healthy_def Let_def bindm_def enforce_capacity_def
          ret_def newest_def)
  next
    case False
    have "enforce_capacity (b\<lparr>eb_rows := ?rows, eb_next := eb_next b + 1\<rparr>)
        = (Inr (int ?e), b\<lparr>eb_rows := drop ?e ?rows, eb_next := eb_next b + 1\<rparr>)"
      using assms(1) False * e(2)
      by (simp add: enforce_capacity_def healthy_def Let_def ret_def del: map_append set_append
          drop_append filter_append take_append)
    with assms(1) e show ?thesis
      by (simp add: ebuf_append_def healthy_def Let_def bindm_def ret_def newest_def del: drop_append)
  qed
qed

lemma ebuf_append_inv:
  assumes "healthy b" and "ebuf_inv b"
  shows "ebuf_inv (snd (ebuf_append p b)) \<and> healthy (snd (ebuf_append p b))"
proof -
  let ?rows = "eb_rows b @ [(eb_next b, p)]"
  have sorted: "sorted_wrt (<) (map fst ?rows)" and pos: "\<forall>r \<in> set ?rows. 0 < fst r \<and> fst r < eb_next b + 1"
    using assms(2) by (auto simp: ebuf_inv_def sorted_wrt_append)
  have "set (newest n ?rows) \<subseteq> set ?rows" for n
    by (simp add: newest_def set_drop_subset del: set_append drop_append)
  moreover have "sorted_wrt (<) (map fst (newest n ?rows))" for n
    using sorted by (simp only: newest_def drop_map [symmetric] sorted_wrt_drop)
  moreover have "int (length (newest (nat (eb_capacity b)) ?rows)) \<le> eb_capacity b"
    using assms(2) by (auto simp: newest_def ebuf_inv_def)
  ultimately show ?thesis
    using assms pos by (simp add: ebuf_append_healthy ebuf_inv_def healthy_def del: set_append) blast
qed

text \<open>C9. An append to a healthy buffer returns a sequence number above every number in the table and
  leaves exactly the newest \<open>capacity\<close> rows, the new one among them.\<close>

theorem append_keeps_newest_capacity_rows:
  assumes "healthy b" and "ebuf_inv b"
  shows "\<exists>b'. ebuf_append p b = (Inr (eb_next b), b') \<and> ebuf_inv b'
    \<and> (\<forall>r \<in> set (eb_rows b). fst r < eb_next b)
    \<and> eb_rows b' = newest (nat (eb_capacity b)) (eb_rows b @ [(eb_next b, p)])
    \<and> last (eb_rows b') = (eb_next b, p)
    \<and> int (length (eb_rows b)) + 1 = int (length (eb_rows b')) + (eb_evicted b' - eb_evicted b)"
proof -
  have cap: "0 < nat (eb_capacity b)" using assms(2) by (simp add: ebuf_inv_def)
  show ?thesis
    using ebuf_append_healthy [OF assms, of p] ebuf_append_inv [OF assms, of p] cap assms(2)
    by (auto simp: ebuf_inv_def newest_def last_drop)
qed

definition ebuf_ex :: "nat ebuf" where
  "ebuf_ex = \<lparr>eb_open = True, eb_capacity = 2, eb_rows = [(4, 10), (5, 20)], eb_next = 6, eb_evicted = 0,
     eb_read_ok = True, eb_write_ok = True\<rparr>"

lemma append_keeps_newest_capacity_rows_witness:
  "\<exists>b'. ebuf_append 30 ebuf_ex = (Inr (eb_next ebuf_ex), b') \<and> ebuf_inv b'
    \<and> (\<forall>r \<in> set (eb_rows ebuf_ex). fst r < eb_next ebuf_ex)
    \<and> eb_rows b' = newest (nat (eb_capacity ebuf_ex)) (eb_rows ebuf_ex @ [(eb_next ebuf_ex, 30)])
    \<and> last (eb_rows b') = (eb_next ebuf_ex, 30)
    \<and> int (length (eb_rows ebuf_ex)) + 1
        = int (length (eb_rows b')) + (eb_evicted b' - eb_evicted ebuf_ex)"
  by (rule append_keeps_newest_capacity_rows) (simp_all add: ebuf_ex_def healthy_def ebuf_inv_def)

text \<open>The first \<open>n\<close> pairs of an iteration that is not interleaved with an append.\<close>

fun take_pending :: "('p \<Rightarrow> 'm option) \<Rightarrow> (int \<times> 'p) list \<Rightarrow> nat \<Rightarrow> 'p pager \<Rightarrow> (int \<times> 'm) list \<times> 'p pager" where
  "take_pending parse rows 0 it = ([], it)"
| "take_pending parse rows (Suc n) it = (case pager_next parse rows it of
       (None, it') \<Rightarrow> ([], it')
     | (Some x, it') \<Rightarrow> (case take_pending parse rows n it' of (xs, it'') \<Rightarrow> (x # xs, it'')))"

definition parsable :: "('p \<Rightarrow> 'm option) \<Rightarrow> (int \<times> 'p) list \<Rightarrow> (int \<times> 'm) list" where
  "parsable parse rows = List.map_filter (\<lambda>(s, p). map_option (Pair s) (parse p)) rows"

lemma parsable_corrupt: "\<forall>r \<in> set pre. corrupt parse r \<Longrightarrow> parsable parse pre = []"
  by (induction pre) (auto simp: parsable_def corrupt_def List.map_filter_simps)

lemma parsable_split:
  "\<forall>r \<in> set pre. corrupt parse r \<Longrightarrow> parse p = Some m \<Longrightarrow> parsable parse (pre @ (s, p) # rest) = (s, m) # parsable parse rest"
  using parsable_corrupt [of pre parse] by (simp add: parsable_def map_filter_def)

lemma take_pending_ahead:
  "ahead rows it live \<Longrightarrow>
   \<exists>it'. take_pending parse rows (length (parsable parse live)) it = (parsable parse live, it') \<and> fst (pager_next parse rows it') = None"
proof (induction live arbitrary: it rule: length_induct)
  case (1 live)
  show ?case
  proof (cases "\<forall>r \<in> set live. corrupt parse r")
    case True
    then show ?thesis using pager_next_None [OF "1.prems"] by (simp add: parsable_corrupt)
  next
    case False
    then obtain pre r rest where split: "live = pre @ r # rest" "\<not> corrupt parse r" "\<forall>r \<in> set pre. corrupt parse r"
      using split_list_first_prop [of live "\<lambda>r. \<not> corrupt parse r"] by blast
    obtain s p where r: "r = (s, p)" by (cases r)
    obtain m where m: "parse p = Some m" using split(2) by (auto simp: corrupt_def r)
    from pager_next_Some [OF _ split(3) m] "1.prems" obtain page where
      nxt: "pager_next parse rows it = (Some (s, m), (s, page))" and ah: "ahead rows (s, page) rest"
      unfolding split(1) r by blast
    from "1.IH" [rule_format, OF _ ah] obtain it' where
      "take_pending parse rows (length (parsable parse rest)) (s, page) = (parsable parse rest, it')" "fst (pager_next parse rows it') = None"
      unfolding split(1) by auto
    then show ?thesis using nxt parsable_split [OF split(3) m] by (simp add: split(1) r)
  qed
qed

text \<open>C30. Iterating the durable buffer comes to an end: however many rows and pages there are and wherever corrupt rows
  lie, \<open>iter_pending\<close> yields every row that parses once, in the order of the sequence numbers, and then returns.\<close>

theorem iter_pending_terminates:
  assumes "ebuf_inv b"
  shows "\<exists>it. take_pending parse (eb_rows b) (length (parsable parse (eb_rows b))) pager_start = (parsable parse (eb_rows b), it)
    \<and> fst (pager_next parse (eb_rows b) it) = None \<and> sorted_wrt (<) (map fst (parsable parse (eb_rows b)))"
proof -
  have "ahead (eb_rows b) pager_start (eb_rows b)"
    using assms by (force simp: ahead_def pager_start_def ebuf_inv_def)
  from take_pending_ahead [OF this, of parse] obtain it where
    "take_pending parse (eb_rows b) (length (parsable parse (eb_rows b))) pager_start = (parsable parse (eb_rows b), it)"
    "fst (pager_next parse (eb_rows b) it) = None" by blast
  moreover have "sorted_wrt (<) (map fst (parsable parse rows))" if "sorted_wrt (<) (map fst rows)" for rows
    using that
  proof (induction rows)
    case (Cons r rows)
    have "set (map fst (parsable parse rows)) \<subseteq> set (map fst rows)"
      by (force simp: parsable_def map_filter_def)
    moreover have "\<forall>k \<in> set (map fst rows). fst r < k" using Cons.prems by auto
    ultimately have "\<forall>k \<in> set (map fst (parsable parse rows)). fst r < k" by blast
    with Cons show ?case by (cases r) (auto simp: parsable_def List.map_filter_simps split: option.splits)
  qed (simp add: parsable_def List.map_filter_simps)
  moreover have "sorted_wrt (<) (map fst (eb_rows b))" using assms by (simp add: ebuf_inv_def)
  ultimately show ?thesis by blast
qed

lemma iter_pending_terminates_witness:
  "\<exists>it. take_pending Some (eb_rows ebuf_ex) 2 pager_start = ([(4, 10), (5, 20)], it) \<and> fst (pager_next Some (eb_rows ebuf_ex) it) = None"
  using iter_pending_terminates [of ebuf_ex Some]
  by (simp add: ebuf_ex_def ebuf_inv_def parsable_def List.map_filter_simps numeral_2_eq_2 del: take_pending.simps)

text \<open>\<open>iter_pending\<close> is not a snapshot: a generator that has delivered every row delivers a frame
  appended before it is resumed.\<close>

theorem iter_pending_sees_later_append:
  assumes "healthy b" and "ebuf_inv b" and "ahead (eb_rows b) it []" and "fst it < eb_next b"
    and "parse p = Some m"
  shows "fst (pager_next parse (eb_rows (snd (ebuf_append p b))) it) = Some (eb_next b, m)"
proof -
  let ?n = "nat (eb_capacity b)"
  from assms(3) have dead: "\<forall>r \<in> set (eb_rows b). fst r \<le> fst it" and page: "snd it = []"
    by (auto simp: ahead_def)
  have "0 < ?n" using assms(2) by (simp add: ebuf_inv_def)
  then have rows: "newest ?n (eb_rows b @ [(eb_next b, p)])
      = drop (length (eb_rows b) + 1 - ?n) (eb_rows b) @ [(eb_next b, p)]"
    by (simp add: newest_def)
  have "ahead (newest ?n (eb_rows b @ [(eb_next b, p)])) it ([] @ (eb_next b, p) # [])"
    unfolding ahead_def rows using dead assms(4) page
    by (auto dest: in_set_dropD)
  from pager_next_Some [where pre = "[]" and rest = "[]" and p = p and parse = parse and m = m, OF this]
    assms(5)
  show ?thesis
    using ebuf_append_healthy [OF assms(1,2), of p] by auto
qed

lemma iter_pending_sees_later_append_witness:
  "fst (pager_next Some (eb_rows (snd (ebuf_append 30 ebuf_ex))) (5, [])) = Some (6, 30)"
  using iter_pending_sees_later_append [of ebuf_ex "(5, [])" Some 30 30]
  by (simp add: ebuf_ex_def healthy_def ebuf_inv_def ahead_def)

end
