(* ===== verification/Grpc_Client.thy ===== *)
theory Grpc_Client imports Event_Buffer Complex_Main begin

text \<open>
  The edge side of the cloud link, \<open>transport/grpc_client.py\<close>: sending with and without a stream,
  the two buffer backends, the flush on reconnect and the reconnect loop with its backoff. The gRPC
  stream itself is not under \<open>src/\<close>: whether a handshake succeeds and how a stream ends are inputs.
  Frames are an arbitrary type; protobuf serialisation and parsing are parameters.
\<close>

section \<open>The flush loop over the durable buffer\<close>

definition rows_ahead :: "(int \<times> 'p) list \<Rightarrow> 'p pager \<Rightarrow> nat" where
  "rows_ahead rows it = length (filter (\<lambda>r. pager_end it < fst r) rows)"

lemma pager_next_decreases:
  "pager_next parse rows it = (Some (s, m), it') \<Longrightarrow>
   rows_ahead rows it' < rows_ahead rows it
   \<or> rows_ahead rows it' = rows_ahead rows it \<and> length (snd it') < length (snd it)"
proof (induction parse rows it rule: pager_next.induct)
  case (1 parse rows it)
  obtain o' l where sc: "scan_page parse (fst it) (snd it) = (o', l)" by fastforce
  show ?case
  proof (cases o')
    case (Some y)
    then obtain s' m' pg where y: "o' = Some ((s', m'), pg)" by (cases y) auto
    with sc "1.prems" have it': "it' = (l, pg)" "s' = s" "m' = m"
      by (simp_all add: pager_next.simps [of parse rows it])
    from scan_page_SomeD [of parse "fst it" "snd it" s m pg l] sc y it' obtain pre p where
      "snd it = pre @ (s, p) # pg" "l = s" by auto
    with it' show ?thesis by (auto simp: pager_end_def rows_ahead_def)
  next
    case None
    with sc "1.prems" have ne: "fetch_page l rows \<noteq> []"
      and nxt: "pager_next parse rows (l, fetch_page l rows) = (Some (s, m), it')"
      by (auto simp: pager_next.simps [of parse rows it] split: if_splits)
    from "1.IH" [OF sc [symmetric] None ne nxt] pager_progress [of parse it l rows] sc None ne
    show ?thesis by (auto simp: rows_ahead_def)
  qed
qed

lemma rows_ahead_filter: "rows_ahead (filter P rows) it \<le> rows_ahead rows it"
  unfolding rows_ahead_def by (induction rows) auto

lemma flush_decreases:
  assumes "pager_next parse rows it = (Some (s, m), it')"
  shows "rows_ahead (filter (\<lambda>r. s < fst r) rows) it' < rows_ahead rows it
   \<or> rows_ahead (filter (\<lambda>r. s < fst r) rows) it' = rows_ahead rows it \<and> length (snd it') < length (snd it)"
  using pager_next_decreases [OF assms] rows_ahead_filter [of "\<lambda>r. s < fst r" rows it'] by linarith

text \<open>\<open>for seq, msg in buffer.iter_pending(): outbound.put(msg); buffer.delete_through(seq)\<close>. The
  frames put are listed even where a statement then fails.\<close>

function flush_rows :: "('p \<Rightarrow> 'm option) \<Rightarrow> bool \<Rightarrow> (int \<times> 'p) list \<Rightarrow> 'p pager
    \<Rightarrow> (pyexn + unit) \<times> 'm list \<times> (int \<times> 'p) list" where
  "flush_rows parse write_ok rows it = (case pager_next parse rows it of
       (None, _) \<Rightarrow> (Inr (), [], rows)
     | (Some (seq, m), it') \<Rightarrow>
         if \<not> write_ok then (Inl (BufferError ''delete_through failed''), [m], rows)
         else (case flush_rows parse write_ok (filter (\<lambda>r. seq < fst r) rows) it' of
                 (r, ms, rows') \<Rightarrow> (r, m # ms, rows')))"
  by pat_completeness auto
termination
  by (relation "measures [\<lambda>(parse, w, rows, it). rows_ahead rows it, \<lambda>(parse, w, rows, it). length (snd it)]")
    (auto dest!: sym [of _ "pager_next _ _ _"] dest: flush_decreases)

declare flush_rows.simps [simp del]

definition good :: "('p \<Rightarrow> 'm option) \<Rightarrow> (int \<times> 'p) list \<Rightarrow> 'm list" where
  "good parse rows = List.map_filter (\<lambda>r. parse (snd r)) rows"

text \<open>The rows left: those after the last one that parses.\<close>

definition after_good :: "('p \<Rightarrow> 'm option) \<Rightarrow> (int \<times> 'p) list \<Rightarrow> (int \<times> 'p) list" where
  "after_good parse rows = rev (takeWhile (corrupt parse) (rev rows))"

lemma good_simps [simp]:
  "good parse [] = []"
  "parse p = Some m \<Longrightarrow> good parse ((s, p) # rows) = m # good parse rows"
  "good parse (xs @ ys) = good parse xs @ good parse ys"
  by (simp_all add: good_def map_filter_def)

lemma good_corrupt: "good parse rows = [] \<longleftrightarrow> (\<forall>r \<in> set rows. corrupt parse r)"
  by (auto simp: good_def map_filter_def corrupt_def filter_empty_conv)

lemma after_good_all_corrupt: "\<forall>r \<in> set rows. corrupt parse r \<Longrightarrow> after_good parse rows = rows"
  by (simp add: after_good_def takeWhile_eq_all_conv [THEN iffD2])

lemma after_good_Cons_good:
  "\<not> corrupt parse r \<Longrightarrow> after_good parse (pre @ r # rows) = after_good parse rows"
  by (cases "\<forall>x \<in> set rows. corrupt parse x")
    (auto simp: after_good_def takeWhile_append takeWhile_eq_all_conv [THEN iffD2])

lemma flush_rows_ahead:
  "ahead rows it live \<Longrightarrow> flush_rows parse True rows it =
     (Inr (), good parse live, if good parse live = [] then rows else after_good parse live)"
proof (induction "length live" arbitrary: rows it live rule: less_induct)
  case less
  show ?case
  proof (cases "good parse live = []")
    case True
    then have "fst (pager_next parse rows it) = None"
      by (intro pager_next_None [OF less.prems]) (simp add: good_corrupt)
    with True show ?thesis
      by (cases "pager_next parse rows it") (simp add: flush_rows.simps [of parse True rows it])
  next
    case False
    then have "\<exists>r \<in> set live. \<not> corrupt parse r" by (simp add: good_corrupt)
    then obtain pre sp rest where "live = pre @ sp # rest" "\<not> corrupt parse sp"
      and pre: "\<forall>r \<in> set pre. corrupt parse r"
      using split_list_first_prop [of live "\<lambda>r. \<not> corrupt parse r"] by blast
    then obtain s p m where live: "live = pre @ (s, p) # rest" and m: "parse p = Some m"
      by (cases sp) (auto simp: corrupt_def)
    from pager_next_Some [OF less.prems [unfolded live] pre m] obtain page where
      nxt: "pager_next parse rows it = (Some (s, m), (s, page))" and ah: "ahead rows (s, page) rest"
      by blast
    from ah obtain dead where "rows = dead @ rest" "\<forall>r \<in> set dead. fst r \<le> s" "\<forall>r \<in> set rest. s < fst r"
      by (auto simp: ahead_def)
    then have rows': "filter (\<lambda>r. s < fst r) rows = rest"
      by (auto simp: filter_empty_conv filter_id_conv)
    have "ahead rest (s, page) rest" using ah by (auto simp: ahead_def)
    from less.hyps [OF _ this] live
    have "flush_rows parse True rest (s, page)
      = (Inr (), good parse rest, if good parse rest = [] then rest else after_good parse rest)"
      by simp
    moreover have "good parse live = m # good parse rest"
      using live m pre by (simp add: good_corrupt [THEN iffD2])
    moreover have "after_good parse live = after_good parse rest"
      unfolding live by (rule after_good_Cons_good) (simp add: corrupt_def m)
    ultimately show ?thesis
      using nxt rows' after_good_all_corrupt [of rest parse]
      by (simp add: flush_rows.simps [of parse True rows it] good_corrupt)
  qed
qed

lemma flush_rows_start:
  assumes "ebuf_inv b"
  shows "flush_rows parse True (eb_rows b) pager_start
    = (Inr (), good parse (eb_rows b), after_good parse (eb_rows b))"
proof -
  have "ahead (eb_rows b) pager_start (eb_rows b)"
    using assms by (force simp: ahead_def pager_start_def ebuf_inv_def)
  from flush_rows_ahead [OF this, of parse] after_good_all_corrupt [of "eb_rows b" parse] show ?thesis
    by (simp add: good_corrupt split: if_splits)
qed


section \<open>Buffer backends\<close>

text \<open>Exactly one backend is active: the in-memory deque with its limit, or the durable buffer.\<close>

datatype ('m, 'p) backend = Memory nat "'m list" | Durable "'p ebuf"

fun backend_append :: "('m \<Rightarrow> 'p) \<Rightarrow> 'm \<Rightarrow> (('m, 'p) backend, unit) proc" where
  "backend_append ser m (Memory n xs) = ret () (Memory n (deque_append n xs m))"
| "backend_append ser m (Durable b) =
     (case ebuf_append (ser m) b of (Inl e, b') \<Rightarrow> (Inl e, Durable b') | (Inr _, b') \<Rightarrow> (Inr (), Durable b'))"

text \<open>\<open>_flush_buffer\<close>: the frames put on the outbound queue, and how it ended.\<close>

fun flush_buffer :: "('p \<Rightarrow> 'm option) \<Rightarrow> ('m, 'p) backend \<Rightarrow> (pyexn + unit) \<times> 'm list \<times> ('m, 'p) backend" where
  "flush_buffer parse (Memory n xs) = (Inr (), xs, Memory n [])"
| "flush_buffer parse (Durable b) =
     (if \<not> eb_open b then (Inl (BufferError ''buffer not opened''), [], Durable b)
      else if \<not> eb_read_ok b then (Inl (BufferError ''read failed''), [], Durable b)
      else (case flush_rows parse (eb_write_ok b) (eb_rows b) pager_start of
              (r, ms, rows') \<Rightarrow> (r, ms, Durable (b\<lparr>eb_rows := rows'\<rparr>))))"

fun pending_buffer_size :: "(('m, 'p) backend, int) proc" where
  "pending_buffer_size (Memory n xs) = ret (int (length xs)) (Memory n xs)"
| "pending_buffer_size (Durable b) = (case ebuf_len b of (r, b') \<Rightarrow> (r, Durable b'))"

text \<open>What the client relies on, whichever backend is active: an append keeps the newest frames up to
  the limit, a flush hands over everything in order and empties the buffer.\<close>

locale frame_buffer =
  fixes inv :: "'b \<Rightarrow> bool"
    and limit :: "'b \<Rightarrow> nat"
    and contents :: "'b \<Rightarrow> 'm list"
    and append :: "'m \<Rightarrow> 'b \<Rightarrow> (pyexn + unit) \<times> 'b"
    and flush :: "'b \<Rightarrow> (pyexn + unit) \<times> 'm list \<times> 'b"
    and size_of :: "'b \<Rightarrow> (pyexn + int) \<times> 'b"
  assumes contents_bound: "inv b \<Longrightarrow> length (contents b) \<le> limit b"
    and append_ok: "inv b \<Longrightarrow> \<exists>b'. append m b = (Inr (), b') \<and> inv b' \<and> limit b' = limit b
          \<and> contents b' = newest (limit b) (contents b @ [m])"
    and flush_ok: "inv b \<Longrightarrow> \<exists>b'. flush b = (Inr (), contents b, b') \<and> inv b' \<and> limit b' = limit b
          \<and> contents b' = []"
    and size_ok: "inv b \<Longrightarrow> size_of b = (Inr (int (length (contents b))), b)"
begin

fun append_all :: "'m list \<Rightarrow> 'b \<Rightarrow> (pyexn + unit) \<times> 'b" where
  "append_all [] b = (Inr (), b)"
| "append_all (m # ms) b = (case append m b of (Inl e, b') \<Rightarrow> (Inl e, b') | (Inr _, b') \<Rightarrow> append_all ms b')"

lemma append_all_newest:
  "inv b \<Longrightarrow> \<exists>b'. append_all ms b = (Inr (), b') \<and> inv b' \<and> limit b' = limit b
     \<and> contents b' = newest (limit b) (contents b @ ms)"
proof (induction ms arbitrary: b)
  case Nil
  then show ?case by (simp add: contents_bound)
next
  case (Cons m ms)
  from append_ok [OF Cons.prems, of m] obtain b1 where b1: "append m b = (Inr (), b1)" "inv b1"
    "limit b1 = limit b" "contents b1 = newest (limit b) (contents b @ [m])" by blast
  from Cons.IH [OF b1(2)] b1 show ?case
    by (auto simp: newest_newest_append)
qed

lemma outage_then_flush:
  assumes "inv b" and "append_all ms b = (r, b')"
  shows "r = Inr () \<and> (\<exists>b''. flush b' = (Inr (), newest (limit b) (contents b @ ms), b'')
     \<and> inv b'' \<and> contents b'' = [])"
  using append_all_newest [OF assms(1), of ms] assms(2) flush_ok [of b'] by auto

end

definition codec :: "('m \<Rightarrow> 'p) \<Rightarrow> ('p \<Rightarrow> 'm option) \<Rightarrow> bool" where
  "codec ser parse \<longleftrightarrow> (\<forall>m. parse (ser m) = Some m)"

fun backend_inv :: "('m \<Rightarrow> 'p) \<Rightarrow> ('p \<Rightarrow> 'm option) \<Rightarrow> ('m, 'p) backend \<Rightarrow> bool" where
  "backend_inv ser parse (Memory n xs) \<longleftrightarrow> 0 < n \<and> length xs \<le> n"
| "backend_inv ser parse (Durable b) \<longleftrightarrow> codec ser parse \<and> healthy b \<and> ebuf_inv b
     \<and> (\<forall>r \<in> set (eb_rows b). \<not> corrupt parse r)"

fun backend_limit :: "('m, 'p) backend \<Rightarrow> nat" where
  "backend_limit (Memory n xs) = n"
| "backend_limit (Durable b) = nat (eb_capacity b)"

fun backend_contents :: "('p \<Rightarrow> 'm option) \<Rightarrow> ('m, 'p) backend \<Rightarrow> 'm list" where
  "backend_contents parse (Memory n xs) = xs"
| "backend_contents parse (Durable b) = good parse (eb_rows b)"

lemma good_all:
  "\<forall>r \<in> set rows. \<not> corrupt parse r \<Longrightarrow> good parse rows = map (\<lambda>r. the (parse (snd r))) rows"
  by (induction rows) (auto simp: corrupt_def)

lemma set_newest: "set (newest n xs) \<subseteq> set xs"
  unfolding newest_def by (rule set_drop_subset)

lemma good_newest:
  assumes "\<forall>r \<in> set rows. \<not> corrupt parse r"
  shows "good parse (newest n rows) = newest n (good parse rows)"
proof -
  from assms set_newest [of n rows] have "\<forall>r \<in> set (newest n rows). \<not> corrupt parse r" by blast
  then show ?thesis using assms by (simp add: good_all map_newest)
qed

lemma after_good_none: "\<forall>r \<in> set rows. \<not> corrupt parse r \<Longrightarrow> after_good parse rows = []"
  by (cases rows rule: rev_cases) (auto simp: after_good_def)

lemma backend_append_ok:
  assumes "backend_inv ser parse b"
  shows "\<exists>b'. backend_append ser m b = (Inr (), b') \<and> backend_inv ser parse b'
    \<and> backend_limit b' = backend_limit b
    \<and> backend_contents parse b' = newest (backend_limit b) (backend_contents parse b @ [m])"
proof (cases b)
  case (Memory n xs)
  with assms show ?thesis by (simp add: ret_def deque_append_newest)
next
  case (Durable e)
  with assms have e: "healthy e" "ebuf_inv e" "\<forall>r \<in> set (eb_rows e). \<not> corrupt parse r" "codec ser parse"
    by auto
  have all: "\<forall>r \<in> set (eb_rows e @ [(eb_next e, ser m)]). \<not> corrupt parse r"
    using e(3,4) by (auto simp: corrupt_def codec_def)
  then have "\<forall>r \<in> set (newest k (eb_rows e @ [(eb_next e, ser m)])). \<not> corrupt parse r" for k
    by (meson set_newest subsetD)
  with all Durable e ebuf_append_healthy [OF e(1,2), of "ser m"] ebuf_append_inv [OF e(1,2), of "ser m"]
  show ?thesis by (simp add: good_newest codec_def)
qed

lemma backend_flush_ok:
  assumes "backend_inv ser parse b"
  shows "\<exists>b'. flush_buffer parse b = (Inr (), backend_contents parse b, b') \<and> backend_inv ser parse b'
    \<and> backend_limit b' = backend_limit b \<and> backend_contents parse b' = []"
proof (cases b)
  case (Memory n xs)
  with assms show ?thesis by simp
next
  case (Durable e)
  with assms flush_rows_start [of e parse] after_good_none [of "eb_rows e" parse] show ?thesis
    by (auto simp: healthy_def ebuf_inv_def)
qed

interpretation frames: frame_buffer "backend_inv ser parse" backend_limit "backend_contents parse"
    "backend_append ser" "flush_buffer parse" pending_buffer_size
  for ser :: "'m \<Rightarrow> 'p" and parse :: "'p \<Rightarrow> 'm option"
proof unfold_locales
  fix b :: "('m, 'p) backend" and m
  assume inv: "backend_inv ser parse b"
  show "length (backend_contents parse b) \<le> backend_limit b"
    using inv by (cases b) (auto simp: good_all ebuf_inv_def)
  show "\<exists>b'. backend_append ser m b = (Inr (), b') \<and> backend_inv ser parse b' \<and> backend_limit b' = backend_limit b
      \<and> backend_contents parse b' = newest (backend_limit b) (backend_contents parse b @ [m])"
    by (rule backend_append_ok [OF inv])
  show "\<exists>b'. flush_buffer parse b = (Inr (), backend_contents parse b, b') \<and> backend_inv ser parse b'
      \<and> backend_limit b' = backend_limit b \<and> backend_contents parse b' = []"
    by (rule backend_flush_ok [OF inv])
  show "pending_buffer_size b = (Inr (int (length (backend_contents parse b))), b)"
    using inv by (cases b) (auto simp: ret_def ebuf_len_def healthy_def good_all)
qed


section \<open>The client\<close>

datatype 'm outbound = Frame 'm | CloseSentinel

record ('m, 'p) client =
  cl_connected :: bool
  cl_stop :: bool
  cl_task :: bool
  cl_channel :: bool
  cl_outbound :: "'m outbound list"
  cl_backend :: "('m, 'p) backend"

record backoff_config =
  bo_initial :: rat
  bo_max :: rat
  bo_factor :: rat

definition client_init :: "backoff_config \<Rightarrow> int \<Rightarrow> 'p ebuf option \<Rightarrow> pyexn + ('m, 'p) client" where
  "client_init cfg memory_buffer_limit event_buffer =
     (if bo_initial cfg \<le> 0 then Inl (ValueError ''initial_backoff_s must be positive'')
      else if bo_max cfg < bo_initial cfg then Inl (ValueError ''max_backoff_s must be >= initial_backoff_s'')
      else if bo_factor cfg \<le> 1 then Inl (ValueError ''backoff_factor must be > 1'')
      else if memory_buffer_limit \<le> 0 then Inl (ValueError ''memory_buffer_limit must be positive'')
      else Inr \<lparr>cl_connected = False, cl_stop = False, cl_task = False, cl_channel = False, cl_outbound = [],
             cl_backend = (case event_buffer of Some b \<Rightarrow> Durable b
               | None \<Rightarrow> Memory (nat memory_buffer_limit) [])\<rparr>)"

text \<open>\<open>start\<close> up to its wait, and after the wait has seen a stream or a stop.\<close>

definition client_start_begin :: "(('m, 'p) client, unit) proc" where
  "client_start_begin c =
     (if cl_task c then raise (RuntimeError ''client already started'') c
      else ret () (c\<lparr>cl_stop := False, cl_task := True\<rparr>))"

definition client_start_end :: "(('m, 'p) client, unit) proc" where
  "client_start_end c =
     (if cl_stop c \<and> \<not> cl_connected c then raise (OtherError ''ConnectionError'') c else ret () c)"

definition client_stop :: "('m, 'p) client \<Rightarrow> ('m, 'p) client" where
  "client_stop c = c\<lparr>cl_stop := True, cl_outbound := cl_outbound c @ [CloseSentinel], cl_task := False,
     cl_channel := False, cl_connected := False\<rparr>"

definition client_send :: "('m \<Rightarrow> 'p) \<Rightarrow> bool \<Rightarrow> 'm \<Rightarrow> (('m, 'p) client, unit) proc" where
  "client_send ser critical m c =
     (if cl_connected c then ret () (c\<lparr>cl_outbound := cl_outbound c @ [Frame m]\<rparr>)
      else if critical then raise EdgeNotConnected c
      else (case backend_append ser m (cl_backend c) of (r, b') \<Rightarrow> (r, c\<lparr>cl_backend := b'\<rparr>)))"

definition is_connected :: "('m, 'p) client \<Rightarrow> bool" where
  "is_connected c = cl_connected c"

text \<open>\<open>_run_one_stream\<close>: up to the reader loop, the reader loop, and its \<open>finally\<close>.\<close>

definition stream_open :: "('p \<Rightarrow> 'm option) \<Rightarrow> bool \<Rightarrow> (('m, 'p) client, unit) proc" where
  "stream_open parse handshake_ok c =
     (let c1 = c\<lparr>cl_channel := True, cl_outbound := []\<rparr>
      in if \<not> handshake_ok then raise (OtherError ''AioRpcError'') c1
         else (case flush_buffer parse (cl_backend c1) of (r, ms, b') \<Rightarrow>
           (r, c1\<lparr>cl_connected := True, cl_outbound := map Frame ms, cl_backend := b'\<rparr>)))"

fun deliver :: "('r \<Rightarrow> ('s, unit) proc) option \<Rightarrow> 'r list \<Rightarrow> ('s, unit) proc" where
  "deliver cb [] = ret ()"
| "deliver None (r # rs) = deliver None rs"
| "deliver (Some h) (r # rs) = seqm (suppress (h r)) (deliver (Some h) rs)"

definition stream_close :: "('m, 'p) client \<Rightarrow> ('m, 'p) client" where
  "stream_close c = c\<lparr>cl_connected := False, cl_channel := False\<rparr>"

text \<open>\<open>_outbound_iter\<close>: what the stream sends, up to the sentinel.\<close>

fun outbound_iter :: "'m outbound list \<Rightarrow> 'm list" where
  "outbound_iter [] = []"
| "outbound_iter (CloseSentinel # q) = []"
| "outbound_iter (Frame m # q) = m # outbound_iter q"

lemma outbound_iter_frames [simp]: "outbound_iter (map Frame ms @ q) = ms @ outbound_iter q"
  by (induction ms) auto

fun send_all :: "('m \<Rightarrow> 'p) \<Rightarrow> 'm list \<Rightarrow> (('m, 'p) client, unit) proc" where
  "send_all ser [] = ret ()"
| "send_all ser (m # ms) = seqm (client_send ser False m) (send_all ser ms)"

lemma send_all_disconnected:
  assumes "\<not> cl_connected c"
  shows "send_all ser ms c = (case frames.append_all ser ms (cl_backend c) of
    (r, b') \<Rightarrow> (r, c\<lparr>cl_backend := b'\<rparr>))"
  using assms
proof (induction ms arbitrary: c)
  case Nil
  then show ?case by (simp add: ret_def)
next
  case (Cons m ms)
  obtain r b1 where b1: "backend_append ser m (cl_backend c) = (r, b1)" by fastforce
  show ?case
  proof (cases r)
    case (Inl e)
    with b1 Cons.prems show ?thesis by (simp add: seqm_def bindm_def client_send_def)
  next
    case (Inr u)
    with b1 Cons.prems Cons.IH [of "c\<lparr>cl_backend := b1\<rparr>"] show ?thesis
      by (simp add: seqm_def bindm_def client_send_def split: prod.splits)
  qed
qed

lemma send_all_connected:
  "cl_connected c \<Longrightarrow> send_all ser ms c = (Inr (), c\<lparr>cl_outbound := cl_outbound c @ map Frame ms\<rparr>)"
  by (induction ms arbitrary: c) (simp_all add: ret_def seqm_def bindm_def client_send_def)

text \<open>C7. An outage loses nothing up to the buffer limit and reorders nothing: frames sent while
  disconnected, after whatever was already buffered, are transmitted on the next stream before the
  frames sent once it is up, oldest dropped first beyond the limit; the buffer ends empty.\<close>

theorem outage_replayed_in_order:
  assumes "backend_inv ser parse (cl_backend c)" and "\<not> cl_connected c"
    and "seqm (send_all ser ms) (seqm (stream_open parse True) (send_all ser ms')) c = (r, c')"
  shows "(r = Inr ())
    \<and> (outbound_iter (cl_outbound c')
      = newest (backend_limit (cl_backend c)) (backend_contents parse (cl_backend c) @ ms) @ ms')
    \<and> (backend_contents parse (cl_backend c') = [])"
proof -
  let ?b = "cl_backend c"
  obtain r1 b1 where b1: "frames.append_all ser ms ?b = (r1, b1)" by fastforce
  from frames.outage_then_flush [OF assms(1) b1] obtain b2 where r1: "r1 = Inr ()"
    and b2: "flush_buffer parse b1
      = (Inr (), newest (backend_limit ?b) (backend_contents parse ?b @ ms), b2)"
      "backend_contents parse b2 = []"
    by blast
  have "c' = c\<lparr>cl_channel := True, cl_connected := True, cl_backend := b2,
      cl_outbound := map Frame (newest (backend_limit ?b) (backend_contents parse ?b @ ms))
        @ map Frame ms'\<rparr> \<and> r = Inr ()"
    using assms(2,3) b1 r1 b2
    by (auto simp: seqm_def bindm_def send_all_disconnected stream_open_def Let_def send_all_connected)
  with b2 outbound_iter_frames [of ms' "[]"]
  show ?thesis by simp
qed

definition client_ex :: "(nat, nat) client" where
  "client_ex = \<lparr>cl_connected = False, cl_stop = False, cl_task = True, cl_channel = False, cl_outbound = [],
     cl_backend = Durable ebuf_ex\<rparr>"

lemma outage_replayed_in_order_witness:
  "\<exists>c'. seqm (send_all id [30]) (seqm (stream_open Some True) (send_all id [40])) client_ex = (Inr (), c')
     \<and> outbound_iter (cl_outbound c') = [20, 30, 40]"
proof -
  obtain r c' where run: "seqm (send_all id [30]) (seqm (stream_open Some True) (send_all id [40])) client_ex
    = (r, c')" by fastforce
  have "backend_inv id Some (cl_backend client_ex)" "\<not> cl_connected client_ex"
    by (simp_all add: client_ex_def ebuf_ex_def healthy_def ebuf_inv_def codec_def corrupt_def)
  from outage_replayed_in_order [OF this run] run show ?thesis
    by (simp add: client_ex_def ebuf_ex_def good_def map_filter_def newest_def)
qed

text \<open>The durable flush delivers every row that parses, in sequence order, and deletes it; the only
  rows that stay are unparseable ones behind the last good row, which no later flush without a newer
  good row removes.\<close>

theorem durable_flush_with_corrupt_rows:
  assumes "healthy b" and "ebuf_inv b"
  shows "\<exists>b'. flush_buffer parse (Durable b) = (Inr (), good parse (eb_rows b), Durable b')
    \<and> eb_rows b' = after_good parse (eb_rows b)
    \<and> (\<forall>r \<in> set (eb_rows b'). corrupt parse r)
    \<and> flush_buffer parse (Durable b') = (Inr (), [], Durable b')"
proof -
  let ?rows' = "after_good parse (eb_rows b)"
  have corr: "\<forall>r \<in> set ?rows'. corrupt parse r"
    by (auto simp: after_good_def dest: set_takeWhileD)
  have suffix: "\<exists>xs. eb_rows b = xs @ ?rows'"
    unfolding after_good_def by (metis rev_append rev_rev_ident takeWhile_dropWhile_id)
  then obtain xs where xs: "eb_rows b = xs @ ?rows'" ..
  have "length ?rows' \<le> length (eb_rows b)" and "set ?rows' \<subseteq> set (eb_rows b)"
    using arg_cong [OF xs, of length] arg_cong [OF xs, of set] by simp_all
  moreover have "sorted_wrt (<) (map fst (xs @ ?rows'))"
    using assms(2) unfolding xs [symmetric] by (simp add: ebuf_inv_def)
  then have "sorted_wrt (<) (map fst ?rows')" by (simp add: sorted_wrt_append)
  ultimately have inv': "ebuf_inv (b\<lparr>eb_rows := ?rows'\<rparr>)"
    using assms(2) by (auto simp: ebuf_inv_def)
  have "good parse ?rows' = []" using corr by (simp add: good_corrupt)
  with flush_rows_start [OF inv', of parse] after_good_all_corrupt [OF corr]
    flush_rows_start [OF assms(2), of parse] assms(1) corr
  show ?thesis by (simp add: healthy_def)
qed

lemma durable_flush_with_corrupt_rows_witness:
  "\<exists>b'. flush_buffer (\<lambda>p. if p = 20 then None else Some p) (Durable ebuf_ex)
      = (Inr (), good (\<lambda>p. if p = 20 then None else Some p) (eb_rows ebuf_ex), Durable b')
    \<and> eb_rows b' = after_good (\<lambda>p. if p = 20 then None else Some p) (eb_rows ebuf_ex)
    \<and> (\<forall>r \<in> set (eb_rows b'). corrupt (\<lambda>p. if p = 20 then None else Some p) r)
    \<and> flush_buffer (\<lambda>p. if p = 20 then None else Some p) (Durable b') = (Inr (), [], Durable b')"
  by (rule durable_flush_with_corrupt_rows) (simp_all add: ebuf_ex_def healthy_def ebuf_inv_def)


section \<open>The reconnect loop\<close>

text \<open>How \<open>_run_one_stream\<close> ended: cleanly, by an error that is logged, or cancelled.\<close>

datatype stream_end = Ended | Failed | CancelledStream

text \<open>The delays the loop sleeps, given how each stream ends and whether a stop is set by then.\<close>

fun connect_loop :: "backoff_config \<Rightarrow> rat \<Rightarrow> (stream_end \<times> bool) list \<Rightarrow> rat list" where
  "connect_loop cfg backoff [] = []"
| "connect_loop cfg backoff ((CancelledStream, stop) # rest) = []"
| "connect_loop cfg backoff ((e, stop) # rest) =
     (let b = (if e = Ended then bo_initial cfg else backoff)
      in if stop then []
         else min b (bo_max cfg) # connect_loop cfg (min (b * bo_factor cfg) (bo_max cfg)) rest)"

definition config_ok :: "backoff_config \<Rightarrow> bool" where
  "config_ok cfg \<longleftrightarrow> 0 < bo_initial cfg \<and> bo_initial cfg \<le> bo_max cfg \<and> 1 < bo_factor cfg"

lemma client_init_config: "client_init cfg n eb = Inr c \<Longrightarrow> config_ok cfg"
  by (auto simp: client_init_def config_ok_def split: if_splits)

lemma backoff_grows:
  assumes "config_ok cfg" and "0 \<le> b"
  shows "b \<le> b * bo_factor cfg"
  using assms mult_left_mono [of 1 "bo_factor cfg" b] by (simp add: config_ok_def)

lemma backoff_step:
  assumes "config_ok cfg" and "0 \<le> b"
  shows "min (min b (bo_max cfg) * bo_factor cfg) (bo_max cfg) = min (b * bo_factor cfg) (bo_max cfg)"
proof (cases "b \<le> bo_max cfg")
  case True
  then show ?thesis by (simp add: min_def)
next
  case False
  moreover have "0 \<le> bo_max cfg" using assms(1) by (auto simp: config_ok_def)
  ultimately have "bo_max cfg \<le> b * bo_factor cfg" and "bo_max cfg \<le> bo_max cfg * bo_factor cfg"
    and "bo_max cfg \<le> b"
    using backoff_grows [OF assms] backoff_grows [OF assms(1), of "bo_max cfg"] by linarith+
  then show ?thesis by (simp only: min_absorb2)
qed

lemma connect_loop_failures:
  assumes "config_ok cfg" and "0 \<le> b"
  shows "connect_loop cfg (min b (bo_max cfg)) (replicate n (Failed, False))
    = map (\<lambda>k. min (b * bo_factor cfg ^ k) (bo_max cfg)) [0..<n]"
  using assms(2)
proof (induction n arbitrary: b)
  case 0
  then show ?case by simp
next
  case (Suc n)
  have "0 \<le> b * bo_factor cfg"
    using Suc.prems assms(1) by (simp add: config_ok_def)
  from Suc.IH [OF this] backoff_step [OF assms(1) Suc.prems] show ?case
    by (simp add: map_upt_Suc mult.assoc del: upt_Suc)
qed

lemma connect_loop_bounds:
  assumes "config_ok cfg"
  shows "bo_initial cfg \<le> b \<Longrightarrow>
    \<forall>d \<in> set (connect_loop cfg b xs). bo_initial cfg \<le> d \<and> d \<le> bo_max cfg"
proof (induction xs arbitrary: b)
  case Nil
  then show ?case by simp
next
  case (Cons x xs)
  obtain e stop where x: "x = (e, stop)" by (cases x)
  have le: "bo_initial cfg \<le> bo_max cfg" and pos: "0 < bo_initial cfg"
    using assms by (auto simp: config_ok_def)
  have step: "bo_initial cfg \<le> min (c * bo_factor cfg) (bo_max cfg)" if "bo_initial cfg \<le> c" for c
  proof -
    have "bo_initial cfg \<le> c * bo_factor cfg"
      using backoff_grows [OF assms, of c] that pos by linarith
    with le show ?thesis by (simp only: min.bounded_iff simp_thms)
  qed
  note ih = Cons.IH [OF step [OF Cons.prems]] Cons.IH [OF step [OF order_refl]]
  have "bo_initial cfg \<le> min b (bo_max cfg)" "bo_initial cfg \<le> min (bo_initial cfg) (bo_max cfg)"
    using Cons.prems le by (simp_all only: min.bounded_iff simp_thms order_refl)
  with ih show ?case
    by (cases e; cases stop)
      (simp_all only: x connect_loop.simps Let_def stream_end.distinct if_True if_False simp_thms
        list.set ball_simps min.cobounded2)
qed

text \<open>A client that could be constructed sleeps between \<open>initial\<close> and \<open>max\<close> however its streams
  end; consecutive failures back off as \<open>initial * factor^k\<close> capped at \<open>max\<close>; a stream that ends
  cleanly restarts that schedule, wherever it stood.\<close>

theorem reconnect_backoff:
  assumes "client_init cfg n eb = Inr (c :: ('m, 'p) client)"
  shows "(\<forall>d \<in> set (connect_loop cfg (bo_initial cfg) xs). bo_initial cfg \<le> d \<and> d \<le> bo_max cfg)
    \<and> (connect_loop cfg (bo_initial cfg) (replicate k (Failed, False))
      = map (\<lambda>j. min (bo_initial cfg * bo_factor cfg ^ j) (bo_max cfg)) [0..<k])
    \<and> (connect_loop cfg b ((Ended, False) # replicate k (Failed, False))
      = map (\<lambda>j. min (bo_initial cfg * bo_factor cfg ^ j) (bo_max cfg)) [0..<Suc k])"
proof -
  have ok: "config_ok cfg" by (rule client_init_config [OF assms])
  then have le: "bo_initial cfg \<le> bo_max cfg" and pos: "0 \<le> bo_initial cfg"
    by (auto simp: config_ok_def)
  have c1: "\<forall>d \<in> set (connect_loop cfg (bo_initial cfg) xs). bo_initial cfg \<le> d \<and> d \<le> bo_max cfg"
    by (rule connect_loop_bounds [OF ok order_refl])
  from connect_loop_failures [OF ok pos] le
  have c2: "connect_loop cfg (bo_initial cfg) (replicate k (Failed, False))
      = map (\<lambda>j. min (bo_initial cfg * bo_factor cfg ^ j) (bo_max cfg)) [0..<k]" for k
    by (simp add: min_absorb1)
  from this [of "Suc k"]
  have c3: "connect_loop cfg b ((Ended, False) # replicate k (Failed, False))
      = map (\<lambda>j. min (bo_initial cfg * bo_factor cfg ^ j) (bo_max cfg)) [0..<Suc k]"
    by (simp add: Let_def del: upt_Suc)
  show ?thesis by (intro conjI c1 c2 c3)
qed

lemma reconnect_backoff_witness:
  "connect_loop \<lparr>bo_initial = 1, bo_max = 30, bo_factor = 2\<rparr> 1 (replicate 3 (Failed, False)) = [1, 2, 4]"
proof -
  let ?cfg = "\<lparr>bo_initial = 1, bo_max = 30, bo_factor = 2\<rparr> :: backoff_config"
  obtain c where "client_init ?cfg 10000 None = Inr (c :: (nat, nat) client)"
    by (simp add: client_init_def)
  from reconnect_backoff [OF this, where k = 3] show ?thesis
    by (simp add: numeral_3_eq_3 min_def)
qed

end
