(* ===== verification/Ring_Buffer.thy ===== *)
theory Ring_Buffer imports Drop_Oldest begin

text \<open>
  The PCM buffers: \<open>PcmRingBuffer\<close> (\<open>audio_bridge/ring_buffer.py\<close>), bounded in bytes, and
  \<open>JitterBuffer\<close> (\<open>modem_controller/audio_pipe.py\<close>), bounded in chunks. Both satisfy the
  drop-oldest contract; the ring also accounts for every byte it was given.
\<close>

section \<open>The ring buffer\<close>

record ring =
  rb_capacity :: int
  rb_chunks :: "bytes list"
  rb_size :: int
  rb_closed :: bool
  rb_dropped_chunks :: int
  rb_dropped_bytes :: int

definition ring_init :: "int \<Rightarrow> pyexn + ring" where
  "ring_init capacity_bytes =
     (if capacity_bytes \<le> 0 then Inl (ValueError ''capacity_bytes must be positive'')
      else Inr \<lparr>rb_capacity = capacity_bytes, rb_chunks = [], rb_size = 0, rb_closed = False,
                rb_dropped_chunks = 0, rb_dropped_bytes = 0\<rparr>)"

abbreviation len :: "'a list \<Rightarrow> int" where
  "len xs \<equiv> int (length xs)"

text \<open>The eviction loop of \<open>put\<close>: drop the oldest chunk while the new one does not fit.\<close>

function ring_evict :: "int \<Rightarrow> ring \<Rightarrow> ring" where
  "ring_evict n r = (case rb_chunks r of
       [] \<Rightarrow> r
     | old # rest \<Rightarrow>
         if rb_size r + n > rb_capacity r
         then ring_evict n (r\<lparr>rb_chunks := rest, rb_size := rb_size r - len old,
                rb_dropped_chunks := rb_dropped_chunks r + 1,
                rb_dropped_bytes := rb_dropped_bytes r + len old\<rparr>)
         else r)"
  by pat_completeness auto
termination
  by (relation "measure (\<lambda>(n, r). length (rb_chunks r))") auto

declare ring_evict.simps [simp del]

definition ring_put :: "bytes \<Rightarrow> (ring, unit) proc" where
  "ring_put chunk r =
     (if rb_closed r then raise (RuntimeError ''PcmRingBuffer closed'') r
      else if len chunk > rb_capacity r
      then ret () (r\<lparr>rb_dropped_chunks := rb_dropped_chunks r + 1,
                    rb_dropped_bytes := rb_dropped_bytes r + len chunk\<rparr>)
      else let r' = ring_evict (len chunk) r
           in ret () (r'\<lparr>rb_chunks := rb_chunks r' @ [chunk], rb_size := rb_size r' + len chunk\<rparr>))"

text \<open>\<open>get\<close> waits on the condition while the buffer is open and empty: the outcome \<open>None\<close>.\<close>

definition ring_get :: "ring \<Rightarrow> (pyexn + bytes) option \<times> ring" where
  "ring_get r = (case rb_chunks r of
       [] \<Rightarrow> (if rb_closed r then (Some (Inl StopAsyncIteration), r) else (None, r))
     | chunk # rest \<Rightarrow>
         (Some (Inr chunk), r\<lparr>rb_chunks := rest, rb_size := rb_size r - len chunk\<rparr>))"

definition ring_get_nowait :: "ring \<Rightarrow> bytes option \<times> ring" where
  "ring_get_nowait r = (case rb_chunks r of
       [] \<Rightarrow> (None, r)
     | chunk # rest \<Rightarrow>
         (Some chunk, r\<lparr>rb_chunks := rest, rb_size := rb_size r - len chunk\<rparr>))"

definition ring_len :: "ring \<Rightarrow> int" where
  "ring_len r = rb_size r"

definition ring_iter :: "ring \<Rightarrow> bytes list" where
  "ring_iter r = rb_chunks r"

definition ring_is_closed :: "ring \<Rightarrow> bool" where
  "ring_is_closed r = rb_closed r"

definition ring_close :: "ring \<Rightarrow> ring" where
  "ring_close r = r\<lparr>rb_closed := True\<rparr>"

subsection \<open>Invariant and behaviour\<close>

definition total :: "bytes list \<Rightarrow> int" where
  "total cs = (\<Sum>c \<leftarrow> cs. len c)"

definition ring_inv :: "ring \<Rightarrow> bool" where
  "ring_inv r \<longleftrightarrow> 0 < rb_capacity r \<and> rb_size r = total (rb_chunks r) \<and> rb_size r \<le> rb_capacity r"

lemma total_simps [simp]: "total [] = 0" "total (c # cs) = len c + total cs"
  "total (cs @ ds) = total cs + total ds"
  by (simp_all add: total_def)

lemma total_nonneg [simp]: "0 \<le> total cs"
  by (induction cs) auto

lemma ring_init_inv: "ring_init n = Inr r \<Longrightarrow> ring_inv r"
  by (auto simp: ring_init_def ring_inv_def split: if_splits)

text \<open>Everything the eviction loop does, in one statement: it drops a prefix, the shortest one that
  makes room, and adds exactly that prefix to the counters.\<close>

lemma ring_evict_drop:
  assumes "rb_size r = total (rb_chunks r)"
  shows "\<exists>k \<le> length (rb_chunks r).
    ring_evict n r = r\<lparr>rb_chunks := drop k (rb_chunks r), rb_size := total (drop k (rb_chunks r)),
        rb_dropped_chunks := rb_dropped_chunks r + int k,
        rb_dropped_bytes := rb_dropped_bytes r + total (take k (rb_chunks r))\<rparr>
    \<and> (k = length (rb_chunks r) \<or> total (drop k (rb_chunks r)) + n \<le> rb_capacity r)
    \<and> (\<forall>j<k. total (drop j (rb_chunks r)) + n > rb_capacity r)"
  using assms
proof (induction n r rule: ring_evict.induct)
  case (1 n r)
  show ?case
  proof (cases "rb_chunks r")
    case Nil
    with "1.prems" show ?thesis
      by (intro exI [of _ 0]) (simp add: ring_evict.simps [of n r])
  next
    case (Cons old rest)
    show ?thesis
    proof (cases "rb_size r + n > rb_capacity r")
      case False
      with Cons "1.prems" show ?thesis
        by (intro exI [of _ 0]) (simp add: ring_evict.simps [of n r])
    next
      case True
      let ?r = "r\<lparr>rb_chunks := rest, rb_size := rb_size r - len old,
                rb_dropped_chunks := rb_dropped_chunks r + 1,
                rb_dropped_bytes := rb_dropped_bytes r + len old\<rparr>"
      have "rb_size ?r = total (rb_chunks ?r)"
        using Cons "1.prems" by simp
      from "1.IH" [OF Cons True this] obtain k where k: "k \<le> length rest"
        "ring_evict n ?r = ?r\<lparr>rb_chunks := drop k rest, rb_size := total (drop k rest),
           rb_dropped_chunks := rb_dropped_chunks r + 1 + int k,
           rb_dropped_bytes := rb_dropped_bytes r + len old + total (take k rest)\<rparr>"
        "k = length rest \<or> total (drop k rest) + n \<le> rb_capacity r"
        "\<forall>j<k. total (drop j rest) + n > rb_capacity r"
        by auto
      have "ring_evict n r = ring_evict n ?r"
        using Cons True by (simp add: ring_evict.simps [of n r])
      moreover have "\<forall>j<Suc k. total (drop j (rb_chunks r)) + n > rb_capacity r"
        using k(4) Cons True "1.prems" by (auto simp: less_Suc_eq_0_disj)
      ultimately show ?thesis
        using k(1-3) Cons by (intro exI [of _ "Suc k"]) (auto simp: add.assoc)
    qed
  qed
qed

lemma ring_put_cases:
  assumes "ring_inv r" and "\<not> rb_closed r" and "len chunk \<le> rb_capacity r"
  obtains k where "k \<le> length (rb_chunks r)"
    and "ring_put chunk r = (Inr (), r\<lparr>rb_chunks := drop k (rb_chunks r) @ [chunk],
        rb_size := total (drop k (rb_chunks r)) + len chunk,
        rb_dropped_chunks := rb_dropped_chunks r + int k,
        rb_dropped_bytes := rb_dropped_bytes r + total (take k (rb_chunks r))\<rparr>)"
    and "total (drop k (rb_chunks r)) + len chunk \<le> rb_capacity r"
    and "\<forall>j<k. total (drop j (rb_chunks r)) + len chunk > rb_capacity r"
proof -
  from assms(1) have "rb_size r = total (rb_chunks r)" by (simp add: ring_inv_def)
  from ring_evict_drop [OF this, of "len chunk"] obtain k where k: "k \<le> length (rb_chunks r)"
    "ring_evict (len chunk) r = r\<lparr>rb_chunks := drop k (rb_chunks r),
        rb_size := total (drop k (rb_chunks r)),
        rb_dropped_chunks := rb_dropped_chunks r + int k,
        rb_dropped_bytes := rb_dropped_bytes r + total (take k (rb_chunks r))\<rparr>"
    "k = length (rb_chunks r) \<or> total (drop k (rb_chunks r)) + len chunk \<le> rb_capacity r"
    "\<forall>j<k. total (drop j (rb_chunks r)) + len chunk > rb_capacity r"
    by blast
  show thesis
    by (rule that [OF k(1)]) (use k assms in \<open>auto simp: ring_put_def Let_def ret_def\<close>)
qed

text \<open>A put on an open ring whose chunk fits drops the shortest run of oldest chunks that makes
  room, appends the chunk, counts exactly what it dropped, and keeps the byte count exact and
  within the capacity.\<close>

theorem ring_put_drops_fewest_oldest:
  assumes "ring_inv r" and "\<not> rb_closed r" and "len chunk \<le> rb_capacity r"
  shows "\<exists>k r'. ring_put chunk r = (Inr (), r') \<and> rb_chunks r' = drop k (rb_chunks r) @ [chunk]
    \<and> (\<forall>j<k. total (drop j (rb_chunks r)) + len chunk > rb_capacity r)
    \<and> rb_dropped_chunks r' = rb_dropped_chunks r + int k
    \<and> rb_dropped_bytes r' = rb_dropped_bytes r + total (take k (rb_chunks r))
    \<and> ring_inv r'"
proof -
  obtain k where k: "k \<le> length (rb_chunks r)"
    "ring_put chunk r = (Inr (), r\<lparr>rb_chunks := drop k (rb_chunks r) @ [chunk],
        rb_size := total (drop k (rb_chunks r)) + len chunk,
        rb_dropped_chunks := rb_dropped_chunks r + int k,
        rb_dropped_bytes := rb_dropped_bytes r + total (take k (rb_chunks r))\<rparr>)"
    "total (drop k (rb_chunks r)) + len chunk \<le> rb_capacity r"
    "\<forall>j<k. total (drop j (rb_chunks r)) + len chunk > rb_capacity r"
    by (rule ring_put_cases [OF assms])
  then show ?thesis
    using assms(1) by (intro exI [of _ k] exI) (auto simp: ring_inv_def)
qed

definition ring_ex :: ring where
  "ring_ex = \<lparr>rb_capacity = 4, rb_chunks = [[1, 2], [3]], rb_size = 3, rb_closed = False,
     rb_dropped_chunks = 0, rb_dropped_bytes = 0\<rparr>"

lemma ring_put_drops_fewest_oldest_witness:
  "\<exists>k r'. ring_put [7, 8] ring_ex = (Inr (), r') \<and> rb_chunks r' = drop k (rb_chunks ring_ex) @ [[7, 8]]
    \<and> (\<forall>j<k. total (drop j (rb_chunks ring_ex)) + len [7, 8 :: byte] > rb_capacity ring_ex)
    \<and> rb_dropped_chunks r' = rb_dropped_chunks ring_ex + int k
    \<and> rb_dropped_bytes r' = rb_dropped_bytes ring_ex + total (take k (rb_chunks ring_ex))
    \<and> ring_inv r'"
  by (rule ring_put_drops_fewest_oldest) (simp_all add: ring_ex_def ring_inv_def)

text \<open>The ring as a drop-oldest buffer; the oversize and the closed case leave the content alone.\<close>

definition ring_push :: "bytes \<Rightarrow> ring \<Rightarrow> ring" where
  "ring_push chunk r = snd (ring_put chunk r)"

definition ring_pop :: "ring \<Rightarrow> ring" where
  "ring_pop r = snd (ring_get_nowait r)"

lemma ring_push_closed [simp]: "rb_closed r \<Longrightarrow> ring_push c r = r"
  by (simp add: ring_push_def ring_put_def raise_def)

lemma ring_push_oversize: "\<not> rb_closed r \<Longrightarrow> len c > rb_capacity r \<Longrightarrow>
  ring_push c r = r\<lparr>rb_dropped_chunks := rb_dropped_chunks r + 1,
                    rb_dropped_bytes := rb_dropped_bytes r + len c\<rparr>"
  by (simp add: ring_push_def ring_put_def ret_def)

lemma ring_push_fits:
  assumes "ring_inv r" and "\<not> rb_closed r" and "len c \<le> rb_capacity r"
  shows "ring_inv (ring_push c r) \<and> (\<exists>k. rb_chunks (ring_push c r) = drop k (rb_chunks r) @ [c])
    \<and> rb_capacity (ring_push c r) = rb_capacity r \<and> rb_closed (ring_push c r) = rb_closed r
    \<and> total (rb_chunks r) + len c + rb_dropped_bytes r
        = rb_size (ring_push c r) + rb_dropped_bytes (ring_push c r)"
proof -
  obtain k where k: "k \<le> length (rb_chunks r)"
    "ring_put c r = (Inr (), r\<lparr>rb_chunks := drop k (rb_chunks r) @ [c],
        rb_size := total (drop k (rb_chunks r)) + len c,
        rb_dropped_chunks := rb_dropped_chunks r + int k,
        rb_dropped_bytes := rb_dropped_bytes r + total (take k (rb_chunks r))\<rparr>)"
    "total (drop k (rb_chunks r)) + len c \<le> rb_capacity r"
    by (rule ring_put_cases [OF assms])
  have "total (rb_chunks r) = total (take k (rb_chunks r)) + total (drop k (rb_chunks r))"
    by (metis append_take_drop_id total_simps(3))
  with k assms(1) show ?thesis
    by (auto simp: ring_push_def ring_inv_def)
qed

lemma ring_inv_push: "ring_inv r \<Longrightarrow> ring_inv (ring_push c r)"
  by (cases "rb_closed r"; cases "len c \<le> rb_capacity r")
    (auto simp: ring_push_fits ring_push_oversize, simp add: ring_inv_def)

lemma ring_pop_simps:
  "rb_chunks (ring_pop r) = tl (rb_chunks r)" "rb_capacity (ring_pop r) = rb_capacity r"
  "rb_closed (ring_pop r) = rb_closed r" "rb_dropped_bytes (ring_pop r) = rb_dropped_bytes r"
  by (simp_all add: ring_pop_def ring_get_nowait_def split: list.splits)

lemma ring_inv_pop: "ring_inv r \<Longrightarrow> ring_inv (ring_pop r)"
  by (auto simp: ring_inv_def ring_pop_def ring_get_nowait_def split: list.splits)

interpretation ring: drop_oldest ring_inv rb_chunks ring_push ring_pop
proof unfold_locales
  fix r c
  assume "ring_inv r"
  then show "ring_inv (ring_push c r)" and "ring_inv (ring_pop r)"
    and "rb_chunks (ring_pop r) = tl (rb_chunks r)"
    by (simp_all add: ring_inv_push ring_inv_pop ring_pop_simps)
  from \<open>ring_inv r\<close>
  show "rb_chunks (ring_push c r) = rb_chunks r \<or>
      (\<exists>k. rb_chunks (ring_push c r) = drop k (rb_chunks r) @ [c])"
    by (cases "rb_closed r"; cases "len c \<le> rb_capacity r")
      (auto simp: ring_push_fits ring_push_oversize)
qed

lemma ring_push_closed_capacity [simp]:
  "ring_inv r \<Longrightarrow> rb_closed (ring_push c r) = rb_closed r"
  "ring_inv r \<Longrightarrow> rb_capacity (ring_push c r) = rb_capacity r"
  by (cases "rb_closed r"; cases "len c \<le> rb_capacity r";
      simp add: ring_push_fits ring_push_oversize)+

lemma ring_push_bytes:
  assumes "ring_inv r" and "\<not> rb_closed r"
  shows "rb_size (ring_push c r) + rb_dropped_bytes (ring_push c r)
    = rb_size r + rb_dropped_bytes r + len c"
proof (cases "len c \<le> rb_capacity r")
  case True
  with ring_push_fits [OF assms True] assms(1) show ?thesis by (simp add: ring_inv_def)
next
  case False
  with assms show ?thesis by (simp add: ring_push_oversize)
qed

lemma ring_run_bytes:
  "ring_inv r \<Longrightarrow> \<not> rb_closed r \<Longrightarrow> run_queue rb_chunks ring_push ring_pop r ops = (out, r') \<Longrightarrow>
   total out + rb_size r' + rb_dropped_bytes r' = rb_size r + rb_dropped_bytes r + total (pushed ops)
   \<and> rb_capacity r' = rb_capacity r"
proof (induction ops arbitrary: r out)
  case Nil
  then show ?case by simp
next
  case (Cons op ops)
  show ?case
  proof (cases op)
    case (Push c)
    with Cons.prems Cons.IH [OF ring_inv_push [OF Cons.prems(1)]] show ?thesis
      by (simp add: ring_push_bytes)
  next
    case Pop
    with Cons.prems obtain out' where
      run: "run_queue rb_chunks ring_push ring_pop (ring_pop r) ops = (out', r')" and
      out: "out = take 1 (rb_chunks r) @ out'"
      by (auto split: prod.splits)
    have "rb_size r = total (take 1 (rb_chunks r)) + rb_size (ring_pop r)"
      using Cons.prems(1)
      by (auto simp: ring_inv_def ring_pop_def ring_get_nowait_def split: list.splits)
    moreover note Cons.IH [OF ring_inv_pop [OF Cons.prems(1)] _ run]
    ultimately show ?thesis
      using Pop out Cons.prems(2) by (simp add: ring_pop_simps)
  qed
qed




section \<open>The jitter buffer\<close>

definition GSM_CHUNK_BYTES :: nat where
  "GSM_CHUNK_BYTES = 8000 * 50 div 1000 * 2"

definition JITTER_BUFFER_CHUNKS :: nat where
  "JITTER_BUFFER_CHUNKS = 200 div 50"

record jitter =
  jb_buf :: "bytes list"
  jb_maxlen :: nat
  jb_underruns :: int
  jb_overruns :: int

definition jitter_init :: "nat \<Rightarrow> jitter" where
  "jitter_init max_chunks = \<lparr>jb_buf = [], jb_maxlen = max_chunks, jb_underruns = 0, jb_overruns = 0\<rparr>"

definition jitter_push :: "bytes \<Rightarrow> jitter \<Rightarrow> jitter" where
  "jitter_push chunk j = (let j' = (if length (jb_buf j) = jb_maxlen j
        then j\<lparr>jb_overruns := jb_overruns j + 1\<rparr> else j)
     in j'\<lparr>jb_buf := deque_append (jb_maxlen j') (jb_buf j') chunk\<rparr>)"

definition jitter_pop :: "jitter \<Rightarrow> bytes \<times> jitter" where
  "jitter_pop j = (case jb_buf j of
       [] \<Rightarrow> (replicate GSM_CHUNK_BYTES 0, j\<lparr>jb_underruns := jb_underruns j + 1\<rparr>)
     | chunk # rest \<Rightarrow> (chunk, j\<lparr>jb_buf := rest\<rparr>))"

definition jitter_len :: "jitter \<Rightarrow> nat" where
  "jitter_len j = length (jb_buf j)"

text \<open>\<open>AudioPipe.feed_outbound\<close> after the down-sampling: split into 50 ms chunks, push each.\<close>

function split_chunks :: "nat \<Rightarrow> 'a list \<Rightarrow> 'a list list" where
  "split_chunks n xs = (if n = 0 \<or> xs = [] then [] else take n xs # split_chunks n (drop n xs))"
  by pat_completeness auto
termination
  by (relation "measure (\<lambda>(n, xs). length xs)") auto

declare split_chunks.simps [simp del]

definition feed_outbound :: "(bytes \<Rightarrow> bytes) \<Rightarrow> bytes \<Rightarrow> jitter \<Rightarrow> jitter" where
  "feed_outbound downsample pcm_16k j =
     fold jitter_push (split_chunks GSM_CHUNK_BYTES (downsample pcm_16k)) j"

definition jitter_inv :: "jitter \<Rightarrow> bool" where
  "jitter_inv j \<longleftrightarrow> 0 < jb_maxlen j \<and> length (jb_buf j) \<le> jb_maxlen j"

lemma deque_append_cases:
  "0 < m \<Longrightarrow> length xs \<le> m \<Longrightarrow>
   deque_append m xs x = (if length xs = m then tl xs @ [x] else xs @ [x])"
  by (cases xs) (auto simp: deque_append_def)

lemma jitter_inv_push: "jitter_inv j \<Longrightarrow> jitter_inv (jitter_push c j)"
  by (auto simp: jitter_inv_def jitter_push_def Let_def deque_append_cases)

lemma jitter_inv_pop: "jitter_inv j \<Longrightarrow> jitter_inv (snd (jitter_pop j))"
  by (auto simp: jitter_inv_def jitter_pop_def split: list.splits)

interpretation jitter: drop_oldest jitter_inv jb_buf jitter_push "\<lambda>j. snd (jitter_pop j)"
proof unfold_locales
  fix j c
  assume inv: "jitter_inv j"
  show "jitter_inv (jitter_push c j)" "jitter_inv (snd (jitter_pop j))"
    by (simp_all add: inv jitter_inv_push jitter_inv_pop)
  show "jb_buf (snd (jitter_pop j)) = tl (jb_buf j)"
    by (simp add: jitter_pop_def split: list.splits)
  show "jb_buf (jitter_push c j) = jb_buf j \<or>
      (\<exists>k. jb_buf (jitter_push c j) = drop k (jb_buf j) @ [c])"
    by (rule disjI2, rule exI [of _ "length (jb_buf j) + 1 - jb_maxlen j"])
      (use inv in \<open>auto simp: jitter_push_def Let_def deque_append_def jitter_inv_def\<close>)
qed

lemma concat_split_chunks: "0 < n \<Longrightarrow> concat (split_chunks n xs) = xs"
  by (induction n xs rule: split_chunks.induct) (simp add: split_chunks.simps)

lemma split_chunks_length:
  "0 < n \<Longrightarrow> c \<in> set (split_chunks n xs) \<Longrightarrow> 0 < length c \<and> length c \<le> n"
proof (induction n xs rule: split_chunks.induct)
  case (1 n xs)
  then show ?case
    by (cases "xs = []") (auto simp: split_chunks.simps [of n xs] split_chunks.simps [of n "[]"])
qed

lemma jitter_fold_push:
  "jitter_inv j \<Longrightarrow> jitter_inv (fold jitter_push cs j) \<and> jb_maxlen (fold jitter_push cs j) = jb_maxlen j
   \<and> jb_buf (fold jitter_push cs j) = drop (length (jb_buf j) + length cs - jb_maxlen j) (jb_buf j @ cs)
   \<and> jb_overruns (fold jitter_push cs j)
       = jb_overruns j + int (length (jb_buf j) + length cs - jb_maxlen j)"
proof (induction cs arbitrary: j)
  case Nil
  then show ?case by (simp add: jitter_inv_def)
next
  case (Cons c cs)
  have ml: "jb_maxlen (jitter_push c j) = jb_maxlen j"
    by (simp add: jitter_push_def Let_def)
  have buf: "jb_buf (jitter_push c j)
      = (if length (jb_buf j) = jb_maxlen j then tl (jb_buf j) @ [c] else jb_buf j @ [c])"
    and ov: "jb_overruns (jitter_push c j)
      = jb_overruns j + (if length (jb_buf j) = jb_maxlen j then 1 else 0)"
    using Cons.prems by (auto simp: jitter_push_def Let_def jitter_inv_def deque_append_cases)
  from Cons.prems have b: "0 < jb_maxlen j" "length (jb_buf j) \<le> jb_maxlen j"
    by (auto simp: jitter_inv_def)
  show ?case
  proof (cases "length (jb_buf j) = jb_maxlen j")
    case True
    with b obtain x xs where "jb_buf j = x # xs" by (cases "jb_buf j") auto
    then have "drop (length (xs @ [c]) + length cs - jb_maxlen j) (xs @ c # cs)
        = drop (length (jb_buf j) + length (c # cs) - jb_maxlen j) (jb_buf j @ c # cs)"
      using True by (simp add: Suc_diff_le)
    with Cons.IH [OF jitter_inv_push [OF Cons.prems], of c] True ml buf ov \<open>jb_buf j = x # xs\<close>
    show ?thesis by (simp del: drop_append)
  next
    case False
    with b Cons.IH [OF jitter_inv_push [OF Cons.prems], of c] ml buf ov show ?thesis
      by (simp del: drop_append)
  qed
qed

text \<open>Feeding one outbound blob of any size leaves the newest \<open>maxlen\<close> chunks of the queue followed
  by the blob cut at 800 bytes, and the overrun counter grows by exactly the number of chunks lost.\<close>

theorem feed_outbound_keeps_newest:
  assumes "jitter_inv j"
  shows "(jb_buf (feed_outbound ds pcm j) =
      drop (length (jb_buf j) + length (split_chunks 800 (ds pcm)) - jb_maxlen j)
        (jb_buf j @ split_chunks 800 (ds pcm)))
    \<and> (jb_overruns (feed_outbound ds pcm j) - jb_overruns j
      = int (length (jb_buf j) + length (split_chunks 800 (ds pcm)) - jb_maxlen j))
    \<and> (concat (split_chunks 800 (ds pcm)) = ds pcm)
    \<and> (jitter_len (feed_outbound ds pcm j) \<le> jb_maxlen j)"
  using jitter_fold_push [OF assms, of "split_chunks 800 (ds pcm)"]
  by (auto simp: feed_outbound_def GSM_CHUNK_BYTES_def concat_split_chunks jitter_inv_def jitter_len_def)

lemma feed_outbound_keeps_newest_witness:
  "jitter_len (feed_outbound (\<lambda>x. x) (replicate 900 1) (jitter_init JITTER_BUFFER_CHUNKS)) \<le> 4"
  using feed_outbound_keeps_newest [of "jitter_init JITTER_BUFFER_CHUNKS" "\<lambda>x. x" "replicate 900 1"]
  by (simp add: jitter_inv_def jitter_init_def JITTER_BUFFER_CHUNKS_def)

end
