(* ===== verification/Recorder.thy ===== *)
theory Recorder imports Prelude "HOL-Library.Multiset" begin

unbundle bit_operations_syntax

text \<open>
  The call recorder of \<open>modem_controller/recorder.py\<close>: per-call stereo tracks in memory, the interleaved
  16 kHz wav written on hang-up, and the retention rule of the recordings directory. Free disk space,
  the modification time the file system gives a new file, and which files cannot be deleted are
  inputs. The directory is a list of \<open>*.wav\<close> files in the order \<open>glob\<close> lists them.
\<close>

section \<open>Samples\<close>

type_synonym sample = "16 word"

text \<open>Little-endian 16-bit samples, \<open>np.frombuffer(b, dtype="<i2")\<close>; \<open>None\<close> is its \<open>ValueError\<close> on a buffer of odd
  length.\<close>

definition sample_of :: "byte \<Rightarrow> byte \<Rightarrow> sample" where
  "sample_of lo hi = ucast lo OR push_bit 8 (ucast hi)"

definition sample_bytes :: "sample \<Rightarrow> bytes" where
  "sample_bytes s = [ucast s, ucast (drop_bit 8 s)]"

fun samples :: "bytes \<Rightarrow> sample list option" where
  "samples [] = Some []"
| "samples [_] = None"
| "samples (lo # hi # bs) = map_option ((#) (sample_of lo hi)) (samples bs)"

definition to_bytes :: "sample list \<Rightarrow> bytes" where
  "to_bytes ss = concat (map sample_bytes ss)"

lemma sample_bytes_sample: "sample_bytes (sample_of lo hi) = [lo, hi]"
proof -
  have "ucast (sample_of lo hi) = lo" "ucast (drop_bit 8 (sample_of lo hi)) = hi"
    unfolding sample_of_def by (rule bit_eqI; auto simp: bit_simps dest: bit_imp_le_length)+
  then show ?thesis by (simp add: sample_bytes_def)
qed

lemma samples_to_bytes: "samples bs = Some ss \<Longrightarrow> to_bytes ss = bs"
  by (induction bs arbitrary: ss rule: samples.induct)
    (auto simp: to_bytes_def sample_bytes_sample)

lemma samples_even: "samples bs \<noteq> None \<longleftrightarrow> even (length bs)"
  by (induction bs rule: samples.induct) auto

lemma samples_length: "samples bs = Some ss \<Longrightarrow> 2 * length ss = length bs"
  by (induction bs arbitrary: ss rule: samples.induct) auto


section \<open>The recorder\<close>

record call_tracks =
  ct_user :: "bytes list"
  ct_ai :: "bytes list"

record wav =
  wav_channels :: nat
  wav_rate :: nat
  wav_data :: bytes

record wav_file =
  wf_name :: string
  wf_mtime :: nat
  wf_wav :: wav

record recorder =
  rec_min_free :: int
  rec_tracks :: "string \<Rightarrow> call_tracks option"
  rec_files :: "wav_file list"

definition ENGINE_SAMPLE_RATE :: nat where "ENGINE_SAMPLE_RATE = 16000"

definition recorder_init :: "int \<Rightarrow> wav_file list \<Rightarrow> recorder" where
  "recorder_init min_free_gb files =
     \<lparr>rec_min_free = min_free_gb * 2 ^ 30, rec_tracks = (\<lambda>_. None), rec_files = files\<rparr>"

definition begin_call :: "int \<Rightarrow> string \<Rightarrow> (recorder, unit) proc" where
  "begin_call free call r = (if free < rec_min_free r then raise DiskFullError r
     else ret () (r\<lparr>rec_tracks := (rec_tracks r)(call \<mapsto> \<lparr>ct_user = [], ct_ai = []\<rparr>)\<rparr>))"

definition append_user :: "string \<Rightarrow> bytes \<Rightarrow> recorder \<Rightarrow> recorder" where
  "append_user call pcm r = (case rec_tracks r call of None \<Rightarrow> r
     | Some t \<Rightarrow> r\<lparr>rec_tracks := (rec_tracks r)(call \<mapsto> t\<lparr>ct_user := ct_user t @ [pcm]\<rparr>)\<rparr>)"

definition append_ai :: "string \<Rightarrow> bytes \<Rightarrow> recorder \<Rightarrow> recorder" where
  "append_ai call pcm r = (case rec_tracks r call of None \<Rightarrow> r
     | Some t \<Rightarrow> r\<lparr>rec_tracks := (rec_tracks r)(call \<mapsto> t\<lparr>ct_ai := ct_ai t @ [pcm]\<rparr>)\<rparr>)"

fun interleave :: "'a list \<Rightarrow> 'a list \<Rightarrow> 'a list" where
  "interleave (l # ls) (r # rs) = l # r # interleave ls rs"
| "interleave _ _ = []"

definition pad_to :: "nat \<Rightarrow> bytes \<Rightarrow> bytes" where
  "pad_to n bs = bs @ replicate (n - length bs) 0"

definition write_stereo_wav :: "bytes list \<Rightarrow> bytes list \<Rightarrow> wav option" where
  "write_stereo_wav left_chunks right_chunks =
     (let left = concat left_chunks; right = concat right_chunks;
          left' = pad_to (length right) left; right' = pad_to (length left) right
      in case (samples left', samples right') of
           (Some la, Some ra) \<Rightarrow> Some \<lparr>wav_channels = 2, wav_rate = ENGINE_SAMPLE_RATE,
             wav_data = to_bytes (interleave la ra)\<rparr>
         | _ \<Rightarrow> None)"

text \<open>Writing \<open><call>.wav\<close> replaces a file of that name. \<open>write_fails\<close> is an \<open>OSError\<close> of the file system.\<close>

definition put_file :: "wav_file \<Rightarrow> wav_file list \<Rightarrow> wav_file list" where
  "put_file f fs = (if wf_name f \<in> set (map wf_name fs)
     then map (\<lambda>g. if wf_name g = wf_name f then f else g) fs else fs @ [f])"

definition finalize :: "bool \<Rightarrow> nat \<Rightarrow> string \<Rightarrow> (recorder, string option) proc" where
  "finalize write_fails now call r = (case rec_tracks r call of
       None \<Rightarrow> ret None r
     | Some t \<Rightarrow> let r1 = r\<lparr>rec_tracks := (rec_tracks r)(call := None)\<rparr> in
        (case write_stereo_wav (ct_user t) (ct_ai t) of
           None \<Rightarrow> raise (ValueError ''buffer size must be a multiple of element size'') r1
         | Some w \<Rightarrow> if write_fails then raise (OSError ''wav'') r1
             else let name = call @ ''.wav'' in
               ret (Some name) (r1\<lparr>rec_files := put_file \<lparr>wf_name = name, wf_mtime = now, wf_wav = w\<rparr> (rec_files r1)\<rparr>)))"

definition newest_first :: "wav_file list \<Rightarrow> wav_file list" where
  "newest_first fs = sort_key (\<lambda>f. - int (wf_mtime f)) fs"

text \<open>\<open>prune\<close>: \<open>locked\<close> says which files the file system refuses to delete.\<close>

definition prune :: "(string \<Rightarrow> bool) \<Rightarrow> int \<Rightarrow> recorder \<Rightarrow> recorder" where
  "prune locked keep r = (if keep \<le> 0 then r
     else let doomed = map wf_name (drop (nat keep) (newest_first (rec_files r)))
          in r\<lparr>rec_files := filter (\<lambda>f. wf_name f \<notin> set doomed \<or> locked (wf_name f)) (rec_files r)\<rparr>)"


section \<open>Behaviour\<close>

fun channel :: "nat \<Rightarrow> sample list \<Rightarrow> sample list" where
  "channel k (l # r # ss) = (if k = 0 then l else r) # channel k ss"
| "channel k _ = []"

lemma channel_interleave:
  "length ls = length rs \<Longrightarrow> channel 0 (interleave ls rs) = ls \<and> channel 1 (interleave ls rs) = rs"
  by (induction ls rs rule: interleave.induct) auto

lemma length_pad: "length (pad_to n bs) = max n (length bs)"
  by (simp add: pad_to_def)

lemma to_bytes_append [simp]: "to_bytes (a @ b) = to_bytes a @ to_bytes b"
  by (simp add: to_bytes_def)

lemma samples_of_to_bytes: "samples (to_bytes ss) = Some ss"
proof (induction ss)
  case Nil
  then show ?case by (simp add: to_bytes_def)
next
  case (Cons s ss)
  have "sample_of (ucast s) (ucast (drop_bit 8 s)) = s"
    unfolding sample_of_def by (rule bit_eqI) (auto simp: bit_simps)
  with Cons show ?case by (simp add: to_bytes_def sample_bytes_def)
qed

text \<open>Taps of the two pumps: \<open>Inl\<close> the user's PCM, \<open>Inr\<close> the AI's.\<close>

fun tap :: "string \<Rightarrow> (bytes + bytes) list \<Rightarrow> recorder \<Rightarrow> recorder" where
  "tap call [] r = r"
| "tap call (Inl u # ps) r = tap call ps (append_user call u r)"
| "tap call (Inr a # ps) r = tap call ps (append_ai call a r)"

definition user_part :: "(bytes + bytes) list \<Rightarrow> bytes list" where
  "user_part ps = concat (map (\<lambda>p. case p of Inl u \<Rightarrow> [u] | Inr _ \<Rightarrow> []) ps)"

definition ai_part :: "(bytes + bytes) list \<Rightarrow> bytes list" where
  "ai_part ps = concat (map (\<lambda>p. case p of Inl _ \<Rightarrow> [] | Inr a \<Rightarrow> [a]) ps)"

lemma parts:
  "user_part (Inl u # ps) = u # user_part ps" "user_part (Inr a # ps) = user_part ps"
  "ai_part (Inl u # ps) = ai_part ps" "ai_part (Inr a # ps) = a # ai_part ps"
  by (simp_all add: user_part_def ai_part_def)

lemma tap_tracks:
  "rec_tracks r call = Some t \<Longrightarrow> tap call ps r = r\<lparr>rec_tracks := (rec_tracks r)(call \<mapsto>
     \<lparr>ct_user = ct_user t @ user_part ps, ct_ai = ct_ai t @ ai_part ps\<rparr>)\<rparr>"
proof (induction ps arbitrary: r t)
  case Nil
  then show ?case by (simp add: user_part_def ai_part_def fun_upd_idem)
next
  case (Cons p ps)
  show ?case
  proof (cases p)
    case (Inl u)
    have "rec_tracks (append_user call u r) call = Some (t\<lparr>ct_user := ct_user t @ [u]\<rparr>)"
      using Cons.prems by (simp add: append_user_def)
    from Cons.IH [OF this] show ?thesis
      using Inl Cons.prems by (simp add: append_user_def parts del: fun_upd_apply)
  next
    case (Inr a)
    have "rec_tracks (append_ai call a r) call = Some (t\<lparr>ct_ai := ct_ai t @ [a]\<rparr>)"
      using Cons.prems by (simp add: append_ai_def)
    from Cons.IH [OF this] show ?thesis
      using Inr Cons.prems by (simp add: append_ai_def parts del: fun_upd_apply)
  qed
qed

lemma write_stereo_wav_some:
  assumes "even (max (length (concat us)) (length (concat as)))"
  shows "\<exists>w ss. write_stereo_wav us as = Some w \<and> wav_channels w = 2 \<and> wav_rate w = 16000
    \<and> samples (wav_data w) = Some ss
    \<and> to_bytes (channel 0 ss) = pad_to (length (concat as)) (concat us)
    \<and> to_bytes (channel 1 ss) = pad_to (length (concat us)) (concat as)"
proof -
  let ?l = "pad_to (length (concat as)) (concat us)" and ?r = "pad_to (length (concat us)) (concat as)"
  have "even (length ?l)" "even (length ?r)"
    using assms by (simp_all only: length_pad max.commute)
  then obtain la ra where s: "samples ?l = Some la" "samples ?r = Some ra"
    using samples_even by blast
  have "2 * length la = 2 * length ra"
    using samples_length [OF s(1)] samples_length [OF s(2)] by (simp add: length_pad max.commute)
  then have "channel 0 (interleave la ra) = la" "channel 1 (interleave la ra) = ra"
    using channel_interleave [of la ra] by auto
  then show ?thesis
    using s samples_to_bytes [OF s(1)] samples_to_bytes [OF s(2)]
    by (simp add: write_stereo_wav_def samples_of_to_bytes ENGINE_SAMPLE_RATE_def)
qed

lemma write_stereo_wav_none:
  assumes "odd (max (length (concat us)) (length (concat as)))"
  shows "write_stereo_wav us as = None"
proof -
  have "length (pad_to (length (concat as)) (concat us)) = max (length (concat us)) (length (concat as))"
    by (simp only: length_pad max.commute)
  with assms have "odd (length (pad_to (length (concat as)) (concat us)))" by metis
  then have "samples (pad_to (length (concat as)) (concat us)) = None"
    using samples_even by blast
  then show ?thesis by (simp add: write_stereo_wav_def)
qed

lemma put_file_in: "f \<in> set (put_file f fs)"
  by (auto simp: put_file_def)

text \<open>C14. The wav of a call: what was tapped between \<open>begin_call\<close> and \<open>finalize\<close> ends in one stereo 16 kHz file whose
  left samples are the user's bytes and right samples the AI's, each in arrival order, the shorter one
  padded with silence. When the longer track has an odd number of bytes the write raises, and as the
  track was popped first the whole recording is lost.\<close>

theorem recording_has_both_tracks:
  assumes "begin_call free call r = (Inr (), r0)"
    and "finalize write_fails now call (tap call ps r0) = (res, r1)"
  shows "(\<not> write_fails \<longrightarrow> even (max (length (concat (user_part ps))) (length (concat (ai_part ps)))) \<longrightarrow>
      res = Inr (Some (call @ ''.wav'')) \<and> (\<exists>w ss. \<lparr>wf_name = call @ ''.wav'', wf_mtime = now, wf_wav = w\<rparr> \<in> set (rec_files r1)
        \<and> wav_channels w = 2 \<and> wav_rate w = 16000 \<and> samples (wav_data w) = Some ss
        \<and> to_bytes (channel 0 ss) = pad_to (length (concat (ai_part ps))) (concat (user_part ps))
        \<and> to_bytes (channel 1 ss) = pad_to (length (concat (user_part ps))) (concat (ai_part ps))))
    \<and> (odd (max (length (concat (user_part ps))) (length (concat (ai_part ps)))) \<longrightarrow>
      (\<exists>m. res = Inl (ValueError m)) \<and> rec_files r1 = rec_files r \<and> rec_tracks r1 call = None)"
proof -
  have r0: "r0 = r\<lparr>rec_tracks := (rec_tracks r)(call \<mapsto> \<lparr>ct_user = [], ct_ai = []\<rparr>)\<rparr>"
    using assms(1) by (auto simp: begin_call_def raise_def ret_def split: if_splits)
  then have tap: "tap call ps r0 = r0\<lparr>rec_tracks := (rec_tracks r0)(call \<mapsto>
      \<lparr>ct_user = user_part ps, ct_ai = ai_part ps\<rparr>)\<rparr>"
    by (subst tap_tracks [where t = "\<lparr>ct_user = [], ct_ai = []\<rparr>"]) simp_all
  have c1: "\<not> write_fails \<Longrightarrow> even (max (length (concat (user_part ps))) (length (concat (ai_part ps)))) \<Longrightarrow>
      res = Inr (Some (call @ ''.wav'')) \<and> (\<exists>w ss. \<lparr>wf_name = call @ ''.wav'', wf_mtime = now, wf_wav = w\<rparr> \<in> set (rec_files r1)
        \<and> wav_channels w = 2 \<and> wav_rate w = 16000 \<and> samples (wav_data w) = Some ss
        \<and> to_bytes (channel 0 ss) = pad_to (length (concat (ai_part ps))) (concat (user_part ps))
        \<and> to_bytes (channel 1 ss) = pad_to (length (concat (user_part ps))) (concat (ai_part ps)))"
  proof -
    assume ok: "\<not> write_fails" and ev: "even (max (length (concat (user_part ps))) (length (concat (ai_part ps))))"
    obtain w ss where w: "write_stereo_wav (user_part ps) (ai_part ps) = Some w" "wav_channels w = 2" "wav_rate w = 16000"
      "samples (wav_data w) = Some ss"
      "to_bytes (channel 0 ss) = pad_to (length (concat (ai_part ps))) (concat (user_part ps))"
      "to_bytes (channel 1 ss) = pad_to (length (concat (user_part ps))) (concat (ai_part ps))"
      using write_stereo_wav_some [OF ev] by blast
    have "res = Inr (Some (call @ ''.wav''))"
      and "\<lparr>wf_name = call @ ''.wav'', wf_mtime = now, wf_wav = w\<rparr> \<in> set (rec_files r1)"
      using assms(2) tap r0 w(1) ok by (auto simp: finalize_def Let_def ret_def put_file_in)
    with w show ?thesis by blast
  qed
  have "odd (max (length (concat (user_part ps))) (length (concat (ai_part ps)))) \<Longrightarrow>
      (\<exists>m. res = Inl (ValueError m)) \<and> rec_files r1 = rec_files r \<and> rec_tracks r1 call = None"
    using write_stereo_wav_none [of "user_part ps" "ai_part ps"] assms(2) tap r0
    by (auto simp: finalize_def Let_def raise_def)
  with c1 show ?thesis by blast
qed

definition recorder_ex :: recorder where
  "recorder_ex = recorder_init 1 []"

lemma recording_has_both_tracks_witness:
  "fst (finalize False 5 ''c1'' (tap ''c1'' [Inl [1, 2], Inr [3, 4, 5, 6]] (snd (begin_call (2 ^ 31) ''c1'' recorder_ex))))
    = Inr (Some ''c1.wav'')"
proof -
  obtain r0 where b: "begin_call (2 ^ 31) ''c1'' recorder_ex = (Inr (), r0)"
    by (simp add: begin_call_def recorder_ex_def recorder_init_def ret_def)
  obtain res r1 where f: "finalize False 5 ''c1'' (tap ''c1'' [Inl [1, 2], Inr [3, 4, 5, 6]] r0) = (res, r1)"
    by (metis prod.exhaust)
  from recording_has_both_tracks [OF b f] have "res = Inr (Some ''c1.wav'')"
    by (simp add: user_part_def ai_part_def)
  with b f show ?thesis by simp
qed


section \<open>Retention\<close>

lemma newest_first_mset [simp]: "mset (newest_first fs) = mset fs" "set (newest_first fs) = set fs"
    "length (newest_first fs) = length fs"
  by (simp_all add: newest_first_def)

text \<open>\<open>prune keep\<close> with a positive \<open>keep\<close>, when every file can be deleted, leaves \<open>min keep n\<close> of the \<open>n\<close>
  files, each of them at least as new as every deleted one, and never adds or changes a file; with
  \<open>keep \<le> 0\<close> it deletes nothing. A file that cannot be deleted stays and stops nothing else.\<close>

theorem prune_keeps_newest:
  assumes "distinct (map wf_name (rec_files r))"
  shows "(0 < keep \<longrightarrow> length (rec_files (prune (\<lambda>_. False) keep r)) = min (nat keep) (length (rec_files r)))
    \<and> (f \<in> set (rec_files (prune locked keep r)) \<longrightarrow> f \<in> set (rec_files r))
    \<and> (f \<in> set (rec_files (prune (\<lambda>_. False) keep r)) \<longrightarrow> g \<in> set (rec_files r) \<longrightarrow>
      g \<notin> set (rec_files (prune locked keep r)) \<longrightarrow> wf_mtime g \<le> wf_mtime f)
    \<and> (keep \<le> 0 \<longrightarrow> prune locked keep r = r)
    \<and> (locked (wf_name f) \<longrightarrow> f \<in> set (rec_files r) \<longrightarrow> f \<in> set (rec_files (prune locked keep r)))"
proof -
  let ?nf = "newest_first (rec_files r)" and ?k = "nat keep"
  have inj: "inj_on wf_name (set (rec_files r))" and dist: "distinct ?nf"
    using assms by (simp_all add: distinct_map newest_first_def)
  have split: "set ?nf = set (take ?k ?nf) \<union> set (drop ?k ?nf)"
    by (metis append_take_drop_id set_append)
  have disj: "set (take ?k ?nf) \<inter> set (drop ?k ?nf) = {}"
    using dist by (metis append_take_drop_id distinct_append)
  have kept: "f \<in> set (rec_files (prune (\<lambda>_. False) keep r)) \<longleftrightarrow> f \<in> set (take ?k ?nf)" if "0 < keep" for f
  proof -
    have "f \<in> set (rec_files r) \<Longrightarrow> wf_name f \<in> wf_name ` set (drop ?k ?nf) \<longleftrightarrow> f \<in> set (drop ?k ?nf)"
      using inj split by (auto simp: inj_on_def)
    then show ?thesis
      using that split disj by (auto simp: prune_def)
  qed
  have c1: "0 < keep \<Longrightarrow> length (rec_files (prune (\<lambda>_. False) keep r)) = min (nat keep) (length (rec_files r))"
  proof -
    assume k: "0 < keep"
    have "distinct (rec_files (prune (\<lambda>_. False) keep r))"
      using assms by (auto simp: prune_def distinct_map)
    then have "length (rec_files (prune (\<lambda>_. False) keep r)) = card (set (take ?k ?nf))"
      using kept [OF k] by (metis distinct_card subsetI subset_antisym)
    also have "\<dots> = length (take ?k ?nf)" using dist by (simp add: distinct_card)
    finally show ?thesis by simp
  qed
  have c2: "f \<in> set (rec_files (prune locked keep r)) \<Longrightarrow> f \<in> set (rec_files r)"
    by (auto simp: prune_def split: if_splits)
  have c4: "keep \<le> 0 \<Longrightarrow> prune locked keep r = r" by (simp add: prune_def)
  have c5: "locked (wf_name f) \<Longrightarrow> f \<in> set (rec_files r) \<Longrightarrow> f \<in> set (rec_files (prune locked keep r))"
    by (auto simp: prune_def)
  have c3: "f \<in> set (rec_files (prune (\<lambda>_. False) keep r)) \<Longrightarrow> g \<in> set (rec_files r) \<Longrightarrow>
      g \<notin> set (rec_files (prune locked keep r)) \<Longrightarrow> wf_mtime g \<le> wf_mtime f"
  proof -
    assume f: "f \<in> set (rec_files (prune (\<lambda>_. False) keep r))" and g: "g \<in> set (rec_files r)"
      "g \<notin> set (rec_files (prune locked keep r))"
    have k: "0 < keep" using g by (auto simp: prune_def split: if_splits)
    have f': "f \<in> set (take ?k ?nf)" using f kept [OF k] by blast
    have "wf_name g \<in> wf_name ` set (drop ?k ?nf)" using g k by (auto simp: prune_def)
    then have g': "g \<in> set (drop ?k ?nf)" using inj split g(1) by (auto simp: inj_on_def)
    have "sorted (map (\<lambda>f. - int (wf_mtime f)) (take ?k ?nf @ drop ?k ?nf))"
      by (simp add: newest_first_def)
    then have "\<forall>x \<in> set (take ?k ?nf). \<forall>y \<in> set (drop ?k ?nf). - int (wf_mtime x) \<le> - int (wf_mtime y)"
      unfolding map_append sorted_append by simp
    with f' g' show ?thesis by fastforce
  qed
  show ?thesis by (intro conjI impI) (use c1 c2 c3 c4 c5 in \<open>blast+\<close>)
qed

lemma prune_keeps_newest_witness:
  "length (rec_files (prune (\<lambda>_. False) 1 (recorder_init 1
     [\<lparr>wf_name = ''a.wav'', wf_mtime = 3, wf_wav = \<lparr>wav_channels = 2, wav_rate = 16000, wav_data = []\<rparr>\<rparr>,
      \<lparr>wf_name = ''b.wav'', wf_mtime = 7, wf_wav = \<lparr>wav_channels = 2, wav_rate = 16000, wav_data = []\<rparr>\<rparr>]))) = 1"
  by (subst prune_keeps_newest [THEN conjunct1, rule_format]) (simp_all add: recorder_init_def)

end
