(* ===== verification/Audio_Bridge.thy ===== *)
theory Audio_Bridge imports Complex_Main Ring_Buffer Recorder begin

text \<open>
  The audio path of a call: the rate converter of \<open>audio_bridge/resampler.py\<close>, the bridge between the
  modem's rings and the RTC session of \<open>audio_bridge/bridge.py\<close>, and the pumps between the modem's
  sound backends and the rings of \<open>edge/audio_io.py\<close>. The polyphase filter of scipy and the linear
  interpolation of numpy are functions given to the model; the conversions written in the source
  (downmix, decimation, rounding and clipping to 16 bits) are definitions. What each await returns,
  chunk by chunk, is the input of a loop.
\<close>

section \<open>Rate conversion\<close>

record resampler =
  rs_src :: int
  rs_dst :: int
  rs_up :: int
  rs_down :: int

definition resampler_init :: "int \<Rightarrow> int \<Rightarrow> pyexn + resampler" where
  "resampler_init src dst = (if src \<le> 0 \<or> dst \<le> 0 then Inl (ValueError ''sample rates must be positive'')
     else let g = gcd src dst
          in Inr \<lparr>rs_src = src, rs_dst = dst, rs_up = dst div g, rs_down = src div g\<rparr>)"

text \<open>\<open>np.round\<close>, to the nearest integer and to even on a tie, and \<open>np.clip\<close> to 16 bits.\<close>

definition round_even :: "rat \<Rightarrow> int" where
  "round_even x = (let f = floor x; d = x - of_int f in
     if d < 1 / 2 then f else if 1 / 2 < d then f + 1 else if even f then f else f + 1)"

definition clip16 :: "int \<Rightarrow> int" where
  "clip16 x = max (- 32768) (min 32767 x)"

definition resample :: "(int \<Rightarrow> int \<Rightarrow> int list \<Rightarrow> rat list) \<Rightarrow> resampler \<Rightarrow> bytes \<Rightarrow> pyexn + bytes" where
  "resample fir rs pcm =
     (if pcm = [] then Inr []
      else if length pcm mod 2 \<noteq> 0 then Inl (ValueError ''pcm length must be a multiple of 2 bytes'')
      else if rs_src rs = rs_dst rs then Inr pcm
      else case samples pcm of
          None \<Rightarrow> Inl (ValueError ''buffer size'')
        | Some ss \<Rightarrow> Inr (to_bytes (map (\<lambda>x. word_of_int (clip16 (round_even x)))
            (fir (rs_up rs) (rs_down rs) (map sint ss)))))"


section \<open>The bridge\<close>

record pcm_frame =
  pf_sender :: string
  pf_pcm :: bytes
  pf_rate :: nat
  pf_channels :: nat

record bridge =
  br_peer :: string
  br_record_call :: "string option"
  br_recorder :: recorder
  br_joined :: bool
  br_stop :: bool
  br_upstream_task :: bool
  br_downstream_task :: bool
  br_pushed :: "bytes list"
  br_up_chunks :: nat
  br_up_bytes :: nat
  br_down_chunks :: nat
  br_down_bytes :: nat
  br_backpressure :: nat
  br_filtered :: nat

definition bridge_init :: "string \<Rightarrow> (recorder \<times> string) option \<Rightarrow> pyexn + bridge" where
  "bridge_init peer rec = (if peer = [] then Inl (ValueError ''peer_uid must be non-empty'')
     else Inr \<lparr>br_peer = peer, br_record_call = map_option snd rec,
       br_recorder = (case rec of None \<Rightarrow> recorder_init 0 [] | Some (r, _) \<Rightarrow> r),
       br_joined = False, br_stop = False, br_upstream_task = False, br_downstream_task = False,
       br_pushed = [], br_up_chunks = 0, br_up_bytes = 0, br_down_chunks = 0, br_down_bytes = 0,
       br_backpressure = 0, br_filtered = 0\<rparr>)"

definition bridge_is_active :: "bridge \<Rightarrow> bool" where
  "bridge_is_active b \<longleftrightarrow> br_joined b \<and> br_upstream_task b"

definition bridge_join :: "pyexn + unit \<Rightarrow> (bridge, unit) proc" where
  "bridge_join rtc_join b = (case rtc_join of
       Inl e \<Rightarrow> raise e b
     | Inr _ \<Rightarrow> ret () (b\<lparr>br_joined := True, br_stop := False, br_upstream_task := True,
         br_downstream_task := True\<rparr>))"

text \<open>\<open>leave\<close>; a failing RTC leave is suppressed and may leave the session joined.\<close>

definition bridge_leave :: "bool \<Rightarrow> bridge \<Rightarrow> bridge" where
  "bridge_leave rtc_leave_fails b =
     b\<lparr>br_stop := True, br_joined := (br_joined b \<and> rtc_leave_fails),
       br_upstream_task := False, br_downstream_task := False\<rparr>"

text \<open>The upstream loop: chunks of the modem ring with the outcomes of the attempts to push each.\<close>

datatype push = Pushed | PushBackpressure | PushNotJoined | PushError
datatype up_input = UpChunk bytes "push list" | UpClosed

fun push_attempts :: "push list \<Rightarrow> nat \<times> push option" where
  "push_attempts [] = (0, None)"
| "push_attempts (PushBackpressure # ps) = (case push_attempts ps of (n, r) \<Rightarrow> (Suc n, r))"
| "push_attempts (p # ps) = (0, Some p)"

definition tap_user :: "bytes \<Rightarrow> bridge \<Rightarrow> bridge" where
  "tap_user pcm b = (case br_record_call b of None \<Rightarrow> b
     | Some call \<Rightarrow> b\<lparr>br_recorder := append_user call pcm (br_recorder b)\<rparr>)"

definition tap_ai :: "bytes \<Rightarrow> bridge \<Rightarrow> bridge" where
  "tap_ai pcm b = (case br_record_call b of None \<Rightarrow> b
     | Some call \<Rightarrow> b\<lparr>br_recorder := append_ai call pcm (br_recorder b)\<rparr>)"

definition pushed_chunk :: "bytes \<Rightarrow> bridge \<Rightarrow> bridge" where
  "pushed_chunk pcm b = tap_user pcm (b\<lparr>br_pushed := br_pushed b @ [pcm],
     br_up_chunks := br_up_chunks b + 1, br_up_bytes := br_up_bytes b + length pcm\<rparr>)"

fun upstream_loop :: "(bytes \<Rightarrow> pyexn + bytes) \<Rightarrow> up_input list \<Rightarrow> bridge \<Rightarrow> bridge" where
  "upstream_loop conv [] b = b"
| "upstream_loop conv (UpClosed # ins) b = b\<lparr>br_upstream_task := False\<rparr>"
| "upstream_loop conv (UpChunk chunk pushes # ins) b =
     (if br_stop b then b\<lparr>br_upstream_task := False\<rparr>
      else if chunk = [] then upstream_loop conv ins b
      else case conv chunk of
          Inl e \<Rightarrow> b\<lparr>br_upstream_task := False\<rparr>
        | Inr pcm \<Rightarrow> (case push_attempts pushes of (n, outcome) \<Rightarrow>
            let b1 = b\<lparr>br_backpressure := br_backpressure b + n\<rparr> in
            (case outcome of
               None \<Rightarrow> b1
             | Some Pushed \<Rightarrow> upstream_loop conv ins (pushed_chunk pcm b1)
             | Some _ \<Rightarrow> b1\<lparr>br_upstream_task := False\<rparr>)))"

text \<open>The downmix and decimation of \<open>_downstream_loop\<close>. Adding two numpy arrays of different lengths raises
  unless one has length 1, which is then repeated.\<close>

definition average :: "sample \<Rightarrow> sample \<Rightarrow> sample" where
  "average l r = word_of_int ((sint l + sint r) div 2)"

fun evens :: "'a list \<Rightarrow> 'a list" where
  "evens [] = []" | "evens [x] = [x]" | "evens (x # _ # xs) = x # evens xs"

definition odds :: "'a list \<Rightarrow> 'a list" where
  "odds xs = evens (tl xs)"

definition downmix :: "sample list \<Rightarrow> sample list option" where
  "downmix ss = (let ls = evens ss; rs = odds ss in
     if length ls = length rs then Some (map2 average ls rs)
     else if length rs = 1 then Some (map (\<lambda>l. average l (hd rs)) ls)
     else if length ls = 1 then Some (map (average (hd ls)) rs)
     else None)"

fun every :: "nat \<Rightarrow> 'a list \<Rightarrow> 'a list" where
  "every k [] = []"
| "every k (x # xs) = x # every k (drop (k - 1) xs)"

definition to_modem :: "(nat \<Rightarrow> sample list \<Rightarrow> sample list) \<Rightarrow> pcm_frame \<Rightarrow> bytes option" where
  "to_modem interp f = (case samples (pf_pcm f) of
       None \<Rightarrow> None
     | Some ss \<Rightarrow> (case (if pf_channels f = 2 then downmix ss else Some ss) of
           None \<Rightarrow> None
         | Some ms \<Rightarrow>
             let src_rate = (if pf_rate f = 0 then 8000 else pf_rate f)
             in Some (to_bytes (if src_rate = 8000 then ms
                  else if src_rate mod 8000 = 0 then every (src_rate div 8000) ms
                  else interp src_rate ms))))"

text \<open>The downstream loop on the frames the session yields; a frame of another sender is counted and
  dropped, a frame that does not convert or a closed ring ends the loop.\<close>

fun downstream_loop :: "(nat \<Rightarrow> sample list \<Rightarrow> sample list) \<Rightarrow> pcm_frame list \<Rightarrow> bridge \<times> ring \<Rightarrow> bridge \<times> ring" where
  "downstream_loop interp [] (b, ring) = (b, ring)"
| "downstream_loop interp (f # fs) (b, ring) =
     (if pf_sender f \<noteq> [] \<and> pf_sender f \<noteq> br_peer b
      then downstream_loop interp fs (b\<lparr>br_filtered := br_filtered b + 1\<rparr>, ring)
      else let b1 = tap_ai (pf_pcm f) b in
        (case to_modem interp f of
           None \<Rightarrow> (b1\<lparr>br_downstream_task := False\<rparr>, ring)
         | Some pcm \<Rightarrow> (case ring_put pcm ring of
               (Inl _, ring') \<Rightarrow> (b1\<lparr>br_downstream_task := False\<rparr>, ring')
             | (Inr _, ring') \<Rightarrow> downstream_loop interp fs
                 (b1\<lparr>br_down_chunks := br_down_chunks b1 + 1,
                     br_down_bytes := br_down_bytes b1 + length pcm\<rparr>, ring'))))"


section \<open>The pumps\<close>

definition FRAME :: nat where "FRAME = 320"

definition silence :: bytes where "silence = replicate FRAME 0"

text \<open>Reads of the capture backend: a chunk, empty at the end, or an exception.\<close>

fun capture_pump :: "(pyexn + bytes) list \<Rightarrow> (ring, unit) proc" where
  "capture_pump [] r = ret () r"
| "capture_pump (Inl e # reads) r = raise e r"
| "capture_pump (Inr chunk # reads) r = (if chunk = [] then ret () r
     else case ring_put chunk r of
         (Inl e, r') \<Rightarrow> raise e r'
       | (Inr _, r') \<Rightarrow> capture_pump reads r')"

lemma FRAME_pos [simp]: "0 < FRAME" "FRAME \<noteq> 0"
  by (simp_all add: FRAME_def)

function take_frames :: "bytes \<Rightarrow> bytes list \<times> bytes" where
  "take_frames acc = (if FRAME \<le> length acc
     then case take_frames (drop FRAME acc) of (fs, rest) \<Rightarrow> (take FRAME acc # fs, rest)
     else ([], acc))"
  by pat_completeness auto
termination
  by (relation "measure length") (auto simp: FRAME_def)

declare take_frames.simps [simp del]

fun write_all :: "(bytes \<Rightarrow> ('s, unit) proc) \<Rightarrow> bytes list \<Rightarrow> ('s, unit) proc" where
  "write_all write [] = ret ()"
| "write_all write (f # fs) = seqm (write f) (write_all write fs)"

text \<open>\<open>run_playback_pump\<close> on the chunks it gets until the ring is closed; returns what is left unsent.\<close>

fun playback_pump :: "(bytes \<Rightarrow> ('s, unit) proc) \<Rightarrow> bytes \<Rightarrow> bytes list \<Rightarrow> ('s, bytes) proc" where
  "playback_pump write acc [] = ret acc"
| "playback_pump write acc (chunk # chunks) =
     (if chunk = [] then playback_pump write acc chunks
      else let (fs, rest) = take_frames (acc @ chunk)
           in bindm (write_all write fs) (\<lambda>_. playback_pump write rest chunks))"

function drain_ring :: "ring \<Rightarrow> bytes \<times> ring" where
  "drain_ring r = (case rb_chunks r of
       [] \<Rightarrow> ([], snd (ring_get_nowait r))
     | c # _ \<Rightarrow> (case drain_ring (snd (ring_get_nowait r)) of (b, r') \<Rightarrow> (c @ b, r')))"
  by pat_completeness auto
termination
  by (relation "measure (\<lambda>r. length (rb_chunks r))") (auto simp: ring_get_nowait_def)

declare drain_ring.simps [simp del]

text \<open>\<open>run_duplex_pump\<close>: one round is a read, then what other tasks put on the downstream ring before the
  pump drains it.\<close>

record duplex =
  dx_up :: ring
  dx_down :: ring
  dx_pending :: bytes
  dx_written :: "bytes list"

fun put_all :: "bytes list \<Rightarrow> ring \<Rightarrow> ring" where
  "put_all [] r = r"
| "put_all (c # cs) r = put_all cs (snd (ring_put c r))"

definition duplex_write :: "duplex \<Rightarrow> duplex" where
  "duplex_write d = (let (out, down) = drain_ring (dx_down d); pending = dx_pending d @ out in
     if FRAME \<le> length pending
     then d\<lparr>dx_down := down, dx_pending := drop FRAME pending, dx_written := dx_written d @ [take FRAME pending]\<rparr>
     else d\<lparr>dx_down := down, dx_pending := pending, dx_written := dx_written d @ [silence]\<rparr>)"

fun duplex_pump :: "((pyexn + bytes) \<times> bytes list) list \<Rightarrow> (duplex, unit) proc" where
  "duplex_pump [] d = ret () d"
| "duplex_pump ((Inl e, arrivals) # rounds) d = raise e d"
| "duplex_pump ((Inr chunk, arrivals) # rounds) d = (if chunk = [] then ret () d
     else case ring_put chunk (dx_up d) of
         (Inl e, up) \<Rightarrow> raise e (d\<lparr>dx_up := up\<rparr>)
       | (Inr _, up) \<Rightarrow> duplex_pump rounds
           (duplex_write (d\<lparr>dx_up := up, dx_down := put_all arrivals (dx_down d)\<rparr>)))"


section \<open>The upstream loop\<close>

lemma resample_even: "even (length pcm) \<Longrightarrow> \<exists>out. resample fir rs pcm = Inr out"
proof -
  assume e: "even (length pcm)"
  then obtain ss where "samples pcm = Some ss" using samples_even by blast
  with e show ?thesis by (auto simp: resample_def even_iff_mod_2_eq_zero)
qed

lemma resample_odd: "odd (length pcm) \<Longrightarrow> \<exists>m. resample fir rs pcm = Inl (ValueError m)"
  by (cases pcm) (auto simp: resample_def odd_iff_mod_2_eq_one)

definition retried :: "bytes \<times> nat \<Rightarrow> up_input" where
  "retried cn = (case cn of (c, n) \<Rightarrow> UpChunk c (replicate n PushBackpressure @ [Pushed]))"

lemma push_attempts_retried: "push_attempts (replicate n PushBackpressure @ [Pushed]) = (n, Some Pushed)"
  by (induction n) simp_all

lemma pushed_chunk_simps [simp]:
  "br_pushed (pushed_chunk pcm b) = br_pushed b @ [pcm]" "br_stop (pushed_chunk pcm b) = br_stop b"
  "br_backpressure (pushed_chunk pcm b) = br_backpressure b"
  "br_upstream_task (pushed_chunk pcm b) = br_upstream_task b"
  "br_record_call (pushed_chunk pcm b) = br_record_call b"
  by (simp_all add: pushed_chunk_def tap_user_def split: option.splits)

text \<open>What a recorder has of a call's user track.\<close>

definition user_track :: "bridge \<Rightarrow> bytes list" where
  "user_track b = (case br_record_call b of None \<Rightarrow> []
     | Some call \<Rightarrow> (case rec_tracks (br_recorder b) call of None \<Rightarrow> [] | Some t \<Rightarrow> ct_user t))"

definition ai_track :: "bridge \<Rightarrow> bytes list" where
  "ai_track b = (case br_record_call b of None \<Rightarrow> []
     | Some call \<Rightarrow> (case rec_tracks (br_recorder b) call of None \<Rightarrow> [] | Some t \<Rightarrow> ct_ai t))"

definition recording :: "bridge \<Rightarrow> bool" where
  "recording b \<longleftrightarrow> (\<exists>call t. br_record_call b = Some call \<and> rec_tracks (br_recorder b) call = Some t)"

lemma track_fields:
  "br_record_call b' = br_record_call b \<Longrightarrow> br_recorder b' = br_recorder b \<Longrightarrow>
   user_track b' = user_track b \<and> ai_track b' = ai_track b \<and> recording b' = recording b"
  by (simp add: user_track_def ai_track_def recording_def split: option.splits)

lemma pushed_chunk_track:
  "recording b \<Longrightarrow> user_track (pushed_chunk pcm b) = user_track b @ [pcm] \<and> recording (pushed_chunk pcm b)"
  by (auto simp: pushed_chunk_def tap_user_def user_track_def recording_def append_user_def)

lemma upstream_loop_retried:
  assumes "\<forall>cn \<in> set cs. even (length (fst cn))" and "\<not> br_stop b"
  shows "\<exists>b' outs. upstream_loop (resample fir rs) (map retried cs @ ins) b = upstream_loop (resample fir rs) ins b'
    \<and> map Inr outs = map (resample fir rs) (filter (\<lambda>c. c \<noteq> []) (map fst cs))
    \<and> br_pushed b' = br_pushed b @ outs \<and> \<not> br_stop b'
    \<and> br_upstream_task b' = br_upstream_task b
    \<and> br_backpressure b' = br_backpressure b + sum_list (map snd (filter (\<lambda>cn. fst cn \<noteq> []) cs))
    \<and> (recording b \<longrightarrow> user_track b' = user_track b @ outs)"
  using assms
proof (induction cs arbitrary: b)
  case Nil
  then show ?case by (intro exI [of _ b] exI [of _ "[]"]) simp
next
  case (Cons cn cs)
  obtain c n where cn: "cn = (c, n)" by (cases cn)
  show ?case
  proof (cases "c = []")
    case True
    with Cons cn show ?thesis by (simp add: retried_def)
  next
    case False
    obtain out where out: "resample fir rs c = Inr out"
      using resample_even [of c fir rs] Cons.prems(1) cn by auto
    let ?b1 = "b\<lparr>br_backpressure := br_backpressure b + n\<rparr>"
    let ?b2 = "pushed_chunk out ?b1"
    have stop: "\<not> br_stop ?b2" using Cons.prems(2) by simp
    obtain b' outs where ih: "upstream_loop (resample fir rs) (map retried cs @ ins) ?b2 = upstream_loop (resample fir rs) ins b'"
      "map Inr outs = map (resample fir rs) (filter (\<lambda>c. c \<noteq> []) (map fst cs))"
      "br_pushed b' = br_pushed ?b2 @ outs" "\<not> br_stop b'" "br_upstream_task b' = br_upstream_task ?b2"
      "br_backpressure b' = br_backpressure ?b2 + sum_list (map snd (filter (\<lambda>cn. fst cn \<noteq> []) cs))"
      "recording ?b2 \<longrightarrow> user_track b' = user_track ?b2 @ outs"
      using Cons.IH [OF _ stop] Cons.prems(1) by auto
    have "recording b \<longrightarrow> user_track b' = user_track b @ out # outs"
      using ih(7) pushed_chunk_track [of ?b1 out] track_fields [of ?b1 b] by simp
    moreover have "upstream_loop (resample fir rs) (map retried (cn # cs) @ ins) b = upstream_loop (resample fir rs) ins b'"
      using ih(1) Cons.prems(2) False by (simp add: cn retried_def out push_attempts_retried Let_def)
    ultimately show ?thesis
      using ih False by (intro exI [of _ b'] exI [of _ "out # outs"]) (simp add: cn out)
  qed
qed

text \<open>C11. The upstream loop pushes the conversion of every non-empty chunk exactly once and in order, however
  often the session signals backpressure, and the recorder's user track grows by the same PCM. A
  chunk with an odd number of bytes stops the loop: nothing after it is pushed for the rest of the call.\<close>

theorem upstream_pushes_each_chunk_once:
  assumes "\<forall>cn \<in> set cs. even (length (fst cn))" and "\<not> br_stop b"
  shows "\<exists>outs. map Inr outs = map (resample fir rs) (filter (\<lambda>c. c \<noteq> []) (map fst cs))
      \<and> (let b' = upstream_loop (resample fir rs) (map retried cs) b in
          br_pushed b' = br_pushed b @ outs \<and> br_upstream_task b' = br_upstream_task b
        \<and> br_backpressure b' = br_backpressure b + sum_list (map snd (filter (\<lambda>cn. fst cn \<noteq> []) cs))
        \<and> (recording b \<longrightarrow> user_track b' = user_track b @ outs))
      \<and> (\<forall>c ps later. odd (length c) \<longrightarrow>
          (let b' = upstream_loop (resample fir rs) (map retried cs @ UpChunk c ps # later) b in
            br_pushed b' = br_pushed b @ outs \<and> \<not> br_upstream_task b'))"
proof -
  obtain b1 outs where l: "\<And>ins. \<exists>b'. upstream_loop (resample fir rs) (map retried cs @ ins) b = upstream_loop (resample fir rs) ins b'
      \<and> br_pushed b' = br_pushed b @ outs \<and> \<not> br_stop b' \<and> br_upstream_task b' = br_upstream_task b
      \<and> br_backpressure b' = br_backpressure b + sum_list (map snd (filter (\<lambda>cn. fst cn \<noteq> []) cs))
      \<and> (recording b \<longrightarrow> user_track b' = user_track b @ outs)"
    and outs: "map Inr outs = map (resample fir rs) (filter (\<lambda>c. c \<noteq> []) (map fst cs))"
  proof -
    obtain outs where outs: "map Inr outs = map (resample fir rs) (filter (\<lambda>c. c \<noteq> []) (map fst cs))"
      using upstream_loop_retried [OF assms] by blast
    have same: "outs' = outs" if "map Inr outs' = map (resample fir rs) (filter (\<lambda>c. c \<noteq> []) (map fst cs))" for outs'
      using outs that by (metis (no_types, lifting) Inr_inject injI inj_map_eq_map)
    have "\<exists>b'. upstream_loop (resample fir rs) (map retried cs @ ins) b = upstream_loop (resample fir rs) ins b'
      \<and> br_pushed b' = br_pushed b @ outs \<and> \<not> br_stop b' \<and> br_upstream_task b' = br_upstream_task b
      \<and> br_backpressure b' = br_backpressure b + sum_list (map snd (filter (\<lambda>cn. fst cn \<noteq> []) cs))
      \<and> (recording b \<longrightarrow> user_track b' = user_track b @ outs)" for ins
      using upstream_loop_retried [OF assms, of fir rs ins] same by blast
    then show thesis by (rule that) (rule outs)
  qed
  have odd: "br_pushed (upstream_loop (resample fir rs) (map retried cs @ UpChunk c ps # later) b) = br_pushed b @ outs
      \<and> \<not> br_upstream_task (upstream_loop (resample fir rs) (map retried cs @ UpChunk c ps # later) b)"
    if oddc: "odd (length c)" for c ps later
  proof -
    obtain m where m: "resample fir rs c = Inl (ValueError m)" using resample_odd [OF oddc] by blast
    have "c \<noteq> []" using oddc by auto
    with l [of "UpChunk c ps # later"] m show ?thesis by auto
  qed
  show ?thesis
    using l [of "[]"] outs odd by (intro exI [of _ outs]) (auto simp: Let_def)
qed

definition bridge_ex :: bridge where
  "bridge_ex = (case bridge_init ''engine'' None of Inr b \<Rightarrow> snd (bridge_join (Inr ()) b) | Inl e \<Rightarrow> undefined)"

definition fir_ex :: "int \<Rightarrow> int \<Rightarrow> int list \<Rightarrow> rat list" where
  "fir_ex up down xs = concat (map (\<lambda>x. replicate (nat up) (of_int x)) xs)"

lemma upstream_pushes_each_chunk_once_witness:
  "\<exists>outs. map Inr outs = map (resample fir_ex \<lparr>rs_src = 8000, rs_dst = 16000, rs_up = 2, rs_down = 1\<rparr>) [[1, 0], [2, 0]]
    \<and> br_pushed (upstream_loop (resample fir_ex \<lparr>rs_src = 8000, rs_dst = 16000, rs_up = 2, rs_down = 1\<rparr>)
        (map retried [([1, 0], 2), ([], 0), ([2, 0], 0)]) bridge_ex) = outs"
proof -
  have "\<not> br_stop bridge_ex" "br_pushed bridge_ex = []"
    by (simp_all add: bridge_ex_def bridge_init_def bridge_join_def ret_def)
  with upstream_pushes_each_chunk_once [of "[([1, 0], 2), ([], 0), ([2, 0], 0)]" bridge_ex fir_ex
      "\<lparr>rs_src = 8000, rs_dst = 16000, rs_up = 2, rs_down = 1\<rparr>"]
  show ?thesis by (simp add: Let_def)
qed


section \<open>The downstream loop\<close>

lemma evens_nth: "2 * i < length xs \<Longrightarrow> evens xs ! i = xs ! (2 * i)"
proof (induction xs arbitrary: i rule: evens.induct)
  case (3 x y xs)
  then show ?case by (cases i) auto
qed auto

lemma length_evens: "length (evens xs) = (length xs + 1) div 2"
  by (induction xs rule: evens.induct) auto

lemma downmix_even:
  assumes "length ss = 2 * n"
  shows "downmix ss = Some (map (\<lambda>i. average (ss ! (2 * i)) (ss ! (2 * i + 1))) [0..<n])"
proof -
  have le: "length (evens ss) = n" using assms by (simp add: length_evens)
  have lo: "length (odds ss) = n" using assms by (cases n) (simp_all add: odds_def length_evens)
  have "odds ss ! i = ss ! (2 * i + 1)" if "i < n" for i
    using evens_nth [of i "tl ss"] assms that by (simp add: odds_def nth_tl)
  moreover have "evens ss ! i = ss ! (2 * i)" if "i < n" for i
    using evens_nth [of i ss] assms that by simp
  ultimately have "map2 average (evens ss) (odds ss) = map (\<lambda>i. average (ss ! (2 * i)) (ss ! (2 * i + 1))) [0..<n]"
    using le lo by (intro nth_equalityI) auto
  with le lo show ?thesis by (simp add: downmix_def Let_def)
qed

lemma every_nth: "0 < k \<Longrightarrow> k * i < length xs \<Longrightarrow> i < length (every k xs) \<and> every k xs ! i = xs ! (k * i)"
proof (induction k xs arbitrary: i rule: every.induct)
  case (2 k x xs)
  show ?case
  proof (cases i)
    case 0
    then show ?thesis by simp
  next
    case (Suc j)
    have "k * j < length (drop (k - 1) xs)" using 2 Suc by auto
    with 2 have "j < length (every k (drop (k - 1) xs)) \<and> every k (drop (k - 1) xs) ! j = drop (k - 1) xs ! (k * j)"
      by blast
    moreover have "drop (k - 1) xs ! (k * j) = xs ! (k * j + (k - 1))" using \<open>k * j < _\<close> by (simp add: add.commute)
    moreover have "k * Suc j = Suc (k * j + (k - 1))" using 2(2) by (cases k) auto
    ultimately show ?thesis using Suc by (simp add: add.commute)
  qed
qed simp

lemma length_every: "0 < k \<Longrightarrow> length (every k xs) = (length xs + k - 1) div k"
proof (induction k xs rule: every.induct)
  case (2 k x xs)
  let ?rest = "drop (k - 1) xs"
  show ?case
  proof (cases "length xs \<le> k - 1")
    case True
    then have "every k (x # xs) = [x]" by simp
    moreover have "(length (x # xs) + k - 1) div k = 1"
      using True 2(2) by (intro div_nat_eqI) auto
    ultimately show ?thesis by simp
  next
    case False
    then have "length (x # xs) + k - 1 = k + (length ?rest + k - 1)" using 2(2) by simp
    then have "(length (x # xs) + k - 1) div k = Suc ((length ?rest + k - 1) div k)"
      using 2(2) by (simp only: div_add_self1)
    moreover have "length (every k (x # xs)) = Suc (length (every k ?rest))" by simp
    ultimately show ?thesis using 2 by (simp only:)
  qed
qed simp

lemma to_modem_stereo:
  assumes "samples (pf_pcm f) = Some ss" and "pf_channels f = 2" and "length ss = 2 * n"
    and "pf_rate f = 8000 * k" and "0 < k"
  shows "to_modem interp f = Some (to_bytes
    (map (\<lambda>i. average (ss ! (2 * k * i)) (ss ! (2 * k * i + 1))) [0..<(n + k - 1) div k]))"
proof -
  let ?m = "map (\<lambda>i. average (ss ! (2 * i)) (ss ! (2 * i + 1))) [0..<n]"
  have "every k ?m = map (\<lambda>i. average (ss ! (2 * k * i)) (ss ! (2 * k * i + 1))) [0..<(n + k - 1) div k]"
  proof (rule nth_equalityI)
    show "length (every k ?m) = length (map (\<lambda>i. average (ss ! (2 * k * i)) (ss ! (2 * k * i + 1))) [0..<(n + k - 1) div k])"
      using assms(5) by (simp add: length_every)
    fix i
    assume "i < length (every k ?m)"
    then have i: "i < (n + k - 1) div k" using assms(5) by (simp add: length_every)
    then have "i + 1 \<le> (n + k - 1) div k" by simp
    then have "(i + 1) * k \<le> n + k - 1" using less_eq_div_iff_mult_less_eq [OF assms(5)] by blast
    then have "k * i < n" using assms(5) by (simp add: algebra_simps)
    then show "every k ?m ! i = map (\<lambda>i. average (ss ! (2 * k * i)) (ss ! (2 * k * i + 1))) [0..<(n + k - 1) div k] ! i"
      using every_nth [OF assms(5), of i ?m] i by (simp add: algebra_simps)
  qed
  moreover have "every 1 xs = xs" for xs :: "sample list" by (induction xs) auto
  ultimately show ?thesis
    using assms by (cases "k = 1") (simp_all add: to_modem_def downmix_even Let_def)
qed

definition from_peer :: "bridge \<Rightarrow> pcm_frame \<Rightarrow> bool" where
  "from_peer b f \<longleftrightarrow> pf_sender f = [] \<or> pf_sender f = br_peer b"

lemma tap_ai_simps [simp]:
  "br_peer (tap_ai pcm b) = br_peer b" "br_filtered (tap_ai pcm b) = br_filtered b"
  "br_down_chunks (tap_ai pcm b) = br_down_chunks b" "br_downstream_task (tap_ai pcm b) = br_downstream_task b"
  by (simp_all add: tap_ai_def split: option.splits)

lemma tap_ai_track: "recording b \<Longrightarrow> ai_track (tap_ai pcm b) = ai_track b @ [pcm] \<and> recording (tap_ai pcm b)"
  by (auto simp: tap_ai_def ai_track_def recording_def append_ai_def)

lemma downstream_loop_accepts:
  assumes "ring_inv ring" and "\<not> rb_closed ring"
    and "\<And>f. f \<in> set fs \<Longrightarrow> from_peer b f \<Longrightarrow> \<exists>pcm. to_modem interp f = Some pcm \<and> len pcm \<le> rb_capacity ring"
  shows "\<exists>b'. downstream_loop interp fs (b, ring)
      = (b', fold ring_push (map (the \<circ> to_modem interp) (filter (from_peer b) fs)) ring)
    \<and> br_filtered b' = br_filtered b + length (filter (\<lambda>f. \<not> from_peer b f) fs)
    \<and> br_down_chunks b' = br_down_chunks b + length (filter (from_peer b) fs)
    \<and> br_downstream_task b' = br_downstream_task b
    \<and> (recording b \<longrightarrow> ai_track b' = ai_track b @ map pf_pcm (filter (from_peer b) fs))"
  using assms
proof (induction fs arbitrary: b ring)
  case Nil
  then show ?case by simp
next
  case (Cons f fs)
  show ?case
  proof (cases "from_peer b f")
    case False
    let ?b1 = "b\<lparr>br_filtered := br_filtered b + 1\<rparr>"
    have "from_peer ?b1 = from_peer b" by (rule ext) (simp add: from_peer_def)
    moreover have "recording ?b1 = recording b \<and> ai_track ?b1 = ai_track b"
      using track_fields [of ?b1 b] by simp
    ultimately show ?thesis
      using Cons.IH [of ring ?b1] Cons.prems False by (auto simp: from_peer_def)
  next
    case True
    obtain pcm where pcm: "to_modem interp f = Some pcm" "len pcm \<le> rb_capacity ring"
      using Cons.prems(3) [of f] True by auto
    note fits = ring_push_fits [OF Cons.prems(1,2) pcm(2)]
    have put: "ring_put pcm ring = (Inr (), ring_push pcm ring)"
      using ring_put_cases [OF Cons.prems(1,2) pcm(2)] by (metis ring_push_def snd_conv)
    let ?b1 = "tap_ai (pf_pcm f) b"
    let ?b2 = "?b1\<lparr>br_down_chunks := br_down_chunks ?b1 + 1, br_down_bytes := br_down_bytes ?b1 + length pcm\<rparr>"
    have "from_peer ?b2 = from_peer b" by (rule ext) (simp add: from_peer_def)
    moreover have "recording b \<Longrightarrow> recording ?b2 \<and> ai_track ?b2 = ai_track b @ [pf_pcm f]"
      using track_fields [of ?b2 ?b1] tap_ai_track [of b "pf_pcm f"] by simp
    moreover have "downstream_loop interp (f # fs) (b, ring) = downstream_loop interp fs (?b2, ring_push pcm ring)"
      using True pcm put by (auto simp: from_peer_def Let_def)
    ultimately show ?thesis
      using Cons.IH [of "ring_push pcm ring" ?b2] Cons.prems fits True pcm by auto
  qed
qed


definition frame_ex :: pcm_frame where
  "frame_ex = \<lparr>pf_sender = ''engine'', pf_pcm = [0, 0, 4, 0, 1, 0, 1, 0, 9, 0, 9, 0], pf_rate = 24000, pf_channels = 2\<rparr>"



section \<open>Framing\<close>

lemma take_frames_shape:
  "concat (fst (take_frames acc)) @ snd (take_frames acc) = acc
   \<and> (\<forall>f \<in> set (fst (take_frames acc)). length f = FRAME) \<and> length (snd (take_frames acc)) < FRAME"
proof (induction acc rule: take_frames.induct)
  case (1 acc)
  show ?case
  proof (cases "FRAME \<le> length acc")
    case True
    obtain fs rest where t: "take_frames (drop FRAME acc) = (fs, rest)" by fastforce
    then have "take_frames acc = (take FRAME acc # fs, rest)"
      using True by (subst take_frames.simps) simp
    with 1 [OF True] t True show ?thesis by (simp add: append_assoc [symmetric] del: append_assoc)
      (metis append.assoc append_take_drop_id)
  next
    case False
    then show ?thesis by (simp add: take_frames.simps)
  qed
qed

text \<open>A backend that keeps what is written to it.\<close>

definition log_write :: "bytes \<Rightarrow> (bytes list, unit) proc" where
  "log_write f ws = ret () (ws @ [f])"

lemma write_all_log: "write_all log_write fs ws = (Inr (), ws @ fs)"
  by (induction fs arbitrary: ws) (simp_all add: ret_def seqm_def bindm_def log_write_def)

lemma playback_pump_frames:
  "length acc < FRAME \<Longrightarrow> \<exists>fs rest. playback_pump log_write acc chunks ws = (Inr rest, ws @ fs)
     \<and> concat fs @ rest = acc @ concat chunks \<and> (\<forall>f \<in> set fs. length f = FRAME) \<and> length rest < FRAME"
proof (induction chunks arbitrary: acc ws)
  case Nil
  then show ?case by (simp add: ret_def)
next
  case (Cons c cs)
  show ?case
  proof (cases "c = []")
    case True
    with Cons show ?thesis by simp
  next
    case False
    obtain fs rest where t: "take_frames (acc @ c) = (fs, rest)" by fastforce
    then have shape: "concat fs @ rest = acc @ c" "\<forall>f \<in> set fs. length f = FRAME" "length rest < FRAME"
      using take_frames_shape [of "acc @ c"] by auto
    obtain gs rest' where ih: "playback_pump log_write rest cs (ws @ fs) = (Inr rest', (ws @ fs) @ gs)"
      "concat gs @ rest' = rest @ concat cs" "\<forall>f \<in> set gs. length f = FRAME" "length rest' < FRAME"
      using Cons.IH [OF shape(3)] by blast
    have "playback_pump log_write acc (c # cs) ws = (Inr rest', ws @ (fs @ gs))"
      using False ih(1) by (simp add: t bindm_def write_all_log)
    moreover have "concat (fs @ gs) @ rest' = acc @ concat (c # cs)"
    proof -
      have "concat (fs @ gs) @ rest' = concat fs @ (rest @ concat cs)" by (simp add: ih(2))
      also have "\<dots> = (acc @ c) @ concat cs" by (simp only: append_assoc [symmetric] shape(1))
      finally show ?thesis by simp
    qed
    ultimately show ?thesis using ih(3,4) shape(2) by (intro exI [of _ "fs @ gs"] exI [of _ rest']) auto
  qed
qed

lemma put_all_fits:
  "ring_inv r \<Longrightarrow> \<not> rb_closed r \<Longrightarrow> total (rb_chunks r) + total cs \<le> rb_capacity r \<Longrightarrow>
   rb_chunks (put_all cs r) = rb_chunks r @ cs \<and> ring_inv (put_all cs r) \<and> \<not> rb_closed (put_all cs r)
   \<and> rb_capacity (put_all cs r) = rb_capacity r"
proof (induction cs arbitrary: r)
  case (Cons c cs)
  have "len c \<le> rb_capacity r"
    using Cons.prems(3) total_nonneg [of "rb_chunks r"] total_nonneg [of cs] unfolding total_simps by linarith
  from ring_put_cases [OF Cons.prems(1,2) this] obtain k where
    k: "ring_put c r = (Inr (), r\<lparr>rb_chunks := drop k (rb_chunks r) @ [c],
        rb_size := total (drop k (rb_chunks r)) + len c,
        rb_dropped_chunks := rb_dropped_chunks r + int k,
        rb_dropped_bytes := rb_dropped_bytes r + total (take k (rb_chunks r))\<rparr>)"
    "\<forall>j<k. total (drop j (rb_chunks r)) + len c > rb_capacity r" by blast
  have "k = 0"
  proof (rule ccontr)
    assume "k \<noteq> 0"
    with k(2) have "total (rb_chunks r) + len c > rb_capacity r" by (metis drop0 gr0I)
    with Cons.prems(3) total_nonneg [of cs] show False unfolding total_simps by linarith
  qed
  then have chunks: "rb_chunks (ring_push c r) = rb_chunks r @ [c]" using k(1) by (simp add: ring_push_def)
  have fits: "ring_inv (ring_push c r)" "rb_capacity (ring_push c r) = rb_capacity r" "\<not> rb_closed (ring_push c r)"
    using ring_push_fits [OF Cons.prems(1,2) \<open>len c \<le> rb_capacity r\<close>] Cons.prems(2) by auto
  have "total (rb_chunks (ring_push c r)) + total cs \<le> rb_capacity (ring_push c r)"
    using Cons.prems(3) fits(2) by (simp add: chunks)
  from Cons.IH [OF fits(1,3) this] show ?case
    using chunks fits(2) by (simp add: ring_push_def)
qed simp

lemma drain_ring_all:
  "ring_inv r \<Longrightarrow> fst (drain_ring r) = concat (rb_chunks r) \<and> rb_chunks (snd (drain_ring r)) = []
   \<and> ring_inv (snd (drain_ring r)) \<and> rb_closed (snd (drain_ring r)) = rb_closed r
   \<and> rb_capacity (snd (drain_ring r)) = rb_capacity r"
proof (induction r rule: drain_ring.induct)
  case (1 r)
  show ?case
  proof (cases "rb_chunks r")
    case Nil
    with 1(2) show ?thesis by (simp add: drain_ring.simps [of r] ring_get_nowait_def)
  next
    case (Cons c cs)
    let ?r = "snd (ring_get_nowait r)"
    have r: "rb_chunks ?r = cs" "ring_inv ?r" "rb_closed ?r = rb_closed r" "rb_capacity ?r = rb_capacity r"
      using 1(2) Cons by (auto simp: ring_get_nowait_def ring_inv_def)
    obtain b r' where d: "drain_ring ?r = (b, r')" by fastforce
    then have "drain_ring r = (c @ b, r')" using Cons by (simp add: drain_ring.simps [of r])
    with 1(1) [OF Cons r(2)] Cons d r show ?thesis by simp
  qed
qed

definition voiced :: "bytes list \<Rightarrow> bool list \<Rightarrow> bytes" where
  "voiced ws vs = concat (map fst (filter snd (zip ws vs)))"

lemma duplex_write_round:
  assumes "ring_inv (dx_down d)"
  shows "\<exists>w v. dx_written (duplex_write d) = dx_written d @ [w] \<and> length w = FRAME \<and> (\<not> v \<longrightarrow> w = silence)
    \<and> (if v then w else []) @ dx_pending (duplex_write d) = dx_pending d @ concat (rb_chunks (dx_down d))
    \<and> rb_chunks (dx_down (duplex_write d)) = [] \<and> ring_inv (dx_down (duplex_write d))
    \<and> rb_closed (dx_down (duplex_write d)) = rb_closed (dx_down d)
    \<and> rb_capacity (dx_down (duplex_write d)) = rb_capacity (dx_down d) \<and> dx_up (duplex_write d) = dx_up d"
proof -
  obtain out down where o: "drain_ring (dx_down d) = (out, down)" by fastforce
  note all = drain_ring_all [OF assms, unfolded o fst_conv snd_conv]
  show ?thesis
  proof (cases "FRAME \<le> length (dx_pending d @ out)")
    case True
    then show ?thesis
      using all by (intro exI [of _ "take FRAME (dx_pending d @ out)"] exI [of _ True])
        (simp add: duplex_write_def o Let_def del: take_append drop_append)
  next
    case False
    then show ?thesis
      using all by (intro exI [of _ silence] exI [of _ False]) (simp add: duplex_write_def o Let_def silence_def)
  qed
qed

lemma duplex_pump_rounds:
  assumes "ring_inv (dx_up d)" and "\<not> rb_closed (dx_up d)" and "ring_inv (dx_down d)" and "\<not> rb_closed (dx_down d)"
    and "rb_chunks (dx_down d) = []"
    and "\<forall>(c, arr) \<in> set rounds. c \<noteq> [] \<and> total arr \<le> rb_capacity (dx_down d)"
  shows "\<exists>d' ws vs. duplex_pump (map (\<lambda>(c, arr). (Inr c, arr)) rounds @ (Inr [], later) # rest) d = (Inr (), d')
    \<and> dx_written d' = dx_written d @ ws \<and> length ws = length rounds \<and> length vs = length rounds
    \<and> (\<forall>w \<in> set ws. length w = FRAME) \<and> (\<forall>(w, v) \<in> set (zip ws vs). \<not> v \<longrightarrow> w = silence)
    \<and> voiced ws vs @ dx_pending d' = dx_pending d @ concat (concat (map snd rounds))"
  using assms
proof (induction rounds arbitrary: d)
  case Nil
  then show ?case by (intro exI [of _ d] exI [of _ "[]"]) (simp add: ret_def voiced_def)
next
  case (Cons round rounds)
  obtain c arr where ca: "round = (c, arr)" by (cases round)
  then have c: "c \<noteq> []" "total arr \<le> rb_capacity (dx_down d)" using Cons.prems(6) by auto
  have put: "ring_put c (dx_up d) = (Inr (), ring_push c (dx_up d))"
    using Cons.prems(2) by (simp add: ring_push_def ring_put_def ret_def Let_def)
  let ?d1 = "d\<lparr>dx_up := ring_push c (dx_up d), dx_down := put_all arr (dx_down d)\<rparr>"
  have down: "rb_chunks (put_all arr (dx_down d)) = arr" "ring_inv (put_all arr (dx_down d))"
    "\<not> rb_closed (put_all arr (dx_down d))" "rb_capacity (put_all arr (dx_down d)) = rb_capacity (dx_down d)"
    using put_all_fits [OF Cons.prems(3,4), of arr] Cons.prems(5) c(2) by auto
  obtain w v where w: "dx_written (duplex_write ?d1) = dx_written d @ [w]" "length w = FRAME" "\<not> v \<longrightarrow> w = silence"
    "(if v then w else []) @ dx_pending (duplex_write ?d1) = dx_pending d @ concat arr"
    "rb_chunks (dx_down (duplex_write ?d1)) = []" "ring_inv (dx_down (duplex_write ?d1))"
    "\<not> rb_closed (dx_down (duplex_write ?d1))" "rb_capacity (dx_down (duplex_write ?d1)) = rb_capacity (dx_down d)"
    "dx_up (duplex_write ?d1) = ring_push c (dx_up d)"
    using duplex_write_round [of ?d1] down by auto
  have up: "ring_inv (dx_up (duplex_write ?d1))" "\<not> rb_closed (dx_up (duplex_write ?d1))"
    using Cons.prems(1,2) w(9) by (simp_all add: ring_inv_push)
  obtain d' ws vs where ih: "duplex_pump (map (\<lambda>(c, arr). (Inr c, arr)) rounds @ (Inr [], later) # rest) (duplex_write ?d1) = (Inr (), d')"
    "dx_written d' = dx_written (duplex_write ?d1) @ ws" "length ws = length rounds" "length vs = length rounds"
    "\<forall>w \<in> set ws. length w = FRAME" "\<forall>(w, v) \<in> set (zip ws vs). \<not> v \<longrightarrow> w = silence"
    "voiced ws vs @ dx_pending d' = dx_pending (duplex_write ?d1) @ concat (concat (map snd rounds))"
    using Cons.IH [OF up w(6,7,5)] Cons.prems(6) w(8) by auto
  have "voiced (w # ws) (v # vs) @ dx_pending d' = dx_pending d @ concat (concat (map snd (round # rounds)))"
  proof -
    have "voiced (w # ws) (v # vs) = (if v then w else []) @ voiced ws vs" by (simp add: voiced_def)
    then have "voiced (w # ws) (v # vs) @ dx_pending d'
        = ((if v then w else []) @ dx_pending (duplex_write ?d1)) @ concat (concat (map snd rounds))"
      by (simp only: append_assoc ih(7))
    also have "\<dots> = (dx_pending d @ concat arr) @ concat (concat (map snd rounds))" by (simp only: w(4))
    finally show ?thesis by (simp add: ca)
  qed
  moreover have "duplex_pump (map (\<lambda>(c, arr). (Inr c, arr)) (round # rounds) @ (Inr [], later) # rest) d = (Inr (), d')"
    using ih(1) c(1) put by (simp add: ca)
  ultimately show ?case
    using ih w(1-3) by (intro exI [of _ d'] exI [of _ "w # ws"] exI [of _ "v # vs"]) auto
qed

text \<open>C13. The modem is only ever written whole 320-byte frames. The playback pump cuts the downstream bytes into
  frames, keeps their order and holds back less than a frame. The duplex pump writes exactly one frame
  per uplink frame it reads; the frames that are not silence fillers, followed by what is still pending,
  are the downstream bytes in order; and an empty read ends it without a write.\<close>

theorem modem_gets_whole_frames:
  shows "(\<exists>fs rest. playback_pump log_write [] chunks ws = (Inr rest, ws @ fs)
      \<and> concat fs @ rest = concat chunks \<and> (\<forall>f \<in> set fs. length f = 320) \<and> length rest < 320)
    \<and> (ring_inv (dx_up d) \<longrightarrow> \<not> rb_closed (dx_up d) \<longrightarrow> ring_inv (dx_down d) \<longrightarrow> \<not> rb_closed (dx_down d) \<longrightarrow>
      rb_chunks (dx_down d) = [] \<longrightarrow>
      (\<forall>(c, arr) \<in> set rounds. c \<noteq> [] \<and> total arr \<le> rb_capacity (dx_down d)) \<longrightarrow>
      (\<exists>d' fs vs. duplex_pump (map (\<lambda>(c, arr). (Inr c, arr)) rounds @ (Inr [], later) # rest) d = (Inr (), d')
        \<and> dx_written d' = dx_written d @ fs \<and> length fs = length rounds \<and> length vs = length rounds
        \<and> (\<forall>f \<in> set fs. length f = 320) \<and> (\<forall>(f, v) \<in> set (zip fs vs). \<not> v \<longrightarrow> f = silence)
        \<and> voiced fs vs @ dx_pending d' = dx_pending d @ concat (concat (map snd rounds))))"
proof -
  have c1: "\<exists>fs rest. playback_pump log_write [] chunks ws = (Inr rest, ws @ fs)
      \<and> concat fs @ rest = concat chunks \<and> (\<forall>f \<in> set fs. length f = 320) \<and> length rest < 320"
    using playback_pump_frames [of "[]" chunks ws] by (simp add: FRAME_def)
  have "\<exists>d' fs vs. duplex_pump (map (\<lambda>(c, arr). (Inr c, arr)) rounds @ (Inr [], later) # rest) d = (Inr (), d')
        \<and> dx_written d' = dx_written d @ fs \<and> length fs = length rounds \<and> length vs = length rounds
        \<and> (\<forall>f \<in> set fs. length f = 320) \<and> (\<forall>(f, v) \<in> set (zip fs vs). \<not> v \<longrightarrow> f = silence)
        \<and> voiced fs vs @ dx_pending d' = dx_pending d @ concat (concat (map snd rounds))"
    if "ring_inv (dx_up d)" "\<not> rb_closed (dx_up d)" "ring_inv (dx_down d)" "\<not> rb_closed (dx_down d)"
      "rb_chunks (dx_down d) = []" "\<forall>(c, arr) \<in> set rounds. c \<noteq> [] \<and> total arr \<le> rb_capacity (dx_down d)"
    using duplex_pump_rounds [OF that, of later rest] unfolding FRAME_def .
  with c1 show ?thesis by blast
qed

definition duplex_ex :: duplex where
  "duplex_ex = (case ring_init 32768 of Inr r \<Rightarrow> \<lparr>dx_up = r, dx_down = r, dx_pending = [], dx_written = []\<rparr>
     | Inl e \<Rightarrow> undefined)"

lemma modem_gets_whole_frames_witness:
  "\<exists>d' fs vs. duplex_pump [(Inr [1, 2], [replicate 200 5, replicate 200 6]), (Inr [3, 4], []), (Inr [], [])] duplex_ex = (Inr (), d')
     \<and> dx_written d' = fs \<and> length fs = 2 \<and> voiced fs vs @ dx_pending d' = replicate 200 5 @ replicate 200 6"
proof -
  have pre: "ring_inv (dx_up duplex_ex)" "\<not> rb_closed (dx_up duplex_ex)" "ring_inv (dx_down duplex_ex)"
    "\<not> rb_closed (dx_down duplex_ex)" "rb_chunks (dx_down duplex_ex) = []"
    and d: "dx_written duplex_ex = []" "dx_pending duplex_ex = []"
    by (simp_all add: duplex_ex_def ring_init_def ring_inv_def)
  have "\<forall>(c, arr) \<in> set [([1, 2], [replicate 200 5, replicate 200 6]), ([3, 4], [])].
      c \<noteq> [] \<and> total arr \<le> rb_capacity (dx_down duplex_ex)"
    by (simp add: duplex_ex_def ring_init_def)
  from modem_gets_whole_frames [THEN conjunct2, THEN mp, THEN mp, THEN mp, THEN mp, THEN mp, THEN mp, OF pre this, of "[]" "[]"] d show ?thesis
    by simp (metis numeral_2_eq_2)
qed

end
