(* ===== verification/Orchestrator.thy ===== *)
theory Orchestrator imports At_Client Grpc_Client Audio_Bridge "HOL-Library.AList" begin

text \<open>
  The call orchestrator of \<open>edge/orchestrator.py\<close>: the handlers of cloud messages and of the AT event
  stream, the call contexts they share, and their teardown. Contexts are heap objects (\<open>or_ctxs\<close>) that
  the call table, the event pump and the handlers name by reference. Messages go out through the
  \<open>send\<close> of \<open>Grpc_Client\<close>, recordings through \<open>Recorder\<close>, the rings are those of \<open>Ring_Buffer\<close>. What the
  modem, the RTC SDK and the file system answer during a handler is the handler's \<open>env\<close>. Every effect is
  logged with the context it belongs to, so that orderings across components can be stated.
\<close>

section \<open>Messages, effects and contexts\<close>

datatype proto_cause = PC_UNSPECIFIED | PC_NO_ANSWER | PC_USER_BUSY | PC_NETWORK_OUT_OF_ORDER
  | PC_NORMAL_CLEARING | PC_CALL_REJECTED

datatype edge_msg =
    DialAck string bool string
  | CallConnected string
  | CallHangup string proto_cause string
  | HardwareAlert string string

definition PCM_ENABLE_FAILED_STAGE :: string where "PCM_ENABLE_FAILED_STAGE = ''CPCMREG_ENABLE''"
definition DEV_TERMINATE_CAUSE :: string where "DEV_TERMINATE_CAUSE = ''dev_terminate''"

definition hangup_cause_to_proto :: "(string \<times> proto_cause) list" where
  "hangup_cause_to_proto =
    [(''no_answer'', PC_NO_ANSWER), (''user_busy'', PC_USER_BUSY),
     (''network_out_of_order'', PC_NETWORK_OUT_OF_ORDER), (''normal_clearing'', PC_NORMAL_CLEARING),
     (''call_rejected'', PC_CALL_REJECTED), (''user_hangup'', PC_NORMAL_CLEARING),
     (''manual_hangup'', PC_NORMAL_CLEARING)]"

record dial_command =
  dc_call_id :: string
  dc_number :: string
  dc_channel :: string
  dc_uid_edge :: string
  dc_uid_engine :: string

datatype cloud_msg = CloudDial dial_command | CloudCancel string | CloudHeartbeat | CloudIgnored string | CloudUnknown

datatype modem_call = ModemCall nat | DevFake

datatype task = AtPump | DuplexPump | CapturePump | PlaybackPump | AiRecording | MicCapture

datatype effect =
    Sent edge_msg
  | AtDial string
  | AtHangup modem_call
  | CpcmregEnabled | CpcmregDisabled
  | BridgeBuilt | BridgeJoined | BridgeLeft
  | RtcBuilt | RtcJoined | RtcLeft
  | RecordBegun | RecordFinalized | RecordPruned
  | RingClosed
  | TaskStarted task | TaskCancelled task
  | HardwareClosed

record call_ctx =
  cx_call_id :: string
  cx_dial :: dial_command
  cx_modem :: modem_call
  cx_has_at :: bool
  cx_bridge :: "bool option"
  cx_upstream :: "ring option"
  cx_downstream :: "ring option"
  cx_tasks :: "task list"
  cx_recorder :: bool
  cx_rtc :: bool
  cx_cpcmreg :: bool
  cx_terminated :: bool

definition new_ctx :: "dial_command \<Rightarrow> modem_call \<Rightarrow> bool \<Rightarrow> call_ctx" where
  "new_ctx dial modem has_at = \<lparr>cx_call_id = dc_call_id dial, cx_dial = dial, cx_modem = modem, cx_has_at = has_at,
     cx_bridge = None, cx_upstream = None, cx_downstream = None, cx_tasks = [], cx_recorder = False,
     cx_rtc = False, cx_cpcmreg = False, cx_terminated = False\<rparr>"

text \<open>What the outside answers while one handler runs.\<close>

record edge_env =
  ev_dial :: "pyexn + nat"
  ev_cpcmreg :: "pyexn + unit"
  ev_factory :: "pyexn + unit"
  ev_join :: "pyexn + unit"
  ev_hangup :: "pyexn + unit"
  ev_free :: int
  ev_write_fails :: bool
  ev_now :: nat
  ev_locked :: "string \<Rightarrow> bool"
  ev_windows :: bool
  ev_no_mic :: bool

record 'p orch =
  or_grpc :: "(edge_msg, 'p) client"
  or_recorder :: "recorder option"
  or_max :: int
  or_ring_capacity :: int
  or_dev :: bool
  or_hardware :: bool
  or_started :: bool
  or_callback :: bool
  or_ctxs :: "nat \<Rightarrow> call_ctx"
  or_next :: nat
  or_calls :: "(string \<times> nat) list"
  or_pumps :: "nat list"
  or_log :: "(nat option \<times> effect) list"

definition orch_init :: "(edge_msg, 'p) client \<Rightarrow> bool \<Rightarrow> bool \<Rightarrow> int \<Rightarrow> recorder option \<Rightarrow> int \<Rightarrow> pyexn + 'p orch" where
  "orch_init grpc hardware dev ring_capacity recorder max_recordings =
     (if \<not> dev \<and> \<not> hardware then Inl (ValueError ''EdgeOrchestrator requires at_client / capture / playback'')
      else Inr \<lparr>or_grpc = grpc, or_recorder = recorder, or_max = max_recordings, or_ring_capacity = ring_capacity,
        or_dev = dev, or_hardware = hardware, or_started = False, or_callback = False,
        or_ctxs = (\<lambda>_. new_ctx \<lparr>dc_call_id = [], dc_number = [], dc_channel = [], dc_uid_edge = [], dc_uid_engine = []\<rparr>
          DevFake False),
        or_next = 0, or_calls = [], or_pumps = [], or_log = []\<rparr>)"

definition orch_start :: "('p orch, unit) proc" where
  "orch_start orc = (if or_started orc then raise (RuntimeError ''orchestrator already started'') orc
     else ret () (orc\<lparr>or_callback := True, or_started := True\<rparr>))"

definition active_call_ids :: "'p orch \<Rightarrow> string list" where
  "active_call_ids orc = map fst (or_calls orc)"

definition log :: "nat option \<Rightarrow> effect \<Rightarrow> 'p orch \<Rightarrow> 'p orch" where
  "log owner e orc = orc\<lparr>or_log := or_log orc @ [(owner, e)]\<rparr>"

definition upd_ctx :: "nat \<Rightarrow> (call_ctx \<Rightarrow> call_ctx) \<Rightarrow> 'p orch \<Rightarrow> 'p orch" where
  "upd_ctx r f orc = orc\<lparr>or_ctxs := (or_ctxs orc)(r := f (or_ctxs orc r))\<rparr>"

definition pop_call :: "string \<Rightarrow> 'p orch \<Rightarrow> 'p orch" where
  "pop_call call orc = orc\<lparr>or_calls := AList.delete call (or_calls orc)\<rparr>"

definition start_task :: "nat \<Rightarrow> task \<Rightarrow> 'p orch \<Rightarrow> 'p orch" where
  "start_task r t orc = log (Some r) (TaskStarted t) (upd_ctx r (\<lambda>c. c\<lparr>cx_tasks := cx_tasks c @ [t]\<rparr>) orc)"


section \<open>Emitters\<close>

definition emit :: "(edge_msg \<Rightarrow> 'p) \<Rightarrow> nat option \<Rightarrow> bool \<Rightarrow> edge_msg \<Rightarrow> ('p orch, unit) proc" where
  "emit ser owner critical m orc = (case client_send ser critical m (or_grpc orc) of
       (Inl e, g) \<Rightarrow> (Inl e, orc\<lparr>or_grpc := g\<rparr>)
     | (Inr _, g) \<Rightarrow> (Inr (), log owner (Sent m) (orc\<lparr>or_grpc := g\<rparr>)))"

definition send_dial_ack :: "(edge_msg \<Rightarrow> 'p) \<Rightarrow> nat option \<Rightarrow> string \<Rightarrow> bool \<Rightarrow> string \<Rightarrow> ('p orch, unit) proc" where
  "send_dial_ack ser owner call accepted reason = emit ser owner False (DialAck call accepted reason)"

definition send_call_event_connected :: "(edge_msg \<Rightarrow> 'p) \<Rightarrow> nat \<Rightarrow> string \<Rightarrow> ('p orch, unit) proc" where
  "send_call_event_connected ser r call = emit ser (Some r) False (CallConnected call)"

definition send_hardware_alert :: "(edge_msg \<Rightarrow> 'p) \<Rightarrow> nat \<Rightarrow> string \<Rightarrow> ('p orch, unit) proc" where
  "send_hardware_alert ser r detail = emit ser (Some r) True (HardwareAlert PCM_ENABLE_FAILED_STAGE detail)"

definition proto_of :: "string option \<Rightarrow> proto_cause" where
  "proto_of cause = (case map_of hangup_cause_to_proto (case cause of None \<Rightarrow> [] | Some c \<Rightarrow> c) of
     None \<Rightarrow> PC_UNSPECIFIED | Some p \<Rightarrow> p)"

definition send_call_event_remote_hangup ::
  "(edge_msg \<Rightarrow> 'p) \<Rightarrow> nat \<Rightarrow> string \<Rightarrow> string option \<Rightarrow> ('p orch, unit) proc" where
  "send_call_event_remote_hangup ser r call cause =
     emit ser (Some r) False (CallHangup call (proto_of cause) (case cause of None \<Rightarrow> [] | Some c \<Rightarrow> c))"


section \<open>Teardown\<close>

text \<open>\<open>_CallContext.teardown\<close>, block by block; \<open>current\<close> is the task that runs it, which it does not
  cancel. A cancelled event pump sees no more events.\<close>

definition cancel_tasks :: "task option \<Rightarrow> nat \<Rightarrow> 'p orch \<Rightarrow> 'p orch" where
  "cancel_tasks current r orc =
     (let doomed = filter (\<lambda>t. Some t \<noteq> current) (cx_tasks (or_ctxs orc r));
          o1 = orc\<lparr>or_log := or_log orc @ map (\<lambda>t. (Some r, TaskCancelled t)) doomed,
                 or_pumps := (if AtPump \<in> set doomed then removeAll r (or_pumps orc) else or_pumps orc)\<rparr>
      in upd_ctx r (\<lambda>c. c\<lparr>cx_tasks := []\<rparr>) o1)"

definition leave_bridge :: "nat \<Rightarrow> 'p orch \<Rightarrow> 'p orch" where
  "leave_bridge r orc = (if cx_bridge (or_ctxs orc r) = None then orc
     else upd_ctx r (\<lambda>c. c\<lparr>cx_bridge := None\<rparr>) (log (Some r) BridgeLeft orc))"

definition close_recording :: "edge_env \<Rightarrow> nat \<Rightarrow> 'p orch \<Rightarrow> 'p orch" where
  "close_recording env r orc = (if \<not> cx_recorder (or_ctxs orc r) then orc
     else let call = cx_call_id (or_ctxs orc r);
              rec = map_option (\<lambda>rc. prune (ev_locked env) (or_max orc)
                (snd (finalize (ev_write_fails env) (ev_now env) call rc))) (or_recorder orc)
          in upd_ctx r (\<lambda>c. c\<lparr>cx_recorder := False\<rparr>)
               (log (Some r) RecordPruned (log (Some r) RecordFinalized (orc\<lparr>or_recorder := rec\<rparr>))))"

definition leave_rtc :: "nat \<Rightarrow> 'p orch \<Rightarrow> 'p orch" where
  "leave_rtc r orc = (if \<not> cx_rtc (or_ctxs orc r) then orc
     else upd_ctx r (\<lambda>c. c\<lparr>cx_rtc := False\<rparr>) (log (Some r) RtcLeft orc))"

definition disable_pcm :: "nat \<Rightarrow> 'p orch \<Rightarrow> 'p orch" where
  "disable_pcm r orc = (if \<not> (cx_cpcmreg (or_ctxs orc r) \<and> cx_has_at (or_ctxs orc r)) then orc
     else log (Some r) CpcmregDisabled (upd_ctx r (\<lambda>c. c\<lparr>cx_cpcmreg := False\<rparr>) orc))"

definition open_ring :: "ring option \<Rightarrow> bool" where
  "open_ring ring = (case ring of None \<Rightarrow> False | Some g \<Rightarrow> \<not> ring_is_closed g)"

definition close_rings :: "nat \<Rightarrow> 'p orch \<Rightarrow> 'p orch" where
  "close_rings r orc =
     (let c = or_ctxs orc r;
          closed = filter open_ring [cx_upstream c, cx_downstream c]
      in upd_ctx r (\<lambda>c. c\<lparr>cx_upstream := None, cx_downstream := None\<rparr>)
           (orc\<lparr>or_log := or_log orc @ map (\<lambda>_. (Some r, RingClosed)) closed\<rparr>))"

definition teardown :: "edge_env \<Rightarrow> task option \<Rightarrow> nat \<Rightarrow> 'p orch \<Rightarrow> 'p orch" where
  "teardown env current r orc =
     close_rings r (disable_pcm r (leave_rtc r (close_recording env r (leave_bridge r (cancel_tasks current r orc)))))"


section \<open>Hang-up\<close>

definition handle_remote_hangup ::
  "(edge_msg \<Rightarrow> 'p) \<Rightarrow> edge_env \<Rightarrow> task option \<Rightarrow> nat \<Rightarrow> string option \<Rightarrow> ('p orch, unit) proc" where
  "handle_remote_hangup ser env current r cause orc =
     (if cx_terminated (or_ctxs orc r) then ret () orc
      else seqm (modify (upd_ctx r (\<lambda>c. c\<lparr>cx_terminated := True\<rparr>)))
          (seqm (send_call_event_remote_hangup ser r (cx_call_id (or_ctxs orc r)) cause)
            (modify (\<lambda>s. teardown env current r (pop_call (cx_call_id (or_ctxs s r)) s)))) orc)"

text \<open>\<open>at.hangup\<close>; whatever it raises is suppressed by both callers.\<close>

definition at_hangup :: "edge_env \<Rightarrow> nat \<Rightarrow> ('p orch, unit) proc" where
  "at_hangup env r orc = (case ev_hangup env of
       Inl e \<Rightarrow> raise e (log (Some r) (AtHangup (cx_modem (or_ctxs orc r))) orc)
     | Inr _ \<Rightarrow> ret () (log (Some r) (AtHangup (cx_modem (or_ctxs orc r))) orc))"

definition on_cancel :: "(edge_msg \<Rightarrow> 'p) \<Rightarrow> edge_env \<Rightarrow> string \<Rightarrow> ('p orch, unit) proc" where
  "on_cancel ser env call orc = (case map_of (or_calls orc) call of
       None \<Rightarrow> ret () orc
     | Some r \<Rightarrow> if or_dev orc then handle_remote_hangup ser env None r (Some ''manual_hangup'') orc
         else suppress (at_hangup env r) orc)"


section \<open>Connected\<close>

text \<open>The recorder of a call: \<open>begin_call\<close> unless recording is off; a full disk skips it.\<close>

definition begin_recording :: "edge_env \<Rightarrow> nat \<Rightarrow> ('p orch, bool) proc" where
  "begin_recording env r orc = (case or_recorder orc of
       None \<Rightarrow> ret False orc
     | Some rc \<Rightarrow> if or_max orc \<le> 0 then ret False orc
         else (case begin_call (ev_free env) (cx_call_id (or_ctxs orc r)) rc of
             (Inl e, rc') \<Rightarrow> if e = DiskFullError then ret False (orc\<lparr>or_recorder := Some rc'\<rparr>)
                             else raise e (orc\<lparr>or_recorder := Some rc'\<rparr>)
           | (Inr _, rc') \<Rightarrow> ret True (upd_ctx r (\<lambda>c. c\<lparr>cx_recorder := True\<rparr>)
               (log (Some r) RecordBegun (orc\<lparr>or_recorder := Some rc'\<rparr>)))))"

definition lift_result :: "pyexn + 'a \<Rightarrow> ('s, 'a) proc" where
  "lift_result res s = (res, s)"

definition start_pumps :: "edge_env \<Rightarrow> nat \<Rightarrow> 'p orch \<Rightarrow> 'p orch" where
  "start_pumps env r orc = (if ev_windows env then start_task r DuplexPump orc
     else start_task r PlaybackPump (start_task r CapturePump orc))"

definition join_bridge :: "(edge_msg \<Rightarrow> 'p) \<Rightarrow> edge_env \<Rightarrow> nat \<Rightarrow> ('p orch, unit) proc" where
  "join_bridge ser env r orc = (case ev_join env of
       Inl e \<Rightarrow> if is_exception e then handle_remote_hangup ser env (Some AtPump) r (Some ''network_out_of_order'') orc
                else raise e orc
     | Inr _ \<Rightarrow> ret () (start_pumps env r (log (Some r) BridgeJoined
         (upd_ctx r (\<lambda>c. c\<lparr>cx_bridge := Some True\<rparr>) orc))))"

definition build_audio_path :: "(edge_msg \<Rightarrow> 'p) \<Rightarrow> edge_env \<Rightarrow> nat \<Rightarrow> ('p orch, unit) proc" where
  "build_audio_path ser env r orc =
     bindm (lift_result (ring_init (or_ring_capacity orc))) (\<lambda>up.
     bindm (lift_result (ring_init (or_ring_capacity orc))) (\<lambda>down.
     bindm (begin_recording env r) (\<lambda>rcd.
     bindm (lift_result (ev_factory env)) (\<lambda>_.
     bindm (lift_result (bridge_init (dc_uid_engine (cx_dial (or_ctxs orc r))) None)) (\<lambda>_.
     seqm (modify (\<lambda>s. log (Some r) BridgeBuilt
         (upd_ctx r (\<lambda>c. c\<lparr>cx_upstream := Some up, cx_downstream := Some down, cx_bridge := Some False\<rparr>) s)))
     (join_bridge ser env r)))))) orc"

definition handle_connected :: "(edge_msg \<Rightarrow> 'p) \<Rightarrow> edge_env \<Rightarrow> nat \<Rightarrow> ('p orch, unit) proc" where
  "handle_connected ser env r orc =
     seqm (send_call_event_connected ser r (cx_call_id (or_ctxs orc r)))
       (case ev_cpcmreg env of
          Inl (PcmEnableError detail) \<Rightarrow>
            seqm (send_hardware_alert ser r detail)
              (seqm (handle_remote_hangup ser env (Some AtPump) r (Some ''network_out_of_order''))
                (suppress (at_hangup env r)))
        | Inl e \<Rightarrow> raise e
        | Inr _ \<Rightarrow> seqm (modify (\<lambda>s. upd_ctx r (\<lambda>c. c\<lparr>cx_cpcmreg := True\<rparr>) (log (Some r) CpcmregEnabled s)))
            (build_audio_path ser env r)) orc"


section \<open>The event pump\<close>

text \<open>The \<open>finally\<close> of \<open>_pump_at_events\<close>, the pump on one event of its stream, and at the stream's end.\<close>

definition pump_finally :: "edge_env \<Rightarrow> nat \<Rightarrow> 'p orch \<Rightarrow> 'p orch" where
  "pump_finally env r orc =
     (let o1 = orc\<lparr>or_pumps := removeAll r (or_pumps orc)\<rparr>; call = cx_call_id (or_ctxs o1 r)
      in if call \<in> set (map fst (or_calls o1)) then teardown env (Some AtPump) r (pop_call call o1) else o1)"

definition pump_event :: "(edge_msg \<Rightarrow> 'p) \<Rightarrow> edge_env \<Rightarrow> nat \<Rightarrow> at_event \<Rightarrow> 'p orch \<Rightarrow> 'p orch" where
  "pump_event ser env r ev orc = (if r \<notin> set (or_pumps orc) then orc
     else case ae_event ev of
         CONNECTED \<Rightarrow> (case handle_connected ser env r orc of
             (Inr _, s) \<Rightarrow> s
           | (Inl _, s) \<Rightarrow> pump_finally env r s)
       | REMOTE_HANGUP \<Rightarrow> pump_finally env r
           (snd (handle_remote_hangup ser env (Some AtPump) r (ae_cause ev) orc)))"

definition pump_stream_end :: "edge_env \<Rightarrow> nat \<Rightarrow> 'p orch \<Rightarrow> 'p orch" where
  "pump_stream_end env r orc = (if r \<in> set (or_pumps orc) then pump_finally env r orc else orc)"


section \<open>Dial\<close>

definition register_call :: "call_ctx \<Rightarrow> 'p orch \<Rightarrow> 'p orch" where
  "register_call c orc = orc\<lparr>or_ctxs := (or_ctxs orc)(or_next orc := c), or_next := or_next orc + 1,
     or_calls := AList.update (cx_call_id c) (or_next orc) (or_calls orc)\<rparr>"

definition start_dev_tasks :: "edge_env \<Rightarrow> nat \<Rightarrow> bool \<Rightarrow> 'p orch \<Rightarrow> 'p orch" where
  "start_dev_tasks env r rcd orc =
     (let o1 = (if rcd then start_task r AiRecording orc else orc)
      in if ev_no_mic env then o1 else start_task r MicCapture o1)"

text \<open>\<open>_on_dial_dev_no_modem\<close> after the context is in the table.\<close>

definition dev_call :: "(edge_msg \<Rightarrow> 'p) \<Rightarrow> edge_env \<Rightarrow> nat \<Rightarrow> string \<Rightarrow> ('p orch, unit) proc" where
  "dev_call ser env r call =
     seqm (send_dial_ack ser (Some r) call True [])
     (seqm (send_call_event_connected ser r call)
     (bindm (lift_result (ev_factory env)) (\<lambda>_.
      seqm (modify (\<lambda>s. upd_ctx r (\<lambda>c. c\<lparr>cx_rtc := True\<rparr>) (log (Some r) RtcBuilt s)))
       (case ev_join env of
          Inl e \<Rightarrow> if is_exception e then handle_remote_hangup ser env None r (Some ''network_out_of_order'')
                   else raise e
        | Inr _ \<Rightarrow> seqm (modify (log (Some r) RtcJoined))
            (bindm (begin_recording env r) (\<lambda>rcd. modify (start_dev_tasks env r rcd)))))))"

definition on_dial_dev_no_modem :: "(edge_msg \<Rightarrow> 'p) \<Rightarrow> edge_env \<Rightarrow> dial_command \<Rightarrow> ('p orch, unit) proc" where
  "on_dial_dev_no_modem ser env dial orc =
     dev_call ser env (or_next orc) (dc_call_id dial) (register_call (new_ctx dial DevFake False) orc)"

definition on_dial :: "(edge_msg \<Rightarrow> 'p) \<Rightarrow> edge_env \<Rightarrow> dial_command \<Rightarrow> ('p orch, unit) proc" where
  "on_dial ser env dial orc =
     (let call = dc_call_id dial; r = or_next orc in
      if call \<in> set (map fst (or_calls orc)) then send_dial_ack ser None call True ''duplicate'' orc
      else if or_dev orc then on_dial_dev_no_modem ser env dial orc
      else case ev_dial env of
          Inl e \<Rightarrow> if is_exception e
            then send_dial_ack ser None call False (''at_dial: '' @ class_name e) (log None (AtDial (dc_number dial)) orc)
            else raise e (log None (AtDial (dc_number dial)) orc)
        | Inr m \<Rightarrow> seqm (modify (\<lambda>s. register_call (new_ctx dial (ModemCall m) True) (log None (AtDial (dc_number dial)) s)))
           (seqm (send_dial_ack ser (Some r) call True [])
             (modify (\<lambda>s. start_task r AtPump (s\<lparr>or_pumps := or_pumps s @ [r]\<rparr>)))) orc)"

definition on_cloud_message :: "(edge_msg \<Rightarrow> 'p) \<Rightarrow> edge_env \<Rightarrow> cloud_msg \<Rightarrow> ('p orch, unit) proc" where
  "on_cloud_message ser env msg = (case msg of
       CloudDial dial \<Rightarrow> on_dial ser env dial
     | CloudCancel call \<Rightarrow> on_cancel ser env call
     | _ \<Rightarrow> ret ())"


section \<open>Stopping\<close>

fun stop_calls :: "edge_env \<Rightarrow> string list \<Rightarrow> 'p orch \<Rightarrow> 'p orch" where
  "stop_calls env [] orc = orc"
| "stop_calls env (call # calls) orc = stop_calls env calls
     (case map_of (or_calls orc) call of None \<Rightarrow> orc | Some r \<Rightarrow> teardown env None r (pop_call call orc))"

definition orch_stop :: "edge_env \<Rightarrow> 'p orch \<Rightarrow> 'p orch" where
  "orch_stop env orc = (let o1 = stop_calls env (map fst (or_calls orc)) orc;
       o2 = (if or_hardware o1 then log None HardwareClosed o1 else o1)
     in o2\<lparr>or_started := False\<rparr>)"

fun dev_terminate_calls :: "(edge_msg \<Rightarrow> 'p) \<Rightarrow> edge_env \<Rightarrow> string list \<Rightarrow> ('p orch, unit) proc" where
  "dev_terminate_calls ser env [] orc = ret () orc"
| "dev_terminate_calls ser env (call # calls) orc = (case map_of (or_calls orc) call of
       None \<Rightarrow> dev_terminate_calls ser env calls orc
     | Some r \<Rightarrow> if cx_terminated (or_ctxs orc r) then dev_terminate_calls ser env calls orc
         else seqm (handle_remote_hangup ser env None r (Some DEV_TERMINATE_CAUSE)) (dev_terminate_calls ser env calls) orc)"

definition dev_terminate_active_calls :: "(edge_msg \<Rightarrow> 'p) \<Rightarrow> edge_env \<Rightarrow> ('p orch, unit) proc" where
  "dev_terminate_active_calls ser env orc = dev_terminate_calls ser env (map fst (or_calls orc)) orc"

end
