(* ===== verification/Orchestrator_Inv.thy ===== *)
theory Orchestrator_Inv imports Orchestrator begin

text \<open>
  What one handler of the orchestrator may do to one call: the views of the log that belong to a call, the
  relation \<open>step_ok\<close> between the states before and after a handler, and the invariant \<open>orch_inv\<close> that every
  operation of \<open>EdgeOrchestrator\<close> preserves.
\<close>

section \<open>Views of one call\<close>

text \<open>The effects of one context, the call events among them, and the resources it holds.\<close>

definition trace :: "nat \<Rightarrow> 'p orch \<Rightarrow> effect list" where
  "trace r orc = map snd (filter (\<lambda>(owner, _). owner = Some r) (or_log orc))"

fun kind_of :: "effect \<Rightarrow> event_kind list" where
  "kind_of (Sent (CallConnected _)) = [CONNECTED]"
| "kind_of (Sent (CallHangup _ _ _)) = [REMOTE_HANGUP]"
| "kind_of _ = []"

definition kinds :: "effect list \<Rightarrow> event_kind list" where
  "kinds t = concat (map kind_of t)"

definition released :: "call_ctx \<Rightarrow> bool" where
  "released c \<longleftrightarrow> cx_bridge c = None \<and> cx_upstream c = None \<and> cx_downstream c = None \<and> cx_tasks c = []
     \<and> \<not> cx_recorder c \<and> \<not> cx_rtc c \<and> \<not> cx_cpcmreg c"

lemma log_simps [simp]:
  "or_ctxs (log w e s) = or_ctxs s" "or_calls (log w e s) = or_calls s" "or_pumps (log w e s) = or_pumps s"
  "or_next (log w e s) = or_next s" "or_dev (log w e s) = or_dev s" "or_grpc (log w e s) = or_grpc s"
  "or_recorder (log w e s) = or_recorder s" "or_ring_capacity (log w e s) = or_ring_capacity s"
  "or_max (log w e s) = or_max s"
  "trace r (log w e s) = trace r s @ (if w = Some r then [e] else [])"
  by (simp_all add: log_def trace_def)

lemma upd_ctx_simps [simp]:
  "or_ctxs (upd_ctx r f s) = (or_ctxs s)(r := f (or_ctxs s r))" "or_calls (upd_ctx r f s) = or_calls s"
  "or_pumps (upd_ctx r f s) = or_pumps s" "or_next (upd_ctx r f s) = or_next s" "or_dev (upd_ctx r f s) = or_dev s"
  "or_grpc (upd_ctx r f s) = or_grpc s" "or_recorder (upd_ctx r f s) = or_recorder s"
  "or_ring_capacity (upd_ctx r f s) = or_ring_capacity s" "or_max (upd_ctx r f s) = or_max s"
  "trace k (upd_ctx r f s) = trace k s"
  by (simp_all add: upd_ctx_def trace_def)

lemma pop_call_simps [simp]:
  "or_ctxs (pop_call c s) = or_ctxs s" "or_calls (pop_call c s) = AList.delete c (or_calls s)"
  "or_pumps (pop_call c s) = or_pumps s" "or_next (pop_call c s) = or_next s" "or_dev (pop_call c s) = or_dev s"
  "or_grpc (pop_call c s) = or_grpc s" "or_recorder (pop_call c s) = or_recorder s" "or_max (pop_call c s) = or_max s"
  "trace k (pop_call c s) = trace k s"
  by (simp_all add: pop_call_def trace_def)

lemma start_task_simps [simp]:
  "or_ctxs (start_task r tk s) = (or_ctxs s)(r := (or_ctxs s r)\<lparr>cx_tasks := cx_tasks (or_ctxs s r) @ [tk]\<rparr>)"
  "or_calls (start_task r tk s) = or_calls s" "or_pumps (start_task r tk s) = or_pumps s"
  "or_next (start_task r tk s) = or_next s" "or_dev (start_task r tk s) = or_dev s"
  "or_grpc (start_task r tk s) = or_grpc s" "or_recorder (start_task r tk s) = or_recorder s"
  "or_max (start_task r tk s) = or_max s"
  "trace k (start_task r tk s) = trace k s @ (if k = r then [TaskStarted tk] else [])"
  by (simp_all add: start_task_def)

lemma orch_field_simps [simp]:
  "trace r (s\<lparr>or_grpc := g\<rparr>) = trace r s" "trace r (s\<lparr>or_recorder := rc\<rparr>) = trace r s"
  "trace r (s\<lparr>or_pumps := ps\<rparr>) = trace r s" "trace r (s\<lparr>or_started := b\<rparr>) = trace r s"
  by (simp_all add: trace_def)

lemma kinds_simps [simp]:
  "kinds [] = []" "kinds (t @ u) = kinds t @ kinds u" "kinds (e # t) = kind_of e @ kinds t"
  by (simp_all add: kinds_def)

text \<open>What \<open>teardown\<close> does to the context it is called on and adds to its effects.\<close>

definition torn_down :: "call_ctx \<Rightarrow> call_ctx" where
  "torn_down c = c\<lparr>cx_tasks := [], cx_bridge := None, cx_recorder := False, cx_rtc := False,
     cx_cpcmreg := cx_cpcmreg c \<and> \<not> cx_has_at c, cx_upstream := None, cx_downstream := None\<rparr>"

definition teardown_effects :: "task option \<Rightarrow> call_ctx \<Rightarrow> effect list" where
  "teardown_effects current c =
     map TaskCancelled (filter (\<lambda>t. Some t \<noteq> current) (cx_tasks c))
     @ (if cx_bridge c = None then [] else [BridgeLeft])
     @ (if cx_recorder c then [RecordFinalized, RecordPruned] else [])
     @ (if cx_rtc c then [RtcLeft] else [])
     @ (if cx_cpcmreg c \<and> cx_has_at c then [CpcmregDisabled] else [])
     @ map (\<lambda>_. RingClosed) (filter open_ring [cx_upstream c, cx_downstream c])"

lemma trace_map_owner: "map snd (filter (\<lambda>(owner, _). owner = Some k) (map (\<lambda>t. (Some r, f t)) xs))
    = (if k = r then map f xs else [])"
  by (induction xs) auto

lemma trace_append_log:
  "trace k (s\<lparr>or_log := or_log s @ map (\<lambda>t. (Some r, f t)) xs\<rparr>) = trace k s @ (if k = r then map f xs else [])"
  using trace_map_owner [of k r f xs] by (simp add: trace_def)

lemma cancel_tasks_simps [simp]:
  "or_ctxs (cancel_tasks current r s) = (or_ctxs s)(r := (or_ctxs s r)\<lparr>cx_tasks := []\<rparr>)"
  "or_calls (cancel_tasks current r s) = or_calls s" "or_next (cancel_tasks current r s) = or_next s"
  "or_dev (cancel_tasks current r s) = or_dev s" "or_max (cancel_tasks current r s) = or_max s"
  "or_recorder (cancel_tasks current r s) = or_recorder s" "or_grpc (cancel_tasks current r s) = or_grpc s"
  "or_pumps (cancel_tasks current r s) = (if AtPump \<in> set (cx_tasks (or_ctxs s r)) \<and> current \<noteq> Some AtPump
     then removeAll r (or_pumps s) else or_pumps s)"
  "trace k (cancel_tasks current r s) = trace k s
     @ (if k = r then map TaskCancelled (filter (\<lambda>t. Some t \<noteq> current) (cx_tasks (or_ctxs s r))) else [])"
  by (auto simp: cancel_tasks_def Let_def upd_ctx_def trace_def trace_map_owner)

text \<open>The steps of \<open>teardown\<close>, each on the context, the other fields and the trace.\<close>

lemma teardown_step_ctxs:
  "or_ctxs (leave_bridge r s) = (or_ctxs s)(r := (or_ctxs s r)\<lparr>cx_bridge := None\<rparr>)"
  "or_ctxs (close_recording env r s) = (or_ctxs s)(r := (or_ctxs s r)\<lparr>cx_recorder := False\<rparr>)"
  "or_ctxs (leave_rtc r s) = (or_ctxs s)(r := (or_ctxs s r)\<lparr>cx_rtc := False\<rparr>)"
  "or_ctxs (disable_pcm r s) = (or_ctxs s)(r := (or_ctxs s r)\<lparr>cx_cpcmreg := cx_cpcmreg (or_ctxs s r) \<and> \<not> cx_has_at (or_ctxs s r)\<rparr>)"
  "or_ctxs (close_rings r s) = (or_ctxs s)(r := (or_ctxs s r)\<lparr>cx_upstream := None, cx_downstream := None\<rparr>)"
  by (auto simp: leave_bridge_def close_recording_def leave_rtc_def disable_pcm_def close_rings_def Let_def upd_ctx_def fun_eq_iff)

lemma teardown_step_fields:
  "or_calls (leave_bridge r s) = or_calls s" "or_calls (close_recording env r s) = or_calls s" "or_calls (leave_rtc r s) = or_calls s"
  "or_calls (disable_pcm r s) = or_calls s" "or_calls (close_rings r s) = or_calls s"
  "or_next (leave_bridge r s) = or_next s" "or_next (close_recording env r s) = or_next s" "or_next (leave_rtc r s) = or_next s"
  "or_next (disable_pcm r s) = or_next s" "or_next (close_rings r s) = or_next s"
  "or_dev (leave_bridge r s) = or_dev s" "or_dev (close_recording env r s) = or_dev s" "or_dev (leave_rtc r s) = or_dev s"
  "or_dev (disable_pcm r s) = or_dev s" "or_dev (close_rings r s) = or_dev s"
  "or_grpc (leave_bridge r s) = or_grpc s" "or_grpc (close_recording env r s) = or_grpc s" "or_grpc (leave_rtc r s) = or_grpc s"
  "or_grpc (disable_pcm r s) = or_grpc s" "or_grpc (close_rings r s) = or_grpc s"
  "or_max (leave_bridge r s) = or_max s" "or_max (close_recording env r s) = or_max s" "or_max (leave_rtc r s) = or_max s"
  "or_max (disable_pcm r s) = or_max s" "or_max (close_rings r s) = or_max s"
  "or_pumps (leave_bridge r s) = or_pumps s" "or_pumps (close_recording env r s) = or_pumps s" "or_pumps (leave_rtc r s) = or_pumps s"
  "or_pumps (disable_pcm r s) = or_pumps s" "or_pumps (close_rings r s) = or_pumps s"
  by (simp_all add: leave_bridge_def close_recording_def leave_rtc_def disable_pcm_def close_rings_def Let_def upd_ctx_def)

lemma teardown_step_traces:
  "trace k (leave_bridge r s) = trace k s @ (if k = r \<and> cx_bridge (or_ctxs s r) \<noteq> None then [BridgeLeft] else [])"
  "trace k (close_recording env r s) = trace k s @ (if k = r \<and> cx_recorder (or_ctxs s r) then [RecordFinalized, RecordPruned] else [])"
  "trace k (leave_rtc r s) = trace k s @ (if k = r \<and> cx_rtc (or_ctxs s r) then [RtcLeft] else [])"
  "trace k (disable_pcm r s) = trace k s @ (if k = r \<and> cx_cpcmreg (or_ctxs s r) \<and> cx_has_at (or_ctxs s r) then [CpcmregDisabled] else [])"
  "trace k (close_rings r s) = trace k s @ (if k = r then map (\<lambda>_. RingClosed)
      (filter open_ring [cx_upstream (or_ctxs s r), cx_downstream (or_ctxs s r)]) else [])"
  by (simp_all add: leave_bridge_def close_recording_def leave_rtc_def disable_pcm_def) (simp add: close_rings_def Let_def upd_ctx_def trace_def)

lemma teardown_simps [simp]:
  "or_ctxs (teardown env current r s) = (or_ctxs s)(r := torn_down (or_ctxs s r))"
  "or_calls (teardown env current r s) = or_calls s" "or_next (teardown env current r s) = or_next s"
  "or_dev (teardown env current r s) = or_dev s" "or_grpc (teardown env current r s) = or_grpc s"
  "or_max (teardown env current r s) = or_max s"
  "or_pumps (teardown env current r s) = (if AtPump \<in> set (cx_tasks (or_ctxs s r)) \<and> current \<noteq> Some AtPump
     then removeAll r (or_pumps s) else or_pumps s)"
  by (simp_all add: teardown_def teardown_step_ctxs teardown_step_fields torn_down_def)

lemma trace_teardown [simp]:
  "trace k (teardown env current r s) = trace k s @ (if k = r then teardown_effects current (or_ctxs s r) else [])"
  by (simp add: teardown_def teardown_step_ctxs teardown_step_traces teardown_effects_def)

lemma emit_cases:
  obtains (fails) e g where "emit ser w critical m s = (Inl e, s\<lparr>or_grpc := g\<rparr>)"
  | (sent) g where "emit ser w critical m s = (Inr (), log w (Sent m) (s\<lparr>or_grpc := g\<rparr>))"
proof -
  obtain res g where "client_send ser critical m (or_grpc s) = (res, g)" by (metis prod.exhaust)
  with fails sent show thesis by (cases res) (auto simp: emit_def)
qed

lemma kinds_teardown [simp]: "kinds (teardown_effects current c) = []"
proof -
  have "kinds (map TaskCancelled ts) = []" "kinds (map (\<lambda>_. RingClosed) (rs :: ring option list)) = []" for ts rs
    by (induction ts, simp_all) (induction rs, simp_all)
  then show ?thesis by (simp add: teardown_effects_def)
qed


section \<open>What a handler may do to a call\<close>

text \<open>The local invariant of a context and its effects: its call events are well formed, no hang-up before it
  is terminated, and every acquired resource is held or was given back.\<close>

definition balanced :: "effect \<Rightarrow> effect \<Rightarrow> bool \<Rightarrow> effect list \<Rightarrow> bool" where
  "balanced acq rel held t \<longleftrightarrow> count_list t acq = count_list t rel + of_bool held"

definition local_ok :: "call_ctx \<Rightarrow> effect list \<Rightarrow> bool" where
  "local_ok c t \<longleftrightarrow> (cx_cpcmreg c \<longrightarrow> cx_has_at c)
     \<and> kinds t \<in> (if cx_terminated c then {[], [CONNECTED], [REMOTE_HANGUP], [CONNECTED, REMOTE_HANGUP]}
         else {[], [CONNECTED]})
     \<and> balanced CpcmregEnabled CpcmregDisabled (cx_cpcmreg c) t
     \<and> balanced BridgeBuilt BridgeLeft (cx_bridge c \<noteq> None) t
     \<and> balanced RtcBuilt RtcLeft (cx_rtc c) t
     \<and> balanced RecordBegun RecordFinalized (cx_recorder c) t"

lemma count_list_map_other: "(\<And>x. f x \<noteq> e) \<Longrightarrow> count_list (map f xs) e = 0"
  by (induction xs) auto

lemma balanced_append [simp]:
  "a \<notin> set u \<Longrightarrow> r \<notin> set u \<Longrightarrow> balanced a r h (t @ u) = balanced a r h t"
  by (simp add: balanced_def count_notin)

lemma count_teardown [simp]:
  "count_list (teardown_effects current c) BridgeLeft = of_bool (cx_bridge c \<noteq> None)"
  "count_list (teardown_effects current c) RecordFinalized = of_bool (cx_recorder c)"
  "count_list (teardown_effects current c) RtcLeft = of_bool (cx_rtc c)"
  "count_list (teardown_effects current c) CpcmregDisabled = of_bool (cx_cpcmreg c \<and> cx_has_at c)"
  "count_list (teardown_effects current c) BridgeBuilt = 0"
  "count_list (teardown_effects current c) RecordBegun = 0"
  "count_list (teardown_effects current c) RtcBuilt = 0"
  "count_list (teardown_effects current c) CpcmregEnabled = 0"
  by (simp_all add: teardown_effects_def count_list_map_other)

lemma local_ok_teardown:
  assumes "local_ok c t"
  shows "local_ok (torn_down c) (t @ teardown_effects current c)" and "released (torn_down c)"
proof -
  have f: "cx_bridge (torn_down c) = None" "\<not> cx_recorder (torn_down c)" "\<not> cx_rtc (torn_down c)"
    "\<not> cx_cpcmreg (torn_down c)" "cx_terminated (torn_down c) = cx_terminated c"
    using assms by (auto simp: torn_down_def local_ok_def)
  show "local_ok (torn_down c) (t @ teardown_effects current c)"
    using assms by (simp add: local_ok_def balanced_def f)
  show "released (torn_down c)"
    using f by (simp add: released_def torn_down_def)
qed

lemma released_torn_down: "released c \<Longrightarrow> torn_down c = c"
  by (cases c) (simp add: released_def torn_down_def)

text \<open>A step touches one context only.\<close>

definition touches :: "nat \<Rightarrow> 'p orch \<Rightarrow> 'p orch \<Rightarrow> bool" where
  "touches r s s' \<longleftrightarrow> (\<forall>k. k \<noteq> r \<longrightarrow> or_ctxs s' k = or_ctxs s k \<and> trace k s' = trace k s)
     \<and> or_next s' = or_next s \<and> or_dev s' = or_dev s
     \<and> cx_call_id (or_ctxs s' r) = cx_call_id (or_ctxs s r)
     \<and> cx_has_at (or_ctxs s' r) = cx_has_at (or_ctxs s r)"

text \<open>Either the call table is untouched, or the call was removed from it and torn down.\<close>

definition step_ok :: "nat \<Rightarrow> 'p orch \<Rightarrow> 'p orch \<Rightarrow> bool" where
  "step_ok r s s' \<longleftrightarrow> touches r s s' \<and> local_ok (or_ctxs s' r) (trace r s')
     \<and> (or_calls s' = or_calls s \<and> set (cx_tasks (or_ctxs s r)) \<subseteq> set (cx_tasks (or_ctxs s' r))
        \<or> or_calls s' = AList.delete (cx_call_id (or_ctxs s r)) (or_calls s) \<and> released (or_ctxs s' r))
     \<and> (or_pumps s' = or_pumps s \<or> or_pumps s' = removeAll r (or_pumps s))"

definition quiet :: "nat \<Rightarrow> 'p orch \<Rightarrow> 'p orch \<Rightarrow> bool" where
  "quiet r s s' \<longleftrightarrow> touches r s s' \<and> or_calls s' = or_calls s \<and> or_pumps s' = or_pumps s
     \<and> set (cx_tasks (or_ctxs s r)) \<subseteq> set (cx_tasks (or_ctxs s' r))"

lemma touches_trans: "touches r s s1 \<Longrightarrow> touches r s1 s2 \<Longrightarrow> touches r s s2"
  by (simp add: touches_def)

lemma quiet_trans: "quiet r s s1 \<Longrightarrow> quiet r s1 s2 \<Longrightarrow> quiet r s s2"
  by (auto simp: quiet_def intro: touches_trans)

lemma quiet_step: "quiet r s s1 \<Longrightarrow> step_ok r s1 s2 \<Longrightarrow> step_ok r s s2"
  unfolding quiet_def step_ok_def by (auto intro: touches_trans simp: touches_def)

lemma quiet_ok: "quiet r s s1 \<Longrightarrow> local_ok (or_ctxs s1 r) (trace r s1) \<Longrightarrow> step_ok r s s1"
  by (simp add: quiet_def step_ok_def)

lemma step_quiet:
  "step_ok r s s1 \<Longrightarrow> quiet r s1 s2 \<Longrightarrow> or_ctxs s2 r = or_ctxs s1 r \<Longrightarrow>
   local_ok (or_ctxs s2 r) (trace r s2) \<Longrightarrow> step_ok r s s2"
  unfolding quiet_def step_ok_def by (auto intro: touches_trans)

lemma step_ok_refl: "local_ok (or_ctxs s r) (trace r s) \<Longrightarrow> step_ok r s s"
  by (simp add: step_ok_def touches_def)

lemma quiet_emit:
  assumes "emit ser (Some r) critical m s = (res, s')"
  shows "quiet r s s'" and "or_ctxs s' = or_ctxs s"
    and "trace r s' = trace r s @ (case res of Inl _ \<Rightarrow> [] | Inr _ \<Rightarrow> [Sent m])"
proof -
  have "quiet r s s' \<and> or_ctxs s' = or_ctxs s
    \<and> trace r s' = trace r s @ (case res of Inl _ \<Rightarrow> [] | Inr _ \<Rightarrow> [Sent m])"
    by (rule emit_cases [where ser = ser and w = "Some r" and critical = critical and m = m and s = s])
      (use assms in \<open>auto simp: quiet_def touches_def\<close>)
  then show "quiet r s s'" "or_ctxs s' = or_ctxs s"
    "trace r s' = trace r s @ (case res of Inl _ \<Rightarrow> [] | Inr _ \<Rightarrow> [Sent m])" by blast+
qed

lemma handle_remote_hangup_step:
  assumes "local_ok (or_ctxs s r) (trace r s)"
  shows "step_ok r s (snd (handle_remote_hangup ser env current r cause s))"
    and "cx_terminated (or_ctxs (snd (handle_remote_hangup ser env current r cause s)) r)"
proof -
  let ?s' = "snd (handle_remote_hangup ser env current r cause s)"
  have "step_ok r s ?s' \<and> cx_terminated (or_ctxs ?s' r)"
  proof (cases "cx_terminated (or_ctxs s r)")
    case True
    with assms show ?thesis by (simp add: handle_remote_hangup_def ret_def step_ok_refl)
  next
    case False
    let ?s1 = "upd_ctx r (\<lambda>c. c\<lparr>cx_terminated := True\<rparr>) s"
    let ?m = "CallHangup (cx_call_id (or_ctxs s r)) (proto_of cause) (case cause of None \<Rightarrow> [] | Some c \<Rightarrow> c)"
    have q1: "quiet r s ?s1" by (simp add: quiet_def touches_def)
    obtain res s2 where e: "emit ser (Some r) False ?m ?s1 = (res, s2)" by fastforce
    note q2 = quiet_emit [OF e]
    have ok2: "local_ok (or_ctxs s2 r) (trace r s2)"
      using assms False q2(2,3) by (auto simp: local_ok_def split: sum.splits)
    show ?thesis
    proof (cases res)
      case (Inl x)
      then have "?s' = s2"
        using False e by (simp add: handle_remote_hangup_def send_call_event_remote_hangup_def seqm_def bindm_def modify_def)
      then show ?thesis
        using quiet_ok [OF quiet_trans [OF q1 q2(1)] ok2] q2(2) by simp
    next
      case (Inr x)
      have id: "cx_call_id (or_ctxs s2 r) = cx_call_id (or_ctxs s r)" using q2(2) by simp
      have s': "?s' = teardown env current r (pop_call (cx_call_id (or_ctxs s r)) s2)"
        using False e Inr id
        by (simp add: handle_remote_hangup_def send_call_event_remote_hangup_def seqm_def bindm_def modify_def)
      have "step_ok r s2 ?s'"
        using local_ok_teardown(1) [OF ok2, of current] local_ok_teardown(2) [OF ok2] id
        by (auto simp: s' step_ok_def touches_def torn_down_def)
      then have "step_ok r s ?s'" using quiet_step [OF quiet_trans [OF q1 q2(1)]] by blast
      moreover have "cx_terminated (or_ctxs ?s' r)" using q2(2) by (simp add: s' torn_down_def)
      ultimately show ?thesis by blast
    qed
  qed
  then show "step_ok r s ?s'" "cx_terminated (or_ctxs ?s' r)" by blast+
qed

lemma at_hangup_step:
  "quiet r s (snd (suppress (at_hangup env r) s)) \<and> or_ctxs (snd (suppress (at_hangup env r) s)) = or_ctxs s
   \<and> trace r (snd (suppress (at_hangup env r) s)) = trace r s @ [AtHangup (cx_modem (or_ctxs s r))]"
  by (auto simp: at_hangup_def suppress_def catchm_def raise_def ret_def quiet_def touches_def split: sum.splits)

lemma begin_recording_cases:
  assumes "begin_recording env r s = (res, s')"
  obtains (same) rc where "s' = s\<lparr>or_recorder := rc\<rparr>"
  | (begun) rc where "s' = upd_ctx r (\<lambda>c. c\<lparr>cx_recorder := True\<rparr>) (log (Some r) RecordBegun (s\<lparr>or_recorder := rc\<rparr>))"
proof (cases "or_recorder s")
  case None
  with assms have "s' = s\<lparr>or_recorder := or_recorder s\<rparr>" by (simp add: begin_recording_def ret_def)
  then show thesis by (rule same)
next
  case (Some rc)
  show thesis
  proof (cases "or_max s \<le> 0")
    case True
    with Some assms have "s' = s\<lparr>or_recorder := or_recorder s\<rparr>" by (simp add: begin_recording_def ret_def)
    then show thesis by (rule same)
  next
    case False
    obtain out rc' where o: "begin_call (ev_free env) (cx_call_id (or_ctxs s r)) rc = (out, rc')" by fastforce
    show thesis
    proof (cases out)
      case (Inl e)
      then have "s' = s\<lparr>or_recorder := Some rc'\<rparr>"
        using assms Some False o by (cases "e = DiskFullError") (simp_all add: begin_recording_def ret_def raise_def)
      then show thesis by (rule same)
    next
      case (Inr x)
      then have "s' = upd_ctx r (\<lambda>c. c\<lparr>cx_recorder := True\<rparr>) (log (Some r) RecordBegun (s\<lparr>or_recorder := Some rc'\<rparr>))"
        using assms Some False o by (simp add: begin_recording_def ret_def)
      then show thesis by (rule begun)
    qed
  qed
qed

lemma begin_recording_step:
  assumes "begin_recording env r s = (res, s')" and "local_ok (or_ctxs s r) (trace r s)" and "\<not> cx_recorder (or_ctxs s r)"
  shows "quiet r s s'" and "local_ok (or_ctxs s' r) (trace r s')"
    and "or_ctxs s' r = or_ctxs s r \<or> or_ctxs s' r = (or_ctxs s r)\<lparr>cx_recorder := True\<rparr>"
proof -
  have "quiet r s s' \<and> local_ok (or_ctxs s' r) (trace r s')
    \<and> (or_ctxs s' r = or_ctxs s r \<or> or_ctxs s' r = (or_ctxs s r)\<lparr>cx_recorder := True\<rparr>)"
  proof (cases rule: begin_recording_cases [OF assms(1)])
    case (1 rc)
    with assms(2) show ?thesis by (simp add: quiet_def touches_def)
  next
    case (2 rc)
    have "local_ok ((or_ctxs s r)\<lparr>cx_recorder := True\<rparr>) (trace r s @ [RecordBegun])"
      using assms(2,3) by (simp add: local_ok_def balanced_def)
    with 2 show ?thesis by (simp add: quiet_def touches_def)
  qed
  then show "quiet r s s'" "local_ok (or_ctxs s' r) (trace r s')"
    "or_ctxs s' r = or_ctxs s r \<or> or_ctxs s' r = (or_ctxs s r)\<lparr>cx_recorder := True\<rparr>" by blast+
qed

lemma join_bridge_step:
  assumes "local_ok (or_ctxs s r) (trace r s)" and "cx_bridge (or_ctxs s r) = Some b"
  shows "step_ok r s (snd (join_bridge ser env r s))"
proof (cases "ev_join env")
  case (Inl e)
  with handle_remote_hangup_step(1) [OF assms(1)] show ?thesis
    by (simp add: join_bridge_def raise_def step_ok_refl [OF assms(1)])
next
  case (Inr x)
  have "local_ok (or_ctxs (snd (join_bridge ser env r s)) r) (trace r (snd (join_bridge ser env r s)))"
    using assms Inr by (auto simp: join_bridge_def ret_def start_pumps_def local_ok_def balanced_def)
  moreover have "quiet r s (snd (join_bridge ser env r s))"
    using Inr by (auto simp: join_bridge_def ret_def start_pumps_def quiet_def touches_def)
  ultimately show ?thesis by (simp add: quiet_ok)
qed

lemma build_audio_path_step:
  assumes ok: "local_ok (or_ctxs s r) (trace r s)" and fresh: "\<not> cx_recorder (or_ctxs s r)" "cx_bridge (or_ctxs s r) = None"
  shows "step_ok r s (snd (build_audio_path ser env r s))"
proof (cases "ring_init (or_ring_capacity s)")
  case (Inl e)
  then show ?thesis by (simp add: build_audio_path_def bindm_def lift_result_def step_ok_refl [OF ok])
next
  case (Inr g)
  obtain res s1 where b: "begin_recording env r s = (res, s1)" by fastforce
  note s1 = begin_recording_step [OF b ok fresh(1)]
  have stop: "step_ok r s s1" using quiet_ok [OF s1(1,2)] .
  let ?s2 = "log (Some r) BridgeBuilt (upd_ctx r (\<lambda>c. c\<lparr>cx_upstream := Some g, cx_downstream := Some g, cx_bridge := Some False\<rparr>) s1)"
  have bridge: "cx_bridge (or_ctxs s1 r) = None" using s1(3) fresh(2) by auto
  have "quiet r s1 ?s2" by (simp add: quiet_def touches_def)
  moreover have "local_ok (or_ctxs ?s2 r) (trace r ?s2)"
    using s1(2) bridge by (auto simp: local_ok_def balanced_def)
  ultimately have go: "step_ok r s (snd (join_bridge ser env r ?s2))"
    using join_bridge_step [of ?s2 r False] quiet_step [OF quiet_trans [OF s1(1)]] by simp
  show ?thesis
    using stop go
    by (simp add: build_audio_path_def bindm_def lift_result_def Inr b seqm_def modify_def del: upd_ctx_simps log_simps
        split: sum.splits)
qed

lemma handle_connected_step:
  assumes ok: "local_ok (or_ctxs s r) (trace r s)" and none: "kinds (trace r s) = []" "\<not> cx_terminated (or_ctxs s r)"
    and fresh: "cx_bridge (or_ctxs s r) = None" "\<not> cx_recorder (or_ctxs s r)" "\<not> cx_cpcmreg (or_ctxs s r)"
    and at: "cx_has_at (or_ctxs s r)"
  shows "step_ok r s (snd (handle_connected ser env r s))"
proof -
  obtain res s1 where e: "emit ser (Some r) False (CallConnected (cx_call_id (or_ctxs s r))) s = (res, s1)" by fastforce
  note q1 = quiet_emit [OF e]
  have ok1: "local_ok (or_ctxs s1 r) (trace r s1)"
    using ok none q1(2,3) by (auto simp: local_ok_def split: sum.splits)
  note run = handle_connected_def send_call_event_connected_def seqm_def bindm_def
  show ?thesis
  proof (cases res)
    case (Inl x)
    then show ?thesis using quiet_ok [OF q1(1) ok1] e by (simp add: run)
  next
    case (Inr u)
    show ?thesis
    proof (cases "ev_cpcmreg env")
      case (Inr v)
      let ?s2 = "upd_ctx r (\<lambda>c. c\<lparr>cx_cpcmreg := True\<rparr>) (log (Some r) CpcmregEnabled s1)"
      have q2: "quiet r s1 ?s2" by (simp add: quiet_def touches_def)
      have "local_ok (or_ctxs ?s2 r) (trace r ?s2)"
        using ok1 fresh(3) at q1(2) by (auto simp: local_ok_def balanced_def)
      then have "step_ok r ?s2 (snd (build_audio_path ser env r ?s2))"
        using fresh(1,2) q1(2) by (intro build_audio_path_step) auto
      then show ?thesis
        using quiet_step [OF quiet_trans [OF q1(1) q2]] e \<open>res = Inr u\<close> Inr
        by (simp add: run modify_def)
    next
      case (Inl x)
      show ?thesis
      proof (cases "\<exists>d. x = PcmEnableError d")
        case False
        then have "snd (handle_connected ser env r s) = s1"
          using e \<open>res = Inr u\<close> Inl by (cases x) (simp_all add: run raise_def)
        then show ?thesis using quiet_ok [OF q1(1) ok1] by simp
      next
        case True
        then obtain d where d: "x = PcmEnableError d" by blast
        obtain res2 s2 where e2: "emit ser (Some r) True (HardwareAlert PCM_ENABLE_FAILED_STAGE d) s1 = (res2, s2)"
          by fastforce
        note q2 = quiet_emit [OF e2]
        have ok2: "local_ok (or_ctxs s2 r) (trace r s2)"
          using ok1 q2(2,3) by (auto simp: local_ok_def split: sum.splits)
        obtain res3 s3 where h: "handle_remote_hangup ser env (Some AtPump) r (Some ''network_out_of_order'') s2 = (res3, s3)"
          by fastforce
        have s3: "step_ok r s2 s3" using handle_remote_hangup_step(1) [OF ok2] h by (metis snd_conv)
        have all3: "step_ok r s s3" using quiet_step [OF quiet_trans [OF q1(1) q2(1)] s3] .
        let ?s4 = "snd (suppress (at_hangup env r) s3)"
        note h4 = at_hangup_step [of r s3 env]
        have "local_ok (or_ctxs ?s4 r) (trace r ?s4)"
          using s3 h4 by (simp add: step_ok_def local_ok_def)
        then have all4: "step_ok r s ?s4" using step_quiet [OF all3] h4 by simp
        show ?thesis
          using e e2 h \<open>res = Inr u\<close> Inl d all3 all4 quiet_ok [OF quiet_trans [OF q1(1) q2(1)] ok2]
          by (cases res2; cases res3) (simp_all add: run send_hardware_alert_def)
      qed
    qed
  qed
qed

lemma keys_delete: "fst ` set (AList.delete k al) = fst ` set al - {k}"
  by (induction al) auto

lemma pump_finally_step:
  assumes "step_ok r s s1"
  shows "step_ok r s (pump_finally env r s1)"
proof -
  let ?call = "cx_call_id (or_ctxs s1 r)" and ?o = "s1\<lparr>or_pumps := removeAll r (or_pumps s1)\<rparr>"
  have t: "touches r s s1" and ok: "local_ok (or_ctxs s1 r) (trace r s1)" using assms by (simp_all add: step_ok_def)
  have id: "?call = cx_call_id (or_ctxs s r)" using t by (simp add: touches_def)
  have pumps: "removeAll r (or_pumps s1) = removeAll r (or_pumps s)" using assms by (auto simp: step_ok_def)
  show ?thesis
  proof (cases "?call \<in> set (map fst (or_calls s1))")
    case False
    then show ?thesis
      using assms pumps by (auto simp: pump_finally_def Let_def step_ok_def touches_def)
  next
    case True
    then have "?call \<in> fst ` set (or_calls s1)" by simp
    then have "or_calls s1 \<noteq> AList.delete (cx_call_id (or_ctxs s r)) (or_calls s)"
      unfolding id by (metis Diff_iff keys_delete singletonI)
    then have same: "or_calls s1 = or_calls s"
      using assms by (auto simp: step_ok_def)
    have "pump_finally env r s1 = teardown env (Some AtPump) r (pop_call ?call ?o)"
      using True by (simp add: pump_finally_def Let_def)
    then show ?thesis
      using t local_ok_teardown(1) [OF ok, of "Some AtPump"] local_ok_teardown(2) [OF ok] same pumps id
      by (auto simp: step_ok_def touches_def torn_down_def)
  qed
qed

lemma pump_finally_pumps: "r \<notin> set (or_pumps (pump_finally env r s))"
proof (cases "cx_call_id (or_ctxs s r) \<in> set (map fst (or_calls s))")
  case True
  then show ?thesis by (simp add: pump_finally_def Let_def)
next
  case False
  then show ?thesis by (simp add: pump_finally_def Let_def)
qed

lemma pop_teardown_step:
  assumes "local_ok (or_ctxs s r) (trace r s)"
  shows "step_ok r s (teardown env current r (pop_call (cx_call_id (or_ctxs s r)) s))"
  using local_ok_teardown(1) [OF assms, of current] local_ok_teardown(2) [OF assms]
  by (auto simp: step_ok_def touches_def torn_down_def)


section \<open>The invariant of the orchestrator\<close>

text \<open>\<open>dl r\<close> are the events the pump of \<open>r\<close> has been given so far.\<close>

definition registered :: "'p orch \<Rightarrow> nat \<Rightarrow> bool" where
  "registered s r \<longleftrightarrow> (cx_call_id (or_ctxs s r), r) \<in> set (or_calls s)"

definition untouched :: "call_ctx \<Rightarrow> effect list \<Rightarrow> bool" where
  "untouched c t \<longleftrightarrow> kinds t = [] \<and> \<not> cx_terminated c \<and> cx_bridge c = None \<and> \<not> cx_recorder c \<and> \<not> cx_cpcmreg c"

definition pump_ok :: "'p orch \<Rightarrow> at_event list \<Rightarrow> nat \<Rightarrow> bool" where
  "pump_ok s evs r \<longleftrightarrow> cx_has_at (or_ctxs s r)
     \<and> (registered s r \<and> AtPump \<in> set (cx_tasks (or_ctxs s r))
        \<or> \<not> registered s r \<and> cx_terminated (or_ctxs s r))
     \<and> (\<forall>r'. (cx_call_id (or_ctxs s r), r') \<in> set (or_calls s) \<longrightarrow> r' = r)
     \<and> (CONNECTED \<notin> set (map ae_event evs) \<longrightarrow> untouched (or_ctxs s r) (trace r s))"

definition orch_inv :: "'p orch \<Rightarrow> (nat \<Rightarrow> at_event list) \<Rightarrow> bool" where
  "orch_inv s dl \<longleftrightarrow> distinct (map fst (or_calls s))
     \<and> (\<forall>(c, r) \<in> set (or_calls s). r < or_next s \<and> cx_call_id (or_ctxs s r) = c)
     \<and> (\<forall>r \<in> set (or_pumps s). r < or_next s \<and> pump_ok s (dl r) r \<and> (\<forall>r' \<in> set (or_pumps s). r' = r))
     \<and> (or_dev s \<longrightarrow> or_pumps s = [])
     \<and> (\<forall>r. \<not> registered s r \<longrightarrow> released (or_ctxs s r))
     \<and> (\<forall>r. local_ok (or_ctxs s r) (trace r s))
     \<and> (\<forall>r. or_next s \<le> r \<longrightarrow> trace r s = [] \<and> dl r = [])"

lemma distinct_keys_unique: "distinct (map fst al) \<Longrightarrow> (c, a) \<in> set al \<Longrightarrow> (c, b) \<in> set al \<Longrightarrow> a = b"
  by (metis map_of_eq_Some_iff option.inject)

lemma set_delete: "set (AList.delete k al) = {(c, r) \<in> set al. c \<noteq> k}"
  by (induction al) auto

lemma distinct_delete: "distinct (map fst al) \<Longrightarrow> distinct (map fst (AList.delete k al))"
  by (simp add: AList.delete_keys distinct_removeAll)

text \<open>A step on a registered call keeps the invariant, given what it does to the call's pump.\<close>

lemma orch_inv_step:
  assumes inv: "orch_inv s dl" and step: "step_ok r s s'" and reg: "registered s r"
    and pump: "r \<in> set (or_pumps s') \<Longrightarrow> pump_ok s' (dl' r) r"
    and dl': "\<And>k. k \<noteq> r \<Longrightarrow> dl' k = dl k"
  shows "orch_inv s' dl'"
proof -
  have t: "touches r s s'" and ok: "local_ok (or_ctxs s' r) (trace r s')"
    using step by (simp_all add: step_ok_def)
  have frame: "k \<noteq> r \<Longrightarrow> or_ctxs s' k = or_ctxs s k \<and> trace k s' = trace k s" for k
    using t by (simp add: touches_def)
  have nx: "or_next s' = or_next s" "or_dev s' = or_dev s"
    and id: "cx_call_id (or_ctxs s' r) = cx_call_id (or_ctxs s r)" using t by (simp_all add: touches_def)
  have ids: "cx_call_id (or_ctxs s' k) = cx_call_id (or_ctxs s k)" for k
    using frame [of k] id by (cases "k = r") auto
  have dist: "distinct (map fst (or_calls s))"
    and entries: "\<And>c k. (c, k) \<in> set (or_calls s) \<Longrightarrow> k < or_next s \<and> cx_call_id (or_ctxs s k) = c"
    using inv by (auto simp: orch_inv_def)
  have sub: "set (or_calls s') \<subseteq> set (or_calls s)" using step by (auto simp: step_ok_def set_delete)
  have only: "(cx_call_id (or_ctxs s r), k) \<in> set (or_calls s) \<Longrightarrow> k = r" for k
    using distinct_keys_unique [OF dist] reg unfolding registered_def by blast
  have keep: "k \<noteq> r \<Longrightarrow> registered s' k = registered s k" for k
  proof -
    assume k: "k \<noteq> r"
    then have "(cx_call_id (or_ctxs s k), k) \<in> set (or_calls s) \<Longrightarrow> cx_call_id (or_ctxs s k) \<noteq> cx_call_id (or_ctxs s r)"
      using only by metis
    then show ?thesis
      using step k ids unfolding registered_def by (auto simp: step_ok_def set_delete)
  qed
  have rr: "r < or_next s" using reg entries unfolding registered_def by blast
  have pumps: "set (or_pumps s') \<subseteq> set (or_pumps s)" using step by (auto simp: step_ok_def)
  have p: "pump_ok s' (dl' k) k" if "k \<in> set (or_pumps s')" for k
  proof (cases "k = r")
    case True
    with pump that show ?thesis by simp
  next
    case False
    then have "pump_ok s (dl k) k" using inv pumps that by (auto simp: orch_inv_def)
    then show ?thesis
      using frame [OF False] keep [OF False] dl' [OF False] sub unfolding pump_ok_def by auto
  qed
  have rel: "\<not> registered s' k \<Longrightarrow> released (or_ctxs s' k)" for k
  proof (cases "k = r")
    case True
    assume "\<not> registered s' k"
    then have "or_calls s' \<noteq> or_calls s" using reg True id unfolding registered_def by metis
    then show ?thesis using step True by (auto simp: step_ok_def)
  next
    case False
    assume "\<not> registered s' k"
    then have "\<not> registered s k" using keep [OF False] by blast
    then show ?thesis using inv frame [OF False] by (simp add: orch_inv_def)
  qed
  have loc: "local_ok (or_ctxs s' k) (trace k s')" for k
    using inv ok frame [of k] by (cases "k = r") (auto simp: orch_inv_def)
  have dist': "distinct (map fst (or_calls s'))"
  proof -
    have "or_calls s' = or_calls s \<or> or_calls s' = AList.delete (cx_call_id (or_ctxs s r)) (or_calls s)"
      using step by (auto simp: step_ok_def)
    then show ?thesis using dist distinct_delete by metis
  qed
  have new: "or_next s' \<le> k \<Longrightarrow> trace k s' = [] \<and> dl' k = []" for k
  proof -
    assume k: "or_next s' \<le> k"
    then have "k \<noteq> r" using rr nx by simp
    with k show ?thesis using inv frame dl' nx by (simp add: orch_inv_def)
  qed
  have ent: "\<forall>(c, k) \<in> set (or_calls s'). k < or_next s' \<and> cx_call_id (or_ctxs s' k) = c"
    using entries sub nx ids by auto
  have old: "\<forall>k \<in> set (or_pumps s). k < or_next s \<and> (\<forall>k' \<in> set (or_pumps s). k' = k)"
    "or_dev s \<longrightarrow> or_pumps s = []"
    using inv unfolding orch_inv_def by blast+
  have uniq: "\<forall>k \<in> set (or_pumps s'). \<forall>k' \<in> set (or_pumps s'). k' = k"
    and lt: "\<forall>k \<in> set (or_pumps s'). k < or_next s'"
    using old(1) pumps nx by (blast, auto)
  have dev: "or_dev s' \<longrightarrow> or_pumps s' = []"
    using old(2) pumps nx by auto
  show ?thesis
    unfolding orch_inv_def using p rel loc dist' new ent uniq lt dev by blast
qed

lemma registered_lookup:
  "orch_inv s dl \<Longrightarrow> map_of (or_calls s) call = Some r \<Longrightarrow> registered s r \<and> cx_call_id (or_ctxs s r) = call"
  by (auto simp: orch_inv_def registered_def dest!: map_of_SomeD)

lemma pump_ok_quiet:
  assumes "quiet r s s'" and "pump_ok s evs r"
    and "untouched (or_ctxs s r) (trace r s) \<Longrightarrow> untouched (or_ctxs s' r) (trace r s')"
    and "cx_terminated (or_ctxs s r) \<Longrightarrow> cx_terminated (or_ctxs s' r)"
  shows "pump_ok s' evs r"
  using assms unfolding quiet_def pump_ok_def registered_def touches_def by auto

lemma orch_inv_cong:
  assumes "orch_inv s dl" and "or_ctxs s' = or_ctxs s" and "or_calls s' = or_calls s" and "or_pumps s' = or_pumps s"
    and "or_next s' = or_next s" and "or_dev s' = or_dev s" and "\<And>k. trace k s' = trace k s"
  shows "orch_inv s' dl"
  using assms unfolding orch_inv_def pump_ok_def registered_def by simp

lemma emit_none:
  assumes "emit ser None critical m s = (res, s')"
  shows "or_ctxs s' = or_ctxs s \<and> or_calls s' = or_calls s \<and> or_pumps s' = or_pumps s
    \<and> or_log s' = or_log s @ (if res = Inr () then [(None, Sent m)] else [])"
  by (rule emit_cases [where ser = ser and w = None and critical = critical and m = m and s = s])
    (use assms in \<open>auto simp: log_def\<close>)

lemma orch_inv_emit_none:
  assumes "orch_inv s dl"
  shows "orch_inv (snd (emit ser None critical m s)) dl"
  by (rule emit_cases [where ser = ser and w = None and critical = critical and m = m and s = s])
    (use assms in \<open>auto intro: orch_inv_cong\<close>)

lemma update_new_key: "k \<notin> fst ` set al \<Longrightarrow> AList.update k v al = al @ [(k, v)]"
  by (induction al) auto

lemma register_call_simps [simp]:
  "or_ctxs (register_call c s) = (or_ctxs s)(or_next s := c)" "or_next (register_call c s) = or_next s + 1"
  "or_pumps (register_call c s) = or_pumps s" "or_dev (register_call c s) = or_dev s"
  "trace k (register_call c s) = trace k s"
  "or_calls (register_call c s) = AList.update (cx_call_id c) (or_next s) (or_calls s)"
  by (simp_all add: register_call_def trace_def)

lemma new_ctx_simps [simp]:
  "cx_call_id (new_ctx dial m h) = dc_call_id dial" "cx_has_at (new_ctx dial m h) = h"
  "cx_terminated (new_ctx dial m h) = False" "cx_bridge (new_ctx dial m h) = None"
  "cx_recorder (new_ctx dial m h) = False" "cx_cpcmreg (new_ctx dial m h) = False"
  "cx_rtc (new_ctx dial m h) = False" "cx_tasks (new_ctx dial m h) = []"
  "cx_dial (new_ctx dial m h) = dial" "cx_modem (new_ctx dial m h) = m"
  by (simp_all add: new_ctx_def)

lemma local_ok_new: "local_ok (new_ctx dial m h) []"
  by (simp add: local_ok_def balanced_def)

lemma orch_inv_register:
  assumes inv: "orch_inv s dl" and new: "dc_call_id dial \<notin> fst ` set (or_calls s)" and idle: "or_pumps s = []"
  shows "orch_inv (register_call (new_ctx dial m h) s) dl"
    and "registered (register_call (new_ctx dial m h) s) (or_next s)"
proof -
  let ?s' = "register_call (new_ctx dial m h) s"
  have calls: "or_calls ?s' = or_calls s @ [(dc_call_id dial, or_next s)]"
    using new by (simp add: update_new_key)
  have entries: "\<And>c k. (c, k) \<in> set (or_calls s) \<Longrightarrow> k < or_next s \<and> cx_call_id (or_ctxs s k) = c"
    using inv by (auto simp: orch_inv_def)
  show reg: "registered ?s' (or_next s)" by (simp add: registered_def calls del: register_call_simps(6))
  have "registered ?s' k = registered s k" if "k \<noteq> or_next s" for k
    using that by (simp add: registered_def calls del: register_call_simps(6))
  moreover have "\<forall>(c, k) \<in> set (or_calls ?s'). k < or_next ?s' \<and> cx_call_id (or_ctxs ?s' k) = c"
    using entries by (fastforce simp: calls simp del: register_call_simps(6))
  moreover have "local_ok (or_ctxs ?s' k) (trace k ?s')" for k
    using inv local_ok_new [of dial m h] by (auto simp: orch_inv_def)
  moreover have "distinct (map fst (or_calls ?s'))"
    using inv new by (simp add: calls orch_inv_def del: register_call_simps(6))
  ultimately show "orch_inv ?s' dl"
    using inv idle reg unfolding orch_inv_def
    by (simp del: register_call_simps(6))
qed

text \<open>A connected call that left the table without an exception was terminated on the way.\<close>

lemma hangup_result_terminated:
  "local_ok (or_ctxs s r) (trace r s) \<Longrightarrow> handle_remote_hangup ser env current r cause s = (res, s') \<Longrightarrow>
   cx_terminated (or_ctxs s' r)"
  using handle_remote_hangup_step(2) by (metis snd_conv)

lemma quiet_registered: "quiet r s s' \<Longrightarrow> registered s' r = registered s r"
  by (simp add: quiet_def registered_def touches_def)

lemma join_bridge_terminated:
  "local_ok (or_ctxs s r) (trace r s) \<Longrightarrow> registered s r \<Longrightarrow> \<not> registered (snd (join_bridge ser env r s)) r \<Longrightarrow>
   cx_terminated (or_ctxs (snd (join_bridge ser env r s)) r)"
proof -
  assume ok: "local_ok (or_ctxs s r) (trace r s)" and reg: "registered s r" "\<not> registered (snd (join_bridge ser env r s)) r"
  show ?thesis
  proof (cases "ev_join env")
    case (Inl e)
    with reg show ?thesis
      using handle_remote_hangup_step(2) [OF ok] by (auto simp: join_bridge_def raise_def split: if_splits)
  next
    case (Inr x)
    with reg show ?thesis by (auto simp: join_bridge_def ret_def start_pumps_def registered_def split: if_splits)
  qed
qed

lemma build_audio_path_terminated:
  assumes ok: "local_ok (or_ctxs s r) (trace r s)" and fresh: "\<not> cx_recorder (or_ctxs s r)" "cx_bridge (or_ctxs s r) = None"
    and reg: "registered s r" "\<not> registered (snd (build_audio_path ser env r s)) r"
  shows "cx_terminated (or_ctxs (snd (build_audio_path ser env r s)) r)"
proof (cases "ring_init (or_ring_capacity s)")
  case (Inl e)
  with reg show ?thesis by (simp add: build_audio_path_def bindm_def lift_result_def)
next
  case (Inr g)
  obtain res s1 where b: "begin_recording env r s = (res, s1)" by fastforce
  note s1 = begin_recording_step [OF b ok fresh(1)]
  let ?s2 = "log (Some r) BridgeBuilt (upd_ctx r (\<lambda>c. c\<lparr>cx_upstream := Some g, cx_downstream := Some g, cx_bridge := Some False\<rparr>) s1)"
  have q: "quiet r s1 ?s2" by (simp add: quiet_def touches_def)
  have bridge: "cx_bridge (or_ctxs s1 r) = None" using s1(3) fresh(2) by auto
  have ok2: "local_ok (or_ctxs ?s2 r) (trace r ?s2)"
    using s1(2) bridge by (auto simp: local_ok_def balanced_def)
  have reg2: "registered ?s2 r" "registered s1 r"
    using quiet_registered [OF quiet_trans [OF s1(1) q]] quiet_registered [OF s1(1)] reg(1) by auto
  have "cx_terminated (or_ctxs (snd (join_bridge ser env r ?s2)) r) \<or> registered (snd (join_bridge ser env r ?s2)) r"
    using join_bridge_terminated [OF ok2 reg2(1)] by blast
  then show ?thesis
    using reg reg2
    by (simp add: build_audio_path_def bindm_def lift_result_def Inr b seqm_def modify_def del: upd_ctx_simps log_simps
        split: sum.splits)
qed

lemma handle_connected_terminated:
  assumes h: "handle_connected ser env r s = (Inr u, s')" and ok: "local_ok (or_ctxs s r) (trace r s)"
    and un: "untouched (or_ctxs s r) (trace r s)" and at: "cx_has_at (or_ctxs s r)"
    and reg: "registered s r" "\<not> registered s' r"
  shows "cx_terminated (or_ctxs s' r)"
proof -
  obtain res s1 where e: "emit ser (Some r) False (CallConnected (cx_call_id (or_ctxs s r))) s = (res, s1)" by fastforce
  note q1 = quiet_emit [OF e]
  have ok1: "local_ok (or_ctxs s1 r) (trace r s1)"
    using ok un q1(2,3) by (auto simp: local_ok_def untouched_def split: sum.splits)
  note run = handle_connected_def send_call_event_connected_def seqm_def bindm_def
  have res: "res = Inr ()" using h e by (cases res) (auto simp: run)
  show ?thesis
  proof (cases "ev_cpcmreg env")
    case (Inr v)
    let ?s2 = "upd_ctx r (\<lambda>c. c\<lparr>cx_cpcmreg := True\<rparr>) (log (Some r) CpcmregEnabled s1)"
    have q2: "quiet r s1 ?s2" by (simp add: quiet_def touches_def)
    have ok2: "local_ok (or_ctxs ?s2 r) (trace r ?s2)"
      using ok1 un at q1(2) by (auto simp: local_ok_def balanced_def untouched_def)
    have "registered ?s2 r" using quiet_registered [OF quiet_trans [OF q1(1) q2]] reg(1) by blast
    moreover have s': "s' = snd (build_audio_path ser env r ?s2)"
      using h e res Inr by (simp add: run modify_def)
    ultimately show ?thesis
      using build_audio_path_terminated [OF ok2] reg(2) un q1(2) by (simp add: untouched_def)
  next
    case (Inl x)
    then obtain d where d: "x = PcmEnableError d"
      using h e res by (cases x) (simp_all add: run raise_def)
    obtain res2 s2 where e2: "emit ser (Some r) True (HardwareAlert PCM_ENABLE_FAILED_STAGE d) s1 = (res2, s2)"
      by fastforce
    have res2: "res2 = Inr ()" using h e e2 res Inl d by (cases res2) (auto simp: run send_hardware_alert_def)
    note q2 = quiet_emit [OF e2]
    have ok2: "local_ok (or_ctxs s2 r) (trace r s2)"
      using ok1 q2(2,3) res2 by (auto simp: local_ok_def)
    obtain res3 s3 where h3: "handle_remote_hangup ser env (Some AtPump) r (Some ''network_out_of_order'') s2 = (res3, s3)"
      by fastforce
    have "cx_terminated (or_ctxs s3 r)" using hangup_result_terminated [OF ok2 h3] .
    moreover have "res3 = Inr ()" using h e e2 h3 res res2 Inl d
      by (cases res3) (auto simp: run send_hardware_alert_def)
    ultimately show ?thesis
      using h e e2 h3 res res2 Inl d at_hangup_step [of r s3 env] by (simp add: run send_hardware_alert_def)
  qed
qed

text \<open>A pump whose call has left the table ends without a trace.\<close>

lemma orch_inv_pump_gone:
  assumes inv: "orch_inv s dl" and live: "r \<in> set (or_pumps s)" and gone: "\<not> registered s r"
  shows "orch_inv (pump_finally env r s) (dl(r := evs))"
proof -
  have pump: "pump_ok s (dl r) r" and lt: "r < or_next s"
    and only: "\<forall>k \<in> set (or_pumps s). k = r"
    using inv live by (auto simp: orch_inv_def)
  have "cx_call_id (or_ctxs s r) \<notin> set (map fst (or_calls s))"
    using pump gone by (auto simp: pump_ok_def registered_def)
  then have fin: "pump_finally env r s = s\<lparr>or_pumps := removeAll r (or_pumps s)\<rparr>"
    by (simp add: pump_finally_def Let_def)
  have "removeAll r (or_pumps s) = []" using only by (simp add: filter_empty_conv removeAll_filter_not_eq)
  with inv lt show ?thesis
    unfolding fin orch_inv_def registered_def by auto
qed

lemma orch_inv_pump_event:
  assumes inv: "orch_inv s dl" and live: "r \<in> set (or_pumps s)" and wf: "well_formed_call (dl r @ [ev])"
  shows "orch_inv (pump_event ser env r ev s) (dl(r := dl r @ [ev]))"
proof -
  let ?dl = "dl(r := dl r @ [ev])"
  have ok: "local_ok (or_ctxs s r) (trace r s)" and pump: "pump_ok s (dl r) r" and lt: "r < or_next s"
    using inv live by (auto simp: orch_inv_def)
  show ?thesis
  proof (cases "ae_event ev")
    case CONNECTED
    have first: "CONNECTED \<notin> set (map ae_event (dl r))"
      using wf CONNECTED by (auto simp: well_formed_call_def)
    then have un: "untouched (or_ctxs s r) (trace r s)" and reg: "registered s r" and at: "cx_has_at (or_ctxs s r)"
      and task: "AtPump \<in> set (cx_tasks (or_ctxs s r))"
      using pump by (auto simp: pump_ok_def untouched_def)
    obtain res s1 where h: "handle_connected ser env r s = (res, s1)" by fastforce
    have step: "step_ok r s s1"
      using handle_connected_step [of s r ser env] ok un at h unfolding untouched_def by (metis snd_conv)
    have handled: "CONNECTED \<in> set (map ae_event (?dl r))" using CONNECTED by simp
    have only: "(cx_call_id (or_ctxs s r), k) \<in> set (or_calls s) \<Longrightarrow> k = r" for k
      using pump by (auto simp: pump_ok_def)
    have t: "cx_call_id (or_ctxs s1 r) = cx_call_id (or_ctxs s r)" "cx_has_at (or_ctxs s1 r)"
      using step at by (auto simp: step_ok_def touches_def)
    show ?thesis
    proof (cases res)
      case (Inl e)
      have "pump_event ser env r ev s = pump_finally env r s1"
        using live CONNECTED h Inl by (simp add: pump_event_def)
      moreover have "orch_inv (pump_finally env r s1) ?dl"
        by (rule orch_inv_step [OF inv pump_finally_step [OF step] reg])
          (simp_all add: pump_finally_pumps)
      ultimately show ?thesis by simp
    next
      case (Inr u)
      have ev: "pump_event ser env r ev s = s1" using live CONNECTED h Inr by (simp add: pump_event_def)
      have "pump_ok s1 (?dl r) r" if "r \<in> set (or_pumps s1)"
      proof (cases "registered s1 r")
        case True
        then have "or_calls s1 = or_calls s" using step t(1) unfolding registered_def
          by (auto simp: step_ok_def set_delete)
        moreover have "AtPump \<in> set (cx_tasks (or_ctxs s1 r))"
        proof -
          have "(cx_call_id (or_ctxs s r), r) \<notin> set (AList.delete (cx_call_id (or_ctxs s r)) (or_calls s))"
            by (simp add: set_delete)
          then have "or_calls s1 \<noteq> AList.delete (cx_call_id (or_ctxs s r)) (or_calls s)"
            using True t(1) unfolding registered_def by metis
          then show ?thesis using step task unfolding step_ok_def by blast
        qed
        ultimately show ?thesis using True t only handled unfolding pump_ok_def by auto
      next
        case False
        have trm: "cx_terminated (or_ctxs s1 r)"
          using handle_connected_terminated [OF h [unfolded Inr] ok un at reg False] .
        have "set (or_calls s1) \<subseteq> set (or_calls s)" using step by (auto simp: step_ok_def set_delete)
        then show ?thesis using False t only handled trm unfolding pump_ok_def by auto
      qed
      then show ?thesis unfolding ev
        by (rule orch_inv_step [OF inv step reg]) simp_all
    qed
  next
    case REMOTE_HANGUP
    let ?s1 = "snd (handle_remote_hangup ser env (Some AtPump) r (ae_cause ev) s)"
    have ev: "pump_event ser env r ev s = pump_finally env r ?s1"
      using live REMOTE_HANGUP by (simp add: pump_event_def)
    show ?thesis
    proof (cases "registered s r")
      case True
      show ?thesis unfolding ev
        by (rule orch_inv_step [OF inv pump_finally_step [OF handle_remote_hangup_step(1) [OF ok]] True])
          (simp_all add: pump_finally_pumps)
    next
      case False
      then have trm: "cx_terminated (or_ctxs s r)" using pump by (simp add: pump_ok_def)
      then have "?s1 = s" by (simp add: handle_remote_hangup_def ret_def)
      then show ?thesis unfolding ev using orch_inv_pump_gone [OF inv live False] by simp
    qed
  qed
qed

lemma orch_inv_parts:
  assumes "orch_inv s dl"
  shows "local_ok (or_ctxs s r) (trace r s)" and "or_dev s \<Longrightarrow> or_pumps s = []"
  using assms by (auto simp: orch_inv_def)

text \<open>Without a pump on the call, every legal step on a registered call is fine.\<close>

lemma orch_inv_step_idle:
  assumes "orch_inv s dl" and "step_ok r s s'" and "registered s r" and "or_pumps s = []"
  shows "orch_inv s' dl"
  using assms by (intro orch_inv_step [OF assms(1-3)]) (auto simp: step_ok_def)

lemma dev_call_step:
  assumes ok: "local_ok (or_ctxs s r) (trace r s)" and un: "kinds (trace r s) = []" "\<not> cx_terminated (or_ctxs s r)"
      "\<not> cx_recorder (or_ctxs s r)" "\<not> cx_rtc (or_ctxs s r)"
  shows "step_ok r s (snd (dev_call ser env r call s))"
proof -
  obtain res1 s1 where e1: "emit ser (Some r) False (DialAck call True []) s = (res1, s1)" by fastforce
  note q1 = quiet_emit [OF e1]
  have ok1: "local_ok (or_ctxs s1 r) (trace r s1)" and k1: "kinds (trace r s1) = []"
    using ok un(1) q1(2,3) by (auto simp: local_ok_def split: sum.splits)
  obtain res2 s2 where e2: "emit ser (Some r) False (CallConnected call) s1 = (res2, s2)" by fastforce
  note q2 = quiet_emit [OF e2]
  have ok2: "local_ok (or_ctxs s2 r) (trace r s2)"
    using ok1 k1 un(2) q1(2) q2(2,3) by (auto simp: local_ok_def split: sum.splits)
  have q12: "quiet r s s2" using quiet_trans [OF q1(1) q2(1)] .
  let ?s3 = "upd_ctx r (\<lambda>c. c\<lparr>cx_rtc := True\<rparr>) (log (Some r) RtcBuilt s2)"
  have q3: "quiet r s2 ?s3" by (simp add: quiet_def touches_def)
  have ok3: "local_ok (or_ctxs ?s3 r) (trace r ?s3)"
    using ok2 un(4) q1(2) q2(2) by (auto simp: local_ok_def balanced_def)
  have q13: "quiet r s ?s3" using quiet_trans [OF q12 q3] .
  let ?s4 = "log (Some r) RtcJoined ?s3"
  have q4: "quiet r ?s3 ?s4" by (simp add: quiet_def touches_def)
  have "or_ctxs ?s4 = or_ctxs ?s3" "trace r ?s4 = trace r ?s3 @ [RtcJoined]" by simp_all
  then have ok4: "local_ok (or_ctxs ?s4 r) (trace r ?s4)"
    using ok3 unfolding local_ok_def by (simp del: log_simps upd_ctx_simps)
  obtain res5 s5 where b: "begin_recording env r ?s4 = (res5, s5)" by fastforce
  have norec: "\<not> cx_recorder (or_ctxs ?s4 r)" using un(3) q1(2) q2(2) by simp
  note s5 = begin_recording_step [OF b ok4 norec]
  have q15: "quiet r s s5" using quiet_trans [OF quiet_trans [OF q13 q4] s5(1)] .
  have tasks: "quiet r s5 (start_dev_tasks env r rcd s5)
      \<and> local_ok (or_ctxs (start_dev_tasks env r rcd s5) r) (trace r (start_dev_tasks env r rcd s5))" for rcd
    using s5(2) by (auto simp: start_dev_tasks_def Let_def quiet_def touches_def local_ok_def)
  have r1: "step_ok r s s1" using quiet_ok [OF q1(1) ok1] .
  have r2: "step_ok r s s2" using quiet_ok [OF q12 ok2] .
  have r3: "step_ok r s ?s3" using quiet_ok [OF q13 ok3] .
  have rh: "step_ok r s (snd (handle_remote_hangup ser env None r (Some ''network_out_of_order'') ?s3))"
    using quiet_step [OF q13 handle_remote_hangup_step(1) [OF ok3]] .
  have r5: "step_ok r s s5" using quiet_ok [OF q15 s5(2)] .
  have r6: "step_ok r s (start_dev_tasks env r rcd s5)" for rcd
    using quiet_ok [OF quiet_trans [OF q15]] tasks by blast
  show ?thesis
    using e1 e2 b r1 r2 r3 rh r5 r6
    by (simp add: dev_call_def seqm_def bindm_def modify_def send_dial_ack_def send_call_event_connected_def
        lift_result_def raise_def del: upd_ctx_simps log_simps split: sum.splits)
qed

lemma orch_inv_add_pump:
  assumes inv: "orch_inv s dl" and reg: "registered s r" and nop: "or_pumps s = []" and dev: "\<not> or_dev s"
    and none: "kinds (trace r s) = []" and c: "or_ctxs s r = new_ctx dial m True"
  shows "orch_inv (start_task r AtPump (s\<lparr>or_pumps := or_pumps s @ [r]\<rparr>)) dl"
proof -
  let ?s' = "start_task r AtPump (s\<lparr>or_pumps := or_pumps s @ [r]\<rparr>)"
  have dist: "distinct (map fst (or_calls s))"
    and entries: "\<And>c k. (c, k) \<in> set (or_calls s) \<Longrightarrow> k < or_next s \<and> cx_call_id (or_ctxs s k) = c"
    using inv by (auto simp: orch_inv_def)
  have lt: "r < or_next s" using reg entries unfolding registered_def by blast
  have same: "registered ?s' k = registered s k" for k by (simp add: registered_def)
  have only: "(cx_call_id (or_ctxs s r), k) \<in> set (or_calls s) \<Longrightarrow> k = r" for k
    using distinct_keys_unique [OF dist] reg unfolding registered_def by blast
  have "pump_ok ?s' (dl r) r"
  proof -
    have "registered ?s' r" using reg same by blast
    moreover have "\<forall>k. (cx_call_id (or_ctxs ?s' r), k) \<in> set (or_calls ?s') \<longrightarrow> k = r" using only by simp
    ultimately show ?thesis unfolding pump_ok_def untouched_def using none by (simp add: c)
  qed
  moreover have "local_ok (or_ctxs ?s' k) (trace k ?s')" for k
    using orch_inv_parts(1) [OF inv, of k] by (auto simp: local_ok_def)
  moreover have "\<not> registered ?s' k \<Longrightarrow> released (or_ctxs ?s' k)" for k
    using inv reg same by (cases "k = r") (auto simp: orch_inv_def)
  moreover have "or_next ?s' \<le> k \<Longrightarrow> trace k ?s' = [] \<and> dl k = []" for k
    using inv lt by (auto simp: orch_inv_def)
  moreover have "\<forall>(c, k) \<in> set (or_calls ?s'). k < or_next ?s' \<and> cx_call_id (or_ctxs ?s' k) = c"
    using entries by auto
  moreover have "distinct (map fst (or_calls ?s'))" "\<not> or_dev ?s'" "or_pumps ?s' = [r]" "or_next ?s' = or_next s"
    using dist dev nop by simp_all
  ultimately show ?thesis
    unfolding orch_inv_def using lt by (simp del: start_task_simps)
qed

lemma orch_inv_dial_dev:
  assumes inv: "orch_inv s dl" and new: "dc_call_id dial \<notin> fst ` set (or_calls s)" and dev: "or_dev s"
  shows "orch_inv (snd (on_dial_dev_no_modem ser env dial s)) dl"
proof -
  let ?s0 = "register_call (new_ctx dial DevFake False) s"
  have nop: "or_pumps s = []" using orch_inv_parts(2) [OF inv dev] .
  note reg = orch_inv_register [OF inv new nop, of DevFake False]
  have empty: "trace (or_next s) s = []" using inv unfolding orch_inv_def by blast
  have step: "step_ok (or_next s) ?s0 (snd (on_dial_dev_no_modem ser env dial s))"
    unfolding on_dial_dev_no_modem_def
    by (rule dev_call_step) (simp_all add: local_ok_new empty del: register_call_simps(6))
  have "or_pumps ?s0 = []" by (simp add: nop)
  from orch_inv_step_idle [OF reg(1) step reg(2) this] show ?thesis .
qed

lemma orch_inv_dial_modem:
  assumes inv: "orch_inv s dl" and new: "dc_call_id dial \<notin> fst ` set (or_calls s)" and dev: "\<not> or_dev s"
    and nop: "or_pumps s = []"
    and e: "emit ser (Some (or_next s)) False (DialAck (dc_call_id dial) True []) (register_call (new_ctx dial m True) s) = (res, s1)"
  shows "orch_inv s1 dl"
    and "orch_inv (start_task (or_next s) AtPump (s1\<lparr>or_pumps := or_pumps s1 @ [or_next s]\<rparr>)) dl"
proof -
  let ?s0 = "register_call (new_ctx dial m True) s" and ?r = "or_next s"
  note reg = orch_inv_register [OF inv new nop, of m True]
  note q = quiet_emit [OF e]
  have empty: "trace ?r ?s0 = []" using inv unfolding orch_inv_def by (simp del: register_call_simps(6)) 
  have tr: "trace ?r s1 = (case res of Inl _ \<Rightarrow> [] | Inr _ \<Rightarrow> [Sent (DialAck (dc_call_id dial) True [])])"
    using q(3) empty by simp
  have c: "or_ctxs s1 ?r = new_ctx dial m True" using q(2) by (simp del: register_call_simps(6))
  have k: "kinds (trace ?r s1) = []" using tr by (cases res) simp_all
  have ok1: "local_ok (or_ctxs s1 ?r) (trace ?r s1)"
    unfolding c tr by (cases res) (simp_all add: local_ok_def balanced_def)
  have nop0: "or_pumps ?s0 = []" by (simp add: nop)
  show inv1: "orch_inv s1 dl"
    by (rule orch_inv_step_idle [OF reg(1) quiet_ok [OF q(1) ok1] reg(2) nop0])
  have reg1: "registered s1 ?r" using quiet_registered [OF q(1)] reg(2) by blast
  have nop1: "or_pumps s1 = []" and dev1: "\<not> or_dev s1" using q(1) nop dev by (simp_all add: quiet_def touches_def)
  show "orch_inv (start_task ?r AtPump (s1\<lparr>or_pumps := or_pumps s1 @ [?r]\<rparr>)) dl"
    by (rule orch_inv_add_pump [OF inv1 reg1 nop1 dev1 k c])
qed

lemma orch_inv_dial:
  assumes inv: "orch_inv s dl" and idle: "\<And>m. ev_dial env = Inr m \<Longrightarrow> or_pumps s = []"
  shows "orch_inv (snd (on_dial ser env dial s)) dl"
proof (cases "dc_call_id dial \<in> fst ` set (or_calls s)")
  case True
  then show ?thesis
    using orch_inv_emit_none [OF inv] by (simp add: on_dial_def Let_def send_dial_ack_def)
next
  case new: False
  show ?thesis
  proof (cases "or_dev s")
    case True
    then show ?thesis using orch_inv_dial_dev [OF inv new True] new by (simp add: on_dial_def Let_def)
  next
    case False
    let ?l = "log None (AtDial (dc_number dial)) s"
    have log: "orch_inv ?l dl" using inv by (rule orch_inv_cong) simp_all
    show ?thesis
    proof (cases "ev_dial env")
      case (Inl e)
      then show ?thesis
        using new False orch_inv_emit_none [OF log] log
        by (simp add: on_dial_def Let_def send_dial_ack_def raise_def)
    next
      case (Inr m)
      obtain res s1 where e: "emit ser (Some (or_next ?l)) False (DialAck (dc_call_id dial) True [])
          (register_call (new_ctx dial (ModemCall m) True) ?l) = (res, s1)" by fastforce
      have "dc_call_id dial \<notin> fst ` set (or_calls ?l)" "\<not> or_dev ?l" "or_pumps ?l = []"
        using new False idle [OF Inr] by simp_all
      note res = orch_inv_dial_modem [OF log this e]
      have e': "emit ser (Some (or_next s)) False (DialAck (dc_call_id dial) True [])
          (register_call (new_ctx dial (ModemCall m) True) ?l) = (res, s1)" using e by simp
      have "snd (on_dial ser env dial s) = (case res of Inl _ \<Rightarrow> s1
          | Inr _ \<Rightarrow> start_task (or_next s) AtPump (s1\<lparr>or_pumps := or_pumps s1 @ [or_next s]\<rparr>))"
        using new False Inr e'
        by (cases res) (simp_all add: on_dial_def Let_def seqm_def bindm_def modify_def send_dial_ack_def
            del: start_task_simps register_call_simps(6))
      then show ?thesis using res by (cases res) simp_all
    qed
  qed
qed

lemma orch_inv_cancel:
  assumes inv: "orch_inv s dl"
  shows "orch_inv (snd (on_cancel ser env call s)) dl"
proof (cases "map_of (or_calls s) call")
  case None
  with inv show ?thesis by (simp add: on_cancel_def ret_def)
next
  case (Some r)
  note reg = registered_lookup [OF inv Some]
  have ok: "local_ok (or_ctxs s r) (trace r s)" using orch_inv_parts(1) [OF inv] .
  show ?thesis
  proof (cases "or_dev s")
    case True
    then show ?thesis
      using orch_inv_step_idle [OF inv handle_remote_hangup_step(1) [OF ok]] reg orch_inv_parts(2) [OF inv True] Some
      by (simp add: on_cancel_def)
  next
    case False
    let ?s' = "snd (suppress (at_hangup env r) s)"
    note h = at_hangup_step [of r s env]
    have "local_ok (or_ctxs ?s' r) (trace r ?s')" using ok h by (simp add: local_ok_def)
    then have step: "step_ok r s ?s'" using quiet_ok h by blast
    have p: "pump_ok ?s' (dl r) r" if "r \<in> set (or_pumps ?s')"
    proof (rule pump_ok_quiet)
      show "quiet r s ?s'" using h by blast
      show "pump_ok s (dl r) r" using inv that h by (auto simp: orch_inv_def quiet_def)
    qed (use h in \<open>auto simp: untouched_def\<close>)
    have "orch_inv ?s' dl" by (rule orch_inv_step [OF inv step]) (use reg p in auto)
    then show ?thesis using Some False by (simp add: on_cancel_def)
  qed
qed

lemma orch_inv_stream_end:
  assumes inv: "orch_inv s dl"
  shows "orch_inv (pump_stream_end env r s) dl"
proof (cases "r \<in> set (or_pumps s)")
  case True
  have ok: "local_ok (or_ctxs s r) (trace r s)" using orch_inv_parts(1) [OF inv] .
  show ?thesis
  proof (cases "registered s r")
    case reg: True
    have "orch_inv (pump_finally env r s) dl"
      by (rule orch_inv_step [OF inv pump_finally_step [OF step_ok_refl [OF ok]] reg]) (simp_all add: pump_finally_pumps)
    with True show ?thesis by (simp add: pump_stream_end_def)
  next
    case False
    then show ?thesis
      using orch_inv_pump_gone [OF inv True False, of env "dl r"] True by (simp add: pump_stream_end_def)
  qed
qed (use inv in \<open>simp add: pump_stream_end_def\<close>)

lemma orch_inv_stop_calls: "orch_inv s dl \<Longrightarrow> orch_inv (stop_calls env calls s) dl"
proof (induction calls arbitrary: s)
  case Nil
  then show ?case by simp
next
  case (Cons call calls)
  show ?case
  proof (cases "map_of (or_calls s) call")
    case None
    with Cons show ?thesis by simp
  next
    case (Some r)
    note reg = registered_lookup [OF Cons.prems Some]
    have ok: "local_ok (or_ctxs s r) (trace r s)" using orch_inv_parts(1) [OF Cons.prems] .
    let ?s' = "teardown env None r (pop_call call s)"
    have step: "step_ok r s ?s'" using pop_teardown_step [OF ok, of env None] reg by simp
    have gone: "r \<notin> set (or_pumps ?s')"
    proof
      assume r: "r \<in> set (or_pumps ?s')"
      then have "r \<in> set (or_pumps s)" by (auto split: if_splits)
      then have "pump_ok s (dl r) r" using Cons.prems by (auto simp: orch_inv_def)
      then have "AtPump \<in> set (cx_tasks (or_ctxs s r))" using reg by (auto simp: pump_ok_def)
      with r show False by simp
    qed
    have "orch_inv ?s' dl" by (rule orch_inv_step [OF Cons.prems step]) (use reg gone in auto)
    with Cons.IH Some show ?thesis by simp
  qed
qed

lemma orch_inv_stop: "orch_inv s dl \<Longrightarrow> orch_inv (orch_stop env s) dl"
proof -
  assume inv: "orch_inv s dl"
  let ?o1 = "stop_calls env (map fst (or_calls s)) s"
  have "orch_inv ?o1 dl" using orch_inv_stop_calls [OF inv] .
  then show ?thesis
    by (rule orch_inv_cong) (simp_all add: orch_stop_def Let_def)
qed

lemma step_ok_pumps: "step_ok r s s' \<Longrightarrow> or_pumps s = [] \<Longrightarrow> or_pumps s' = [] \<and> or_dev s' = or_dev s"
  by (auto simp: step_ok_def touches_def)

lemma orch_inv_dev_terminate_calls:
  "orch_inv s dl \<Longrightarrow> or_dev s \<Longrightarrow> orch_inv (snd (dev_terminate_calls ser env calls s)) dl"
proof (induction calls arbitrary: s)
  case Nil
  then show ?case by (simp add: ret_def)
next
  case (Cons call calls)
  show ?case
  proof (cases "map_of (or_calls s) call")
    case None
    with Cons show ?thesis by simp
  next
    case (Some r)
    note reg = registered_lookup [OF Cons.prems(1) Some]
    have nop: "or_pumps s = []" using orch_inv_parts(2) [OF Cons.prems] .
    obtain res s1 where h: "handle_remote_hangup ser env None r (Some DEV_TERMINATE_CAUSE) s = (res, s1)" by fastforce
    have step: "step_ok r s s1"
      using handle_remote_hangup_step(1) [OF orch_inv_parts(1) [OF Cons.prems(1)], of r ser env None] h by (metis snd_conv)
    have "orch_inv s1 dl" using orch_inv_step_idle [OF Cons.prems(1) step _ nop] reg by blast
    moreover have "or_dev s1" using step_ok_pumps [OF step nop] Cons.prems(2) by simp
    ultimately show ?thesis
      using Cons Some h by (cases res) (simp_all add: seqm_def bindm_def)
  qed
qed

end
