(* ===== verification/Call_Lifecycle.thy ===== *)
theory Call_Lifecycle imports Orchestrator_Inv begin

text \<open>
  Runs of the orchestrator and the properties that span dial, the event pump and the teardown: what a call
  emits and in which order, what it leaves behind, and what happens when the PCM switch fails.
\<close>

section \<open>Runs\<close>

text \<open>The orchestrator beside its environment: the gRPC client may connect and disconnect at any time, a dial
  succeeds only while no event pump runs (the AT client refuses a second call), a pump is given a well
  formed stream of events, and the terminate hook belongs to the mode without a modem.\<close>

inductive orch_reach :: "(edge_msg \<Rightarrow> 'p) \<Rightarrow> 'p orch \<Rightarrow> (nat \<Rightarrow> at_event list) \<Rightarrow> bool" for ser where
  reach_init: "orch_init grpc hw dev cap rc mx = Inr s \<Longrightarrow> orch_reach ser s (\<lambda>_. [])"
| reach_grpc: "orch_reach ser s dl \<Longrightarrow> orch_reach ser (s\<lparr>or_grpc := g\<rparr>) dl"
| reach_start: "orch_reach ser s dl \<Longrightarrow> orch_reach ser (snd (orch_start s)) dl"
| reach_cloud: "orch_reach ser s dl \<Longrightarrow> (\<And>m. ev_dial env = Inr m \<Longrightarrow> or_pumps s = []) \<Longrightarrow>
    orch_reach ser (snd (on_cloud_message ser env msg s)) dl"
| reach_event: "orch_reach ser s dl \<Longrightarrow> r \<in> set (or_pumps s) \<Longrightarrow> well_formed_call (dl r @ [ev]) \<Longrightarrow>
    orch_reach ser (pump_event ser env r ev s) (dl(r := dl r @ [ev]))"
| reach_stream_end: "orch_reach ser s dl \<Longrightarrow> orch_reach ser (pump_stream_end env r s) dl"
| reach_stop: "orch_reach ser s dl \<Longrightarrow> orch_reach ser (orch_stop env s) dl"
| reach_terminate: "orch_reach ser s dl \<Longrightarrow> or_dev s \<Longrightarrow>
    orch_reach ser (snd (dev_terminate_active_calls ser env s)) dl"

lemma orch_inv_init:
  assumes "orch_init grpc hw dev cap rc mx = Inr s"
  shows "orch_inv s (\<lambda>_. [])"
proof -
  let ?c = "new_ctx \<lparr>dc_call_id = [], dc_number = [], dc_channel = [], dc_uid_edge = [], dc_uid_engine = []\<rparr> DevFake False"
  have s: "or_ctxs s r = ?c" "or_calls s = []" "or_pumps s = []" "trace r s = []" for r
    using assms by (auto simp: orch_init_def trace_def split: if_splits)
  have "released ?c" "local_ok ?c []"
    by (simp_all add: released_def local_ok_def balanced_def new_ctx_def)
  then show ?thesis by (simp add: orch_inv_def s)
qed

lemma orch_reach_inv: "orch_reach ser s dl \<Longrightarrow> orch_inv s dl"
proof (induction rule: orch_reach.induct)
  case (reach_init grpc hw dev cap rc mx s)
  then show ?case by (rule orch_inv_init)
next
  case (reach_grpc s dl g)
  from this(2) show ?case by (rule orch_inv_cong) simp_all
next
  case (reach_start s dl)
  from this(2) show ?case
    by (rule orch_inv_cong) (simp_all add: orch_start_def raise_def ret_def trace_def)
next
  case (reach_cloud s dl env msg)
  then show ?case
    using orch_inv_dial [OF reach_cloud(3), of env ser] orch_inv_cancel [OF reach_cloud(3)]
    by (cases msg) (simp_all add: on_cloud_message_def ret_def)
next
  case (reach_event s dl r ev env)
  then show ?case by (intro orch_inv_pump_event) auto
next
  case (reach_stream_end s dl env r)
  then show ?case by (intro orch_inv_stream_end)
next
  case (reach_stop s dl env)
  then show ?case by (intro orch_inv_stop)
next
  case (reach_terminate s dl env)
  then show ?case by (simp add: dev_terminate_active_calls_def orch_inv_dev_terminate_calls)
qed

text \<open>C1. The cloud is told of each call at most one \<open>connected\<close> and at most one hang-up, in this order, in every
  run: retried dials, cancels, AT events, stops and disconnections in any order. A call not marked as
  terminated has sent no hang-up.\<close>

theorem call_events_sent_once:
  assumes "orch_reach ser s dl"
  shows "(kinds (trace r s) \<in> {[], [CONNECTED], [REMOTE_HANGUP], [CONNECTED, REMOTE_HANGUP]})
    \<and> (\<not> cx_terminated (or_ctxs s r) \<longrightarrow> REMOTE_HANGUP \<notin> set (kinds (trace r s)))"
  using orch_inv_parts(1) [OF orch_reach_inv [OF assms], of r] by (auto simp: local_ok_def split: if_splits)

text \<open>C2. A call that has left the table holds nothing: its context has no bridge, RTC session, recording, PCM
  stream, ring or task, and over its life it left the bridge and the session, finalized the recording
  and switched the PCM stream off exactly as often as it had acquired each of them.\<close>

theorem ended_call_holds_nothing:
  assumes "orch_reach ser s dl" and "r \<notin> snd ` set (or_calls s)"
  shows "(released (or_ctxs s r))
    \<and> (count_list (trace r s) BridgeLeft = count_list (trace r s) BridgeBuilt)
    \<and> (count_list (trace r s) RtcLeft = count_list (trace r s) RtcBuilt)
    \<and> (count_list (trace r s) RecordFinalized = count_list (trace r s) RecordBegun)
    \<and> (count_list (trace r s) CpcmregDisabled = count_list (trace r s) CpcmregEnabled)"
proof -
  have "\<not> registered s r" using assms(2) by (force simp: registered_def)
  then have rel: "released (or_ctxs s r)" using orch_reach_inv [OF assms(1)] unfolding orch_inv_def by blast
  moreover have "count_list (trace r s) BridgeLeft = count_list (trace r s) BridgeBuilt"
    "count_list (trace r s) RtcLeft = count_list (trace r s) RtcBuilt"
    "count_list (trace r s) RecordFinalized = count_list (trace r s) RecordBegun"
    "count_list (trace r s) CpcmregDisabled = count_list (trace r s) CpcmregEnabled"
    using orch_inv_parts(1) [OF orch_reach_inv [OF assms(1)], of r] rel
    by (simp_all add: local_ok_def balanced_def released_def)
  ultimately show ?thesis by blast
qed

text \<open>C5. Dialling is idempotent per call: at any moment a call identifier names at most one context, a repeated
  dial for it only acknowledges again (no second AT dial, no change of contexts, table or pumps), and a
  dial the AT client refuses is answered with a refusal and leaves no context.\<close>

theorem repeated_dial_only_acknowledged:
  assumes "orch_reach ser s dl"
  shows "((c, r) \<in> set (or_calls s) \<longrightarrow> (c, r') \<in> set (or_calls s) \<longrightarrow> r = r')
    \<and> ((dc_call_id dial, r) \<in> set (or_calls s) \<longrightarrow> on_dial ser env dial s = (res, s') \<longrightarrow>
      or_ctxs s' = or_ctxs s \<and> or_calls s' = or_calls s \<and> or_pumps s' = or_pumps s
      \<and> or_log s' = or_log s @ (if res = Inr () then [(None, Sent (DialAck (dc_call_id dial) True ''duplicate''))] else []))
    \<and> (dc_call_id dial \<notin> fst ` set (or_calls s) \<longrightarrow> \<not> or_dev s \<longrightarrow> ev_dial env = Inl e \<longrightarrow> e \<noteq> Cancelled \<longrightarrow>
      on_dial ser env dial s = (res, s') \<longrightarrow>
      or_ctxs s' = or_ctxs s \<and> or_calls s' = or_calls s \<and> or_pumps s' = or_pumps s
      \<and> or_log s' = or_log s @ (None, AtDial (dc_number dial))
          # (if res = Inr () then [(None, Sent (DialAck (dc_call_id dial) False (''at_dial: '' @ class_name e)))] else []))"
proof -
  have dist: "distinct (map fst (or_calls s))" using orch_reach_inv [OF assms] by (simp add: orch_inv_def)
  have c1: "(c, r) \<in> set (or_calls s) \<Longrightarrow> (c, r') \<in> set (or_calls s) \<Longrightarrow> r = r'"
    using distinct_keys_unique [OF dist] by blast
  have c2: "or_ctxs s' = or_ctxs s \<and> or_calls s' = or_calls s \<and> or_pumps s' = or_pumps s
      \<and> or_log s' = or_log s @ (if res = Inr () then [(None, Sent (DialAck (dc_call_id dial) True ''duplicate''))] else [])"
    if "(dc_call_id dial, r) \<in> set (or_calls s)" "on_dial ser env dial s = (res, s')"
  proof (rule emit_none)
    have "dc_call_id dial \<in> set (map fst (or_calls s))" using that(1) by force
    then show "emit ser None False (DialAck (dc_call_id dial) True ''duplicate'') s = (res, s')"
      using that(2) by (simp add: on_dial_def Let_def send_dial_ack_def)
  qed
  have c3: "or_ctxs s' = or_ctxs s \<and> or_calls s' = or_calls s \<and> or_pumps s' = or_pumps s
      \<and> or_log s' = or_log s @ (None, AtDial (dc_number dial))
          # (if res = Inr () then [(None, Sent (DialAck (dc_call_id dial) False (''at_dial: '' @ class_name e)))] else [])"
    if "dc_call_id dial \<notin> fst ` set (or_calls s)" "\<not> or_dev s" "ev_dial env = Inl e" "e \<noteq> Cancelled"
      "on_dial ser env dial s = (res, s')"
  proof -
    have "emit ser None False (DialAck (dc_call_id dial) False (''at_dial: '' @ class_name e))
        (log None (AtDial (dc_number dial)) s) = (res, s')"
      using that by (simp add: on_dial_def Let_def send_dial_ack_def is_exception_def)
    from emit_none [OF this] show ?thesis by (simp add: log_def)
  qed
  show ?thesis by (intro conjI [OF _ conjI] impI) (use c1 c2 c3 in \<open>blast+\<close>)
qed


section \<open>The life of an answered call\<close>

definition online :: "'p orch \<Rightarrow> bool" where
  "online s \<longleftrightarrow> cl_connected (or_grpc s)"

lemma emit_online:
  "online s \<Longrightarrow> \<exists>g. emit ser w critical m s = (Inr (), log w (Sent m) (s\<lparr>or_grpc := g\<rparr>)) \<and> cl_connected g"
  by (auto simp: online_def emit_def client_send_def ret_def)

lemma online_simps [simp]:
  "online (log w e s) = online s" "online (upd_ctx r f s) = online s" "online (start_task r tk s) = online s"
  "online (register_call c s) = online s" "online (s\<lparr>or_pumps := ps\<rparr>) = online s"
  "online (s\<lparr>or_recorder := rc\<rparr>) = online s" "cl_connected g \<Longrightarrow> online (s\<lparr>or_grpc := g\<rparr>)"
  by (simp_all add: online_def log_def upd_ctx_def start_task_def register_call_def)

lemma register_grpc [simp]:
  "or_recorder (register_call c s) = or_recorder s" "or_max (register_call c s) = or_max s"
  "or_ring_capacity (register_call c s) = or_ring_capacity s"
  by (simp_all add: register_call_def)

text \<open>Whether a call is recorded.\<close>

definition records :: "edge_env \<Rightarrow> 'p orch \<Rightarrow> bool" where
  "records env s \<longleftrightarrow> (\<exists>rc. or_recorder s = Some rc \<and> 0 < or_max s \<and> rec_min_free rc \<le> ev_free env)"

lemma begin_recording_records:
  "\<exists>rc. begin_recording env r s = (Inr (records env s),
     if records env s then upd_ctx r (\<lambda>c. c\<lparr>cx_recorder := True\<rparr>) (log (Some r) RecordBegun (s\<lparr>or_recorder := rc\<rparr>))
     else s\<lparr>or_recorder := rc\<rparr>)"
proof (cases "or_recorder s")
  case None
  then have "begin_recording env r s = (Inr (records env s), s\<lparr>or_recorder := or_recorder s\<rparr>)" "\<not> records env s"
    by (simp_all add: begin_recording_def records_def ret_def)
  then show ?thesis by metis
next
  case (Some rc)
  show ?thesis
  proof (cases "0 < or_max s \<and> rec_min_free rc \<le> ev_free env")
    case True
    with Some show ?thesis
      by (auto simp: begin_recording_def records_def ret_def begin_call_def)
  next
    case False
    with Some have no: "\<not> records env s" by (auto simp: records_def)
    then have "begin_recording env r s = (Inr False, s\<lparr>or_recorder := or_recorder s\<rparr>)"
      using Some False by (auto simp: begin_recording_def ret_def begin_call_def raise_def)
    then show ?thesis using no by metis
  qed
qed

definition audio_tasks :: "edge_env \<Rightarrow> task list" where
  "audio_tasks env = (if ev_windows env then [DuplexPump] else [CapturePump, PlaybackPump])"

text \<open>A context whose call was accepted, and the same after \<open>connected\<close>.\<close>

definition accepted_ctx :: "dial_command \<Rightarrow> nat \<Rightarrow> call_ctx" where
  "accepted_ctx dial m = (new_ctx dial (ModemCall m) True)\<lparr>cx_tasks := [AtPump]\<rparr>"

lemma dial_accepted:
  assumes "online s" and "dc_call_id dial \<notin> fst ` set (or_calls s)" and "\<not> or_dev s" and "ev_dial env = Inr m"
  shows "\<exists>g. cl_connected g \<and> on_dial ser env dial s = (Inr (), start_task (or_next s) AtPump
    ((\<lambda>u. u\<lparr>or_pumps := or_pumps u @ [or_next s]\<rparr>)
      (log (Some (or_next s)) (Sent (DialAck (dc_call_id dial) True []))
        (register_call (new_ctx dial (ModemCall m) True) (log None (AtDial (dc_number dial)) s)\<lparr>or_grpc := g\<rparr>))))"
proof -
  let ?s0 = "register_call (new_ctx dial (ModemCall m) True) (log None (AtDial (dc_number dial)) s)"
  obtain g where g: "emit ser (Some (or_next s)) False (DialAck (dc_call_id dial) True []) ?s0
    = (Inr (), log (Some (or_next s)) (Sent (DialAck (dc_call_id dial) True [])) (?s0\<lparr>or_grpc := g\<rparr>))" "cl_connected g"
    using emit_online [of ?s0 ser "Some (or_next s)" False "DialAck (dc_call_id dial) True []"] assms(1) by auto
  then show ?thesis
    using assms by (intro exI [of _ g])
      (simp add: on_dial_def Let_def seqm_def bindm_def modify_def send_dial_ack_def)
qed

lemma connected_ok:
  assumes on: "online s" and c: "or_ctxs s r = accepted_ctx dial m"
    and env: "ev_cpcmreg env = Inr ()" "ev_factory env = Inr ()" "ev_join env = Inr ()"
    and args: "dc_uid_engine dial \<noteq> []" "0 < or_ring_capacity s"
  shows "\<exists>s' ring. handle_connected ser env r s = (Inr (), s') \<and> online s' \<and> \<not> rb_closed ring
    \<and> trace r s' = trace r s @ [Sent (CallConnected (dc_call_id dial)), CpcmregEnabled]
        @ (if records env s then [RecordBegun] else []) @ [BridgeBuilt, BridgeJoined] @ map TaskStarted (audio_tasks env)
    \<and> or_ctxs s' r = (accepted_ctx dial m)\<lparr>cx_cpcmreg := True, cx_recorder := records env s,
        cx_upstream := Some ring, cx_downstream := Some ring, cx_bridge := Some True,
        cx_tasks := AtPump # audio_tasks env\<rparr>
    \<and> or_calls s' = or_calls s \<and> or_pumps s' = or_pumps s \<and> or_max s' = or_max s"
proof -
  have id: "cx_call_id (accepted_ctx dial m) = dc_call_id dial" by (simp add: accepted_ctx_def)
  obtain g where g: "emit ser (Some r) False (CallConnected (dc_call_id dial)) s
    = (Inr (), log (Some r) (Sent (CallConnected (dc_call_id dial))) (s\<lparr>or_grpc := g\<rparr>))" "cl_connected g"
    using emit_online [OF on, of ser "Some r" False "CallConnected (dc_call_id dial)"] by auto
  obtain ring where ring: "ring_init (or_ring_capacity s) = Inr ring" "\<not> rb_closed ring"
    using args(2) by (simp add: ring_init_def)
  let ?s1 = "log (Some r) (Sent (CallConnected (dc_call_id dial))) (s\<lparr>or_grpc := g\<rparr>)"
  let ?s2 = "upd_ctx r (\<lambda>c. c\<lparr>cx_cpcmreg := True\<rparr>) (log (Some r) CpcmregEnabled ?s1)"
  have rec: "records env ?s2 = records env s" by (simp add: records_def)
  obtain rc where b: "begin_recording env r ?s2 = (Inr (records env s),
     if records env s then upd_ctx r (\<lambda>c. c\<lparr>cx_recorder := True\<rparr>) (log (Some r) RecordBegun (?s2\<lparr>or_recorder := rc\<rparr>))
     else ?s2\<lparr>or_recorder := rc\<rparr>)"
    using begin_recording_records [of env r ?s2] unfolding rec by blast
  let ?s3 = "if records env s then upd_ctx r (\<lambda>c. c\<lparr>cx_recorder := True\<rparr>) (log (Some r) RecordBegun (?s2\<lparr>or_recorder := rc\<rparr>))
     else ?s2\<lparr>or_recorder := rc\<rparr>"
  let ?s4 = "log (Some r) BridgeBuilt
      (upd_ctx r (\<lambda>c. c\<lparr>cx_upstream := Some ring, cx_downstream := Some ring, cx_bridge := Some False\<rparr>) ?s3)"
  let ?s5 = "start_pumps env r (log (Some r) BridgeJoined (upd_ctx r (\<lambda>c. c\<lparr>cx_bridge := Some True\<rparr>) ?s4))"
  have bridge: "\<exists>br. bridge_init (dc_uid_engine (cx_dial (or_ctxs ?s2 r))) None = Inr br"
    using args(1) by (simp add: c accepted_ctx_def bridge_init_def)
  have "build_audio_path ser env r ?s2 = (Inr (), ?s5)"
    using bridge ring env b
    by (auto simp: build_audio_path_def bindm_def lift_result_def seqm_def modify_def join_bridge_def ret_def
        simp del: upd_ctx_simps(1) split: sum.splits)
  then have run: "handle_connected ser env r s = (Inr (), ?s5)"
    using g(1) env(1) by (simp add: handle_connected_def send_call_event_connected_def seqm_def bindm_def modify_def c id)
  have v3: "or_ctxs ?s3 r = (accepted_ctx dial m)\<lparr>cx_cpcmreg := True, cx_recorder := records env s\<rparr>"
    "trace r ?s3 = trace r s @ [Sent (CallConnected (dc_call_id dial)), CpcmregEnabled]
        @ (if records env s then [RecordBegun] else [])"
    "or_calls ?s3 = or_calls s" "or_pumps ?s3 = or_pumps s" "or_max ?s3 = or_max s" "online ?s3"
    using g(2) by (simp_all add: c accepted_ctx_def)
  show ?thesis
    by (intro exI [of _ ?s5] exI [of _ ring], simp only: run)
      (simp add: v3 ring start_pumps_def audio_tasks_def accepted_ctx_def)
qed

text \<open>The state after an accepted dial.\<close>

lemma dial_state:
  assumes "orch_reach ser s dl" and "online s" and "dc_call_id dial \<notin> fst ` set (or_calls s)" and "\<not> or_dev s"
    and "or_pumps s = []" and "ev_dial env = Inr m"
  shows "\<exists>s1. on_dial ser env dial s = (Inr (), s1) \<and> online s1 \<and> or_ctxs s1 (or_next s) = accepted_ctx dial m
    \<and> trace (or_next s) s1 = [Sent (DialAck (dc_call_id dial) True []), TaskStarted AtPump]
    \<and> or_calls s1 = or_calls s @ [(dc_call_id dial, or_next s)] \<and> or_pumps s1 = [or_next s]
    \<and> or_recorder s1 = or_recorder s \<and> or_max s1 = or_max s \<and> or_ring_capacity s1 = or_ring_capacity s"
proof -
  obtain g where g: "cl_connected g" "on_dial ser env dial s = (Inr (), start_task (or_next s) AtPump
    ((\<lambda>u. u\<lparr>or_pumps := or_pumps u @ [or_next s]\<rparr>)
      (log (Some (or_next s)) (Sent (DialAck (dc_call_id dial) True []))
        (register_call (new_ctx dial (ModemCall m) True) (log None (AtDial (dc_number dial)) s)\<lparr>or_grpc := g\<rparr>))))"
    using dial_accepted [OF assms(2-4,6)] by blast
  have empty: "trace (or_next s) s = []"
    using orch_reach_inv [OF assms(1)] unfolding orch_inv_def by blast
  show ?thesis
    by (simp only: g(2)) (simp add: g(1) empty update_new_key [OF assms(3)] accepted_ctx_def assms(5) start_task_def)
qed

lemma hangup_online:
  assumes "online s" and "\<not> cx_terminated (or_ctxs s r)"
  shows "\<exists>g. cl_connected g \<and> handle_remote_hangup ser env current r cause s = (Inr (),
    teardown env current r (pop_call (cx_call_id (or_ctxs s r))
      (log (Some r) (Sent (CallHangup (cx_call_id (or_ctxs s r)) (proto_of cause) (case cause of None \<Rightarrow> [] | Some c \<Rightarrow> c)))
        (upd_ctx r (\<lambda>c. c\<lparr>cx_terminated := True\<rparr>) s\<lparr>or_grpc := g\<rparr>))))"
proof -
  let ?s1 = "upd_ctx r (\<lambda>c. c\<lparr>cx_terminated := True\<rparr>) s"
  let ?m = "CallHangup (cx_call_id (or_ctxs s r)) (proto_of cause) (case cause of None \<Rightarrow> [] | Some c \<Rightarrow> c)"
  obtain g where "emit ser (Some r) False ?m ?s1 = (Inr (), log (Some r) (Sent ?m) (?s1\<lparr>or_grpc := g\<rparr>))" "cl_connected g"
    using emit_online [of ?s1 ser "Some r" False ?m] assms(1) by auto
  then show ?thesis
    using assms(2) by (intro exI [of _ g])
      (simp add: handle_remote_hangup_def send_call_event_remote_hangup_def seqm_def bindm_def modify_def)
qed

lemma delete_absent: "k \<notin> fst ` set al \<Longrightarrow> AList.delete k (al @ [(k, v)]) = al"
  by (induction al) auto

text \<open>C3. The whole life of an answered call while the cloud is connected: dial, \<open>connected\<close>, hang-up. The
  acknowledgement comes first, \<open>connected\<close> before the PCM stream is enabled, the stream before the bridge
  joins, recording before the bridge exists, and after the hang-up is reported the pumps stop, the bridge
  leaves, the recording is finalized and pruned, then the PCM stream is switched off and the rings close;
  the call table is as before the dial.\<close>

theorem answered_call_lifecycle:
  assumes "orch_reach ser s dl" and "online s" and "dc_call_id dial \<notin> fst ` set (or_calls s)" and "\<not> or_dev s"
    and "or_pumps s = []" and "ev_dial env0 = Inr m"
    and "ev_cpcmreg env = Inr ()" and "ev_factory env = Inr ()" and "ev_join env = Inr ()"
    and "dc_uid_engine dial \<noteq> []" and "0 < or_ring_capacity s"
    and "s1 = snd (on_dial ser env0 dial s)" and "s2 = pump_event ser env (or_next s) (connected_event m) s1"
    and "s3 = pump_event ser env' (or_next s) (hangup_event m cause) s2"
  shows "(trace (or_next s) s3 =
      [Sent (DialAck (dc_call_id dial) True []), TaskStarted AtPump,
       Sent (CallConnected (dc_call_id dial)), CpcmregEnabled]
      @ (if records env s then [RecordBegun] else []) @ [BridgeBuilt, BridgeJoined] @ map TaskStarted (audio_tasks env)
      @ [Sent (CallHangup (dc_call_id dial) (proto_of (Some cause)) cause)] @ map TaskCancelled (audio_tasks env)
      @ [BridgeLeft] @ (if records env s then [RecordFinalized, RecordPruned] else [])
      @ [CpcmregDisabled, RingClosed, RingClosed])
    \<and> (or_calls s3 = or_calls s)
    \<and> (or_pumps s3 = [])"
proof -
  let ?r = "or_next s"
  obtain t1 where t1: "on_dial ser env0 dial s = (Inr (), t1)" "online t1" "or_ctxs t1 ?r = accepted_ctx dial m"
    "trace ?r t1 = [Sent (DialAck (dc_call_id dial) True []), TaskStarted AtPump]"
    "or_calls t1 = or_calls s @ [(dc_call_id dial, ?r)]" "or_pumps t1 = [?r]"
    "or_recorder t1 = or_recorder s" "or_max t1 = or_max s" "or_ring_capacity t1 = or_ring_capacity s"
    using dial_state [OF assms(1-6)] by blast
  have s1: "s1 = t1" using t1(1) assms(12) by simp
  have recs: "records env t1 = records env s" by (simp add: records_def t1)
  obtain t2 ring where t2: "handle_connected ser env ?r t1 = (Inr (), t2)" "online t2" "\<not> rb_closed ring"
    "trace ?r t2 = trace ?r t1 @ [Sent (CallConnected (dc_call_id dial)), CpcmregEnabled]
        @ (if records env s then [RecordBegun] else []) @ [BridgeBuilt, BridgeJoined] @ map TaskStarted (audio_tasks env)"
    "or_ctxs t2 ?r = (accepted_ctx dial m)\<lparr>cx_cpcmreg := True, cx_recorder := records env s,
        cx_upstream := Some ring, cx_downstream := Some ring, cx_bridge := Some True,
        cx_tasks := AtPump # audio_tasks env\<rparr>"
    "or_calls t2 = or_calls t1" "or_pumps t2 = or_pumps t1"
    using connected_ok [OF t1(2,3) assms(7-10)] t1(9) assms(11) unfolding recs by metis
  have s2: "s2 = t2" using t2(1) t1(6) assms(13) s1 by (simp add: pump_event_def)
  have alive: "\<not> cx_terminated (or_ctxs t2 ?r)" and id: "cx_call_id (or_ctxs t2 ?r) = dc_call_id dial"
    by (simp_all add: t2(5) accepted_ctx_def)
  let ?m = "CallHangup (dc_call_id dial) (proto_of (Some cause)) cause"
  obtain g where g: "handle_remote_hangup ser env' (Some AtPump) ?r (Some cause) t2 = (Inr (),
    teardown env' (Some AtPump) ?r (pop_call (dc_call_id dial) (log (Some ?r) (Sent ?m)
        (upd_ctx ?r (\<lambda>c. c\<lparr>cx_terminated := True\<rparr>) t2\<lparr>or_grpc := g\<rparr>))))"
    using hangup_online [OF t2(2) alive, of ser env' "Some AtPump" "Some cause"] unfolding id by auto
  let ?t3 = "teardown env' (Some AtPump) ?r (pop_call (dc_call_id dial) (log (Some ?r) (Sent ?m)
        (upd_ctx ?r (\<lambda>c. c\<lparr>cx_terminated := True\<rparr>) t2\<lparr>or_grpc := g\<rparr>)))"
  have calls3: "or_calls ?t3 = or_calls s" by (simp add: t2(6) t1(5) delete_absent [OF assms(3)])
  have id3: "cx_call_id (or_ctxs ?t3 ?r) = dc_call_id dial" by (simp add: torn_down_def id)
  have "s3 = pump_finally env' ?r ?t3"
    using assms(14) s2 g t2(7) t1(6) by (simp add: pump_event_def)
  then have s3: "s3 = ?t3\<lparr>or_pumps := removeAll ?r (or_pumps ?t3)\<rparr>"
    using assms(3) calls3 id3 by (simp add: pump_finally_def Let_def del: teardown_simps)
  have ops: "open_ring (Some ring)" using t2(3) by (simp add: open_ring_def ring_is_closed_def)
  have tasks: "filter (\<lambda>t. Some t \<noteq> Some AtPump) (AtPump # audio_tasks env) = audio_tasks env"
    by (simp add: audio_tasks_def)
  have eff: "teardown_effects (Some AtPump) ((or_ctxs t2 ?r)\<lparr>cx_terminated := True\<rparr>)
    = map TaskCancelled (audio_tasks env) @ [BridgeLeft] @ (if records env s then [RecordFinalized, RecordPruned] else [])
      @ [CpcmregDisabled, RingClosed, RingClosed]"
    unfolding t2(5) teardown_effects_def using ops tasks by (simp add: accepted_ctx_def)
  moreover have "trace ?r s3 =
      [Sent (DialAck (dc_call_id dial) True []), TaskStarted AtPump,
       Sent (CallConnected (dc_call_id dial)), CpcmregEnabled]
      @ (if records env s then [RecordBegun] else []) @ [BridgeBuilt, BridgeJoined] @ map TaskStarted (audio_tasks env)
      @ [Sent (CallHangup (dc_call_id dial) (proto_of (Some cause)) cause)] @ map TaskCancelled (audio_tasks env)
      @ [BridgeLeft] @ (if records env s then [RecordFinalized, RecordPruned] else [])
      @ [CpcmregDisabled, RingClosed, RingClosed]"
    by (simp add: s3 eff t2(4) t1(4))
  moreover have "or_calls s3 = or_calls s" using calls3 by (simp add: s3)
  moreover have "or_pumps s3 = []" by (simp add: s3 t2(7) t1(6))
  ultimately show ?thesis by blast
qed


lemma pump_finally_unregistered:
  "cx_call_id (or_ctxs s r) \<notin> fst ` set (or_calls s) \<Longrightarrow> pump_finally env r s = s\<lparr>or_pumps := removeAll r (or_pumps s)\<rparr>"
  by (simp add: pump_finally_def Let_def)

lemma pump_finally_registered:
  "cx_call_id (or_ctxs s r) \<in> fst ` set (or_calls s) \<Longrightarrow> pump_finally env r s =
    teardown env (Some AtPump) r (pop_call (cx_call_id (or_ctxs s r)) (s\<lparr>or_pumps := removeAll r (or_pumps s)\<rparr>))"
  by (simp add: pump_finally_def Let_def)

lemma trace_pumps: "trace r (s\<lparr>or_pumps := ps\<rparr>) = trace r s"
  by (simp add: trace_def)

lemma accepted_simps [simp]:
  "cx_call_id (accepted_ctx dial m) = dc_call_id dial" "cx_terminated (accepted_ctx dial m) = False"
  "cx_modem (accepted_ctx dial m) = ModemCall m"
  "teardown_effects (Some AtPump) (accepted_ctx dial m) = []"
  "teardown_effects (Some AtPump) ((accepted_ctx dial m)\<lparr>cx_terminated := b\<rparr>) = []"
  by (simp_all add: accepted_ctx_def new_ctx_def teardown_effects_def open_ring_def)

text \<open>\<open>connected\<close> with a PCM switch that fails, the cloud connected: up to the hang-up of the modem.\<close>

lemma pcm_failure_online:
  assumes "online t" and "or_ctxs t r = accepted_ctx dial m" and "ev_cpcmreg env = Inl (PcmEnableError detail)"
  shows "\<exists>u. handle_connected ser env r t = suppress (at_hangup env r) u
    \<and> trace r u = trace r t @ [Sent (CallConnected (dc_call_id dial)), Sent (HardwareAlert PCM_ENABLE_FAILED_STAGE detail),
        Sent (CallHangup (dc_call_id dial) PC_NETWORK_OUT_OF_ORDER ''network_out_of_order'')]
    \<and> or_calls u = AList.delete (dc_call_id dial) (or_calls t) \<and> or_pumps u = or_pumps t
    \<and> cx_call_id (or_ctxs u r) = dc_call_id dial \<and> cx_modem (or_ctxs u r) = ModemCall m"
proof -
  let ?id = "dc_call_id dial"
  obtain g1 where g1: "emit ser (Some r) False (CallConnected ?id) t
      = (Inr (), log (Some r) (Sent (CallConnected ?id)) (t\<lparr>or_grpc := g1\<rparr>))" "cl_connected g1"
    using emit_online [OF assms(1), of ser "Some r" False "CallConnected ?id"] by auto
  let ?a = "log (Some r) (Sent (CallConnected ?id)) (t\<lparr>or_grpc := g1\<rparr>)"
  let ?alert = "HardwareAlert PCM_ENABLE_FAILED_STAGE detail"
  obtain g2 where g2: "emit ser (Some r) True ?alert ?a = (Inr (), log (Some r) (Sent ?alert) (?a\<lparr>or_grpc := g2\<rparr>))"
      "cl_connected g2"
    using emit_online [of ?a ser "Some r" True ?alert] g1(2) by auto
  let ?b = "log (Some r) (Sent ?alert) (?a\<lparr>or_grpc := g2\<rparr>)"
  let ?m = "CallHangup ?id (proto_of (Some ''network_out_of_order'')) ''network_out_of_order''"
  have "online ?b" "\<not> cx_terminated (or_ctxs ?b r)" "cx_call_id (or_ctxs ?b r) = ?id"
    using g2(2) assms(2) by simp_all
  then obtain g3 where g3: "handle_remote_hangup ser env (Some AtPump) r (Some ''network_out_of_order'') ?b = (Inr (),
    teardown env (Some AtPump) r (pop_call ?id (log (Some r) (Sent ?m)
      (upd_ctx r (\<lambda>c. c\<lparr>cx_terminated := True\<rparr>) ?b\<lparr>or_grpc := g3\<rparr>))))"
    using hangup_online [of ?b r ser env "Some AtPump" "Some ''network_out_of_order''"] by auto
  let ?u = "teardown env (Some AtPump) r (pop_call ?id (log (Some r) (Sent ?m)
      (upd_ctx r (\<lambda>c. c\<lparr>cx_terminated := True\<rparr>) ?b\<lparr>or_grpc := g3\<rparr>)))"
  have "handle_connected ser env r t = suppress (at_hangup env r) ?u"
    using g1(1) g2(1) g3 assms
    by (simp add: handle_connected_def send_call_event_connected_def send_hardware_alert_def seqm_def bindm_def)
  moreover have "proto_of (Some ''network_out_of_order'') = PC_NETWORK_OUT_OF_ORDER" by code_simp
  ultimately show ?thesis
    by (intro exI [of _ ?u]) (simp add: assms(2) torn_down_def)
qed

lemma pcm_failure_trace:
  assumes "online t" and "or_ctxs t r = accepted_ctx dial m" and "ev_cpcmreg env = Inl (PcmEnableError detail)"
    and "dc_call_id dial \<notin> fst ` set (AList.delete (dc_call_id dial) (or_calls t))" and "or_pumps t = [r]"
  shows "trace r (pump_event ser env r (connected_event m) t) = trace r t
    @ [Sent (CallConnected (dc_call_id dial)), Sent (HardwareAlert PCM_ENABLE_FAILED_STAGE detail),
       Sent (CallHangup (dc_call_id dial) PC_NETWORK_OUT_OF_ORDER ''network_out_of_order''), AtHangup (ModemCall m)]"
proof -
  obtain u where u: "handle_connected ser env r t = suppress (at_hangup env r) u"
    "trace r u = trace r t @ [Sent (CallConnected (dc_call_id dial)), Sent (HardwareAlert PCM_ENABLE_FAILED_STAGE detail),
        Sent (CallHangup (dc_call_id dial) PC_NETWORK_OUT_OF_ORDER ''network_out_of_order'')]"
    "or_calls u = AList.delete (dc_call_id dial) (or_calls t)" "or_pumps u = or_pumps t"
    "cx_call_id (or_ctxs u r) = dc_call_id dial" "cx_modem (or_ctxs u r) = ModemCall m"
    using pcm_failure_online [OF assms(1-3)] by blast
  obtain res v where v: "suppress (at_hangup env r) u = (res, v)" by (cases "suppress (at_hangup env r) u")
  have h: "or_calls v = or_calls u" "or_ctxs v = or_ctxs u" "trace r v = trace r u @ [AtHangup (ModemCall m)]"
    using at_hangup_step [of r u env] by (simp_all add: v quiet_def u(6))
  have "pump_finally env r v = v\<lparr>or_pumps := removeAll r (or_pumps v)\<rparr>"
    using assms(4) by (intro pump_finally_unregistered) (simp add: h u)
  then show ?thesis
    using h(3) u(2) by (cases res) (simp_all add: pump_event_def assms(5) u(1) v trace_pumps)
qed

text \<open>The same while the cloud is disconnected: the critical alert raises.\<close>

lemma pcm_failure_offline:
  assumes "\<not> cl_connected (or_grpc t)" and "cl_backend (or_grpc t) = Memory n xs"
    and "or_ctxs t r = accepted_ctx dial m" and "ev_cpcmreg env = Inl (PcmEnableError detail)"
    and "or_pumps t = [r]" and "dc_call_id dial \<in> fst ` set (or_calls t)"
  shows "trace r (pump_event ser env r (connected_event m) t) = trace r t @ [Sent (CallConnected (dc_call_id dial))]
    \<and> or_calls (pump_event ser env r (connected_event m) t) = AList.delete (dc_call_id dial) (or_calls t)
    \<and> or_pumps (pump_event ser env r (connected_event m) t) = []"
proof -
  let ?id = "dc_call_id dial"
  obtain b where b: "backend_append ser (CallConnected ?id) (cl_backend (or_grpc t)) = (Inr (), b)"
    using assms(2) by (simp add: ret_def)
  let ?a = "log (Some r) (Sent (CallConnected ?id)) (t\<lparr>or_grpc := (or_grpc t)\<lparr>cl_backend := b\<rparr>\<rparr>)"
  have "emit ser (Some r) False (CallConnected ?id) t = (Inr (), ?a)"
    using assms(1) b by (simp add: emit_def client_send_def)
  moreover have "emit ser (Some r) True (HardwareAlert PCM_ENABLE_FAILED_STAGE detail) ?a = (Inl EdgeNotConnected, ?a)"
    using assms(1) by (simp add: emit_def client_send_def raise_def log_def)
  ultimately have run: "handle_connected ser env r t = (Inl EdgeNotConnected, ?a)"
    using assms(3,4)
    by (simp add: handle_connected_def send_call_event_connected_def send_hardware_alert_def seqm_def bindm_def)
  have "pump_finally env r ?a = teardown env (Some AtPump) r (pop_call ?id (?a\<lparr>or_pumps := []\<rparr>))"
    using pump_finally_registered [of ?a r env] assms(3,5,6) by simp
  then show ?thesis
    using assms(3,5) run by (simp add: pump_event_def trace_pumps)
qed


text \<open>C4. The PCM switch fails on \<open>connected\<close>. With the cloud connected the call ends in order: alert, hang-up
  report, then the modem is hung up. While the cloud is disconnected the critical alert raises, which
  skips the rest of the handler: the call leaves the table and is torn down, but the cloud is never sent
  its hang-up and the modem line is not hung up.\<close>

theorem pcm_enable_failure:
  assumes "orch_reach ser s dl" and "online s" and "dc_call_id dial \<notin> fst ` set (or_calls s)" and "\<not> or_dev s"
    and "or_pumps s = []" and "ev_dial env0 = Inr m" and "ev_cpcmreg env = Inl (PcmEnableError detail)"
    and "s1 = snd (on_dial ser env0 dial s)"
    and "off = s1\<lparr>or_grpc := g\<rparr>" and "\<not> cl_connected g" and "cl_backend g = Memory n xs"
  shows "(trace (or_next s) (pump_event ser env (or_next s) (connected_event m) s1)
      = [Sent (DialAck (dc_call_id dial) True []), TaskStarted AtPump, Sent (CallConnected (dc_call_id dial)),
         Sent (HardwareAlert PCM_ENABLE_FAILED_STAGE detail),
         Sent (CallHangup (dc_call_id dial) PC_NETWORK_OUT_OF_ORDER ''network_out_of_order''), AtHangup (ModemCall m)])
    \<and> (trace (or_next s) (pump_event ser env (or_next s) (connected_event m) off)
      = [Sent (DialAck (dc_call_id dial) True []), TaskStarted AtPump, Sent (CallConnected (dc_call_id dial))])
    \<and> (or_calls (pump_event ser env (or_next s) (connected_event m) off) = or_calls s)
    \<and> (or_pumps (pump_event ser env (or_next s) (connected_event m) off) = [])"
proof -
  let ?r = "or_next s" and ?id = "dc_call_id dial"
  obtain t where t: "on_dial ser env0 dial s = (Inr (), t)" "online t" "or_ctxs t ?r = accepted_ctx dial m"
    "trace ?r t = [Sent (DialAck ?id True []), TaskStarted AtPump]"
    "or_calls t = or_calls s @ [(?id, ?r)]" "or_pumps t = [?r]"
    using dial_state [OF assms(1-6)] by blast
  have s1: "s1 = t" using t(1) assms(8) by simp
  have del: "AList.delete ?id (or_calls t) = or_calls s" by (simp add: t(5) delete_absent [OF assms(3)])
  have "trace ?r (pump_event ser env ?r (connected_event m) s1)
      = [Sent (DialAck ?id True []), TaskStarted AtPump, Sent (CallConnected ?id),
         Sent (HardwareAlert PCM_ENABLE_FAILED_STAGE detail),
         Sent (CallHangup ?id PC_NETWORK_OUT_OF_ORDER ''network_out_of_order''), AtHangup (ModemCall m)]"
    using pcm_failure_trace [OF t(2,3) assms(7) _ t(6), of ser] assms(3) by (simp add: del s1 t(4))
  moreover have off: "\<not> cl_connected (or_grpc off)" "cl_backend (or_grpc off) = Memory n xs" "or_ctxs off ?r = accepted_ctx dial m"
    "or_pumps off = [?r]" "?id \<in> fst ` set (or_calls off)" "or_calls off = or_calls t" "trace ?r off = trace ?r t"
    by (simp_all add: assms(9-11) s1 t trace_def)
  moreover have "trace ?r (pump_event ser env ?r (connected_event m) off)
      = [Sent (DialAck ?id True []), TaskStarted AtPump, Sent (CallConnected ?id)]"
    and "or_calls (pump_event ser env ?r (connected_event m) off) = or_calls s"
    and "or_pumps (pump_event ser env ?r (connected_event m) off) = []"
    using pcm_failure_offline [OF off(1-3) assms(7) off(4,5), of ser] by (simp_all add: off(6,7) t(4) del)
  ultimately show ?thesis by blast
qed


section \<open>Runs at concrete inputs\<close>

definition up_client :: "(edge_msg, nat) client" where
  "up_client = \<lparr>cl_connected = True, cl_stop = False, cl_task = True, cl_channel = True, cl_outbound = [],
     cl_backend = Memory 4 []\<rparr>"

definition ser_ex :: "edge_msg \<Rightarrow> nat" where "ser_ex m = 0"

definition env_ex :: edge_env where
  "env_ex = \<lparr>ev_dial = Inr 7, ev_cpcmreg = Inr (), ev_factory = Inr (), ev_join = Inr (), ev_hangup = Inr (),
     ev_free = 2 ^ 31, ev_write_fails = False, ev_now = 5, ev_locked = (\<lambda>_. False), ev_windows = True, ev_no_mic = False\<rparr>"

definition dial_ex :: dial_command where
  "dial_ex = \<lparr>dc_call_id = ''c1'', dc_number = ''13800000000'', dc_channel = ''ch'', dc_uid_edge = ''e1'',
     dc_uid_engine = ''g1''\<rparr>"

definition orch_ex :: "nat orch" where
  "orch_ex = projr (orch_init up_client True False 100 (Some (recorder_init 1 [])) 3)"

definition dialled_ex :: "nat orch" where "dialled_ex = snd (on_dial ser_ex env_ex dial_ex orch_ex)"
definition answered_ex :: "nat orch" where "answered_ex = pump_event ser_ex env_ex 0 (connected_event 7) dialled_ex"
definition ended_ex :: "nat orch" where "ended_ex = pump_event ser_ex env_ex 0 (hangup_event 7 ''no_answer'') answered_ex"

lemma reach_ex: "orch_reach ser_ex orch_ex (\<lambda>_. [])"
proof (rule reach_init)
  show "orch_init up_client True False 100 (Some (recorder_init 1 [])) 3 = Inr orch_ex"
    by (simp add: orch_ex_def orch_init_def)
qed

lemma reach_dialled_ex: "orch_reach ser_ex dialled_ex (\<lambda>_. [])"
proof -
  have "or_pumps orch_ex = []" by code_simp
  then show ?thesis
    using reach_cloud [OF reach_ex, of env_ex "CloudDial dial_ex"] by (simp add: dialled_ex_def on_cloud_message_def)
qed

lemma example_inputs:
  "online orch_ex" "dc_call_id dial_ex \<notin> fst ` set (or_calls orch_ex)" "\<not> or_dev orch_ex" "or_pumps orch_ex = []"
  "ev_dial env_ex = Inr 7" "ev_cpcmreg env_ex = Inr ()" "ev_factory env_ex = Inr ()" "ev_join env_ex = Inr ()"
  "dc_uid_engine dial_ex \<noteq> []" "0 < or_ring_capacity orch_ex" "or_next orch_ex = 0" "dc_call_id dial_ex = ''c1''"
  "or_calls orch_ex = []" "or_log orch_ex = []" "audio_tasks env_ex = [DuplexPump]"
  "proto_of (Some ''no_answer'') = PC_NO_ANSWER" "dc_number dial_ex = ''13800000000''"
  by code_simp+

lemma dialled_state:
  "online dialled_ex" "or_ctxs dialled_ex 0 = accepted_ctx dial_ex 7" "or_calls dialled_ex = [(''c1'', 0)]"
  "or_pumps dialled_ex = [0]" "0 < or_ring_capacity dialled_ex"
  using dial_state [OF reach_ex example_inputs(1-5)] example_inputs(10-14) by (auto simp: dialled_ex_def)

lemma answered_state:
  "online answered_ex" "or_calls answered_ex = [(''c1'', 0)]" "or_pumps answered_ex = [0]"
  "cx_call_id (or_ctxs answered_ex 0) = ''c1''" "\<not> cx_terminated (or_ctxs answered_ex 0)"
  "BridgeBuilt \<in> set (trace 0 answered_ex)"
  using connected_ok [OF dialled_state(1,2) example_inputs(6-9) dialled_state(5), where ser = ser_ex] dialled_state(3,4) example_inputs(12)
  by (auto simp: answered_ex_def pump_event_def)

lemma ended_state:
  "or_calls ended_ex = []" "BridgeBuilt \<in> set (trace 0 ended_ex)"
  using hangup_online [OF answered_state(1,5), of ser_ex env_ex "Some AtPump" "Some ''no_answer''"] answered_state(2-4,6)
  by (auto simp: ended_ex_def pump_event_def pump_finally_unregistered trace_pumps torn_down_def)

lemma reach_answered_ex: "orch_reach ser_ex answered_ex ((\<lambda>_. [])(0 := [connected_event 7]))"
proof -
  have "well_formed_call [connected_event 7]" by code_simp
  then show ?thesis
    using reach_event [OF reach_dialled_ex, of 0 "connected_event 7" env_ex] dialled_state(4) by (simp add: answered_ex_def)
qed

lemma reach_ended_ex: "orch_reach ser_ex ended_ex ((\<lambda>_. [])(0 := [connected_event 7, hangup_event 7 ''no_answer'']))"
proof -
  have "well_formed_call [connected_event 7, hangup_event 7 ''no_answer'']" by code_simp
  then show ?thesis
    using reach_event [OF reach_answered_ex, of 0 "hangup_event 7 ''no_answer''" env_ex] answered_state(3)
    by (simp add: ended_ex_def)
qed

lemma call_events_sent_once_witness:
  "kinds (trace 0 ended_ex) \<in> {[], [CONNECTED], [REMOTE_HANGUP], [CONNECTED, REMOTE_HANGUP]}
   \<and> REMOTE_HANGUP \<notin> set (kinds (trace 0 answered_ex))"
proof -
  show ?thesis
    using call_events_sent_once [OF reach_ended_ex, of 0] call_events_sent_once [OF reach_answered_ex, of 0]
      answered_state(5) by blast
qed

lemma ended_call_holds_nothing_witness:
  "released (or_ctxs ended_ex 0) \<and> count_list (trace 0 ended_ex) BridgeLeft = count_list (trace 0 ended_ex) BridgeBuilt
   \<and> BridgeBuilt \<in> set (trace 0 ended_ex)"
proof -
  have "0 \<notin> snd ` set (or_calls ended_ex)" by (simp add: ended_state(1))
  then show ?thesis using ended_call_holds_nothing [OF reach_ended_ex] ended_state(2) by blast
qed

lemma repeated_dial_only_acknowledged_witness:
  "or_calls (snd (on_dial ser_ex env_ex dial_ex dialled_ex)) = [(''c1'', 0)]
   \<and> or_log (snd (on_dial ser_ex (env_ex\<lparr>ev_dial := Inl BusyDeviceError\<rparr>) dial_ex orch_ex))
     = [(None, AtDial ''13800000000''), (None, Sent (DialAck ''c1'' False ''at_dial: BusyDeviceError''))]"
proof -
  obtain res s' where s': "on_dial ser_ex env_ex dial_ex dialled_ex = (res, s')" by (cases "on_dial ser_ex env_ex dial_ex dialled_ex")
  let ?e = "env_ex\<lparr>ev_dial := Inl BusyDeviceError\<rparr>"
  obtain res' t where t: "on_dial ser_ex ?e dial_ex orch_ex = (res', t)" by (cases "on_dial ser_ex ?e dial_ex orch_ex")
  have "or_calls s' = [(''c1'', 0)]"
    using repeated_dial_only_acknowledged [OF reach_dialled_ex, where dial = dial_ex and env = env_ex and r = 0 and res = res and s' = s'] s'
    by (simp add: dialled_state(3) example_inputs(12))
  moreover have "res' = Inr ()"
    using t example_inputs(1,2,3)
    by (auto simp: on_dial_def Let_def send_dial_ack_def emit_def client_send_def online_def log_def ret_def is_exception_def
        split: if_splits)
  moreover have "class_name BusyDeviceError = ''BusyDeviceError''" by code_simp
  ultimately show ?thesis
    using repeated_dial_only_acknowledged [OF reach_ex, where dial = dial_ex and env = ?e and e = BusyDeviceError and res = res' and s' = t] t s'
      example_inputs(2,3,12,14,17)
    by simp
qed

lemma answered_call_lifecycle_witness:
  "trace 0 ended_ex = [Sent (DialAck ''c1'' True []), TaskStarted AtPump, Sent (CallConnected ''c1''), CpcmregEnabled,
     RecordBegun, BridgeBuilt, BridgeJoined, TaskStarted DuplexPump,
     Sent (CallHangup ''c1'' PC_NO_ANSWER ''no_answer''), TaskCancelled DuplexPump, BridgeLeft,
     RecordFinalized, RecordPruned, CpcmregDisabled, RingClosed, RingClosed]"
proof -
  have "records env_ex orch_ex"
    by (simp add: records_def orch_ex_def orch_init_def recorder_init_def env_ex_def)
  then show ?thesis
    using answered_call_lifecycle [OF reach_ex example_inputs(1-10), of dialled_ex answered_ex ended_ex env_ex "''no_answer''"]
      example_inputs(11-16)
    by (simp add: dialled_ex_def answered_ex_def ended_ex_def)
qed

lemma pcm_enable_failure_witness:
  "trace 0 (pump_event ser_ex (env_ex\<lparr>ev_cpcmreg := Inl (PcmEnableError ''denied'')\<rparr>) 0 (connected_event 7)
     (dialled_ex\<lparr>or_grpc := up_client\<lparr>cl_connected := False\<rparr>\<rparr>))
   = [Sent (DialAck ''c1'' True []), TaskStarted AtPump, Sent (CallConnected ''c1'')]"
proof -
  let ?e = "env_ex\<lparr>ev_cpcmreg := Inl (PcmEnableError ''denied'')\<rparr>" and ?g = "up_client\<lparr>cl_connected := False\<rparr>"
  have "ev_cpcmreg ?e = Inl (PcmEnableError ''denied'')" "dialled_ex = snd (on_dial ser_ex env_ex dial_ex orch_ex)"
    "\<not> cl_connected ?g" "cl_backend ?g = Memory 4 []"
    by (simp_all add: dialled_ex_def up_client_def)
  note this (1,2) refl [of "dialled_ex\<lparr>or_grpc := ?g\<rparr>"] this (3,4)
  from pcm_enable_failure [OF reach_ex example_inputs(1-5) this] example_inputs(11,12) show ?thesis by simp
qed

end
