(* ===== verification/At_Probe.thy ===== *)
theory At_Probe imports Prelude begin

text \<open>
  \<open>modem_controller/at_probe.py\<close>: deciding whether a serial port is the AT channel of a modem and reading the
  modem's identity. An opened port answers each command with the raw lines that arrive before its deadline,
  or an I/O error; lines behind the terminator stay unread in the stream and are seen by the next command.
  Opening a port, the clock and the search for the audio port are inputs.
\<close>

section \<open>The rate limiter\<close>

record prober =
  pr_interval :: int
  pr_last :: "string \<Rightarrow> int option"

definition prober_init :: "int \<Rightarrow> pyexn + prober" where
  "prober_init interval = (if interval < 0 then Inl (ValueError ''interval_seconds must be non-negative'')
     else Inr \<lparr>pr_interval = interval, pr_last = (\<lambda>_. None)\<rparr>)"

definition allow :: "int \<Rightarrow> string \<Rightarrow> prober \<Rightarrow> bool" where
  "allow now node p \<longleftrightarrow> (case pr_last p node of None \<Rightarrow> True | Some t \<Rightarrow> pr_interval p \<le> now - t)"

definition record_probe :: "int \<Rightarrow> string \<Rightarrow> prober \<Rightarrow> prober" where
  "record_probe now node p = p\<lparr>pr_last := (pr_last p)(node \<mapsto> now)\<rparr>"

definition forget :: "string \<Rightarrow> prober \<Rightarrow> prober" where
  "forget node p = p\<lparr>pr_last := (pr_last p)(node := None)\<rparr>"


section \<open>One command\<close>

record port_link =
  lk_unread :: "string list"
  lk_answers :: "(pyexn + string list) list"
  lk_written :: "string list"

definition crlf :: "char \<Rightarrow> bool" where "crlf c \<longleftrightarrow> c = CHR 13 \<or> c = CHR 10"

text \<open>The read loop; an empty raw line is the end of file.\<close>

fun collect :: "string \<Rightarrow> string list \<Rightarrow> string list \<Rightarrow> (bool \<times> string list \<times> string option) \<times> string list" where
  "collect cmd payload [] = ((False, payload, None), [])"
| "collect cmd payload (raw # raws) =
     (if raw = [] then ((False, payload, None), raws)
      else let line = strip (strip_by crlf raw) in
        if line = [] then collect cmd payload raws
        else if line = cmd \<and> payload = [] then collect cmd payload raws
        else if line = ''OK'' then ((True, payload, None), raws)
        else if line = ''ERROR'' then ((False, payload, Some ''ERROR''), raws)
        else if startswith ''+CME ERROR'' line \<or> startswith ''+CMS ERROR'' line then ((False, payload, Some line), raws)
        else collect cmd (payload @ [line]) raws)"

definition send_and_collect :: "string \<Rightarrow> (port_link, bool \<times> string list \<times> string option) proc" where
  "send_and_collect cmd lk =
     (let lk1 = lk\<lparr>lk_written := lk_written lk @ [cmd @ [CHR 13, CHR 10]], lk_answers := tl (lk_answers lk)\<rparr>;
          answer = (case lk_answers lk of [] \<Rightarrow> Inr [] | a # _ \<Rightarrow> a)
      in case answer of
          Inl e \<Rightarrow> raise e lk1
        | Inr arrived \<Rightarrow> (case collect (strip cmd) [] (lk_unread lk @ arrived) of
            (res, unread) \<Rightarrow> ret res (lk1\<lparr>lk_unread := unread\<rparr>)))"

text \<open>\<open>OSError\<close> and \<open>IncompleteReadError\<close> of a command become the stage's failure; others pass.\<close>

definition io_error :: "pyexn \<Rightarrow> bool" where
  "io_error e \<longleftrightarrow> (case e of OSError _ \<Rightarrow> True | OtherError c \<Rightarrow> c = ''IncompleteReadError'' | _ \<Rightarrow> False)"

definition error_text :: "pyexn \<Rightarrow> string" where
  "error_text e = (case e of OSError m \<Rightarrow> m | OtherError c \<Rightarrow> c | _ \<Rightarrow> class_name e)"

definition identity_value :: "string \<Rightarrow> string list \<Rightarrow> pyexn + string" where
  "identity_value stage payload =
     (let cleaned = filter (\<lambda>l. l \<noteq> []) (map strip payload) in
      if cleaned = [] then Inl (ModemInitFailed stage ''empty_response'')
      else let value = join_with '' '' cleaned; pre = ''+'' @ stage @ '':'' in
        Inr (if startswith pre value then strip (drop (length pre) value) else value))"

definition run_identity_command :: "string \<Rightarrow> string \<Rightarrow> (port_link, string) proc" where
  "run_identity_command cmd stage =
     bindm (catchm (send_and_collect cmd)
        (\<lambda>e. if io_error e then Some (raise (ModemInitFailed stage (''io_error: '' @ error_text e))) else None))
      (\<lambda>(good, payload, err). if \<not> good then raise (ModemInitFailed stage (case err of None \<Rightarrow> ''timeout'' | Some d \<Rightarrow> d))
         else (\<lambda>lk. (identity_value stage payload, lk)))"


section \<open>Identity\<close>

record modem_identity =
  mi_manufacturer :: string
  mi_model :: string
  mi_imei :: string
  mi_iccid :: string

text \<open>\<open>AT+CCID\<close> with its one retry as \<open>AT+ICCID\<close>, which a time-out does not get.\<close>

definition read_iccid :: "(port_link, string) proc" where
  "read_iccid = catchm (run_identity_command ''AT+CCID'' ''CCID'')
     (\<lambda>e. case e of ModemInitFailed _ detail \<Rightarrow> if startswith ''timeout'' detail then None
          else Some (catchm (run_identity_command ''AT+ICCID'' ''CCID'')
            (\<lambda>e2. case e2 of ModemInitFailed _ d2 \<Rightarrow>
                Some (raise (ModemInitFailed ''CCID'' (''AT+CCID='' @ detail @ ''; AT+ICCID='' @ d2)))
              | _ \<Rightarrow> None))
        | _ \<Rightarrow> None)"

definition read_modem_identity :: "pyexn + port_link \<Rightarrow> pyexn + modem_identity" where
  "read_modem_identity opened = (case opened of
       Inl e \<Rightarrow> Inl e
     | Inr lk \<Rightarrow> fst (bindm (run_identity_command ''AT+CGMI'' ''CGMI'') (\<lambda>manufacturer.
         bindm (run_identity_command ''AT+CGMM'' ''CGMM'') (\<lambda>model.
         bindm (run_identity_command ''AT+CGSN'' ''CGSN'') (\<lambda>imei.
         bindm read_iccid (\<lambda>iccid.
         ret \<lparr>mi_manufacturer = manufacturer, mi_model = model, mi_imei = imei, mi_iccid = iccid\<rparr>)))) lk))"

definition probe_at_channel :: "pyexn + port_link \<Rightarrow> pyexn + bool" where
  "probe_at_channel opened = (case opened of
       Inl e \<Rightarrow> if e = Cancelled then Inl Cancelled else Inr False
     | Inr lk \<Rightarrow> (case send_and_collect ''AT'' lk of
         (Inl e, _) \<Rightarrow> if e = Cancelled then Inl Cancelled else Inr False
       | (Inr (good, _, _), _) \<Rightarrow> Inr good))"


section \<open>The coordinator\<close>

record identify_result =
  ir_is_at :: bool
  ir_identity :: "modem_identity option"
  ir_init_failure :: "(string \<times> string) option"
  ir_skipped :: "string option"
  ir_audio :: "string option"

definition skipped :: "string \<Rightarrow> identify_result" where
  "skipped reason = \<lparr>ir_is_at = False, ir_identity = None, ir_init_failure = None, ir_skipped = Some reason, ir_audio = None\<rparr>"

definition init_failed :: "string \<Rightarrow> string \<Rightarrow> identify_result" where
  "init_failed stage detail = \<lparr>ir_is_at = True, ir_identity = None, ir_init_failure = Some (stage, detail),
     ir_skipped = None, ir_audio = None\<rparr>"

definition find_audio :: "(pyexn + string option) option \<Rightarrow> string option" where
  "find_audio finder = (case finder of Some (Inr path) \<Rightarrow> path | _ \<Rightarrow> None)"

definition identify_rest :: "pyexn + port_link \<Rightarrow> (pyexn + string option) option \<Rightarrow> pyexn + identify_result" where
  "identify_rest opened finder = (case read_modem_identity opened of
       Inl e \<Rightarrow> (case e of ModemInitFailed stage detail \<Rightarrow> Inr (init_failed stage detail)
                | Cancelled \<Rightarrow> Inl Cancelled
                | _ \<Rightarrow> Inr (init_failed ''open'' (''io_error: '' @ error_text e)))
     | Inr i \<Rightarrow> Inr \<lparr>ir_is_at = True, ir_identity = Some i, ir_init_failure = None, ir_skipped = None,
         ir_audio = find_audio finder\<rparr>)"

definition known :: "(string \<times> string) list \<Rightarrow> string option \<Rightarrow> string option \<Rightarrow> bool" where
  "known whitelist vid pid \<longleftrightarrow> (case (vid, pid) of
       (Some v, Some p) \<Rightarrow> v \<noteq> [] \<and> p \<noteq> [] \<and> (lower v, lower p) \<in> set whitelist | _ \<Rightarrow> False)"

definition identify_modem_channel :: "(string \<times> string) list \<Rightarrow> int \<Rightarrow> string \<Rightarrow> string option \<Rightarrow> string option \<Rightarrow>
    pyexn + port_link \<Rightarrow> pyexn + port_link \<Rightarrow> (pyexn + string option) option \<Rightarrow> (prober, identify_result) proc" where
  "identify_modem_channel whitelist now node vid pid probe_open identity_open finder p =
     (if known whitelist vid pid then (identify_rest identity_open finder, p)
      else if \<not> allow now node p then ret (skipped ''rate_limited'') p
      else let p1 = record_probe now node p in
        case probe_at_channel probe_open of
          Inl e \<Rightarrow> raise e p1
        | Inr is_at \<Rightarrow> if \<not> is_at then ret (skipped ''probe_no_ok'') p1 else (identify_rest identity_open finder, p1))"


section \<open>What identification returns\<close>

text \<open>C23. Identification answers with exactly one of identity, failure and reason for skipping, and raises nothing but
  a cancellation. A known modem is never skipped and never probed; \<open>probe_io_error\<close> is never the reason,
  though the result type lists it: a port that cannot be opened counts as one that did not answer.\<close>

theorem identify_outcomes:
  "case identify_modem_channel whitelist now node vid pid probe_open identity_open finder p of
     (Inl e, _) \<Rightarrow> e = Cancelled
   | (Inr r, p') \<Rightarrow> length (filter id [ir_identity r \<noteq> None, ir_init_failure r \<noteq> None, ir_skipped r \<noteq> None]) = 1
       \<and> (ir_is_at r = (ir_skipped r = None))
       \<and> (known whitelist vid pid \<longrightarrow> ir_skipped r = None \<and> p' = p)
       \<and> ir_skipped r \<in> {None, Some ''rate_limited'', Some ''probe_no_ok''}
       \<and> (probe_open = Inl (OSError m) \<and> \<not> known whitelist vid pid \<and> allow now node p \<longrightarrow> ir_skipped r = Some ''probe_no_ok'')"
proof -
  have rest: "case identify_rest identity_open finder of Inl e \<Rightarrow> e = Cancelled
     | Inr r \<Rightarrow> length (filter id [ir_identity r \<noteq> None, ir_init_failure r \<noteq> None, ir_skipped r \<noteq> None]) = 1
         \<and> ir_is_at r \<and> ir_skipped r = None"
    by (auto simp: identify_rest_def init_failed_def split: sum.splits pyexn.splits)
  have probe: "probe_at_channel probe_open = Inl e \<Longrightarrow> e = Cancelled" for e
    by (auto simp: probe_at_channel_def split: sum.splits if_splits prod.splits)
  have closed: "probe_at_channel (Inl (OSError m)) = Inr False" by (simp add: probe_at_channel_def)
  show ?thesis
    using rest probe closed unfolding identify_modem_channel_def Let_def
    by (auto simp: skipped_def raise_def ret_def split: sum.splits)
qed

corollary identify_outcomes_witness:
  "case identify_modem_channel [(''12d1'', ''1506'')] 30 ''COM7'' (Some ''0403'') None (Inl (OSError ''busy'')) (Inl (OSError ''busy''))
       None \<lparr>pr_interval = 60, pr_last = (\<lambda>_. None)\<rparr> of
     (Inl e, _) \<Rightarrow> False
   | (Inr r, p') \<Rightarrow> ir_skipped r = Some ''probe_no_ok''"
  using identify_outcomes [where whitelist = "[(''12d1'', ''1506'')]" and now = 30 and node = "''COM7''" and vid = "Some ''0403''"
      and pid = None and probe_open = "Inl (OSError ''busy'')" and identity_open = "Inl (OSError ''busy'')" and finder = None
      and p = "\<lparr>pr_interval = 60, pr_last = (\<lambda>_. None)\<rparr>" and m = "''busy''"]
  by (auto simp: known_def allow_def identify_modem_channel_def record_probe_def ret_def probe_at_channel_def)


section \<open>The rate limit\<close>

type_synonym visit =
  "int \<times> string \<times> string option \<times> string option \<times> (pyexn + port_link) \<times> (pyexn + port_link) \<times> (pyexn + string option) option"

text \<open>The probes a sequence of visits makes: the visits of unknown modems that were not turned away.\<close>

fun probe_times :: "(string \<times> string) list \<Rightarrow> prober \<Rightarrow> visit list \<Rightarrow> (string \<times> int) list" where
  "probe_times whitelist p [] = []"
| "probe_times whitelist p ((now, node, vid, pid, probe_open, identity_open, finder) # visits) =
     (case identify_modem_channel whitelist now node vid pid probe_open identity_open finder p of
        (r, p') \<Rightarrow> (if known whitelist vid pid \<or> r = Inr (skipped ''rate_limited'') then [] else [(node, now)])
          @ probe_times whitelist p' visits)"

lemma skipped_eq [simp]: "skipped a = skipped b \<longleftrightarrow> a = b" by (simp add: skipped_def)

lemma identify_rest_not_skipped: "identify_rest opened finder \<noteq> Inr (skipped reason)"
  by (auto simp: identify_rest_def skipped_def init_failed_def split: sum.splits pyexn.splits)

lemma identify_prober:
  "identify_modem_channel whitelist now node vid pid probe_open identity_open finder p = (r, p') \<Longrightarrow>
   p' = (if known whitelist vid pid \<or> r = Inr (skipped ''rate_limited'') then p else record_probe now node p)
   \<and> (known whitelist vid pid \<or> (r = Inr (skipped ''rate_limited'') \<longleftrightarrow> \<not> allow now node p))"
  by (auto simp: identify_modem_channel_def Let_def raise_def ret_def identify_rest_not_skipped split: if_splits sum.splits)

lemma probe_after_last:
  assumes "(n, t) \<in> set (probe_times whitelist p visits)" and "pr_last p n = Some l" and "0 \<le> pr_interval p"
  shows "l + pr_interval p \<le> t"
  using assms
proof (induction visits arbitrary: p l)
  case (Cons v visits)
  obtain now node vid pid po io f where v: "v = (now, node, vid, pid, po, io, f)" by (cases v)
  obtain r p' where id: "identify_modem_channel whitelist now node vid pid po io f p = (r, p')" by (rule prod.exhaust)
  define seen where "seen \<longleftrightarrow> known whitelist vid pid \<or> r = Inr (skipped ''rate_limited'')"
  note step = identify_prober [OF id, folded seen_def]
  have ok: "seen \<or> allow now node p" using step seen_def by auto
  have same: "pr_interval p' = pr_interval p" using step by (auto simp: record_probe_def)
  consider "\<not> seen" "(n, t) = (node, now)" | "(n, t) \<in> set (probe_times whitelist p' visits)"
    using Cons.prems(1) by (auto simp: v id seen_def split: if_splits)
  then show ?case
  proof cases
    case 1
    then show ?thesis using ok Cons.prems(2) by (simp add: allow_def)
  next
    case 2
    show ?thesis
    proof (cases "\<not> seen \<and> n = node")
      case True
      then have "now + pr_interval p \<le> t" using Cons.IH [OF 2, of now] step same Cons.prems(3) by (simp add: record_probe_def)
      moreover have "l + pr_interval p \<le> now" using True ok Cons.prems(2) by (simp add: allow_def)
      ultimately show ?thesis using Cons.prems(3) by linarith
    next
      case False
      then have "pr_last p' n = Some l" using step Cons.prems(2) by (auto simp: record_probe_def)
      then show ?thesis using Cons.IH [OF 2] same Cons.prems(3) by simp
    qed
  qed
qed simp

lemma probe_times_spaced:
  "0 \<le> pr_interval p \<Longrightarrow>
   sorted_wrt (\<lambda>(n, t) (n', t'). n = n' \<longrightarrow> t + pr_interval p \<le> t') (probe_times whitelist p visits)"
proof (induction visits arbitrary: p)
  case (Cons v visits)
  obtain now node vid pid po io f where v: "v = (now, node, vid, pid, po, io, f)" by (cases v)
  obtain r p' where id: "identify_modem_channel whitelist now node vid pid po io f p = (r, p')" by (rule prod.exhaust)
  have same: "pr_interval p' = pr_interval p" using identify_prober [OF id] by (auto simp: record_probe_def)
  have rest: "sorted_wrt (\<lambda>(n, t) (n', t'). n = n' \<longrightarrow> t + pr_interval p \<le> t') (probe_times whitelist p' visits)"
    using Cons.IH [of p'] Cons.prems same by simp
  have later: "now + pr_interval p \<le> t" if "\<not> (known whitelist vid pid \<or> r = Inr (skipped ''rate_limited''))"
      "(node, t) \<in> set (probe_times whitelist p' visits)" for t
    using probe_after_last [OF that(2), of now] that(1) identify_prober [OF id] same Cons.prems by (simp add: record_probe_def)
  show ?case using rest later by (auto simp: v id)
qed simp

text \<open>C22. Two probes of the same port are at least the prober's interval apart, whatever sequence of identifications,
  of whichever ports, the watcher asks for.\<close>

theorem probes_rate_limited:
  assumes "prober_init interval = Inr p"
  shows "sorted_wrt (\<lambda>(n, t) (n', t'). n = n' \<longrightarrow> t + interval \<le> t') (probe_times whitelist p visits)"
  using probe_times_spaced [of p whitelist visits] assms by (auto simp: prober_init_def split: if_splits)

corollary probes_rate_limited_witness:
  "let busy = Inl (OSError ''busy''); p = \<lparr>pr_interval = 60, pr_last = (\<lambda>_. None)\<rparr>;
       visits = [(0, ''COM7'', None, None, busy, busy, None), (20, ''COM7'', None, None, busy, busy, None),
                 (61, ''COM7'', None, None, busy, busy, None)]
   in probe_times [] p visits = [(''COM7'', 0), (''COM7'', 61)]
      \<and> sorted_wrt (\<lambda>(n, t) (n', t'). n = n' \<longrightarrow> t + 60 \<le> t') (probe_times [] p visits)"
proof -
  have init: "prober_init 60 = Inr \<lparr>pr_interval = 60, pr_last = (\<lambda>_. None)\<rparr>" by (simp add: prober_init_def)
  show ?thesis
    unfolding Let_def
    by (rule conjI [OF _ probes_rate_limited [OF init]])
      (simp add: identify_modem_channel_def known_def allow_def record_probe_def probe_at_channel_def ret_def skipped_def)
qed


section \<open>Reading the identity back\<close>

definition line_end :: string where "line_end = [CHR 13, CHR 10]"

text \<open>A value a modem can report on one line of its own, and its answer, with or without the echo of the command.\<close>

definition plain_value :: "string \<Rightarrow> bool" where
  "plain_value v \<longleftrightarrow> v \<noteq> [] \<and> strip v = v \<and> v \<notin> {''OK'', ''ERROR'', ''AT+CGMI'', ''AT+CGMM'', ''AT+CGSN'', ''AT+CCID'', ''AT+ICCID''}
     \<and> \<not> startswith ''+CM'' v \<and> \<not> startswith ''+CG'' v \<and> \<not> startswith ''+CC'' v"

definition answering :: "bool \<Rightarrow> string \<Rightarrow> string \<Rightarrow> pyexn + string list" where
  "answering echo cmd v = Inr ((if echo then [cmd @ line_end] else []) @ [v @ line_end, ''OK'' @ line_end])"

lemma strip_line_end:
  assumes "strip v = v" and "v \<noteq> []"
  shows "strip (strip_by crlf (v @ line_end)) = v"
proof -
  have sp: "crlf c \<Longrightarrow> is_space c" for c by (auto simp: crlf_def is_space_def)
  have hd: "\<not> crlf (hd v)" and lst: "\<not> crlf (last v)"
    using strip_by_hd [of is_space v] strip_by_last [of is_space v] assms sp unfolding strip_def by auto
  have "strip_by crlf (v @ line_end) = v"
  proof -
    have l: "dropWhile crlf (v @ line_end) = v @ line_end" using hd assms(2) by (cases v) auto
    have "dropWhile crlf (rev v) = rev v" using lst assms(2) by (cases v rule: rev_cases) auto
    then show ?thesis
      by (simp add: strip_by_def lstrip_by_def rstrip_by_def l) (simp add: line_end_def crlf_def)
  qed
  then show ?thesis using assms by simp
qed

lemma startswith_mono: "startswith (p @ q) s \<Longrightarrow> startswith p s"
  by (auto simp: startswith_iff)

lemma plain_no_prefix:
  assumes "plain_value v"
  shows "\<not> startswith ''+CME ERROR'' v" "\<not> startswith ''+CMS ERROR'' v" "\<not> startswith ''+CGMI:'' v" "\<not> startswith ''+CGMM:'' v"
    "\<not> startswith ''+CGSN:'' v" "\<not> startswith ''+CCID:'' v"
  using assms startswith_mono [of "''+CM''" _ v] startswith_mono [of "''+CG''" _ v] startswith_mono [of "''+CC''" _ v]
  unfolding plain_value_def by (metis append_Cons append_Nil)+

lemma collect_answer:
  assumes "plain_value v" "cmd \<in> {''AT+CGMI'', ''AT+CGMM'', ''AT+CGSN'', ''AT+CCID'', ''AT+ICCID''}"
  shows "collect cmd [] ((if echo then [cmd @ line_end] else []) @ [v @ line_end, ''OK'' @ line_end]) = ((True, [v], None), [])"
proof -
  have v: "strip (strip_by crlf (v @ line_end)) = v" "v \<noteq> []" "v \<noteq> cmd" "v \<noteq> ''OK''" "v \<noteq> ''ERROR''"
    using assms strip_line_end [of v] by (auto simp: plain_value_def)
  have ok: "strip (strip_by crlf (''OK'' @ line_end)) = ''OK''" by (rule strip_line_end) (simp_all, code_simp)
  have c: "strip cmd = cmd" "cmd \<noteq> []" using assms(2) by (auto, code_simp+)
  show ?thesis
    using v ok plain_no_prefix [OF assms(1)] strip_line_end [OF c] c(2)
    by (cases echo) (simp_all add: line_end_def)
qed

lemma run_answered:
  assumes "plain_value v" "(cmd, stage) \<in> {(''AT+CGMI'', ''CGMI''), (''AT+CGMM'', ''CGMM''), (''AT+CGSN'', ''CGSN''),
      (''AT+CCID'', ''CCID''), (''AT+ICCID'', ''CCID'')}"
    and "lk_answers lk = answering echo cmd v # rest" and "lk_unread lk = []"
  shows "run_identity_command cmd stage lk = (Inr v, \<lparr>lk_unread = [], lk_answers = rest,
     lk_written = lk_written lk @ [cmd @ line_end]\<rparr>)"
proof -
  have cmd: "cmd \<in> {''AT+CGMI'', ''AT+CGMM'', ''AT+CGSN'', ''AT+CCID'', ''AT+ICCID''}" using assms(2) by auto
  have c: "strip cmd = cmd" using cmd by (auto, code_simp+)
  have val: "identity_value stage [v] = Inr v"
    using assms(1,2) plain_no_prefix [OF assms(1)] by (auto simp: identity_value_def plain_value_def)
  show ?thesis
    using collect_answer [OF assms(1) cmd, of echo] assms(3,4)
    by (simp add: run_identity_command_def send_and_collect_def answering_def bindm_def catchm_def ret_def c val line_end_def)
qed

text \<open>C21. From a modem that answers each identity command, the identity read is exactly what it reports, with or without echo;
  a modem that refuses \<open>AT+CCID\<close> is asked \<open>AT+ICCID\<close>, and one that stays silent at it is reported as timed out
  without a second question.\<close>

theorem identity_read_back:
  assumes "plain_value manufacturer" and "plain_value model" and "plain_value imei" and "plain_value iccid"
    and "lk_unread lk = []" and "lk_written lk = []"
    and "lk_answers lk = [answering echo ''AT+CGMI'' manufacturer, answering echo ''AT+CGMM'' model, answering echo ''AT+CGSN'' imei] @ ccid"
  shows "(ccid = [answering echo ''AT+CCID'' iccid] \<longrightarrow> read_modem_identity (Inr lk) =
       Inr \<lparr>mi_manufacturer = manufacturer, mi_model = model, mi_imei = imei, mi_iccid = iccid\<rparr>)
   \<and> (ccid = [Inr [''ERROR'' @ line_end], answering echo ''AT+ICCID'' iccid] \<longrightarrow> read_modem_identity (Inr lk) =
       Inr \<lparr>mi_manufacturer = manufacturer, mi_model = model, mi_imei = imei, mi_iccid = iccid\<rparr>)
   \<and> (ccid = [Inr [], answering echo ''AT+ICCID'' iccid] \<longrightarrow> read_modem_identity (Inr lk) = Inl (ModemInitFailed ''CCID'' ''timeout''))"
proof -
  define lk3 where "lk3 = \<lparr>lk_unread = [], lk_answers = ccid,
    lk_written = [''AT+CGMI'' @ line_end, ''AT+CGMM'' @ line_end, ''AT+CGSN'' @ line_end]\<rparr>"
  have three: "read_modem_identity (Inr lk) = fst (bindm read_iccid
      (\<lambda>i. ret \<lparr>mi_manufacturer = manufacturer, mi_model = model, mi_imei = imei, mi_iccid = i\<rparr>) lk3)"
    using assms by (simp add: read_modem_identity_def bindm_def run_answered [where echo = echo] lk3_def)
  have first: "read_iccid lk3 = (Inr iccid, snd (read_iccid lk3))" if "ccid = [answering echo ''AT+CCID'' iccid]"
    using that assms(4) by (simp add: read_iccid_def catchm_def run_answered [where echo = echo] lk3_def)
  have err: "strip (strip_by crlf (''ERROR'' @ line_end)) = ''ERROR''" by (rule strip_line_end) (simp_all, code_simp)
  have c: "strip ''AT+CCID'' = ''AT+CCID''" by code_simp
  have refused: "run_identity_command ''AT+CCID'' ''CCID'' lk3 = (Inl (ModemInitFailed ''CCID'' ''ERROR''),
      \<lparr>lk_unread = [], lk_answers = tl ccid, lk_written = lk_written lk3 @ [''AT+CCID'' @ line_end]\<rparr>)"
    if "ccid = [Inr [''ERROR'' @ line_end], answering echo ''AT+ICCID'' iccid]"
    using err by (simp add: that run_identity_command_def send_and_collect_def bindm_def catchm_def ret_def raise_def lk3_def c line_end_def)
  have second: "read_iccid lk3 = (Inr iccid, snd (read_iccid lk3))"
    if "ccid = [Inr [''ERROR'' @ line_end], answering echo ''AT+ICCID'' iccid]"
    using that assms(4) refused [OF that]
    by (simp add: read_iccid_def catchm_def run_answered [where echo = echo] startswith_def)
  have silent: "fst (read_iccid lk3) = Inl (ModemInitFailed ''CCID'' ''timeout'')" if "ccid = [Inr [], answering echo ''AT+ICCID'' iccid]"
    by (simp add: that read_iccid_def run_identity_command_def send_and_collect_def bindm_def catchm_def ret_def raise_def lk3_def startswith_def)
  show ?thesis
    unfolding three bindm_def using first second silent
    by (auto simp: ret_def split: prod.splits sum.splits)
qed

corollary identity_read_back_witness:
  "let lk = \<lparr>lk_unread = [], lk_answers = [answering True ''AT+CGMI'' ''HUAWEI'', answering True ''AT+CGMM'' ''E398'',
         answering True ''AT+CGSN'' ''861'', Inr [''ERROR'' @ line_end], answering True ''AT+ICCID'' ''8986''], lk_written = []\<rparr>
   in read_modem_identity (Inr lk) = Inr \<lparr>mi_manufacturer = ''HUAWEI'', mi_model = ''E398'', mi_imei = ''861'', mi_iccid = ''8986''\<rparr>"
proof -
  have p: "plain_value ''HUAWEI''" "plain_value ''E398''" "plain_value ''861''" "plain_value ''8986''" by code_simp+
  show ?thesis
    unfolding Let_def
    using identity_read_back [OF p, where echo = True and lk = "\<lparr>lk_unread = [], lk_answers = [answering True ''AT+CGMI'' ''HUAWEI'',
         answering True ''AT+CGMM'' ''E398'', answering True ''AT+CGSN'' ''861'', Inr [''ERROR'' @ line_end],
         answering True ''AT+ICCID'' ''8986''], lk_written = []\<rparr>"
       and ccid = "[Inr [''ERROR'' @ line_end], answering True ''AT+ICCID'' ''8986'']"]
    by simp
qed

end
