(* ===== verification/Audio_Backends.thy ===== *)
theory Audio_Backends imports Audio_Bridge begin

text \<open>
  The sound backends and the loops that use them: the modem's audio port on Windows with the handle capture and
  playback share (\<open>audio/windows_serial_pcm.py\<close>), the microphone of the macOS development mode
  (\<open>audio_bridge/mac_mic_capture.py\<close>), the choice of a backend (\<open>audio/__init__.py\<close>), the loops of
  \<open>AudioPipe\<close> (\<open>audio_pipe.py\<close>) and the two pumps of the orchestrator's mode without a modem. The drivers
  are inputs: what opening, each read and each write give.
\<close>

section \<open>The shared audio port\<close>

record holder =
  ho_path :: string
  ho_handle :: "nat option"
  ho_opened :: bool
  ho_closed :: bool
  ho_owns :: bool

definition holder_init :: "string \<Rightarrow> holder" where
  "holder_init path = \<lparr>ho_path = path, ho_handle = None, ho_opened = False, ho_closed = False, ho_owns = True\<rparr>"

text \<open>The log of the driver: handles opened and closed. A close that raises is logged by the code and counts here.\<close>

datatype port_call = PortOpened nat | PortClosed nat

definition open_port :: "pyexn + nat \<Rightarrow> (holder \<times> port_call list, unit) proc" where
  "open_port res hl = (case hl of (h, l) \<Rightarrow>
     if ho_opened h \<or> ho_closed h then ret () (h, l)
     else case res of
         Inl _ \<Rightarrow> raise (SerialPcmError ''failed to open audio COM port'') (h, l)
       | Inr n \<Rightarrow> ret () (h\<lparr>ho_handle := Some n, ho_opened := True\<rparr>, l @ [PortOpened n]))"

definition adopt_serial_from :: "holder \<Rightarrow> (holder, unit) proc" where
  "adopt_serial_from other h =
     (if \<not> ho_opened other \<or> ho_handle other = None then raise (SerialPcmError ''source holder is not open'') h
      else ret () (h\<lparr>ho_handle := ho_handle other, ho_path := ho_path other, ho_opened := True, ho_owns := False\<rparr>))"

definition close_port :: "holder \<times> port_call list \<Rightarrow> holder \<times> port_call list" where
  "close_port hl = (case hl of (h, l) \<Rightarrow>
     if ho_closed h then (h, l)
     else let h' = h\<lparr>ho_closed := True, ho_handle := None\<rparr> in
       case ho_handle h of None \<Rightarrow> (h', l) | Some n \<Rightarrow> if ho_owns h then (h', l @ [PortClosed n]) else (h', l))"

text \<open>\<open>read_chunk\<close>: the reads of the port until data, at most 50; a wav that stands in for the microphone.\<close>

definition MAX_EMPTY_READS :: nat where "MAX_EMPTY_READS = 50"

fun first_data :: "nat \<Rightarrow> (pyexn + bytes) list \<Rightarrow> pyexn + bytes" where
  "first_data 0 reads = Inr []"
| "first_data (Suc n) [] = Inr []"
| "first_data (Suc n) (Inl e # reads) = Inl e"
| "first_data (Suc n) (Inr d # reads) = (if d \<noteq> [] then Inr d else first_data n reads)"

record fake_wav =
  fw_pcm :: bytes
  fw_pos :: nat

definition fake_read :: "nat \<Rightarrow> fake_wav \<Rightarrow> bytes \<times> fake_wav" where
  "fake_read n w = (let chunk = take n (drop (fw_pos w) (fw_pcm w)) in
     if length chunk < n
     then let pos = n - length chunk in (chunk @ take pos (fw_pcm w), w\<lparr>fw_pos := pos\<rparr>)
     else (chunk, w\<lparr>fw_pos := fw_pos w + n\<rparr>))"

definition load_wav_8k :: "nat \<times> nat \<times> nat \<Rightarrow> bytes \<Rightarrow> pyexn + fake_wav" where
  "load_wav_8k format frames = (case format of (rate, channels, width) \<Rightarrow>
     if rate \<noteq> 8000 \<or> channels \<noteq> 1 \<or> width \<noteq> 2 then Inl (SerialPcmError ''fake capture WAV must be 8000Hz mono int16'')
     else Inr \<lparr>fw_pcm = frames, fw_pos = 0\<rparr>)"

definition serial_read_chunk ::
  "pyexn + nat \<Rightarrow> (pyexn + bytes) list \<Rightarrow> nat \<Rightarrow> ((holder \<times> port_call list) \<times> fake_wav option, bytes) proc" where
  "serial_read_chunk opening reads n s = (case s of (hl, fake) \<Rightarrow>
     (case (if ho_opened (fst hl) then ret () hl else open_port opening hl) of
        (Inl e, hl') \<Rightarrow> raise e (hl', fake)
      | (Inr _, hl') \<Rightarrow> (case fake of
            Some w \<Rightarrow> (case fake_read n w of (chunk, w') \<Rightarrow> ret chunk (hl', Some w'))
          | None \<Rightarrow> if ho_handle (fst hl') = None then raise (OtherError ''AssertionError'') (hl', fake)
              else (first_data MAX_EMPTY_READS reads, (hl', fake)))))"

text \<open>\<open>write_chunk\<close>: a short write loses the rest, a write time-out loses what it had not written; both only warn.\<close>

datatype write_result = Wrote nat | WriteTimeout nat | WriteFailed pyexn

definition serial_write_chunk ::
  "pyexn + nat \<Rightarrow> write_result \<Rightarrow> bytes \<Rightarrow> ((holder \<times> port_call list) \<times> bytes, unit) proc" where
  "serial_write_chunk opening res pcm s = (case s of (hl, out) \<Rightarrow>
     (case (if ho_opened (fst hl) then ret () hl else open_port opening hl) of
        (Inl e, hl') \<Rightarrow> raise e (hl', out)
      | (Inr _, hl') \<Rightarrow> if ho_handle (fst hl') = None then raise (OtherError ''AssertionError'') (hl', out)
          else (case res of
              Wrote n \<Rightarrow> ret () (hl', out @ take n pcm)
            | WriteTimeout n \<Rightarrow> ret () (hl', out @ take n pcm)
            | WriteFailed e \<Rightarrow> raise e (hl', out))))"


section \<open>The development microphone\<close>

record mic =
  mk_rate :: nat
  mk_block :: nat
  mk_stream :: bool
  mk_opened :: bool
  mk_fake :: bool
  mk_pcm :: bytes
  mk_pos :: nat

definition mic_init :: "nat \<Rightarrow> nat \<Rightarrow> bool \<Rightarrow> mic" where
  "mic_init rate block fake = \<lparr>mk_rate = rate, mk_block = block, mk_stream = False, mk_opened = False, mk_fake = fake,
     mk_pcm = [], mk_pos = 0\<rparr>"

definition chunk_duration_ms :: "mic \<Rightarrow> nat" where
  "chunk_duration_ms m = mk_block m * 1000 div mk_rate m"

text \<open>\<open>open\<close>: \<open>wav\<close> is the loaded file of the test hook, \<open>device\<close> what opening the input stream raises.\<close>

definition mic_open :: "pyexn + bytes \<Rightarrow> pyexn option \<Rightarrow> (mic, unit) proc" where
  "mic_open wav device m =
     (if mk_opened m then ret () m
      else if mk_fake m then (case wav of Inl e \<Rightarrow> raise e m | Inr pcm \<Rightarrow> ret () (m\<lparr>mk_pcm := pcm, mk_opened := True\<rparr>))
      else case device of Some _ \<Rightarrow> raise (RuntimeError ''mac mic capture open failed'') m
        | None \<Rightarrow> ret () (m\<lparr>mk_stream := True, mk_opened := True\<rparr>))"

definition mic_read :: "pyexn + bytes \<Rightarrow> pyexn option \<Rightarrow> pyexn + bytes \<Rightarrow> (mic, bytes) proc" where
  "mic_read wav device live = seqm (\<lambda>m. if mk_opened m then ret () m else mic_open wav device m)
     (\<lambda>m. if mk_fake m then
        (let n = mk_block m * 2 in
         if length (mk_pcm m) \<le> mk_pos m then ret (replicate n 0) m
         else let chunk = take n (drop (mk_pos m) (mk_pcm m))
           in ret (chunk @ replicate (n - length chunk) 0) (m\<lparr>mk_pos := mk_pos m + n\<rparr>))
      else if \<not> mk_stream m then raise (OtherError ''AssertionError'') m
      else (live, m))"

definition mic_stop :: "mic \<Rightarrow> mic" where
  "mic_stop m = (if mk_fake m then m\<lparr>mk_opened := False, mk_pcm := [], mk_pos := 0\<rparr>
     else if \<not> mk_stream m then m else m\<lparr>mk_stream := False, mk_opened := False\<rparr>)"


section \<open>The choice of a backend\<close>

datatype backend_class = LinuxAlsa | MacOSCoreAudio | WindowsSerialPcm

definition get_capture_class :: "string \<Rightarrow> pyexn + backend_class" where
  "get_capture_class plat =
     (if plat = ''linux'' then Inr LinuxAlsa else if plat = ''darwin'' then Inr MacOSCoreAudio
      else if plat = ''win32'' then Inr WindowsSerialPcm
      else Inl (RuntimeError (''['' @ plat @ ''] no capture backend for platform='' @ [CHR 39] @ plat @ [CHR 39])))"

definition get_playback_class :: "string \<Rightarrow> pyexn + backend_class" where
  "get_playback_class plat =
     (if plat = ''linux'' then Inr LinuxAlsa else if plat = ''darwin'' then Inr MacOSCoreAudio
      else if plat = ''win32'' then Inr WindowsSerialPcm
      else Inl (RuntimeError (''['' @ plat @ ''] no playback backend for platform='' @ [CHR 39] @ plat @ [CHR 39])))"


section \<open>AudioPipe\<close>

text \<open>The conversions truncate towards zero and wrap: \<open>astype("<i2")\<close> without clipping. \<open>fir\<close> is \<open>resample_poly\<close>.\<close>

definition truncate :: "rat \<Rightarrow> int" where
  "truncate x = (if 0 \<le> x then floor x else - floor (- x))"

definition convert :: "(int \<Rightarrow> int \<Rightarrow> int list \<Rightarrow> rat list) \<Rightarrow> int \<Rightarrow> int \<Rightarrow> bytes \<Rightarrow> pyexn + bytes" where
  "convert fir up down pcm = (case samples pcm of
       None \<Rightarrow> Inl (ValueError ''buffer size must be a multiple of element size'')
     | Some ss \<Rightarrow> if ss = [] then Inr [] else Inr (to_bytes (map (\<lambda>x. word_of_int (truncate x)) (fir up down (map sint ss)))))"

definition upsample_8k_to_16k :: "(int \<Rightarrow> int \<Rightarrow> int list \<Rightarrow> rat list) \<Rightarrow> bytes \<Rightarrow> pyexn + bytes" where
  "upsample_8k_to_16k fir = convert fir 2 1"

definition downsample_16k_to_8k :: "(int \<Rightarrow> int \<Rightarrow> int list \<Rightarrow> rat list) \<Rightarrow> bytes \<Rightarrow> pyexn + bytes" where
  "downsample_16k_to_8k fir = convert fir 1 2"

record pipe =
  pp_jitter :: jitter
  pp_up :: nat
  pp_down :: nat
  pp_underruns :: int
  pp_overruns :: int
  pp_inbound :: "bytes list"
  pp_written :: "bytes list"
  pp_capture_closed :: nat
  pp_playback_closed :: nat

definition pipe_init :: pipe where
  "pipe_init = \<lparr>pp_jitter = jitter_init JITTER_BUFFER_CHUNKS, pp_up = 0, pp_down = 0, pp_underruns = 0, pp_overruns = 0,
     pp_inbound = [], pp_written = [], pp_capture_closed = 0, pp_playback_closed = 0\<rparr>"

text \<open>The loop of \<open>run_capture\<close> over the reads and what the engine's hook does with each chunk; \<open>None\<close> accepts it. An
  empty list of reads is a loop that is still waiting when it is cancelled.\<close>

fun capture_loop ::
  "(int \<Rightarrow> int \<Rightarrow> int list \<Rightarrow> rat list) \<Rightarrow> ((pyexn + bytes) \<times> pyexn option) list \<Rightarrow> (pipe, unit) proc" where
  "capture_loop fir [] p = raise Cancelled p"
| "capture_loop fir ((Inl e, _) # reads) p = raise e p"
| "capture_loop fir ((Inr pcm, hook) # reads) p =
     (if pcm = [] then ret () p
      else case upsample_8k_to_16k fir pcm of
          Inl e \<Rightarrow> raise e p
        | Inr up \<Rightarrow> let p1 = p\<lparr>pp_up := pp_up p + 1\<rparr> in
            (case hook of Some e \<Rightarrow> raise e p1
             | None \<Rightarrow> capture_loop fir reads (p1\<lparr>pp_inbound := pp_inbound p1 @ [up]\<rparr>)))"

definition run_capture ::
  "(int \<Rightarrow> int \<Rightarrow> int list \<Rightarrow> rat list) \<Rightarrow> ((pyexn + bytes) \<times> pyexn option) list \<Rightarrow> (pipe, unit) proc" where
  "run_capture fir reads = finallym (capture_loop fir reads) (modify (\<lambda>p. p\<lparr>pp_capture_closed := pp_capture_closed p + 1\<rparr>))"

text \<open>The loop of \<open>run_playback\<close> over the outcomes of its writes, with the chunks the engine feeds before each.\<close>

fun playback_loop :: "(bytes list \<times> pyexn option) list \<Rightarrow> (pipe, unit) proc" where
  "playback_loop [] p = raise Cancelled p"
| "playback_loop ((fed, res) # writes) p =
     (case jitter_pop (fold jitter_push fed (pp_jitter p)) of (chunk, j) \<Rightarrow>
        let p1 = p\<lparr>pp_jitter := j\<rparr> in
        (case res of Some e \<Rightarrow> raise e p1
         | None \<Rightarrow> playback_loop writes (p1\<lparr>pp_written := pp_written p1 @ [chunk], pp_down := pp_down p1 + 1\<rparr>)))"

definition run_playback :: "(bytes list \<times> pyexn option) list \<Rightarrow> (pipe, unit) proc" where
  "run_playback writes = finallym (playback_loop writes) (modify (\<lambda>p. p\<lparr>pp_playback_closed := pp_playback_closed p + 1,
     pp_underruns := jb_underruns (pp_jitter p), pp_overruns := jb_overruns (pp_jitter p)\<rparr>))"


section \<open>The pumps without a modem\<close>

text \<open>\<open>_downmix_playback_to_engine_mono\<close>: the mean over the channels, which \<open>float32\<close> gives exactly for up to two, then
  linear interpolation (\<open>interp\<close>, a parameter), rounding and clipping.\<close>

fun frames_of :: "nat \<Rightarrow> int list \<Rightarrow> int list list" where
  "frames_of n xs = (if n = 0 \<or> length xs < n then [] else take n xs # frames_of n (drop n xs))"

declare frames_of.simps [simp del]

definition channel_mean :: "nat \<Rightarrow> int list \<Rightarrow> rat list" where
  "channel_mean n xs = (if 1 < n then map (\<lambda>f. of_int (sum_list f) / of_nat n) (frames_of n xs) else map of_int xs)"

definition output_length :: "nat \<Rightarrow> nat \<Rightarrow> int" where
  "output_length n rate = round_even (of_nat (n * ENGINE_SAMPLE_RATE) / of_nat rate)"

definition downmix_playback :: "(int \<Rightarrow> rat list \<Rightarrow> rat list) \<Rightarrow> bytes \<Rightarrow> nat \<Rightarrow> nat \<Rightarrow> pyexn + bytes" where
  "downmix_playback interp pcm rate channels =
     (if pcm = [] then Inr []
      else case samples pcm of
          None \<Rightarrow> Inl (ValueError ''buffer size must be a multiple of element size'')
        | Some ss \<Rightarrow>
            let xs = channel_mean channels (map sint ss);
                n = output_length (length xs) rate;
                ys = (if rate \<noteq> 0 \<and> rate \<noteq> ENGINE_SAMPLE_RATE \<and> xs \<noteq> [] \<and> 0 < n then interp n xs else xs)
            in Inr (to_bytes (map (\<lambda>x. word_of_int (clip16 (round_even x))) ys)))"

text \<open>The microphone pump: per turn whether the call is over, what the read gives and what the push raises. It
  returns the pushes with their time stamps, the recorder, and how often the microphone was stopped.\<close>

record mic_pump =
  mu_pushed :: "(bytes \<times> nat) list"
  mu_recorder :: recorder
  mu_stops :: nat

fun mic_turns :: "string \<Rightarrow> bool \<Rightarrow> nat \<Rightarrow> nat \<Rightarrow> (bool \<times> (pyexn + bytes) \<times> pyexn option) list \<Rightarrow> (mic_pump, unit) proc" where
  "mic_turns call recording_on ms ts [] p = raise Cancelled p"
| "mic_turns call recording_on ms ts ((over, got, res) # turns) p =
     (if over then ret () p
      else case got of
          Inl e \<Rightarrow> raise e p
        | Inr chunk \<Rightarrow>
            let p1 = p\<lparr>mu_pushed := mu_pushed p @ [(chunk, ts)]\<rparr> in
            (case res of
               Some Cancelled \<Rightarrow> raise Cancelled p1
             | _ \<Rightarrow> mic_turns call recording_on ms (ts + ms) turns
                 (if recording_on then p1\<lparr>mu_recorder := append_user call chunk (mu_recorder p1)\<rparr> else p1)))"

definition mic_capture_pump ::
  "string \<Rightarrow> bool \<Rightarrow> nat \<Rightarrow> pyexn option \<Rightarrow> (bool \<times> (pyexn + bytes) \<times> pyexn option) list \<Rightarrow> (mic_pump, unit) proc" where
  "mic_capture_pump call recording_on ms opening turns =
     finallym (suppress (case opening of Some e \<Rightarrow> raise e | None \<Rightarrow> mic_turns call recording_on ms 0 turns))
       (modify (\<lambda>p. p\<lparr>mu_stops := mu_stops p + 1\<rparr>))"

text \<open>The recording pump over the frames of the session, with whether the call is over when each arrives.\<close>

fun ai_turns :: "(int \<Rightarrow> rat list \<Rightarrow> rat list) \<Rightarrow> string \<Rightarrow> (bool \<times> pcm_frame) list \<Rightarrow> (recorder, unit) proc" where
  "ai_turns interp call [] r = ret () r"
| "ai_turns interp call ((over, f) # fs) r =
     (if over then ret () r
      else case downmix_playback interp (pf_pcm f) (pf_rate f) (pf_channels f) of
          Inl e \<Rightarrow> raise e r
        | Inr pcm \<Rightarrow> ai_turns interp call fs (if pcm \<noteq> [] then append_ai call pcm r else r))"

definition ai_recording_pump :: "(int \<Rightarrow> rat list \<Rightarrow> rat list) \<Rightarrow> string \<Rightarrow> (bool \<times> pcm_frame) list \<Rightarrow> (recorder, unit) proc" where
  "ai_recording_pump interp call fs = suppress (ai_turns interp call fs)"

section \<open>Behaviour\<close>

text \<open>A chunk is the first data among at most 50 reads; only 50 empty reads in a row, a second of silence, are an end.\<close>

lemma first_data_spec:
  "first_data n (map Inr ds) = Inr (case find (\<lambda>d. d \<noteq> []) (take n ds) of None \<Rightarrow> [] | Some d \<Rightarrow> d)"
proof (induction n arbitrary: ds)
  case (Suc n)
  then show ?case by (cases ds) auto
qed simp

datatype closing = CloseCapture | ClosePlayback

definition close_either :: "closing \<Rightarrow> holder \<times> holder \<times> port_call list \<Rightarrow> holder \<times> holder \<times> port_call list" where
  "close_either c s = (case s of (cap, play, l) \<Rightarrow> (case c of
       CloseCapture \<Rightarrow> (case close_port (cap, l) of (cap', l') \<Rightarrow> (cap', play, l'))
     | ClosePlayback \<Rightarrow> (case close_port (play, l) of (play', l') \<Rightarrow> (cap, play', l'))))"

lemma close_either_run:
  assumes "ho_owns cap" and "\<not> ho_owns play" and "ho_closed cap \<or> ho_handle cap = Some n"
  shows "\<exists>cap' play'. fold close_either cs (cap, play, l) = (cap', play',
     l @ (if CloseCapture \<in> set cs \<and> \<not> ho_closed cap then [PortClosed n] else []))"
  using assms
proof (induction cs arbitrary: cap play l)
  case (Cons c cs)
  obtain cap1 play1 l1 where s: "close_either c (cap, play, l) = (cap1, play1, l1)" by (metis prod_cases3)
  have "ho_owns cap1" "\<not> ho_owns play1" "ho_closed cap1 \<or> ho_handle cap1 = Some n"
    "ho_closed cap1 \<longleftrightarrow> ho_closed cap \<or> c = CloseCapture"
    "l1 = l @ (if c = CloseCapture \<and> \<not> ho_closed cap then [PortClosed n] else [])"
    using s Cons.prems by (auto simp: close_either_def close_port_def Let_def split: closing.splits if_splits option.splits)
  with Cons.IH [of cap1 play1 l1] s show ?case by auto
qed simp

text \<open>The one handle of the full-duplex audio port: after the playback has adopted it from the capture, any number of
  closes of the two in any order closes it exactly once, when the capture is first closed, and never before.\<close>

theorem shared_port_closed_once:
  assumes "open_port (Inr n) (holder_init path, []) = (Inr (), (cap, l))" and "adopt_serial_from cap (holder_init path') = (Inr (), play)"
  shows "ho_handle play = Some n \<and> (\<exists>cap' play'. fold close_either cs (cap, play, l)
     = (cap', play', [PortOpened n] @ (if CloseCapture \<in> set cs then [PortClosed n] else [])))"
proof -
  have cap: "cap = (holder_init path)\<lparr>ho_handle := Some n, ho_opened := True\<rparr>" "l = [PortOpened n]"
    using assms(1) by (auto simp: open_port_def holder_init_def ret_def)
  have play: "ho_handle play = Some n" "\<not> ho_owns play"
    using assms(2) cap(1) by (auto simp: adopt_serial_from_def ret_def raise_def holder_init_def)
  then show ?thesis
    using close_either_run [of cap play n cs l] cap by (simp add: holder_init_def)
qed

lemma shared_port_closed_once_witness:
  "\<exists>cap play l. open_port (Inr 3) (holder_init ''COM11'', []) = (Inr (), (cap, l))
     \<and> (\<exists>cap' play'. fold close_either [ClosePlayback, CloseCapture, ClosePlayback, CloseCapture] (cap, play, l)
       = (cap', play', [PortOpened 3, PortClosed 3]))"
proof -
  obtain cap l where c: "open_port (Inr 3) (holder_init ''COM11'', []) = (Inr (), (cap, l))" "ho_opened cap" "ho_handle cap = Some 3"
    by (simp add: open_port_def holder_init_def ret_def)
  obtain play where p: "adopt_serial_from cap (holder_init ''COM11'') = (Inr (), play)"
    using c by (simp add: adopt_serial_from_def ret_def)
  from shared_port_closed_once [OF c(1) p, of "[ClosePlayback, CloseCapture, ClosePlayback, CloseCapture]"] c(1)
  show ?thesis by (intro exI [of _ cap] exI [of _ play] exI [of _ l]) (simp del: fold_simps)
qed

lemma mic_turns_run:
  assumes "\<forall>(c, res) \<in> set cs. res \<noteq> Some Cancelled"
  shows "mic_turns call True ms ts (map (\<lambda>(c, res). (False, Inr c, res)) cs @ rest) p =
    mic_turns call True ms (ts + length cs * ms) rest
      (p\<lparr>mu_pushed := mu_pushed p @ map (\<lambda>i. (fst (cs ! i), ts + i * ms)) [0..<length cs],
         mu_recorder := fold (append_user call) (map fst cs) (mu_recorder p)\<rparr>)"
  using assms
proof (induction cs arbitrary: ts p)
  case (Cons cr cs)
  obtain c res where cr: "cr = (c, res)" by (cases cr)
  let ?p = "p\<lparr>mu_pushed := mu_pushed p @ [(c, ts)], mu_recorder := append_user call c (mu_recorder p)\<rparr>"
  have ok: "\<forall>(c, res) \<in> set cs. res \<noteq> Some Cancelled" and res: "res \<noteq> Some Cancelled" using Cons.prems by (auto simp: cr)
  have step: "mic_turns call True ms ts (map (\<lambda>(c, res). (False, Inr c, res)) (cr # cs) @ rest) p
      = mic_turns call True ms (ts + ms) (map (\<lambda>(c, res). (False, Inr c, res)) cs @ rest) ?p"
    using res by (auto simp: cr Let_def split: option.splits pyexn.splits)
  have stamps: "map (\<lambda>i. (fst ((cr # cs) ! i), ts + i * ms)) [0..<length (cr # cs)]
      = (c, ts) # map (\<lambda>i. (fst (cs ! i), ts + ms + i * ms)) [0..<length cs]"
    by (simp add: upt_conv_Cons map_Suc_upt [symmetric] comp_def cr algebra_simps del: upt_Suc)
  show ?case unfolding step Cons.IH [OF ok] stamps by (simp add: cr algebra_simps)
qed simp

text \<open>Until the call is over the microphone pump pushes every chunk it reads once, in order, with time stamps one chunk
  apart, and records it, whether or not the push is accepted; then, and after any failure of the microphone, it
  ends without an exception and with the microphone stopped exactly once.\<close>

theorem microphone_pump:
  assumes "\<forall>(c, res) \<in> set cs. res \<noteq> Some Cancelled"
    and "ended = (True, got, res) \<or> ended = (False, Inl (OSError m), res)"
  shows "mic_capture_pump call True ms None (map (\<lambda>(c, res). (False, Inr c, res)) cs @ [ended]) p = (Inr (),
      p\<lparr>mu_pushed := mu_pushed p @ map (\<lambda>i. (fst (cs ! i), i * ms)) [0..<length cs],
        mu_recorder := fold (append_user call) (map fst cs) (mu_recorder p), mu_stops := mu_stops p + 1\<rparr>)"
  using assms(2) mic_turns_run [OF assms(1), of call ms 0 "[ended]" p]
  by (auto simp: mic_capture_pump_def method_defs is_exception_def)

lemma microphone_pump_witness:
  "let p = \<lparr>mu_pushed = [], mu_recorder = recorder_init 0 [], mu_stops = 0\<rparr> in
     mu_pushed (snd (mic_capture_pump ''c'' True 20 None
       [(False, Inr [1, 2], Some RtcPushBackpressure), (False, Inr [3, 4], None), (True, Inr [], None)] p)) = [([1, 2], 0), ([3, 4], 20)]"
  using microphone_pump [of "[([1, 2], Some RtcPushBackpressure), ([3, 4], None)]" "(True, Inr [], None)" "Inr []" None "[]" "''c''" 20
      "\<lparr>mu_pushed = [], mu_recorder = recorder_init 0 [], mu_stops = 0\<rparr>"]
  by (simp add: upt_rec)

text \<open>However they end, the loops of \<open>AudioPipe\<close> close their backend once, and the playback publishes its counters.\<close>

lemma capture_loop_closed: "pp_capture_closed (snd (capture_loop fir reads p)) = pp_capture_closed p"
  by (induction fir reads p rule: capture_loop.induct) (auto simp: raise_def ret_def Let_def split: sum.splits option.splits)

lemma playback_loop_closed: "pp_playback_closed (snd (playback_loop writes p)) = pp_playback_closed p"
  by (induction writes p rule: playback_loop.induct) (auto simp: raise_def Let_def split: prod.splits option.splits)

lemma pipe_closes_backends:
  "pp_capture_closed (snd (run_capture fir reads p)) = pp_capture_closed p + 1"
  "pp_playback_closed (snd (run_playback writes p)) = pp_playback_closed p + 1"
  "pp_underruns (snd (run_playback writes p)) = jb_underruns (pp_jitter (snd (run_playback writes p)))"
  using capture_loop_closed [of fir reads p] playback_loop_closed [of writes p]
  by (auto simp: run_capture_def run_playback_def finallym_def modify_def split: prod.splits)

end
