(* ===== verification/Core_Audio.thy ===== *)
theory Core_Audio imports Audio_Backends begin

text \<open>
  The Core Audio backends of the macOS edge (\<open>audio/macos_coreaudio.py\<close>): the choice of a device by a
  keyword in its name, the stream a capture or playback opens at its first use, reads and writes, and the
  close. The sound library is an input: what listing the devices, constructing a stream, starting it and
  each later call give. The ALSA placeholders (\<open>audio/linux_alsa.py\<close>), which refuse to be built, stand at
  the end.
\<close>

section \<open>The device\<close>

datatype sound_device = DeviceIndex int | DeviceName string

text \<open>\<open>sd.default.device\<close>: one device, or the pair of the input and the output.\<close>

datatype default_device = OneDevice sound_device | DevicePair int int

definition SAMPLE_RATE_HZ :: nat where "SAMPLE_RATE_HZ = 8000"

definition DEFAULT_BLOCKSIZE :: nat where "DEFAULT_BLOCKSIZE = 160"

definition DEFAULT_DEVICE_KEYWORDS :: "string list" where
  "DEFAULT_DEVICE_KEYWORDS = [''USB Audio CODEC'', ''Quectel'', ''Huawei'', ''SIMCom'', ''ZTE'']"

fun matching_index :: "string list \<Rightarrow> nat \<Rightarrow> string list \<Rightarrow> nat option" where
  "matching_index hints i [] = None"
| "matching_index hints i (name # names) =
     (if \<exists>kw \<in> set hints. contains_str (lower kw) (lower name) then Some i else matching_index hints (Suc i) names)"

definition resolve_device_id :: "string list \<Rightarrow> pyexn + string list \<Rightarrow> default_device \<Rightarrow> pyexn + sound_device" where
  "resolve_device_id hints devices fallback = (case devices of
       Inl e \<Rightarrow> Inl e
     | Inr names \<Rightarrow> Inr (case matching_index hints 0 names of
           Some i \<Rightarrow> DeviceIndex (int i)
         | None \<Rightarrow> (case fallback of OneDevice d \<Rightarrow> d | DevicePair i j \<Rightarrow> DeviceIndex i)))"


section \<open>The stream\<close>

record core_stream =
  cs_device :: "sound_device option"
  cs_block :: nat
  cs_stream :: "nat option"
  cs_opened :: bool

definition core_init :: "sound_device option \<Rightarrow> nat \<Rightarrow> core_stream" where
  "core_init device block = \<lparr>cs_device = device, cs_block = block, cs_stream = None, cs_opened = False\<rparr>"

text \<open>The calls the sound library sees.\<close>

datatype sound_call =
    StreamBuilt nat sound_device
  | StreamStarted nat
  | StreamStopped nat
  | StreamClosed nat
  | StreamWritten nat bytes

text \<open>What the library answers: whether it is installed, its devices, the constructor and the start.\<close>

record sound_library =
  sl_installed :: bool
  sl_devices :: "pyexn + string list"
  sl_default :: default_device
  sl_built :: "pyexn + nat"
  sl_start :: "pyexn option"

definition start_stream :: "nat \<Rightarrow> pyexn option \<Rightarrow> (core_stream \<times> sound_call list, unit) proc" where
  "start_stream n res s = (case s of (c, l) \<Rightarrow> let c' = c\<lparr>cs_stream := Some n\<rparr> in
     (case res of Some e \<Rightarrow> raise e (c', l) | None \<Rightarrow> ret () (c', l @ [StreamStarted n])))"

definition close_stream :: "pyexn option \<Rightarrow> pyexn option \<Rightarrow> (core_stream \<times> sound_call list, unit) proc" where
  "close_stream stopped shut s = (case s of (c, l) \<Rightarrow> (case cs_stream c of
       None \<Rightarrow> ret () (c, l)
     | Some n \<Rightarrow> finallym
         (suppress (case stopped of Some e \<Rightarrow> raise e
            | None \<Rightarrow> (\<lambda>s1. case shut of Some e \<Rightarrow> raise e (fst s1, snd s1 @ [StreamStopped n])
                | None \<Rightarrow> ret () (fst s1, snd s1 @ [StreamStopped n, StreamClosed n]))))
         (modify (\<lambda>s1. ((fst s1)\<lparr>cs_stream := None\<rparr>, snd s1))) (c, l)))"

definition chosen_device :: "core_stream \<Rightarrow> sound_library \<Rightarrow> pyexn + sound_device" where
  "chosen_device c lib = (case cs_device c of Some d \<Rightarrow> Inr d
     | None \<Rightarrow> resolve_device_id DEFAULT_DEVICE_KEYWORDS (sl_devices lib) (sl_default lib))"

definition open_capture_stream :: "sound_library \<Rightarrow> (core_stream \<times> sound_call list, unit) proc" where
  "open_capture_stream lib s = (case s of (c, l) \<Rightarrow>
     if cs_opened c then ret () (c, l)
     else if \<not> sl_installed lib then raise (RuntimeError ''sounddevice not installed'') (c, l)
     else case chosen_device c lib of
         Inl e \<Rightarrow> raise e (c, l)
       | Inr d \<Rightarrow> (case sl_built lib of
             Inl e \<Rightarrow> (if is_exception e then raise (RuntimeError ''failed to open Core Audio capture stream'') else raise e) (c, l)
           | Inr n \<Rightarrow> seqm (start_stream n (sl_start lib))
               (modify (\<lambda>s1. ((fst s1)\<lparr>cs_opened := True\<rparr>, snd s1))) (c, l @ [StreamBuilt n d])))"

definition open_playback_stream :: "sound_library \<Rightarrow> (core_stream \<times> sound_call list, unit) proc" where
  "open_playback_stream lib s = (case s of (c, l) \<Rightarrow>
     if cs_opened c then ret () (c, l)
     else if \<not> sl_installed lib then raise (RuntimeError ''sounddevice not installed'') (c, l)
     else case chosen_device c lib of
         Inl e \<Rightarrow> raise e (c, l)
       | Inr d \<Rightarrow> (case sl_built lib of
             Inl e \<Rightarrow> (if is_exception e then raise (RuntimeError ''failed to open Core Audio playback stream'') else raise e) (c, l)
           | Inr n \<Rightarrow> seqm (start_stream n (sl_start lib))
               (modify (\<lambda>s1. ((fst s1)\<lparr>cs_opened := True\<rparr>, snd s1))) (c, l @ [StreamBuilt n d])))"

text \<open>\<open>read_chunk\<close>: an overflow is only logged. \<open>write_chunk\<close> hands the whole chunk over.\<close>

definition core_read_chunk ::
  "sound_library \<Rightarrow> (nat \<Rightarrow> nat \<Rightarrow> pyexn + bytes \<times> bool) \<Rightarrow> (core_stream \<times> sound_call list, bytes) proc" where
  "core_read_chunk lib reading = seqm (\<lambda>s. if cs_opened (fst s) then ret () s else open_capture_stream lib s)
     (\<lambda>s. case cs_stream (fst s) of
        None \<Rightarrow> raise (OtherError ''AssertionError'') s
      | Some n \<Rightarrow> (case reading n (cs_block (fst s)) of Inl e \<Rightarrow> raise e s | Inr (chunk, overflowed) \<Rightarrow> ret chunk s))"

definition core_write_chunk ::
  "sound_library \<Rightarrow> pyexn option \<Rightarrow> bytes \<Rightarrow> (core_stream \<times> sound_call list, unit) proc" where
  "core_write_chunk lib res pcm = seqm (\<lambda>s. if cs_opened (fst s) then ret () s else open_playback_stream lib s)
     (\<lambda>s. case cs_stream (fst s) of
        None \<Rightarrow> raise (OtherError ''AssertionError'') s
      | Some n \<Rightarrow> (case res of Some e \<Rightarrow> raise e s
          | None \<Rightarrow> ret () (fst s, snd s @ [StreamWritten n pcm])))"

text \<open>The ALSA classes: the constructors raise, so no other method is ever reached.\<close>

definition linux_alsa_capture :: "pyexn + unit" where
  "linux_alsa_capture = Inl (OtherError ''NotImplementedError'')"

definition linux_alsa_playback :: "pyexn + unit" where
  "linux_alsa_playback = Inl (OtherError ''NotImplementedError'')"


section \<open>Histories\<close>

datatype capture_op =
    OpenStream sound_library
  | ReadChunk sound_library "nat \<Rightarrow> nat \<Rightarrow> pyexn + bytes \<times> bool"
  | CloseStream "pyexn option" "pyexn option"

definition capture_step :: "capture_op \<Rightarrow> core_stream \<times> sound_call list \<Rightarrow> core_stream \<times> sound_call list" where
  "capture_step x s = (case x of
       OpenStream lib \<Rightarrow> snd (open_capture_stream lib s)
     | ReadChunk lib reading \<Rightarrow> snd (core_read_chunk lib reading s)
     | CloseStream stopped shut \<Rightarrow> snd (close_stream stopped shut s))"

text \<open>The library of a step whose constructed stream does not start.\<close>

definition start_fails :: "capture_op \<Rightarrow> bool" where
  "start_fails x = (case x of OpenStream lib \<Rightarrow> sl_start lib \<noteq> None | ReadChunk lib _ \<Rightarrow> sl_start lib \<noteq> None
     | CloseStream _ _ \<Rightarrow> False)"

fun built :: "sound_call list \<Rightarrow> nat list" where
  "built [] = []"
| "built (StreamBuilt n d # l) = n # built l"
| "built (_ # l) = built l"

lemma built_append [simp]: "built (l @ l') = built l @ built l'"
  by (induction l rule: built.induct) auto

lemmas stream_defs = start_stream_def seqm_def bindm_def modify_def raise_def ret_def

text \<open>Opening either leaves the log of built streams, or builds one and then has the stream and is open exactly when
  it started.\<close>

lemma open_capture_cases:
  "let s' = snd (open_capture_stream lib s) in
     built (snd s') = built (snd s) \<and> fst s' = fst s
     \<or> (\<exists>n. \<not> cs_opened (fst s) \<and> sl_built lib = Inr n \<and> built (snd s') = built (snd s) @ [n]
          \<and> fst s' = (fst s)\<lparr>cs_stream := Some n, cs_opened := (sl_start lib = None)\<rparr>)"
  by (cases s, cases "fst s") (auto simp: open_capture_stream_def stream_defs Let_def
      split: sum.splits option.splits)

lemma read_state:
  "snd (core_read_chunk lib reading s) = (if cs_opened (fst s) then s else snd (open_capture_stream lib s))"
  by (auto simp: core_read_chunk_def seqm_def bindm_def ret_def raise_def split: prod.splits sum.splits option.splits)

lemma close_state:
  assumes "stopped \<noteq> Some Cancelled" and "shut \<noteq> Some Cancelled"
  shows "fst (snd (close_stream stopped shut s)) = (fst s)\<lparr>cs_stream := None\<rparr>
    \<and> built (snd (snd (close_stream stopped shut s))) = built (snd s)
    \<and> fst (close_stream stopped shut s) = Inr ()"
  using assms by (cases s; cases "fst s")
    (auto simp: close_stream_def finallym_def suppress_def catchm_def is_exception_def ret_def raise_def modify_def
      split: option.splits)

lemma close_built:
  "built (snd (snd (close_stream stopped shut s))) = built (snd s) \<and> cs_opened (fst (snd (close_stream stopped shut s))) = cs_opened (fst s)"
  by (cases s) (auto simp: close_stream_def finallym_def suppress_def catchm_def is_exception_def ret_def raise_def modify_def
      split: option.splits)

lemma capture_step_built:
  "let s' = capture_step x s in
     length (built (snd s')) + (if cs_opened (fst s') then 0 else 1)
       \<le> length (built (snd s)) + (if cs_opened (fst s) then 0 else 1) + (if start_fails x then 1 else 0)"
proof (cases x)
  case (OpenStream lib)
  with open_capture_cases [of lib s] show ?thesis
    by (auto simp: capture_step_def start_fails_def Let_def)
next
  case (ReadChunk lib reading)
  with open_capture_cases [of lib s] show ?thesis
    by (auto simp: capture_step_def start_fails_def read_state Let_def)
next
  case (CloseStream stopped shut)
  with close_built [of stopped shut s] show ?thesis
    by (simp add: capture_step_def start_fails_def)
qed

lemma fold_capture_built:
  "length (built (snd (fold capture_step xs s))) + (if cs_opened (fst (fold capture_step xs s)) then 0 else 1)
     \<le> length (built (snd s)) + (if cs_opened (fst s) then 0 else 1) + length (filter start_fails xs)"
proof (induction xs arbitrary: s)
  case (Cons x xs)
  from Cons [of "capture_step x s"] capture_step_built [of x s] show ?case by (auto simp: Let_def split: if_splits)
qed simp

text \<open>However a capture is opened, read and closed, the number of streams it builds is at most one plus the starts
  that failed: an opened stream is never opened again, not even after a close, while a stream that was built but did not
  start is forgotten by the next opening.\<close>

theorem capture_builds_one_stream:
  "length (built (snd (fold capture_step xs (core_init d b, [])))) \<le> 1 + length (filter start_fails xs)"
  using fold_capture_built [of xs "(core_init d b, [])"] by (simp add: core_init_def split: if_splits)

text \<open>The life of a capture that opens: a read gives what the library reads for one block and leaves the stream open; a
  close stops and closes that stream and never raises an \<open>Exception\<close>; every read after it, whatever the library would
  answer, fails on the assertion, since the closed capture still counts as opened.\<close>

theorem capture_life:
  assumes "sl_installed lib" and "chosen_device (core_init d b) lib = Inr dev" and "sl_built lib = Inr n" and "sl_start lib = None"
    and "reading n b = Inr (chunk, over)"
    and "core_read_chunk lib reading (core_init d b, []) = (r, s)" and "close_stream None None s = (r', t)"
  shows "r = Inr chunk \<and> cs_stream (fst s) = Some n \<and> snd s = [StreamBuilt n dev, StreamStarted n]
    \<and> r' = Inr () \<and> snd t = [StreamBuilt n dev, StreamStarted n, StreamStopped n, StreamClosed n]
    \<and> core_read_chunk lib' reading' t = (Inl (OtherError ''AssertionError''), t)"
proof -
  let ?s = "((core_init d b)\<lparr>cs_stream := Some n, cs_opened := True\<rparr>, [StreamBuilt n dev, StreamStarted n])"
  have s: "r = Inr chunk" "s = ?s"
    using assms by (auto simp: core_read_chunk_def open_capture_stream_def stream_defs core_init_def Let_def)
  have t: "r' = Inr ()" "t = ((core_init d b)\<lparr>cs_opened := True\<rparr>,
      [StreamBuilt n dev, StreamStarted n, StreamStopped n, StreamClosed n])"
    using assms(7) by (auto simp: s(2) close_stream_def finallym_def suppress_def catchm_def ret_def modify_def core_init_def)
  show ?thesis
    by (simp add: s t core_read_chunk_def seqm_def bindm_def ret_def raise_def core_init_def)
qed

definition core_lib_ex :: sound_library where
  "core_lib_ex = \<lparr>sl_installed = True, sl_devices = Inr [''Built-in Microphone'', ''SIMCom USB audio''],
     sl_default = DevicePair 0 1, sl_built = Inr 5, sl_start = None\<rparr>"

lemma capture_life_witness:
  "\<exists>s t. core_read_chunk core_lib_ex (\<lambda>n k. Inr (replicate k 7, False)) (core_init (Some (DeviceIndex 1)) 2, []) = (Inr [7, 7], s)
     \<and> close_stream None None s = (Inr (), t)
     \<and> snd t = [StreamBuilt 5 (DeviceIndex 1), StreamStarted 5, StreamStopped 5, StreamClosed 5]
     \<and> core_read_chunk core_lib_ex (\<lambda>n k. Inr ([], False)) t = (Inl (OtherError ''AssertionError''), t)"
proof -
  let ?rd = "\<lambda>n k. Inr (replicate k 7, False) :: pyexn + bytes \<times> bool"
  let ?c = "core_init (Some (DeviceIndex 1)) 2"
  obtain r s where r: "core_read_chunk core_lib_ex ?rd (?c, []) = (r, s)" by (rule prod.exhaust)
  obtain r' t where c: "close_stream None None s = (r', t)" by (rule prod.exhaust)
  have dev: "chosen_device ?c core_lib_ex = Inr (DeviceIndex 1)" by (simp add: chosen_device_def core_init_def)
  have "replicate 2 (7 :: byte) = [7, 7]" by (simp add: numeral_2_eq_2)
  with capture_life [OF _ dev _ _ _ r c, of 5 "[7, 7]" False core_lib_ex "\<lambda>n k. Inr ([], False)"] r c
  show ?thesis by (intro exI [of _ s] exI [of _ t]) (auto simp: core_lib_ex_def)
qed

text \<open>A stream that is built but does not start is replaced at the next opening and never closed.\<close>

lemma failed_start_leaks:
  assumes "sl_installed lib" and "sl_built lib = Inr 1" and "sl_start lib = Some e"
  shows "snd (fold capture_step [OpenStream lib, OpenStream (lib\<lparr>sl_built := Inr 2, sl_start := None\<rparr>), CloseStream None None]
      (core_init (Some dev) k, [])) = [StreamBuilt 1 dev, StreamBuilt 2 dev, StreamStarted 2, StreamStopped 2, StreamClosed 2]"
  using assms by (simp add: capture_step_def open_capture_stream_def stream_defs Let_def close_stream_def finallym_def
      suppress_def catchm_def core_init_def chosen_device_def)

end
