(* ===== verification/Device_Table.thy ===== *)
theory Device_Table imports Prelude begin

text \<open>
  The device side of the telephony service: the rows of the shared database that this repository reads and
  writes, the REST handlers of \<open>api/routers\<close>, the health scan of \<open>api/health_monitor.py\<close>, the JWT check of
  \<open>common/auth.py\<close> and the heartbeat of \<open>modem_controller/heartbeat.py\<close>. The tables are lists of rows;
  columns the code never names are one opaque field. A request runs in one session, which commits when
  the handler returns and rolls back when it raises.
\<close>

section \<open>Rows and sessions\<close>

text \<open>The statuses the code names; the enumeration itself belongs to another package.\<close>

datatype device_status = UNKNOWN | IDLE | DIALING | IN_CALL | OFFLINE | FLAGGED | OtherStatus string

datatype sim_status = ACTIVE | OtherSimStatus string

record 'x device =
  dv_id :: nat
  dv_usb_port :: "string option"
  dv_status :: device_status
  dv_last_seen :: "nat option"
  dv_last_call :: "nat option"
  dv_columns :: 'x

record 'y sim =
  sm_id :: nat
  sm_carrier :: string
  sm_status :: sim_status
  sm_phone :: "string option"
  sm_columns :: 'y

record binding =
  bn_id :: nat
  bn_device :: nat
  bn_sim :: nat
  bn_active :: bool

record ('x, 'y) database =
  db_devices :: "'x device list"
  db_sims :: "'y sim list"
  db_bindings :: "binding list"
  db_members :: "(nat \<times> nat) list"
  db_next :: nat

definition get_row :: "('r \<Rightarrow> nat) \<Rightarrow> nat \<Rightarrow> 'r list \<Rightarrow> 'r option" where
  "get_row key i rows = find (\<lambda>r. key r = i) rows"

definition set_row :: "('r \<Rightarrow> nat) \<Rightarrow> nat \<Rightarrow> ('r \<Rightarrow> 'r) \<Rightarrow> 'r list \<Rightarrow> 'r list" where
  "set_row key i f rows = map (\<lambda>r. if key r = i then f r else r) rows"

definition del_row :: "('r \<Rightarrow> nat) \<Rightarrow> nat \<Rightarrow> 'r list \<Rightarrow> 'r list" where
  "del_row key i rows = filter (\<lambda>r. key r \<noteq> i) rows"

text \<open>\<open>get_session\<close>: commit on return, roll back on an exception.\<close>

definition with_session :: "('d, 'a) proc \<Rightarrow> ('d, 'a) proc" where
  "with_session m db = (case m db of (Inl e, _) \<Rightarrow> (Inl e, db) | (Inr x, db') \<Rightarrow> (Inr x, db'))"

text \<open>\<open>current_user\<close> over the JWT verification of the shared package.\<close>

definition current_user :: "(string \<Rightarrow> string \<Rightarrow> string + 'c) \<Rightarrow> string option \<Rightarrow> string \<Rightarrow> pyexn + 'c" where
  "current_user verify_jwt secret token = (case secret of
       None \<Rightarrow> Inl (RuntimeError ''ISALES_JWT_SECRET is not set'')
     | Some s \<Rightarrow> if s = [] then Inl (RuntimeError ''ISALES_JWT_SECRET is not set'')
         else (case verify_jwt token s of Inl m \<Rightarrow> Inl (HttpError 401 m) | Inr c \<Rightarrow> Inr c))"


section \<open>Devices and SIM cards\<close>

record 'r page =
  pg_items :: "'r list"
  pg_total :: nat
  pg_page :: int
  pg_size :: int

text \<open>\<open>order_by(id).offset((page - 1) * page_size).limit(page_size)\<close> behind the bounds of the query parameters.\<close>

definition list_rows :: "('r \<Rightarrow> nat) \<Rightarrow> ('r \<Rightarrow> bool) \<Rightarrow> int \<Rightarrow> int \<Rightarrow> 'r list \<Rightarrow> pyexn + 'r page" where
  "list_rows key keep page page_size rows =
     (if page < 1 \<or> page_size < 1 \<or> 200 < page_size then Inl (HttpError 422 ''query'')
      else let rs = sort_key key (filter keep rows)
           in Inr \<lparr>pg_items = take (nat page_size) (drop (nat ((page - 1) * page_size)) rs), pg_total = length rs,
                pg_page = page, pg_size = page_size\<rparr>)"

definition list_devices ::
  "device_status option \<Rightarrow> int \<Rightarrow> int \<Rightarrow> ('x, 'y) database \<Rightarrow> pyexn + 'x device page" where
  "list_devices status page page_size db =
     list_rows dv_id (\<lambda>d. case status of None \<Rightarrow> True | Some s \<Rightarrow> dv_status d = s) page page_size (db_devices db)"

definition list_sim_cards ::
  "string option \<Rightarrow> sim_status option \<Rightarrow> int \<Rightarrow> int \<Rightarrow> ('x, 'y) database \<Rightarrow> pyexn + 'y sim page" where
  "list_sim_cards carrier status page page_size db =
     list_rows sm_id (\<lambda>s. (case carrier of None \<Rightarrow> True | Some c \<Rightarrow> sm_carrier s = c)
        \<and> (case status of None \<Rightarrow> True | Some t \<Rightarrow> sm_status s = t)) page page_size (db_sims db)"

definition list_bindings :: "nat option \<Rightarrow> nat option \<Rightarrow> bool \<Rightarrow> ('x, 'y) database \<Rightarrow> binding list" where
  "list_bindings device sim active_only db = sort_key bn_id (filter (\<lambda>b.
      (case device of None \<Rightarrow> True | Some d \<Rightarrow> bn_device b = d)
      \<and> (case sim of None \<Rightarrow> True | Some s \<Rightarrow> bn_sim b = s) \<and> (active_only \<longrightarrow> bn_active b)) (db_bindings db))"

definition get_device :: "nat \<Rightarrow> (('x, 'y) database, 'x device) proc" where
  "get_device i db = (case get_row dv_id i (db_devices db) of
       None \<Rightarrow> raise (HttpError 404 ''device_not_found'') db | Some d \<Rightarrow> ret d db)"

text \<open>A flush that breaks a constraint of the schema raises; \<open>ok\<close> is that check.\<close>

definition flush_devices :: "('x device list \<Rightarrow> bool) \<Rightarrow> (('x, 'y) database, unit) proc" where
  "flush_devices ok db = (if ok (db_devices db) then ret () db else raise (OtherError ''IntegrityError'') db)"

definition create_device :: "('x device list \<Rightarrow> bool) \<Rightarrow> 'x device \<Rightarrow> (('x, 'y) database, 'x device) proc" where
  "create_device ok payload db =
     (let d = payload\<lparr>dv_id := db_next db, dv_status := UNKNOWN\<rparr>
      in seqm (modify (\<lambda>s. s\<lparr>db_devices := db_devices s @ [d], db_next := db_next s + 1\<rparr>))
          (seqm (flush_devices ok) (ret d)) db)"

definition update_device ::
  "('x device list \<Rightarrow> bool) \<Rightarrow> nat \<Rightarrow> ('x device \<Rightarrow> 'x device) \<Rightarrow> (('x, 'y) database, 'x device) proc" where
  "update_device ok i set_fields =
     bindm (get_device i) (\<lambda>d. seqm (modify (\<lambda>s. s\<lparr>db_devices := set_row dv_id i set_fields (db_devices s)\<rparr>))
       (seqm (flush_devices ok) (ret (set_fields d))))"

definition delete_device :: "nat \<Rightarrow> (('x, 'y) database, unit) proc" where
  "delete_device i =
     bindm (get_device i) (\<lambda>_. modify (\<lambda>s. s\<lparr>db_devices := del_row dv_id i (db_devices s)\<rparr>))"

definition device_heartbeat :: "nat \<Rightarrow> nat \<Rightarrow> (('x, 'y) database, unit) proc" where
  "device_heartbeat now i =
     bindm (get_device i) (\<lambda>_. modify (\<lambda>s. s\<lparr>db_devices :=
       set_row dv_id i (\<lambda>d. d\<lparr>dv_last_seen := Some now\<rparr>) (db_devices s)\<rparr>))"

definition get_sim :: "nat \<Rightarrow> (('x, 'y) database, 'y sim) proc" where
  "get_sim i db = (case get_row sm_id i (db_sims db) of
       None \<Rightarrow> raise (HttpError 404 ''sim_card_not_found'') db | Some s \<Rightarrow> ret s db)"

definition flush_sims :: "('y sim list \<Rightarrow> bool) \<Rightarrow> (('x, 'y) database, unit) proc" where
  "flush_sims ok db = (if ok (db_sims db) then ret () db else raise (OtherError ''IntegrityError'') db)"

definition create_sim :: "('y sim list \<Rightarrow> bool) \<Rightarrow> 'y sim \<Rightarrow> (('x, 'y) database, 'y sim) proc" where
  "create_sim ok payload db =
     (let s = payload\<lparr>sm_id := db_next db, sm_status := ACTIVE\<rparr>
      in seqm (modify (\<lambda>u. u\<lparr>db_sims := db_sims u @ [s], db_next := db_next u + 1\<rparr>))
          (seqm (flush_sims ok) (ret s)) db)"

definition update_sim ::
  "('y sim list \<Rightarrow> bool) \<Rightarrow> nat \<Rightarrow> ('y sim \<Rightarrow> 'y sim) \<Rightarrow> (('x, 'y) database, 'y sim) proc" where
  "update_sim ok i set_fields =
     bindm (get_sim i) (\<lambda>c. seqm (modify (\<lambda>s. s\<lparr>db_sims := set_row sm_id i set_fields (db_sims s)\<rparr>))
       (seqm (flush_sims ok) (ret (set_fields c))))"

definition delete_sim :: "nat \<Rightarrow> (('x, 'y) database, unit) proc" where
  "delete_sim i = bindm (get_sim i) (\<lambda>_. modify (\<lambda>s. s\<lparr>db_sims := del_row sm_id i (db_sims s)\<rparr>))"


section \<open>Reserving a device\<close>

text \<open>The join of \<open>select_device\<close>, with the rows other transactions hold locked left out, and the order
  \<open>last_call_at ASC NULLS FIRST\<close>; the database leaves the order of equal rows open, here the stored order.\<close>

definition select_rows :: "nat \<Rightarrow> (nat \<Rightarrow> bool) \<Rightarrow> ('x, 'y) database \<Rightarrow> ('x device \<times> string option) list" where
  "select_rows campaign locked db = [(d, sm_phone s).
     d \<leftarrow> db_devices db, dv_status d = IDLE \<and> \<not> locked (dv_id d),
     m \<leftarrow> db_members db, m = (campaign, dv_id d),
     b \<leftarrow> db_bindings db, bn_device b = dv_id d \<and> bn_active b,
     s \<leftarrow> db_sims db, sm_id s = bn_sim b]"

definition last_call_key :: "'x device \<Rightarrow> nat" where
  "last_call_key d = (case dv_last_call d of None \<Rightarrow> 0 | Some t \<Rightarrow> Suc t)"

definition select_device ::
  "nat \<Rightarrow> (nat \<Rightarrow> bool) \<Rightarrow> nat \<Rightarrow> (('x, 'y) database, nat \<times> string) proc" where
  "select_device now locked campaign db =
     (case sort_key (\<lambda>r. last_call_key (fst r)) (select_rows campaign locked db) of
        [] \<Rightarrow> raise (HttpError 503 ''no_idle_device'') db
      | (d, phone) # _ \<Rightarrow> (case phone of
          None \<Rightarrow> raise (HttpError 503 ''no_idle_device'') db
        | Some number \<Rightarrow> ret (dv_id d, number) (db\<lparr>db_devices := set_row dv_id (dv_id d)
            (\<lambda>d. d\<lparr>dv_last_call := Some now, dv_status := DIALING\<rparr>) (db_devices db)\<rparr>)))"


section \<open>Background writers\<close>

text \<open>One device of \<open>scan_devices\<close>, and the scan; \<open>health\<close> is \<open>health_fn\<close>.\<close>

definition compute_health :: "nat \<Rightarrow> pyexn + bool" where
  "compute_health i = Inr True"

definition flag_device :: "nat \<Rightarrow> ('x, 'y) database \<Rightarrow> ('x, 'y) database" where
  "flag_device i db = (case get_row dv_id i (db_devices db) of
       None \<Rightarrow> db
     | Some d \<Rightarrow> if dv_status d = FLAGGED then db
         else db\<lparr>db_devices := set_row dv_id i (\<lambda>d. d\<lparr>dv_status := FLAGGED\<rparr>) (db_devices db)\<rparr>)"

fun scan_ids :: "(nat \<Rightarrow> pyexn + bool) \<Rightarrow> nat list \<Rightarrow> (('x, 'y) database, unit) proc" where
  "scan_ids health [] db = ret () db"
| "scan_ids health (i # is) db = (case health i of
       Inl e \<Rightarrow> if is_exception e then scan_ids health is db else raise e db
     | Inr healthy \<Rightarrow> scan_ids health is (if healthy then db else flag_device i db))"

definition scan_devices :: "(nat \<Rightarrow> pyexn + bool) \<Rightarrow> (('x, 'y) database, unit) proc" where
  "scan_devices health db = scan_ids health (map dv_id (db_devices db)) db"

text \<open>\<open>_set_device_status\<close> of the IPC handlers: nothing without a database or a device.\<close>

definition set_device_status :: "bool \<Rightarrow> nat option \<Rightarrow> device_status \<Rightarrow> ('x, 'y) database \<Rightarrow> ('x, 'y) database" where
  "set_device_status have_db device status db = (case device of
       None \<Rightarrow> db
     | Some i \<Rightarrow> if \<not> have_db \<or> get_row dv_id i (db_devices db) = None then db
         else db\<lparr>db_devices := set_row dv_id i (\<lambda>d. d\<lparr>dv_status := status\<rparr>) (db_devices db)\<rparr>)"

text \<open>The heartbeat loop: one tick posts for every device listed at that moment and swallows failures.
  \<open>None\<close> iterations run for ever; the model takes the device lists of the ticks that ran.\<close>

fun heartbeat_tick :: "(nat \<Rightarrow> int option \<Rightarrow> ('s, unit) proc) \<Rightarrow> (nat \<Rightarrow> int option) \<Rightarrow> nat list \<Rightarrow> ('s, unit) proc" where
  "heartbeat_tick post sig [] = ret ()"
| "heartbeat_tick post sig (i # is) = seqm (suppress (post i (sig i))) (heartbeat_tick post sig is)"

fun heartbeat_loop :: "(nat \<Rightarrow> int option \<Rightarrow> ('s, unit) proc) \<Rightarrow> (nat \<Rightarrow> int option) \<Rightarrow> nat list list \<Rightarrow> ('s, unit) proc" where
  "heartbeat_loop post sig [] = ret ()"
| "heartbeat_loop post sig (ids # ticks) = seqm (heartbeat_tick post sig ids) (heartbeat_loop post sig ticks)"

text \<open>The poster of production: \<open>PATCH /devices/{id}/heartbeat\<close>, handled in a session of the API. A signal
  strength outside 0..99 is refused by the payload's bounds.\<close>

definition http_heartbeat :: "nat \<Rightarrow> nat \<Rightarrow> int option \<Rightarrow> (('x, 'y) database, unit) proc" where
  "http_heartbeat now i sig = (case sig of
       Some v \<Rightarrow> if v < 0 \<or> 99 < v then raise (HttpError 422 ''signal_strength'') else with_session (device_heartbeat now i)
     | None \<Rightarrow> with_session (device_heartbeat now i))"


section \<open>Lemmas on rows\<close>

lemma get_row_Some: "get_row key i rows = Some r \<Longrightarrow> r \<in> set rows \<and> key r = i"
  unfolding get_row_def by (induction rows) (auto split: if_splits)

lemma get_row_None: "get_row key i rows = None \<longleftrightarrow> i \<notin> key ` set rows"
  unfolding get_row_def by (induction rows) auto

lemma get_row_unique: "distinct (map key rows) \<Longrightarrow> r \<in> set rows \<Longrightarrow> key r = i \<Longrightarrow> get_row key i rows = Some r"
  unfolding get_row_def by (induction rows) auto

lemma get_set_row: "key (f r) = key r \<Longrightarrow> get_row key i rows = Some r \<Longrightarrow> get_row key i (set_row key i f rows) = Some (f r)"
  unfolding get_row_def set_row_def by (induction rows) (auto split: if_splits)

lemma set_row_absent: "i \<notin> key ` set rows \<Longrightarrow> set_row key i f rows = rows"
  unfolding set_row_def by (induction rows) auto

lemma set_row_keys [simp]: "(\<And>r. key (f r) = key r) \<Longrightarrow> map key (set_row key i f rows) = map key rows"
  unfolding set_row_def by (induction rows) auto

lemma device_heartbeat_run:
  "device_heartbeat now i db = (if i \<in> dv_id ` set (db_devices db)
     then (Inr (), db\<lparr>db_devices := set_row dv_id i (\<lambda>d. d\<lparr>dv_last_seen := Some now\<rparr>) (db_devices db)\<rparr>)
     else (Inl (HttpError 404 ''device_not_found''), db))"
proof (cases "get_row dv_id i (db_devices db)")
  case None
  then have "i \<notin> dv_id ` set (db_devices db)" by (simp add: get_row_None)
  with None show ?thesis by (simp add: device_heartbeat_def get_device_def method_defs)
next
  case (Some d)
  then have "i \<in> dv_id ` set (db_devices db)" using get_row_Some [OF Some] by blast
  with Some show ?thesis by (simp add: device_heartbeat_def get_device_def method_defs)
qed


section \<open>Listing\<close>

lemma concat_pages:
  "concat (map (\<lambda>p. take n (drop (p * n) xs)) [0..<k]) = take (k * n) xs"
proof (induction k)
  case (Suc k)
  have "take (k * n) xs @ take n (drop (k * n) xs) = take (k * n + n) xs" by (rule take_add [symmetric])
  with Suc show ?case by (simp add: add.commute)
qed simp

text \<open>Paging loses and repeats nothing: with a legal page size the first \<open>k\<close> pages of a listing are together
  the first \<open>k * size\<close> matching devices in the order of their identifiers, and every page names the same
  total; a page number or size out of bounds is refused.\<close>

theorem pages_partition_listing:
  "(1 \<le> page_size \<and> page_size \<le> 200 \<longrightarrow>
      concat (map (\<lambda>p. case list_devices status (int p + 1) page_size db of Inr pg \<Rightarrow> pg_items pg | Inl _ \<Rightarrow> []) [0..<k])
        = take (k * nat page_size) (sort_key dv_id (filter (\<lambda>d. case status of None \<Rightarrow> True | Some s \<Rightarrow> dv_status d = s) (db_devices db)))
      \<and> (\<forall>p \<ge> 1. \<exists>pg. list_devices status p page_size db = Inr pg
          \<and> pg_total pg = length (filter (\<lambda>d. case status of None \<Rightarrow> True | Some s \<Rightarrow> dv_status d = s) (db_devices db))))
   \<and> (page < 1 \<or> page_size < 1 \<or> 200 < page_size \<longrightarrow> list_devices status page page_size db = Inl (HttpError 422 ''query''))"
proof -
  let ?keep = "\<lambda>d. case status of None \<Rightarrow> True | Some s \<Rightarrow> dv_status d = s"
  let ?rs = "sort_key dv_id (filter ?keep (db_devices db))"
  have item: "(case list_devices status (int p + 1) page_size db of Inr pg \<Rightarrow> pg_items pg | Inl _ \<Rightarrow> [])
      = take (nat page_size) (drop (p * nat page_size) ?rs)" if "1 \<le> page_size" "page_size \<le> 200" for p
    using that by (simp add: list_devices_def list_rows_def Let_def nat_mult_distrib)
  have "concat (map (\<lambda>p. case list_devices status (int p + 1) page_size db of Inr pg \<Rightarrow> pg_items pg | Inl _ \<Rightarrow> []) [0..<k])
      = take (k * nat page_size) ?rs" if b: "1 \<le> page_size" "page_size \<le> 200"
    by (simp only: item [OF b] concat_pages)
  then show ?thesis
    by (simp add: list_devices_def list_rows_def Let_def)
qed

definition device_ex :: "nat \<Rightarrow> device_status \<Rightarrow> nat option \<Rightarrow> unit device" where
  "device_ex i s t = \<lparr>dv_id = i, dv_usb_port = Some (''tty'' @ nat_str i), dv_status = s, dv_last_seen = None,
     dv_last_call = t, dv_columns = ()\<rparr>"

definition db_ex :: "(unit, unit) database" where
  "db_ex = \<lparr>db_devices = [device_ex 1 IDLE (Some 9), device_ex 2 IDLE None, device_ex 3 OFFLINE None],
     db_sims = [\<lparr>sm_id = 5, sm_carrier = ''c'', sm_status = ACTIVE, sm_phone = Some ''139'', sm_columns = ()\<rparr>,
       \<lparr>sm_id = 6, sm_carrier = ''c'', sm_status = ACTIVE, sm_phone = Some ''138'', sm_columns = ()\<rparr>],
     db_bindings = [\<lparr>bn_id = 1, bn_device = 1, bn_sim = 5, bn_active = True\<rparr>,
       \<lparr>bn_id = 2, bn_device = 2, bn_sim = 6, bn_active = True\<rparr>],
     db_members = [(7, 1), (7, 2), (7, 3)], db_next = 10\<rparr>"

lemma pages_partition_listing_witness:
  "concat (map (\<lambda>p. case list_devices (Some IDLE) (int p + 1) 1 db_ex of Inr pg \<Rightarrow> map dv_id (pg_items pg) | Inl _ \<Rightarrow> []) [0..<2])
    = [1, 2]"
proof -
  have "concat (map (\<lambda>p. case list_devices (Some IDLE) (int p + 1) 1 db_ex of Inr pg \<Rightarrow> pg_items pg | Inl _ \<Rightarrow> []) [0..<2])
      = take (2 * nat 1) (sort_key dv_id (filter (\<lambda>d. dv_status d = IDLE) (db_devices db_ex)))"
    using pages_partition_listing [of 1 "Some IDLE" db_ex 2] by simp
  also have "map dv_id \<dots> = [1, 2]" by code_simp
  finally have "map dv_id (concat (map (\<lambda>p. case list_devices (Some IDLE) (int p + 1) 1 db_ex of
      Inr pg \<Rightarrow> pg_items pg | Inl _ \<Rightarrow> []) [0..<2])) = [1, 2]" .
  then show ?thesis by (simp add: map_concat comp_def list_devices_def list_rows_def Let_def)
qed


section \<open>Reservation\<close>

lemma in_select_rows:
  "(d, ph) \<in> set (select_rows c locked db) \<longleftrightarrow> d \<in> set (db_devices db) \<and> dv_status d = IDLE \<and> \<not> locked (dv_id d)
     \<and> (c, dv_id d) \<in> set (db_members db)
     \<and> (\<exists>b \<in> set (db_bindings db). bn_device b = dv_id d \<and> bn_active b \<and> (\<exists>s \<in> set (db_sims db). sm_id s = bn_sim b \<and> ph = sm_phone s))"
  unfolding select_rows_def by (auto split: if_splits)

lemma first_selected:
  assumes "sort_key (\<lambda>r. last_call_key (fst r)) (select_rows c locked db) = (d, ph) # rest"
  shows "(d, ph) \<in> set (select_rows c locked db)"
    and "e \<in> set (select_rows c locked db) \<Longrightarrow> last_call_key d \<le> last_call_key (fst e)"
proof -
  let ?f = "\<lambda>r. last_call_key (fst r)"
  have "set (sort_key ?f (select_rows c locked db)) = set ((d, ph) # rest)" by (simp only: assms)
  then show "(d, ph) \<in> set (select_rows c locked db)" by simp
  have "sorted (map ?f (sort_key ?f (select_rows c locked db)))" by simp
  then have "\<forall>e \<in> set ((d, ph) # rest). last_call_key d \<le> last_call_key (fst e)" by (simp add: assms)
  then show "e \<in> set (select_rows c locked db) \<Longrightarrow> last_call_key d \<le> last_call_key (fst e)"
    using \<open>set (sort_key ?f (select_rows c locked db)) = set ((d, ph) # rest)\<close> by auto
qed




section \<open>Heartbeats\<close>

definition sig_ok :: "int option \<Rightarrow> bool" where
  "sig_ok sig \<longleftrightarrow> (case sig of None \<Rightarrow> True | Some v \<Rightarrow> 0 \<le> v \<and> v \<le> 99)"

definition seen :: "nat \<Rightarrow> bool \<Rightarrow> 'x device \<Rightarrow> 'x device" where
  "seen now b d = (if b then d\<lparr>dv_last_seen := Some now\<rparr> else d)"

lemma heartbeat_post:
  "snd (suppress (http_heartbeat now i sig) db)
     = db\<lparr>db_devices := map (\<lambda>d. seen now (dv_id d = i \<and> sig_ok sig) d) (db_devices db)\<rparr>
   \<and> fst (suppress (http_heartbeat now i sig) db) = Inr ()"
  by (auto simp: http_heartbeat_def with_session_def device_heartbeat_run suppress_def catchm_def raise_def ret_def
      is_exception_def sig_ok_def seen_def set_row_def set_row_absent [unfolded set_row_def]
      split: option.splits intro!: database.equality map_cong)

lemma seen_seen:
  "seen now b2 (seen now b1 d) = seen now (b1 \<or> b2) d" "dv_id (seen now b d) = dv_id d"
  by (simp_all add: seen_def)

lemma heartbeat_tick_run:
  "heartbeat_tick (http_heartbeat now) sig ids db
     = (Inr (), db\<lparr>db_devices := map (\<lambda>d. seen now (dv_id d \<in> set ids \<and> sig_ok (sig (dv_id d))) d) (db_devices db)\<rparr>)"
proof (induction ids arbitrary: db)
  case Nil
  show ?case by (simp add: ret_def seen_def)
next
  case (Cons i ids)
  obtain r db1 where p: "suppress (http_heartbeat now i (sig i)) db = (r, db1)" by fastforce
  with heartbeat_post [of now i "sig i" db] have "r = Inr ()"
    "db1 = db\<lparr>db_devices := map (\<lambda>d. seen now (dv_id d = i \<and> sig_ok (sig i)) d) (db_devices db)\<rparr>" by simp_all
  with p show ?case
    by (auto simp: seqm_def bindm_def Cons.IH seen_seen intro!: database.equality map_cong arg_cong [where f = "\<lambda>b. seen now b _"])
qed

text \<open>The heartbeat loop posting to the API refreshes \<open>last_seen_at\<close> of exactly the listed devices that exist
  and have a legal signal strength, and changes nothing else: no status, no other row, no failure gets out.\<close>

theorem heartbeats_only_refresh_last_seen:
  "heartbeat_loop (http_heartbeat now) sig ticks db = (Inr (), db\<lparr>db_devices :=
     map (\<lambda>d. if dv_id d \<in> set (concat ticks) \<and> sig_ok (sig (dv_id d)) then d\<lparr>dv_last_seen := Some now\<rparr> else d)
       (db_devices db)\<rparr>)"
proof -
  have "heartbeat_loop (http_heartbeat now) sig ticks db = (Inr (), db\<lparr>db_devices :=
     map (\<lambda>d. seen now (dv_id d \<in> set (concat ticks) \<and> sig_ok (sig (dv_id d))) d) (db_devices db)\<rparr>)"
  proof (induction ticks arbitrary: db)
    case Nil
    show ?case by (simp add: ret_def seen_def)
  next
    case (Cons ids ticks)
    show ?case
      by (auto simp: seqm_def bindm_def heartbeat_tick_run Cons.IH seen_seen
          intro!: database.equality map_cong arg_cong [where f = "\<lambda>b. seen now b _"])
  qed
  then show ?thesis by (simp add: seen_def)
qed

end
