(* ===== verification/Usb_Watch.thy ===== *)
theory Usb_Watch imports Device_Table "HOL-Library.AList" begin

text \<open>
  USB discovery: the serial port scans of \<open>platforms/windows_serial.py\<close> and \<open>platforms/macos_iokit.py\<close>, their
  difference as add and remove events, the watchers of the three platforms, the search for the modem's AT
  and audio ports, and \<open>udev_watcher.py\<close>, which turns the events into device rows. A scan is a Python dict:
  an association list in insertion order. What pyserial, pyudev and the AT probe answer are inputs.
\<close>

section \<open>Scans\<close>

record port_info =
  pi_device :: string
  pi_vid :: "nat option"
  pi_pid :: "nat option"
  pi_serial :: "string option"
  pi_description :: "string option"

record port_identity =
  id_node :: string
  id_vid :: "string option"
  id_pid :: "string option"
  id_serial :: "string option"

record udev_event =
  ue_action :: string
  ue_node :: "string option"
  ue_vid :: "string option"
  ue_pid :: "string option"

type_synonym scan = "(string \<times> port_identity) list"

definition hex_digit :: "nat \<Rightarrow> char" where
  "hex_digit d = char_of (if d < 10 then 48 + d else 87 + d)"

fun hex_str :: "nat \<Rightarrow> string" where
  "hex_str n = (if n < 16 then [hex_digit n] else hex_str (n div 16) @ [hex_digit (n mod 16)])"

declare hex_str.simps [simp del]

text \<open>\<open>f"{value:04x}"\<close>.\<close>

definition vid_pid_hex :: "nat option \<Rightarrow> string option" where
  "vid_pid_hex v = map_option (\<lambda>n. replicate (4 - length (hex_str n)) (CHR ''0'') @ hex_str n) v"

definition identity_from_port :: "port_info \<Rightarrow> port_identity" where
  "identity_from_port p = \<lparr>id_node = pi_device p, id_vid = vid_pid_hex (pi_vid p), id_pid = vid_pid_hex (pi_pid p),
     id_serial = pi_serial p\<rparr>"

fun scan_into :: "scan \<Rightarrow> port_info list \<Rightarrow> scan" where
  "scan_into out [] = out"
| "scan_into out (p # ps) = (if pi_vid p = None then scan_into out ps
     else scan_into (AList.update (pi_device p) (identity_from_port p) out) ps)"

definition scan_ports :: "port_info list \<Rightarrow> scan" where
  "scan_ports ports = scan_into [] ports"

definition usb_event :: "string \<Rightarrow> string \<times> port_identity \<Rightarrow> udev_event" where
  "usb_event action ni = \<lparr>ue_action = action, ue_node = Some (fst ni), ue_vid = id_vid (snd ni), ue_pid = id_pid (snd ni)\<rparr>"

definition diff_scans :: "scan \<Rightarrow> scan \<Rightarrow> udev_event list" where
  "diff_scans prev cur =
     map (usb_event ''remove'') (filter (\<lambda>(node, i). case map_of cur node of None \<Rightarrow> True | Some c \<Rightarrow> c \<noteq> i) prev)
     @ map (usb_event ''add'') (filter (\<lambda>(node, i). case map_of prev node of None \<Rightarrow> True | Some p \<Rightarrow> p \<noteq> i) cur)"

text \<open>The twins of these functions in \<open>macos_iokit.py\<close>, written as two loops that append.\<close>

definition mac_vid_pid_hex :: "nat option \<Rightarrow> string option" where
  "mac_vid_pid_hex v = (case v of None \<Rightarrow> None | Some n \<Rightarrow> vid_pid_hex (Some n))"

definition mac_identity_from_port :: "port_info \<Rightarrow> port_identity" where
  "mac_identity_from_port p = \<lparr>id_node = pi_device p, id_vid = mac_vid_pid_hex (pi_vid p),
     id_pid = mac_vid_pid_hex (pi_pid p), id_serial = pi_serial p\<rparr>"

fun mac_scan_into :: "scan \<Rightarrow> port_info list \<Rightarrow> scan" where
  "mac_scan_into out [] = out"
| "mac_scan_into out (p # ps) = (case pi_vid p of None \<Rightarrow> mac_scan_into out ps
     | Some _ \<Rightarrow> mac_scan_into (AList.update (pi_device p) (mac_identity_from_port p) out) ps)"

definition mac_scan_ports :: "port_info list \<Rightarrow> scan" where
  "mac_scan_ports ports = mac_scan_into [] ports"

fun mac_diff_loop :: "string \<Rightarrow> scan \<Rightarrow> scan \<Rightarrow> udev_event list \<Rightarrow> udev_event list" where
  "mac_diff_loop action other [] events = events"
| "mac_diff_loop action other ((node, i) # rest) events =
     mac_diff_loop action other rest (if map_of other node = None \<or> map_of other node \<noteq> Some i
       then events @ [usb_event action (node, i)] else events)"

definition mac_diff_scans :: "scan \<Rightarrow> scan \<Rightarrow> udev_event list" where
  "mac_diff_scans prev cur = mac_diff_loop ''add'' prev cur (mac_diff_loop ''remove'' cur prev [])"


section \<open>Watchers\<close>

text \<open>\<open>wt_task\<close> is the poll task, or the observer of the Linux watcher.\<close>

record watcher =
  wt_queue :: "udev_event list option"
  wt_task :: bool
  wt_stopped :: bool

definition watcher_init :: watcher where
  "watcher_init = \<lparr>wt_queue = None, wt_task = False, wt_stopped = False\<rparr>"

definition watcher_error :: "string \<Rightarrow> string \<Rightarrow> pyexn" where
  "watcher_error plat m = WatcherError (''['' @ plat @ ''] '' @ m)"

definition start_watcher :: "string \<Rightarrow> string \<Rightarrow> string \<Rightarrow> bool \<Rightarrow> (watcher, unit) proc" where
  "start_watcher plat cls missing installed w =
     (if wt_task w then raise (watcher_error plat (cls @ ''.start() called twice'')) w
      else if \<not> installed then raise (watcher_error plat missing) w
      else ret () (w\<lparr>wt_queue := Some [], wt_task := True\<rparr>))"

definition watcher_events :: "string \<Rightarrow> (watcher, unit) proc" where
  "watcher_events plat w = (if wt_queue w = None then raise (watcher_error plat ''events() called before start()'') w
     else ret () w)"

definition win_start :: "bool \<Rightarrow> (watcher, unit) proc" where
  "win_start = start_watcher ''win32'' ''WindowsSerialWatcher'' ''pyserial not installed''"

definition win_events :: "(watcher, unit) proc" where "win_events = watcher_events ''win32''"

definition mac_start :: "bool \<Rightarrow> (watcher, unit) proc" where
  "mac_start = start_watcher ''darwin'' ''MacOSIokitWatcher''
     (''pyserial not installed; pip install -e '' @ [CHR 39] @ ''.[macos]'' @ [CHR 39])"

definition mac_events :: "(watcher, unit) proc" where "mac_events = watcher_events ''darwin''"

definition linux_start :: "bool \<Rightarrow> (watcher, unit) proc" where
  "linux_start = start_watcher ''linux'' ''LinuxUdevWatcher''
     (''pyudev not installed; pip install -e '' @ [CHR 39] @ ''.[linux]'' @ [CHR 39])"

definition linux_events :: "(watcher, unit) proc" where "linux_events = watcher_events ''linux''"

definition on_pyudev :: "udev_event \<Rightarrow> watcher \<Rightarrow> watcher" where
  "on_pyudev ev w = w\<lparr>wt_queue := map_option (\<lambda>q. q @ [ev]) (wt_queue w)\<rparr>"

text \<open>The poll loop: the silent first scan, one tick after its sleep, and a run of ticks. A scan that fails
  leaves the previous one in place.\<close>

definition poll_seed :: "pyexn + scan \<Rightarrow> scan" where
  "poll_seed res = (case res of Inl _ \<Rightarrow> [] | Inr s \<Rightarrow> s)"

definition poll_tick :: "(scan \<Rightarrow> scan \<Rightarrow> udev_event list) \<Rightarrow> pyexn + scan \<Rightarrow> scan \<times> watcher \<Rightarrow> scan \<times> watcher" where
  "poll_tick diff res pw = (case pw of (prev, w) \<Rightarrow>
     if wt_stopped w then (prev, w)
     else case res of
         Inl _ \<Rightarrow> (prev, w)
       | Inr cur \<Rightarrow> (cur, w\<lparr>wt_queue := map_option (\<lambda>q. q @ diff prev cur) (wt_queue w)\<rparr>))"

fun poll_loop :: "(scan \<Rightarrow> scan \<Rightarrow> udev_event list) \<Rightarrow> (pyexn + scan) list \<Rightarrow> scan \<times> watcher \<Rightarrow> scan \<times> watcher" where
  "poll_loop diff [] pw = pw"
| "poll_loop diff (r # rs) pw = poll_loop diff rs (poll_tick diff r pw)"

definition win_poll_loop :: "(pyexn + scan) list \<Rightarrow> scan \<times> watcher \<Rightarrow> scan \<times> watcher" where
  "win_poll_loop = poll_loop diff_scans"

definition mac_poll_loop :: "(pyexn + scan) list \<Rightarrow> scan \<times> watcher \<Rightarrow> scan \<times> watcher" where
  "mac_poll_loop = poll_loop mac_diff_scans"

text \<open>One step of \<open>_drain\<close>: nothing once stopped or while the queue is empty.\<close>

definition drain_next :: "watcher \<Rightarrow> udev_event option \<times> watcher" where
  "drain_next w = (if wt_stopped w then (None, w)
     else case wt_queue w of Some (ev # q) \<Rightarrow> (Some ev, w\<lparr>wt_queue := Some q\<rparr>) | _ \<Rightarrow> (None, w))"

definition watcher_stop :: "watcher \<Rightarrow> watcher" where
  "watcher_stop w = w\<lparr>wt_stopped := True, wt_task := False\<rparr>"

datatype watcher_class = LinuxUdevWatcher | MacOSIokitWatcher | WindowsSerialWatcher

definition get_usb_watcher_class :: "string \<Rightarrow> pyexn + watcher_class" where
  "get_usb_watcher_class plat =
     (if plat = ''linux'' then Inr LinuxUdevWatcher else if plat = ''darwin'' then Inr MacOSIokitWatcher
      else if plat = ''win32'' then Inr WindowsSerialWatcher
      else Inl (watcher_error plat (''no UsbDeviceWatcher implementation for platform='' @ [CHR 39] @ plat @ [CHR 39]
        @ ''; supported: linux, darwin, win32'')))"


section \<open>Finding the modem's ports\<close>

definition AUDIO_DESCRIPTION_TOKEN :: string where "AUDIO_DESCRIPTION_TOKEN = ''audio''"
definition AT_DESCRIPTION_TOKEN :: string where "AT_DESCRIPTION_TOKEN = ''at port''"

definition described :: "string \<Rightarrow> port_info \<Rightarrow> bool" where
  "described token p \<longleftrightarrow> contains_str token (lower (case pi_description p of None \<Rightarrow> [] | Some d \<Rightarrow> d))"

fun first_sibling :: "string \<Rightarrow> string option \<Rightarrow> string option \<Rightarrow> port_info list \<Rightarrow> string option" where
  "first_sibling serial vid pid [] = None"
| "first_sibling serial vid pid (p # ps) =
     (if vid_pid_hex (pi_vid p) \<noteq> vid \<or> vid_pid_hex (pi_pid p) \<noteq> pid then first_sibling serial vid pid ps
      else if pi_serial p \<noteq> Some serial then first_sibling serial vid pid ps
      else if \<not> described (lower AUDIO_DESCRIPTION_TOKEN) p then first_sibling serial vid pid ps
      else Some (pi_device p))"

definition find_audio_serial_path ::
  "string option \<Rightarrow> string option \<Rightarrow> string option \<Rightarrow> pyexn + port_info list \<Rightarrow> string option" where
  "find_audio_serial_path serial vid pid scan = (case serial of
       None \<Rightarrow> None
     | Some s \<Rightarrow> if s = [] then None
         else (case scan of Inl _ \<Rightarrow> None | Inr ports \<Rightarrow> first_sibling s vid pid ports))"

text \<open>\<open>_probe_at_ok\<close>: \<open>Inl\<close> when the port cannot be opened, written or read.\<close>

definition probe_at_ok :: "pyexn + string \<Rightarrow> bool" where
  "probe_at_ok answer = (case answer of Inl _ \<Rightarrow> False | Inr resp \<Rightarrow> contains_str ''OK'' resp)"

definition discover_modem_serial_paths ::
  "pyexn + port_info list \<Rightarrow> (string \<Rightarrow> bool) \<Rightarrow> pyexn + (string \<times> string)" where
  "discover_modem_serial_paths scan prober = (case scan of
       Inl e \<Rightarrow> Inl (ModemDiscoveryError ''serial port scan failed'')
     | Inr ports \<Rightarrow>
         let candidates = filter (described AT_DESCRIPTION_TOKEN) ports in
         if candidates = [] then Inl (ModemDiscoveryError ''no AT-command port found'')
         else (case find (\<lambda>p. prober (pi_device p)) candidates of
             None \<Rightarrow> Inl (ModemDiscoveryError ''none answered AT with OK'')
           | Some p \<Rightarrow>
               (case find_audio_serial_path (pi_serial p) (vid_pid_hex (pi_vid p)) (vid_pid_hex (pi_pid p)) (Inr ports) of
                  None \<Rightarrow> Inl (ModemDiscoveryError ''no sibling Audio port'')
                | Some a \<Rightarrow> if a = [] then Inl (ModemDiscoveryError ''no sibling Audio port'')
                    else Inr (pi_device p, a))))"


section \<open>Events and device rows\<close>

definition GSM_MODEM_WHITELIST :: "(string \<times> string) list" where
  "GSM_MODEM_WHITELIST = [(''2c7c'', ''0125''), (''1a86'', ''55d3''), (''12d1'', ''1506''), (''12d1'', ''14db''),
     (''12d1'', ''1c1e''), (''19d2'', ''0117''), (''19d2'', ''1405''), (''1e0e'', ''9001''), (''2c7c'', ''0121''),
     (''2c7c'', ''0306''), (''1546'', ''1146'')]"

definition is_known_modem :: "udev_event \<Rightarrow> bool" where
  "is_known_modem ev \<longleftrightarrow> (case (ue_vid ev, ue_pid ev) of
       (Some v, Some p) \<Rightarrow> v \<noteq> [] \<and> p \<noteq> [] \<and> (lower v, lower p) \<in> set GSM_MODEM_WHITELIST
     | _ \<Rightarrow> False)"

text \<open>\<open>select(Device).where(usb_port == node)\<close> with \<open>scalar_one_or_none\<close>, which raises on two rows.\<close>

definition one_on_port :: "string \<Rightarrow> 'x device list \<Rightarrow> pyexn + 'x device option" where
  "one_on_port node rows = (case filter (\<lambda>d. dv_usb_port d = Some node) rows of
       [] \<Rightarrow> Inr None | [d] \<Rightarrow> Inr (Some d) | _ \<Rightarrow> Inl (OtherError ''MultipleResultsFound''))"

definition update_on_port ::
  "('x device \<Rightarrow> 'x device) \<Rightarrow> string option \<Rightarrow> (('x, 'y) database, unit) proc" where
  "update_on_port f node db = (case node of
       None \<Rightarrow> ret () db
     | Some n \<Rightarrow> (case one_on_port n (db_devices db) of
           Inl e \<Rightarrow> raise e db
         | Inr None \<Rightarrow> ret () db
         | Inr (Some d) \<Rightarrow> ret () (db\<lparr>db_devices := set_row dv_id (dv_id d) f (db_devices db)\<rparr>)))"

definition touch_last_seen :: "nat \<Rightarrow> string option \<Rightarrow> (('x, 'y) database, unit) proc" where
  "touch_last_seen now = update_on_port (\<lambda>d. d\<lparr>dv_last_seen := Some now\<rparr>)"

definition mark_offline :: "string option \<Rightarrow> (('x, 'y) database, unit) proc" where
  "mark_offline = update_on_port (\<lambda>d. d\<lparr>dv_status := OFFLINE\<rparr>)"

definition on_event :: "nat \<Rightarrow> udev_event \<Rightarrow> (('x, 'y) database, unit) proc" where
  "on_event now ev = (if ue_action ev = ''add'' then
       (if \<not> is_known_modem ev then ret () else touch_last_seen now (ue_node ev))
     else if ue_action ev = ''remove'' then mark_offline (ue_node ev)
     else ret ())"

fun consume_events :: "nat \<Rightarrow> udev_event list \<Rightarrow> (('x, 'y) database, unit) proc" where
  "consume_events now [] = ret ()"
| "consume_events now (ev # evs) = seqm (suppress (on_event now ev)) (consume_events now evs)"

definition platform_skip :: "string option \<Rightarrow> bool" where
  "platform_skip env \<longleftrightarrow> env = Some ''1''"

text \<open>\<open>start_udev_watcher\<close>: \<open>None\<close> when skipped, else the started watcher.\<close>

definition start_udev_watcher :: "string option \<Rightarrow> string \<Rightarrow> bool \<Rightarrow> pyexn + watcher option" where
  "start_udev_watcher env plat installed =
     (if platform_skip env then Inr None
      else case get_usb_watcher_class plat of
          Inl e \<Rightarrow> Inl e
        | Inr cls \<Rightarrow> (case (case cls of LinuxUdevWatcher \<Rightarrow> linux_start installed
              | MacOSIokitWatcher \<Rightarrow> mac_start installed | WindowsSerialWatcher \<Rightarrow> win_start installed) watcher_init of
            (Inl e, _) \<Rightarrow> Inl e | (Inr _, w) \<Rightarrow> Inr (Some w)))"


section \<open>What a difference of scans promises\<close>

text \<open>What a consumer of the events knows: the identifiers of the device on each node.\<close>

type_synonym port_view = "string \<Rightarrow> (string option \<times> string option) option"

definition view :: "scan \<Rightarrow> port_view" where
  "view s n = map_option (\<lambda>i. (id_vid i, id_pid i)) (map_of s n)"

definition apply_event :: "port_view \<Rightarrow> udev_event \<Rightarrow> port_view" where
  "apply_event m ev = (case ue_node ev of
       None \<Rightarrow> m
     | Some n \<Rightarrow> if ue_action ev = ''add'' then m(n \<mapsto> (ue_vid ev, ue_pid ev))
         else if ue_action ev = ''remove'' then m(n := None) else m)"

definition scan_ok :: "scan \<Rightarrow> bool" where
  "scan_ok s \<longleftrightarrow> distinct (map fst s)"

lemma scan_into_ok: "scan_ok out \<Longrightarrow> scan_ok (scan_into out ports)"
  by (induction out ports rule: scan_into.induct) (simp_all add: scan_ok_def distinct_update)

lemma scan_ports_ok: "scan_ok (scan_ports ports)"
  unfolding scan_ports_def by (rule scan_into_ok) (simp add: scan_ok_def)

locale scan_difference =
  fixes diff :: "scan \<Rightarrow> scan \<Rightarrow> udev_event list"
  assumes diff_view: "scan_ok prev \<Longrightarrow> scan_ok cur \<Longrightarrow> foldl apply_event (view prev) (diff prev cur) = view cur"
    and diff_same: "scan_ok s \<Longrightarrow> diff s s = []"
begin

definition scans_ok :: "(pyexn + scan) list \<Rightarrow> bool" where
  "scans_ok rs \<longleftrightarrow> (\<forall>s. Inr s \<in> set rs \<longrightarrow> scan_ok s)"

lemma poll_replay:
  "scans_ok rs \<Longrightarrow> scan_ok prev \<Longrightarrow> \<not> wt_stopped w \<Longrightarrow> wt_queue w = Some q \<Longrightarrow> foldl apply_event m q = view prev \<Longrightarrow>
   \<exists>q' w'. poll_loop diff rs (prev, w) = (foldl (\<lambda>p r. case r of Inl _ \<Rightarrow> p | Inr s \<Rightarrow> s) prev rs, w')
     \<and> wt_queue w' = Some (q @ q')
     \<and> foldl apply_event m (q @ q') = view (foldl (\<lambda>p r. case r of Inl _ \<Rightarrow> p | Inr s \<Rightarrow> s) prev rs)"
proof (induction rs arbitrary: prev w q)
  case (Cons r rs)
  have rest: "scans_ok rs" using Cons.prems(1) by (simp add: scans_ok_def)
  show ?case
  proof (cases r)
    case (Inl e)
    from Cons.IH [OF rest Cons.prems(2-5)] show ?thesis
      by (simp add: Inl poll_tick_def Cons.prems(3))
  next
    case (Inr s)
    have s: "scan_ok s" using Cons.prems(1) Inr by (simp add: scans_ok_def)
    let ?w = "w\<lparr>wt_queue := Some (q @ diff prev s)\<rparr>"
    have "foldl apply_event m (q @ diff prev s) = view s"
      by (simp add: Cons.prems(5) diff_view [OF Cons.prems(2) s])
    from Cons.IH [OF rest s _ _ this, of ?w] obtain q' w' where
      "poll_loop diff rs (s, ?w) = (foldl (\<lambda>p r. case r of Inl _ \<Rightarrow> p | Inr s \<Rightarrow> s) s rs, w')"
      "wt_queue w' = Some ((q @ diff prev s) @ q')"
      "foldl apply_event m ((q @ diff prev s) @ q') = view (foldl (\<lambda>p r. case r of Inl _ \<Rightarrow> p | Inr s \<Rightarrow> s) s rs)"
      using Cons.prems(3) by auto
    then show ?thesis
      using Cons.prems(3,4) by (intro exI [of _ "diff prev s @ q'"] exI [of _ w']) (simp add: Inr poll_tick_def)
  qed
qed simp

lemma poll_idle:
  "scan_ok s \<Longrightarrow> \<not> wt_stopped w \<Longrightarrow> poll_loop diff (replicate k (Inr s)) (s, w) = (s, w)"
  by (induction k) (simp_all add: poll_tick_def diff_same option.map_ident)

end

lemma foldl_removes:
  "foldl apply_event m (map (usb_event ''remove'') xs) n = (if n \<in> fst ` set xs then None else m n)"
  by (induction xs arbitrary: m) (auto simp: apply_event_def usb_event_def)

lemma foldl_adds:
  "distinct (map fst xs) \<Longrightarrow> foldl apply_event m (map (usb_event ''add'') xs) n
     = (case map_of xs n of Some i \<Rightarrow> Some (id_vid i, id_pid i) | None \<Rightarrow> m n)"
proof (induction xs arbitrary: m)
  case (Cons x xs)
  then show ?case
    by (cases "map_of xs n") (auto simp: apply_event_def usb_event_def map_of_eq_None_iff dest: map_of_SomeD
        intro: rev_image_eqI split: option.splits)
qed simp

definition changed :: "scan \<Rightarrow> string \<times> port_identity \<Rightarrow> bool" where
  "changed other ni \<longleftrightarrow> map_of other (fst ni) \<noteq> Some (snd ni)"

lemma diff_scans_changed:
  "diff_scans prev cur = map (usb_event ''remove'') (filter (changed cur) prev)
     @ map (usb_event ''add'') (filter (changed prev) cur)"
  unfolding diff_scans_def by (intro arg_cong2 [where f = append] arg_cong [where f = "map _"] filter_cong)
    (auto simp: changed_def split: option.splits)

lemma map_of_filter_distinct:
  "distinct (map fst xs) \<Longrightarrow> map_of (filter P xs) n
     = (case map_of xs n of Some i \<Rightarrow> if P (n, i) then Some i else None | None \<Rightarrow> None)"
  by (induction xs) (auto split: option.splits simp: map_of_eq_None_iff dest: map_of_SomeD intro: rev_image_eqI)

lemma diff_changed_view:
  assumes "scan_ok prev" and "scan_ok cur"
  shows "foldl apply_event (view prev) (map (usb_event ''remove'') (filter (changed cur) prev)
     @ map (usb_event ''add'') (filter (changed prev) cur)) = view cur"
proof
  fix n
  have d: "distinct (map fst (filter (changed prev) cur))"
    using assms(2) by (simp add: scan_ok_def distinct_map_filter)
  have r: "n \<in> fst ` set (filter (changed cur) prev) \<longleftrightarrow> (\<exists>i. map_of prev n = Some i \<and> map_of cur n \<noteq> Some i)"
    using assms(1) by (force simp: changed_def scan_ok_def image_iff)
  show "foldl apply_event (view prev) (map (usb_event ''remove'') (filter (changed cur) prev)
     @ map (usb_event ''add'') (filter (changed prev) cur)) n = view cur n"
    using assms(2) by (simp only: foldl_append foldl_adds [OF d] foldl_removes r map_of_filter_distinct scan_ok_def)
      (cases "map_of prev n"; cases "map_of cur n"; auto simp: view_def changed_def simp del: map_of_eq_Some_iff)
qed

lemma changed_self: "scan_ok s \<Longrightarrow> filter (changed s) s = []"
  by (auto simp: filter_empty_conv changed_def scan_ok_def)

interpretation win: scan_difference diff_scans
  by unfold_locales (simp_all only: diff_scans_changed diff_changed_view, simp add: diff_scans_changed changed_self)

lemma mac_diff_loop_filter:
  "mac_diff_loop action other xs evs = evs @ map (usb_event action) (filter (changed other) xs)"
  by (induction action other xs evs rule: mac_diff_loop.induct) (auto simp: changed_def)

lemma mac_diff_scans_eq: "mac_diff_scans = diff_scans"
  by (intro ext) (simp add: mac_diff_scans_def mac_diff_loop_filter diff_scans_changed)

interpretation mac: scan_difference mac_diff_scans
  unfolding mac_diff_scans_eq by (rule win.scan_difference_axioms)

lemma mac_scan_ports_eq: "mac_scan_ports = scan_ports"
proof -
  have "mac_vid_pid_hex = vid_pid_hex"
    by (intro ext) (simp add: mac_vid_pid_hex_def vid_pid_hex_def split: option.splits)
  then have "mac_identity_from_port = identity_from_port"
    by (intro ext) (simp add: mac_identity_from_port_def identity_from_port_def)
  then have "mac_scan_into out ports = scan_into out ports" for out ports
    by (induction out ports rule: scan_into.induct) (auto split: option.splits)
  then show ?thesis by (intro ext) (simp add: mac_scan_ports_def scan_ports_def)
qed



section \<open>Discovery\<close>

lemma first_sibling_Some:
  "first_sibling s vid pid ports = Some d \<Longrightarrow> \<exists>a \<in> set ports. pi_device a = d \<and> pi_serial a = Some s
     \<and> vid_pid_hex (pi_vid a) = vid \<and> vid_pid_hex (pi_pid a) = pid \<and> described AUDIO_DESCRIPTION_TOKEN a"
proof (induction s vid pid ports rule: first_sibling.induct)
  case (2 serial vid pid p ps)
  have "lower AUDIO_DESCRIPTION_TOKEN = AUDIO_DESCRIPTION_TOKEN" by code_simp
  with 2 show ?case by (auto split: if_splits)
qed simp

text \<open>What discovery returns belongs together: the AT port is described as one and answered \<open>AT\<close>, no port before
  it did both, and the audio port is described as audio and carries the same vendor, product and serial
  number, which is present. Whatever goes wrong is a \<open>ModemDiscoveryError\<close>, never another exception.\<close>

theorem discovery_returns_one_modem:
  "case discover_modem_serial_paths scan prober of
     Inl e \<Rightarrow> \<exists>m. e = ModemDiscoveryError m
   | Inr (at_path, audio_path) \<Rightarrow> \<exists>ports pre p post a. scan = Inr ports \<and> ports = pre @ p # post
       \<and> described ''at port'' p \<and> prober (pi_device p) \<and> filter (\<lambda>q. described ''at port'' q \<and> prober (pi_device q)) pre = []
       \<and> a \<in> set ports \<and> described ''audio'' a \<and> vid_pid_hex (pi_vid a) = vid_pid_hex (pi_vid p)
       \<and> vid_pid_hex (pi_pid a) = vid_pid_hex (pi_pid p) \<and> pi_serial a = pi_serial p \<and> pi_serial p \<notin> {None, Some []}
       \<and> at_path = pi_device p \<and> audio_path = pi_device a \<and> audio_path \<noteq> []"
proof (cases "discover_modem_serial_paths scan prober")
  case (Inl e)
  then have "\<exists>m. e = ModemDiscoveryError m"
    by (auto simp: discover_modem_serial_paths_def Let_def split: sum.splits if_splits option.splits)
  with Inl show ?thesis by simp
next
  case (Inr r)
  obtain at_path audio where r: "r = (at_path, audio)" by (cases r)
  from Inr r obtain ports p where s: "scan = Inr ports" and at_path: "at_path = pi_device p" "audio \<noteq> []"
    and f: "find (\<lambda>p. prober (pi_device p)) (filter (described AT_DESCRIPTION_TOKEN) ports) = Some p"
    and a: "find_audio_serial_path (pi_serial p) (vid_pid_hex (pi_vid p)) (vid_pid_hex (pi_pid p)) (Inr ports) = Some audio"
    by (auto simp: discover_modem_serial_paths_def Let_def split: sum.splits if_splits option.splits)
  have "find (\<lambda>p. described AT_DESCRIPTION_TOKEN p \<and> prober (pi_device p)) ports = Some p"
    using f by (induction ports) (auto split: if_splits)
  then obtain i where i: "i < length ports" "described AT_DESCRIPTION_TOKEN (ports ! i) \<and> prober (pi_device (ports ! i))" "p = ports ! i"
    "\<forall>j<i. \<not> (described AT_DESCRIPTION_TOKEN (ports ! j) \<and> prober (pi_device (ports ! j)))"
    by (auto simp: find_Some_iff)
  have pre: "\<forall>q \<in> set (take i ports). \<not> (described AT_DESCRIPTION_TOKEN q \<and> prober (pi_device q))"
    using i(1,4) by (auto simp: in_set_conv_nth)
  obtain s' where s': "pi_serial p = Some s'" "s' \<noteq> []"
    and fs: "first_sibling s' (vid_pid_hex (pi_vid p)) (vid_pid_hex (pi_pid p)) ports = Some audio"
    using a by (auto simp: find_audio_serial_path_def split: option.splits if_splits)
  from first_sibling_Some [OF fs] obtain b where b: "b \<in> set ports" "pi_device b = audio" "pi_serial b = Some s'"
    "vid_pid_hex (pi_vid b) = vid_pid_hex (pi_vid p)" "vid_pid_hex (pi_pid b) = vid_pid_hex (pi_pid p)" "described AUDIO_DESCRIPTION_TOKEN b"
    by blast
  have "ports = take i ports @ p # drop (Suc i) ports" using i(1,3) by (simp add: id_take_nth_drop)
  then show ?thesis
    unfolding Inr r prod.case sum.case
    using s at_path i(2,3) pre s' b unfolding AT_DESCRIPTION_TOKEN_def AUDIO_DESCRIPTION_TOKEN_def
    by (intro exI [of _ ports] exI [of _ "take i ports"] exI [of _ p] exI [of _ "drop (Suc i) ports"] exI [of _ b])
      (simp add: filter_empty_conv)
qed


section \<open>Device rows under USB events\<close>

definition unique_ports :: "'x device list \<Rightarrow> bool" where
  "unique_ports ds \<longleftrightarrow> distinct (map dv_id ds) \<and> distinct (filter (\<lambda>u. u \<noteq> None) (map dv_usb_port ds))"

lemma unique_port_filter:
  "distinct (filter (\<lambda>u. u \<noteq> None) (map dv_usb_port ds)) \<Longrightarrow> d \<in> set ds \<Longrightarrow> dv_usb_port d = Some n \<Longrightarrow>
   filter (\<lambda>d. dv_usb_port d = Some n) ds = [d]"
proof (induction ds)
  case (Cons e ds)
  show ?case
  proof (cases "dv_usb_port e = Some n")
    case True
    then have "Some n \<notin> dv_usb_port ` set ds" using Cons.prems(1) by (auto simp: image_iff)
    moreover from this have "filter (\<lambda>d. dv_usb_port d = Some n) ds = []" by (force simp: filter_empty_conv image_iff)
    ultimately show ?thesis using True Cons.prems(2,3) by (force simp: image_iff)
  next
    case False
    with Cons show ?thesis by (auto split: if_splits)
  qed
qed simp

lemma update_on_port_run:
  assumes "unique_ports (db_devices db)"
  shows "update_on_port f node db = (Inr (), db\<lparr>db_devices :=
    map (\<lambda>d. if node \<noteq> None \<and> dv_usb_port d = node then f d else d) (db_devices db)\<rparr>)"
proof (cases node)
  case None
  then show ?thesis by (simp add: update_on_port_def ret_def)
next
  case (Some n)
  let ?ds = "db_devices db"
  show ?thesis
  proof (cases "\<exists>d \<in> set ?ds. dv_usb_port d = Some n")
    case True
    then obtain d where d: "d \<in> set ?ds" "dv_usb_port d = Some n" by blast
    have fil: "filter (\<lambda>d. dv_usb_port d = Some n) ?ds = [d]"
      using unique_port_filter [OF _ d] assms by (simp add: unique_ports_def)
    have iff: "dv_usb_port e = Some n \<longleftrightarrow> dv_id e = dv_id d" if "e \<in> set ?ds" for e
    proof
      assume "dv_usb_port e = Some n"
      then have "e \<in> set (filter (\<lambda>d. dv_usb_port d = Some n) ?ds)" using that by simp
      then show "dv_id e = dv_id d" by (simp add: fil)
    next
      assume "dv_id e = dv_id d"
      then have "e = d" using that d(1) assms by (auto simp: unique_ports_def distinct_map inj_on_def)
      then show "dv_usb_port e = Some n" using d(2) by simp
    qed
    then have "map (\<lambda>e. if dv_usb_port e = Some n then f e else e) ?ds = set_row dv_id (dv_id d) f ?ds"
      by (simp add: set_row_def)
    then show ?thesis by (simp add: Some update_on_port_def one_on_port_def fil ret_def)
  next
    case False
    then have "filter (\<lambda>d. dv_usb_port d = Some n) ?ds = []" by (simp add: filter_empty_conv)
    moreover have "map (\<lambda>e. if dv_usb_port e = Some n then f e else e) ?ds = ?ds" using False by (auto intro: map_idI)
    ultimately show ?thesis by (simp add: Some update_on_port_def one_on_port_def ret_def)
  qed
qed

definition removed :: "udev_event \<Rightarrow> 'x device \<Rightarrow> bool" where
  "removed ev d \<longleftrightarrow> ue_action ev = ''remove'' \<and> ue_node ev \<noteq> None \<and> dv_usb_port d = ue_node ev"

definition added :: "udev_event \<Rightarrow> 'x device \<Rightarrow> bool" where
  "added ev d \<longleftrightarrow> ue_action ev = ''add'' \<and> is_known_modem ev \<and> ue_node ev \<noteq> None \<and> dv_usb_port d = ue_node ev"

definition usb_marked :: "nat \<Rightarrow> bool \<Rightarrow> bool \<Rightarrow> 'x device \<Rightarrow> 'x device" where
  "usb_marked now was_added was_removed d = d\<lparr>dv_last_seen := (if was_added then Some now else dv_last_seen d),
     dv_status := (if was_removed then OFFLINE else dv_status d)\<rparr>"

lemma usb_marked_simps [simp]:
  "dv_id (usb_marked now a b d) = dv_id d" "dv_usb_port (usb_marked now a b d) = dv_usb_port d"
  "removed ev (usb_marked now a b d) = removed ev d" "added ev (usb_marked now a b d) = added ev d"
  "usb_marked now a' b' (usb_marked now a b d) = usb_marked now (a \<or> a') (b \<or> b') d"
  "usb_marked now False False d = d"
  by (simp_all add: usb_marked_def removed_def added_def)

lemma on_event_run:
  assumes "unique_ports (db_devices db)"
  shows "suppress (on_event now ev) db = (Inr (), db\<lparr>db_devices := map (\<lambda>d. usb_marked now (added ev d) (removed ev d) d) (db_devices db)\<rparr>)"
  using update_on_port_run [OF assms]
  by (auto simp: on_event_def touch_last_seen_def mark_offline_def suppress_def catchm_def ret_def usb_marked_def added_def removed_def
      intro!: database.equality map_cong)

lemma unique_ports_marked: "unique_ports (map (\<lambda>d. usb_marked now (A d) (B d) d) ds) = unique_ports ds"
  by (simp add: unique_ports_def comp_def)

text \<open>When ports are unique, USB events change a device row only by its own events: it becomes \<open>offline\<close> iff one of
  them removed its port, and \<open>last_seen_at\<close> is set iff one of them added its port and named a known modem. So
  no event ever takes a device out of \<open>offline\<close>: plugging a modem in again does not bring it back.\<close>

theorem usb_events_only_take_offline:
  assumes "unique_ports (db_devices db)"
  shows "consume_events now evs db = (Inr (), db\<lparr>db_devices := map (\<lambda>d. d\<lparr>
      dv_last_seen := (if \<exists>ev \<in> set evs. added ev d then Some now else dv_last_seen d),
      dv_status := (if \<exists>ev \<in> set evs. removed ev d then OFFLINE else dv_status d)\<rparr>) (db_devices db)\<rparr>)"
proof -
  have "consume_events now evs db = (Inr (), db\<lparr>db_devices :=
      map (\<lambda>d. usb_marked now (\<exists>ev \<in> set evs. added ev d) (\<exists>ev \<in> set evs. removed ev d) d) (db_devices db)\<rparr>)"
    using assms
  proof (induction evs arbitrary: db)
    case Nil
    show ?case by (simp add: ret_def)
  next
    case (Cons ev evs)
    let ?db = "db\<lparr>db_devices := map (\<lambda>d. usb_marked now (added ev d) (removed ev d) d) (db_devices db)\<rparr>"
    have "unique_ports (db_devices ?db)" using Cons.prems by (simp add: unique_ports_marked)
    from Cons.IH [OF this] show ?case
      by (simp add: seqm_def bindm_def on_event_run [OF Cons.prems] comp_def)
  qed
  then show ?thesis by (simp add: usb_marked_def)
qed

definition unplug_ex :: "udev_event list" where
  "unplug_ex = [\<lparr>ue_action = ''remove'', ue_node = Some ''tty1'', ue_vid = None, ue_pid = None\<rparr>,
     \<lparr>ue_action = ''add'', ue_node = Some ''tty1'', ue_vid = Some ''2C7C'', ue_pid = Some ''0125''\<rparr>]"

lemma usb_events_only_take_offline_witness:
  "map (\<lambda>d. (dv_status d, dv_last_seen d)) (db_devices (snd (consume_events 30 unplug_ex db_ex)))
    = [(OFFLINE, Some 30), (IDLE, None), (OFFLINE, None)]"
proof -
  have "unique_ports (db_devices db_ex)" by code_simp
  note eq = usb_events_only_take_offline [OF this, of 30 unplug_ex]
  have "map (\<lambda>d. (dv_status d, dv_last_seen d)) (map (\<lambda>d. d\<lparr>
      dv_last_seen := (if \<exists>ev \<in> set unplug_ex. added ev d then Some 30 else dv_last_seen d),
      dv_status := (if \<exists>ev \<in> set unplug_ex. removed ev d then OFFLINE else dv_status d)\<rparr>) (db_devices db_ex))
    = [(OFFLINE, Some 30), (IDLE, None), (OFFLINE, None)]"
    by code_simp
  then show ?thesis unfolding eq by simp
qed

end
