(* ===== verification/Ipc_Server.thy ===== *)
theory Ipc_Server imports At_Client Device_Table begin

text \<open>
  The engine's socket to the modem controller: framing and dispatch of \<open>modem_controller/ipc_server.py\<close>, the
  handlers of \<open>modem_controller/handlers.py\<close> with the event pumps they spawn, and the choice of the modem client
  in \<open>modem_controller/main.py\<close>. Strings are UTF-8 byte sequences. \<open>json.loads\<close> and the outcome of each \<open>dial\<close> of
  the modem client are inputs; a handler runs to its end before another step. The client's \<open>hangup\<close> raises nothing.
\<close>

section \<open>JSON\<close>

datatype json = JNull | JBool bool | JInt int | JFloat string | JStr string | JList "json list" | JObj "(string \<times> json) list"

definition hex4 :: "nat \<Rightarrow> string" where
  "hex4 n = map (\<lambda>d. char_of (if d < 10 then 48 + d else 87 + d)) [0, 0, n div 16 mod 16, n mod 16]"

definition escape_char :: "char \<Rightarrow> string" where
  "escape_char c = (let n = of_char c :: nat in
     if n = 34 \<or> n = 92 then [CHR 92, c]
     else if n = 8 then [CHR 92, CHR ''b''] else if n = 12 then [CHR 92, CHR ''f'']
     else if n = 10 then [CHR 92, CHR ''n''] else if n = 13 then [CHR 92, CHR ''r''] else if n = 9 then [CHR 92, CHR ''t'']
     else if n < 32 then [CHR 92, CHR ''u''] @ hex4 n else [c])"

definition quote :: "string \<Rightarrow> string" where
  "quote s = [CHR 34] @ concat (map escape_char s) @ [CHR 34]"

text \<open>\<open>json.dumps(msg, ensure_ascii=False)\<close>.\<close>

fun dumps :: "json \<Rightarrow> string" where
  "dumps JNull = ''null''"
| "dumps (JBool b) = (if b then ''true'' else ''false'')"
| "dumps (JInt n) = (if n < 0 then ''-'' @ nat_str (nat (- n)) else nat_str (nat n))"
| "dumps (JFloat s) = s"
| "dumps (JStr s) = quote s"
| "dumps (JList xs) = ''['' @ join_with '', '' (map dumps xs) @ '']''"
| "dumps (JObj kvs) = ''{'' @ join_with '', '' (map (\<lambda>(k, v). quote k @ '': '' @ dumps v) kvs) @ ''}''"

definition get_str :: "string \<Rightarrow> (string \<times> json) list \<Rightarrow> string option" where
  "get_str k msg = (case map_of msg k of Some (JStr s) \<Rightarrow> Some s | _ \<Rightarrow> None)"

text \<open>\<open>isinstance(x, int)\<close> holds of booleans too, and \<open>True\<close> is the key 1.\<close>

definition get_int :: "string \<Rightarrow> (string \<times> json) list \<Rightarrow> json option" where
  "get_int k msg = (case map_of msg k of Some (JInt n) \<Rightarrow> Some (JInt n) | Some (JBool b) \<Rightarrow> Some (JBool b) | _ \<Rightarrow> None)"

fun device_key :: "json option \<Rightarrow> nat option" where
  "device_key (Some (JInt n)) = (if n < 0 then None else Some (nat n))"
| "device_key (Some (JBool b)) = Some (if b then 1 else 0)"
| "device_key _ = None"


section \<open>Frames\<close>

definition MAX_FRAME_BYTES :: nat where "MAX_FRAME_BYTES = 1024 * 1024"

text \<open>The buffer limit of a stream reader that \<open>start_unix_server\<close> creates by default.\<close>

definition READER_LIMIT :: nat where "READER_LIMIT = 65536"

definition newline :: char where "newline = CHR 10"

datatype read_result = RLine string | RPartial nat | REof | ROverrun

text \<open>\<open>readuntil\<close> of the line separator on the bytes that are still to arrive before end of file.\<close>

definition read_until :: "string \<Rightarrow> read_result \<times> string" where
  "read_until s = (let pre = takeWhile (\<lambda>c. c \<noteq> newline) s; rest = dropWhile (\<lambda>c. c \<noteq> newline) s in
     if READER_LIMIT < length pre then (ROverrun, s)
     else case rest of
         [] \<Rightarrow> (if pre = [] then REof else RPartial (length pre), [])
       | _ # rest' \<Rightarrow> (RLine (pre @ [newline]), rest'))"

text \<open>The checks on one line: the command and the object.\<close>

definition parse_frame :: "(string \<Rightarrow> pyexn + json) \<Rightarrow> string \<Rightarrow> pyexn + (string \<times> (string \<times> json) list)" where
  "parse_frame loads line =
     (if MAX_FRAME_BYTES < length line then Inl (FrameError ''inbound frame'')
      else case loads line of
          Inl e \<Rightarrow> Inl (if e = ValueError ''JSONDecodeError'' then FrameError ''invalid JSON'' else e)
        | Inr (JObj msg) \<Rightarrow> (case get_str ''cmd'' msg of
              None \<Rightarrow> Inl (FrameError ''frame missing cmd string'') | Some cmd \<Rightarrow> Inr (cmd, msg))
        | Inr _ \<Rightarrow> Inl (FrameError ''frame must be JSON object''))"


section \<open>State\<close>

record conn =
  cn_sent :: "json list"
  cn_closed :: bool
  cn_fault :: "pyexn option"

datatype at_order = AtDialed string | AtHungUp string

record pump =
  pm_conn :: nat
  pm_session :: string
  pm_call :: string
  pm_device :: "json option"
  pm_live :: bool

record ('x, 'y) hub =
  hb_db :: "('x, 'y) database"
  hb_sessions :: "string \<rightharpoonup> string"
  hb_conns :: "nat \<Rightarrow> conn"
  hb_pumps :: "pump list"
  hb_at :: "at_order list"

text \<open>The parameters: \<open>json.loads\<close>, whether there is a database, and how the modem client answers the \<open>n\<close>th order.\<close>

record ipc_env =
  ie_loads :: "string \<Rightarrow> pyexn + json"
  ie_have_db :: bool
  ie_dial :: "nat \<Rightarrow> pyexn + string"

definition new_conn :: conn where
  "new_conn = \<lparr>cn_sent = [], cn_closed = False, cn_fault = None\<rparr>"

definition hub_init :: "('x, 'y) database \<Rightarrow> ('x, 'y) hub" where
  "hub_init db = \<lparr>hb_db = db, hb_sessions = Map.empty, hb_conns = (\<lambda>_. new_conn), hb_pumps = [], hb_at = []\<rparr>"

definition set_status :: "ipc_env \<Rightarrow> json option \<Rightarrow> device_status \<Rightarrow> ('x, 'y) hub \<Rightarrow> ('x, 'y) hub" where
  "set_status env dev st h = h\<lparr>hb_db := set_device_status (ie_have_db env) (device_key dev) st (hb_db h)\<rparr>"

text \<open>\<open>Connection.send\<close>; \<open>cn_fault\<close> is what writing to the socket raises.\<close>

definition conn_send :: "nat \<Rightarrow> json \<Rightarrow> (('x, 'y) hub, unit) proc" where
  "conn_send c msg h =
     (if MAX_FRAME_BYTES < length (dumps msg @ [newline]) then raise (FrameError ''outbound frame'') h
      else case cn_fault (hb_conns h c) of
          Some e \<Rightarrow> raise e h
        | None \<Rightarrow> ret () (h\<lparr>hb_conns := (hb_conns h)(c := (hb_conns h c)\<lparr>cn_sent := cn_sent (hb_conns h c) @ [msg]\<rparr>)\<rparr>))"

definition close_conn :: "nat \<Rightarrow> ('x, 'y) hub \<Rightarrow> ('x, 'y) hub" where
  "close_conn c h = h\<lparr>hb_conns := (hb_conns h)(c := (hb_conns h c)\<lparr>cn_closed := True\<rparr>)\<rparr>"


section \<open>Handlers\<close>

definition handle_status :: json where
  "handle_status = JObj [(''event'', JStr ''status''), (''status'', JStr ''ok'')]"

definition handle_dial :: "ipc_env \<Rightarrow> nat \<Rightarrow> (string \<times> json) list \<Rightarrow> (('x, 'y) hub, json) proc" where
  "handle_dial env c msg h = (case get_str ''number'' msg of
       None \<Rightarrow> ret (JObj [(''error'', JStr ''invalid_request''), (''detail'', JStr ''number required'')]) h
     | Some number \<Rightarrow>
         let dev = get_int ''device_id'' msg;
             h1 = set_status env dev DIALING h;
             h2 = h1\<lparr>hb_at := hb_at h1 @ [AtDialed number]\<rparr>
         in case ie_dial env (length (hb_at h1)) of
             Inl e \<Rightarrow> raise e h2
           | Inr call \<Rightarrow>
               let session = (case get_str ''session_id'' msg of Some s \<Rightarrow> if s = [] then call else s | None \<Rightarrow> call)
               in ret (JObj [(''event'', JStr ''dial_ack''), (''session_id'', JStr session)])
                    (h2\<lparr>hb_sessions := (hb_sessions h2)(session \<mapsto> call),
                        hb_pumps := hb_pumps h2 @ [\<lparr>pm_conn = c, pm_session = session, pm_call = call, pm_device = dev,
                          pm_live = True\<rparr>]\<rparr>))"

text \<open>The pump's \<open>finally\<close>.\<close>

definition end_pump :: "nat \<Rightarrow> ('x, 'y) hub \<Rightarrow> ('x, 'y) hub" where
  "end_pump i h = h\<lparr>hb_sessions := (hb_sessions h)(pm_session (hb_pumps h ! i) := None),
     hb_pumps := (hb_pumps h)[i := (hb_pumps h ! i)\<lparr>pm_live := False\<rparr>]\<rparr>"

definition event_name :: "event_kind \<Rightarrow> string" where
  "event_name k = (case k of CONNECTED \<Rightarrow> ''connected'' | REMOTE_HANGUP \<Rightarrow> ''remote_hangup'')"

definition event_payload :: "pump \<Rightarrow> event_kind \<Rightarrow> string option \<Rightarrow> json" where
  "event_payload p k cause = JObj ([(''event'', JStr (event_name k)), (''session_id'', JStr (pm_session p))]
     @ (case cause of None \<Rightarrow> [] | Some s \<Rightarrow> if s = [] then [] else [(''cause'', JStr s)])
     @ (case pm_device p of None \<Rightarrow> [] | Some d \<Rightarrow> [(''device_id'', d)]))"

text \<open>One event of the call in its pump; \<open>closes\<close>: the connection ends while the status is written.\<close>

definition pump_call_event :: "ipc_env \<Rightarrow> nat \<Rightarrow> event_kind \<Rightarrow> string option \<Rightarrow> bool \<Rightarrow> ('x, 'y) hub \<Rightarrow> ('x, 'y) hub" where
  "pump_call_event env i k cause closes h =
     (let p = hb_pumps h ! i; c = pm_conn p in
      if cn_closed (hb_conns h c) then end_pump i h
      else let h1 = set_status env (pm_device p) (case k of CONNECTED \<Rightarrow> IN_CALL | REMOTE_HANGUP \<Rightarrow> IDLE) h;
               h2 = (if closes then close_conn c h1 else h1)
           in if cn_closed (hb_conns h2 c) then end_pump i h2
              else case conn_send c (event_payload p k cause) h2 of
                  (Inl e, h3) \<Rightarrow> end_pump i h3
                | (Inr _, h3) \<Rightarrow> h3)"

definition handle_hangup :: "(string \<times> json) list \<Rightarrow> (('x, 'y) hub, json) proc" where
  "handle_hangup msg h =
     (let session = get_str ''session_id'' msg;
          routed = (case session of None \<Rightarrow> None | Some s \<Rightarrow> if s = [] then None else hb_sessions h s);
          call = (case routed of None \<Rightarrow> get_str ''call_id'' msg
                    | Some m \<Rightarrow> if m = [] then get_str ''call_id'' msg else Some m);
          h1 = (case call of None \<Rightarrow> h | Some m \<Rightarrow> h\<lparr>hb_at := hb_at h @ [AtHungUp m]\<rparr>)
      in ret (JObj ([(''event'', JStr ''hangup_ack'')]
           @ (case session of None \<Rightarrow> [] | Some s \<Rightarrow> [(''session_id'', JStr s)]))) h1)"

text \<open>\<open>handle_audio_downstream\<close> only logs; the reply \<open>None\<close> sends nothing.\<close>

definition handle_audio_downstream :: "(string \<times> json) list \<Rightarrow> (('x, 'y) hub, json option) proc" where
  "handle_audio_downstream msg = ret None"

definition call_handler :: "ipc_env \<Rightarrow> nat \<Rightarrow> string \<Rightarrow> (string \<times> json) list \<Rightarrow> (('x, 'y) hub, json option) proc" where
  "call_handler env c cmd msg =
     (if cmd = ''status'' then ret (Some handle_status)
      else if cmd = ''dial'' then bindm (handle_dial env c msg) (\<lambda>r. ret (Some r))
      else if cmd = ''hangup'' then bindm (handle_hangup msg) (\<lambda>r. ret (Some r))
      else if cmd = ''audio_downstream'' then handle_audio_downstream msg
      else ret (Some (JObj [(''error'', JStr ''unknown_cmd''), (''cmd'', JStr cmd)])))"

definition serve_line :: "ipc_env \<Rightarrow> nat \<Rightarrow> string \<Rightarrow> (('x, 'y) hub, unit) proc" where
  "serve_line env c line h = (case parse_frame (ie_loads env) line of
       Inl e \<Rightarrow> raise e h
     | Inr (cmd, msg) \<Rightarrow> bindm (call_handler env c cmd msg)
         (\<lambda>reply. case reply of None \<Rightarrow> ret () | Some r \<Rightarrow> conn_send c r) h)"

lemma read_until_shorter: "read_until s = (RLine line, rest) \<Longrightarrow> length rest < length s"
proof -
  assume r: "read_until s = (RLine line, rest)"
  have s: "length s = length (takeWhile (\<lambda>c. c \<noteq> newline) s) + length (dropWhile (\<lambda>c. c \<noteq> newline) s)"
    by (metis length_append takeWhile_dropWhile_id)
  show ?thesis
    using r s by (auto simp: read_until_def Let_def split: if_splits list.splits)
qed

function ipc_read_loop :: "ipc_env \<Rightarrow> nat \<Rightarrow> string \<Rightarrow> ('x, 'y) hub \<Rightarrow> (pyexn + unit) \<times> ('x, 'y) hub" where
  "ipc_read_loop env c s h = (case read_until s of
       (REof, _) \<Rightarrow> ret () h
     | (RPartial n, _) \<Rightarrow> raise (FrameError ''incomplete frame at EOF'') h
     | (ROverrun, _) \<Rightarrow> raise (FrameError ''frame exceeds reader buffer'') h
     | (RLine line, rest) \<Rightarrow> (case serve_line env c line h of
           (Inl e, h') \<Rightarrow> (Inl e, h')
         | (Inr _, h') \<Rightarrow> ipc_read_loop env c rest h'))"
  by pat_completeness auto
termination
  by (relation "measure (\<lambda>(env, c, s, h). length s)") (auto dest: read_until_shorter [OF sym])

declare ipc_read_loop.simps [simp del]

definition on_connect :: "ipc_env \<Rightarrow> nat \<Rightarrow> string \<Rightarrow> (('x, 'y) hub, unit) proc" where
  "on_connect env c s = finallym (suppress (ipc_read_loop env c s)) (modify (close_conn c))"


section \<open>The choice of the client\<close>

datatype client_choice = UseSerial string string | UseMock

definition MISSING_PATH :: string where
  "MISSING_PATH = ''ISALES_MODEM_SERIAL_PATH is required to start modem-controller; set ISALES_ALLOW_MOCK_AT=1 only for dev/CI.''"

definition make_at_client :: "(string \<rightharpoonup> string) \<Rightarrow> pyexn + client_choice" where
  "make_at_client env = (case env ''ISALES_MODEM_SERIAL_PATH'' of
       Some tty \<Rightarrow> if tty \<noteq> [] then Inr (UseSerial tty (case env ''ISALES_MODEM_DRIVER'' of None \<Rightarrow> [] | Some d \<Rightarrow> d))
         else if env ''ISALES_ALLOW_MOCK_AT'' = Some ''1'' then Inr UseMock
         else Inl (RuntimeError MISSING_PATH)
     | None \<Rightarrow> if env ''ISALES_ALLOW_MOCK_AT'' = Some ''1'' then Inr UseMock
         else Inl (RuntimeError MISSING_PATH))"


section \<open>Framing\<close>

fun serve_all :: "ipc_env \<Rightarrow> nat \<Rightarrow> string list \<Rightarrow> (('x, 'y) hub, unit) proc" where
  "serve_all env c [] = ret ()"
| "serve_all env c (l # ls) = seqm (serve_line env c (l @ [newline])) (serve_all env c ls)"

definition frames :: "string list \<Rightarrow> string" where
  "frames ls = concat (map (\<lambda>l. l @ [newline]) ls)"

definition legal :: "string \<Rightarrow> bool" where
  "legal l \<longleftrightarrow> newline \<notin> set l \<and> length l \<le> READER_LIMIT"

lemma until_newline:
  assumes "newline \<notin> set l"
  shows "takeWhile (\<lambda>c. c \<noteq> newline) (l @ newline # s) = l" "dropWhile (\<lambda>c. c \<noteq> newline) (l @ newline # s) = newline # s"
    "takeWhile (\<lambda>c. c \<noteq> newline) l = l" "dropWhile (\<lambda>c. c \<noteq> newline) l = []"
  using assms by (induction l) auto

lemma read_loop_legal:
  assumes "legal l"
  shows "ipc_read_loop env c (l @ newline # s) h = seqm (serve_line env c (l @ [newline])) (ipc_read_loop env c s) h"
proof -
  have "read_until (l @ newline # s) = (RLine (l @ [newline]), s)"
    using assms by (simp add: read_until_def legal_def until_newline)
  then show ?thesis
    by (subst ipc_read_loop.simps) (simp add: seqm_def bindm_def split: prod.splits sum.splits)
qed

lemma read_loop_frames:
  fixes h :: "('x, 'y) hub"
  assumes "list_all legal ls"
  shows "ipc_read_loop env c (frames ls @ s) h = seqm (serve_all env c ls) (ipc_read_loop env c s) h"
  using assms
proof (induction ls arbitrary: h)
  case Nil
  then show ?case by (simp add: frames_def seqm_def)
next
  case (Cons l ls)
  have split: "frames (l # ls) @ s = l @ newline # (frames ls @ s)" by (simp add: frames_def)
  have "ipc_read_loop env c (frames ls @ s) x = seqm (serve_all env c ls) (ipc_read_loop env c s) x" for x :: "('x, 'y) hub"
    by (rule Cons.IH) (use Cons.prems in simp)
  then have "(ipc_read_loop env c (frames ls @ s) :: ('x, 'y) hub \<Rightarrow> _) = seqm (serve_all env c ls) (ipc_read_loop env c s)" by (rule ext)
  then show ?case
    using Cons.prems by (simp add: split read_loop_legal seqm_def bindm_assoc)
qed

text \<open>C26. The lines of a connection are served one by one, each once and in order, up to the first that fails; what
  follows the last line separator closes the connection as a protocol error, and so does a line above the
  reader's 64 KiB, which is not parsed: the limit of 1 MiB that the code states is never the one that applies.\<close>

theorem connection_serves_frames:
  assumes "list_all legal ls" and "newline \<notin> set tail" and "newline \<notin> set big" and "READER_LIMIT < length big"
  shows "ipc_read_loop env c (frames ls @ tail) = seqm (serve_all env c ls)
      (if READER_LIMIT < length tail then raise (FrameError ''frame exceeds reader buffer'')
       else if tail = [] then ret () else raise (FrameError ''incomplete frame at EOF''))
    \<and> ipc_read_loop env c (frames ls @ big @ newline # rest) = seqm (serve_all env c ls) (raise (FrameError ''frame exceeds reader buffer''))"
proof -
  have fr: "ipc_read_loop env c (frames ls @ s) = seqm (serve_all env c ls) (ipc_read_loop env c s)" for s
    by (rule ext) (rule read_loop_frames [OF assms(1)])
  have tail: "ipc_read_loop env c tail = (if READER_LIMIT < length tail then raise (FrameError ''frame exceeds reader buffer'')
       else if tail = [] then ret () else raise (FrameError ''incomplete frame at EOF''))"
    by (intro ext, subst ipc_read_loop.simps) (simp add: read_until_def until_newline [OF assms(2)])
  have big: "ipc_read_loop env c (big @ newline # rest) = raise (FrameError ''frame exceeds reader buffer'')"
    using assms(4) by (intro ext, subst ipc_read_loop.simps) (simp add: read_until_def until_newline [OF assms(3)])
  show ?thesis unfolding fr tail big by (rule conjI [OF refl refl])
qed

definition status_env :: ipc_env where
  "status_env = \<lparr>ie_loads = (\<lambda>_. Inr (JObj [(''cmd'', JStr ''status'')])), ie_have_db = True, ie_dial = (\<lambda>_. Inr ''c1'')\<rparr>"

lemma connection_serves_frames_witness:
  "ipc_read_loop status_env 7 (frames [''x''] @ ''y'')
     = seqm (serve_all status_env 7 [''x'']) (raise (FrameError ''incomplete frame at EOF'') :: (('x, 'y) hub, unit) proc)"
proof -
  have "list_all legal [''x'']" "newline \<notin> set ''y''" "newline \<notin> set (replicate 65537 CHR ''z'')"
    "READER_LIMIT < length (replicate 65537 CHR ''z'')"
    by (simp_all add: legal_def newline_def READER_LIMIT_def)
  from connection_serves_frames [OF this, THEN conjunct1, of status_env 7] show ?thesis
    by (simp add: READER_LIMIT_def)
qed


section \<open>Reachable states\<close>

inductive ipc_reach :: "ipc_env \<Rightarrow> ('x, 'y) hub \<Rightarrow> bool" for env where
  init: "ipc_reach env (hub_init db)"
| line: "ipc_reach env h \<Longrightarrow> \<not> cn_closed (hb_conns h c) \<Longrightarrow> serve_line env c l h = (Inr (), h') \<Longrightarrow> ipc_reach env h'"
| failed: "ipc_reach env h \<Longrightarrow> \<not> cn_closed (hb_conns h c) \<Longrightarrow> serve_line env c l h = (Inl e, h') \<Longrightarrow> ipc_reach env (close_conn c h')"
| eof: "ipc_reach env h \<Longrightarrow> ipc_reach env (close_conn c h)"
| fault: "ipc_reach env h \<Longrightarrow> ipc_reach env (h\<lparr>hb_conns := (hb_conns h)(c := (hb_conns h c)\<lparr>cn_fault := Some e\<rparr>)\<rparr>)"
| event: "ipc_reach env h \<Longrightarrow> i < length (hb_pumps h) \<Longrightarrow> pm_live (hb_pumps h ! i) \<Longrightarrow> ipc_reach env (pump_call_event env i k cause closes h)"
| finished: "ipc_reach env h \<Longrightarrow> i < length (hb_pumps h) \<Longrightarrow> pm_live (hb_pumps h ! i) \<Longrightarrow> ipc_reach env (end_pump i h)"
| database: "ipc_reach env h \<Longrightarrow> ipc_reach env (h\<lparr>hb_db := db\<rparr>)"

text \<open>When no session is used twice, the table routes exactly the sessions of the live pumps to their calls.\<close>

definition routed :: "(string \<rightharpoonup> string) \<Rightarrow> pump list \<Rightarrow> bool" where
  "routed sessions pumps \<longleftrightarrow> (distinct (map pm_session pumps) \<longrightarrow>
     (\<forall>p \<in> set pumps. sessions (pm_session p) = (if pm_live p then Some (pm_call p) else None)))"

definition same_calls :: "('x, 'y) hub \<Rightarrow> ('x, 'y) hub \<Rightarrow> bool" where
  "same_calls h h' \<longleftrightarrow> hb_sessions h' = hb_sessions h \<and> hb_pumps h' = hb_pumps h"

lemma set_status_fields [simp]:
  "hb_sessions (set_status env dev st h) = hb_sessions h" "hb_pumps (set_status env dev st h) = hb_pumps h"
  "hb_conns (set_status env dev st h) = hb_conns h" "hb_at (set_status env dev st h) = hb_at h"
  "hb_db (set_status env dev st h) = set_device_status (ie_have_db env) (device_key dev) st (hb_db h)"
  by (simp_all add: set_status_def)

lemma close_conn_fields [simp]:
  "hb_sessions (close_conn c h) = hb_sessions h" "hb_pumps (close_conn c h) = hb_pumps h" "hb_at (close_conn c h) = hb_at h"
  "hb_db (close_conn c h) = hb_db h" "cn_closed (hb_conns (close_conn c h) c)"
  by (simp_all add: close_conn_def)

lemma conn_send_same: "conn_send c m h = (r, h') \<Longrightarrow> same_calls h h'"
  by (auto simp: conn_send_def same_calls_def method_defs split: if_splits option.splits)

lemma routed_dial:
  assumes "routed sessions pumps"
  shows "routed (sessions(s \<mapsto> call)) (pumps @ [\<lparr>pm_conn = c, pm_session = s, pm_call = call, pm_device = dev, pm_live = True\<rparr>])"
  using assms by (auto simp: routed_def)

lemma routed_end:
  assumes "routed sessions pumps" and "i < length pumps"
  shows "routed (sessions(pm_session (pumps ! i) := None)) (pumps[i := (pumps ! i)\<lparr>pm_live := False\<rparr>])"
proof -
  have same: "map pm_session (pumps[i := (pumps ! i)\<lparr>pm_live := False\<rparr>]) = map pm_session pumps"
    using assms(2) by (simp add: map_update list_update_same_conv)
  have "(sessions(pm_session (pumps ! i) := None)) (pm_session p) = (if pm_live p then Some (pm_call p) else None)"
    if "distinct (map pm_session pumps)" "p \<in> set (pumps[i := (pumps ! i)\<lparr>pm_live := False\<rparr>])" for p
  proof -
    from that(2) obtain j where j: "j < length pumps" "p = pumps[i := (pumps ! i)\<lparr>pm_live := False\<rparr>] ! j"
      by (auto simp: in_set_conv_nth)
    show ?thesis
    proof (cases "j = i")
      case True
      then show ?thesis using j assms(2) by simp
    next
      case False
      then have "pm_session (pumps ! j) \<noteq> pm_session (pumps ! i)"
        using that(1) j(1) assms(2) by (auto simp: distinct_conv_nth)
      then show ?thesis using False j assms(1) that(1) by (simp add: routed_def)
    qed
  qed
  then show ?thesis unfolding routed_def same by blast
qed

lemma call_handler_routed:
  assumes "call_handler env c cmd msg h = (r, h')" and "routed (hb_sessions h) (hb_pumps h)"
  shows "routed (hb_sessions h') (hb_pumps h')"
proof -
  have "routed (hb_sessions (snd (handle_dial env c msg h))) (hb_pumps (snd (handle_dial env c msg h)))"
    using assms(2) by (auto simp: handle_dial_def method_defs Let_def intro: routed_dial split: option.splits sum.splits)
  moreover have "same_calls h (snd (handle_hangup msg h))"
    by (simp add: handle_hangup_def same_calls_def method_defs Let_def split: option.splits)
  ultimately show ?thesis
    using assms unfolding call_handler_def handle_audio_downstream_def
    by (auto simp: method_defs same_calls_def split: if_splits prod.splits sum.splits)
qed

lemma serve_line_routed:
  assumes "serve_line env c l h = (r, h')" and "routed (hb_sessions h) (hb_pumps h)"
  shows "routed (hb_sessions h') (hb_pumps h')"
proof (cases "parse_frame (ie_loads env) l")
  case (Inl e)
  with assms show ?thesis by (simp add: serve_line_def method_defs)
next
  case (Inr cm)
  obtain cmd msg where cm: "cm = (cmd, msg)" by (cases cm)
  obtain q h1 where q: "call_handler env c cmd msg h = (q, h1)" by (rule prod.exhaust)
  have r1: "routed (hb_sessions h1) (hb_pumps h1)" by (rule call_handler_routed [OF q assms(2)])
  then show ?thesis
    using assms(1) by (auto simp: serve_line_def Inr cm bindm_def q ret_def same_calls_def
        dest!: conn_send_same split: sum.splits option.splits)
qed

lemma end_pump_routed:
  "routed (hb_sessions h) (hb_pumps h) \<Longrightarrow> i < length (hb_pumps h) \<Longrightarrow> routed (hb_sessions (end_pump i h)) (hb_pumps (end_pump i h))"
  by (simp add: end_pump_def routed_end)

lemma pump_call_event_routed:
  assumes "routed (hb_sessions h) (hb_pumps h)" and "i < length (hb_pumps h)"
  shows "routed (hb_sessions (pump_call_event env i k cause closes h)) (hb_pumps (pump_call_event env i k cause closes h))"
  using assms by (auto simp: pump_call_event_def Let_def same_calls_def intro!: end_pump_routed dest!: conn_send_same
      split: prod.splits sum.splits)

lemma ipc_reach_routed: "ipc_reach env h \<Longrightarrow> routed (hb_sessions h) (hb_pumps h)"
proof (induction rule: ipc_reach.induct)
  case (init db)
  show ?case by (simp add: hub_init_def routed_def)
qed (auto intro: serve_line_routed pump_call_event_routed end_pump_routed)


definition dial_msg :: "(string \<times> json) list" where
  "dial_msg = [(''cmd'', JStr ''dial''), (''number'', JStr ''10086''), (''device_id'', JInt 5), (''session_id'', JStr ''s1'')]"

definition dial_env :: ipc_env where
  "dial_env = \<lparr>ie_loads = (\<lambda>_. Inr (JObj dial_msg)), ie_have_db = True, ie_dial = (\<lambda>_. Inr ''c1'')\<rparr>"

definition dial_db :: "(unit, unit) database" where
  "dial_db = \<lparr>db_devices = [\<lparr>dv_id = 5, dv_usb_port = None, dv_status = UNKNOWN, dv_last_seen = None, dv_last_call = None,
     dv_columns = ()\<rparr>], db_sims = [], db_bindings = [], db_members = [], db_next = 6\<rparr>"

lemma dial_frame: "parse_frame (ie_loads dial_env) ''{}'' = Inr (''dial'', dial_msg)"
  by (simp add: parse_frame_def dial_env_def dial_msg_def get_str_def MAX_FRAME_BYTES_def)

lemma dial_msg_fields:
  "get_str ''number'' dial_msg = Some ''10086''" "get_int ''device_id'' dial_msg = Some (JInt (int 5))"
  "get_str ''session_id'' dial_msg = Some ''s1''" "get_str ''call_id'' dial_msg = None"
  by (simp_all add: dial_msg_def get_str_def get_int_def)


text \<open>A session identifier that is used again while its first call's pump still runs: the end of that pump
  removes the route of the second call, which can no longer be hung up.\<close>

lemma redial_loses_route:
  assumes "i < length (hb_pumps h)" "j < length (hb_pumps h)" "i \<noteq> j"
    and "pm_session (hb_pumps h ! i) = s" "pm_session (hb_pumps h ! j) = s" "pm_live (hb_pumps h ! j)"
    and "get_str ''session_id'' msg = Some s" and "get_str ''call_id'' msg = None"
  shows "hb_at (snd (handle_hangup msg (end_pump i h))) = hb_at h \<and> pm_live (hb_pumps (end_pump i h) ! j)"
  using assms by (simp add: handle_hangup_def end_pump_def ret_def)


section \<open>A call over the socket\<close>

definition status_of :: "nat \<Rightarrow> ('x, 'y) hub \<Rightarrow> device_status option" where
  "status_of i h = map_option dv_status (get_row dv_id i (db_devices (hb_db h)))"

lemma status_of_set:
  assumes "ie_have_db env" and "status_of i h = Some st0"
  shows "status_of i (set_status env (Some (JInt (int i))) st h) = Some st"
proof -
  obtain d where d: "get_row dv_id i (db_devices (hb_db h)) = Some d" using assms(2) by (auto simp: status_of_def)
  have "get_row dv_id i (set_row dv_id i (\<lambda>d. d\<lparr>dv_status := st\<rparr>) (db_devices (hb_db h))) = Some (d\<lparr>dv_status := st\<rparr>)"
    by (rule get_set_row [OF _ d]) simp
  then show ?thesis using assms(1) d by (simp add: status_of_def set_device_status_def)
qed

definition fits :: "json \<Rightarrow> bool" where
  "fits m \<longleftrightarrow> length (dumps m) < MAX_FRAME_BYTES"

definition usable :: "nat \<Rightarrow> ('x, 'y) hub \<Rightarrow> bool" where
  "usable c h \<longleftrightarrow> \<not> cn_closed (hb_conns h c) \<and> cn_fault (hb_conns h c) = None"

definition sent :: "nat \<Rightarrow> ('x, 'y) hub \<Rightarrow> json list" where
  "sent c h = cn_sent (hb_conns h c)"

lemma conn_send_ok:
  assumes "fits m" and "usable c h"
  shows "\<exists>h'. conn_send c m h = (Inr (), h') \<and> usable c h' \<and> sent c h' = sent c h @ [m] \<and> hb_db h' = hb_db h
    \<and> hb_pumps h' = hb_pumps h \<and> hb_sessions h' = hb_sessions h \<and> hb_at h' = hb_at h"
  using assms by (simp add: conn_send_def fits_def usable_def sent_def ret_def)

lemma pump_event_ok:
  assumes "hb_pumps h ! n = p" "pm_conn p = c" "pm_device p = Some (JInt (int i))" "usable c h"
    and "ie_have_db env" "status_of i h = Some st0" "fits (event_payload p k cause)"
  shows "\<exists>h'. pump_call_event env n k cause False h = h' \<and> usable c h' \<and> sent c h' = sent c h @ [event_payload p k cause]
    \<and> status_of i h' = Some (case k of CONNECTED \<Rightarrow> IN_CALL | REMOTE_HANGUP \<Rightarrow> IDLE) \<and> hb_pumps h' = hb_pumps h"
proof -
  let ?st = "case k of CONNECTED \<Rightarrow> IN_CALL | REMOTE_HANGUP \<Rightarrow> IDLE"
  let ?h1 = "set_status env (pm_device p) ?st h"
  have u: "usable c ?h1" "sent c ?h1 = sent c h" using assms(4) by (simp_all add: usable_def sent_def)
  have st: "status_of i ?h1 = Some ?st" using status_of_set [OF assms(5,6)] assms(3) by simp
  obtain h' where "conn_send c (event_payload p k cause) ?h1 = (Inr (), h')" "usable c h'" "sent c h' = sent c h @ [event_payload p k cause]"
    "hb_db h' = hb_db ?h1" "hb_pumps h' = hb_pumps h"
    using conn_send_ok [OF assms(7) u(1)] u(2) by auto
  then show ?thesis
    using assms(1,2,4) u(1) st by (simp add: pump_call_event_def usable_def status_of_def)
qed

text \<open>C24. A call dialled over a connection that stays open: the device is dialling, then in a call, then idle, and the
  connection is sent the acknowledgement and the two events under one session identifier. A connection
  that closes during the call ends its pump at the hang-up, and the device stays in a call for good.\<close>

theorem dialled_call_reported:
  assumes "parse_frame (ie_loads env) line = Inr (''dial'', msg)" and "get_str ''number'' msg = Some number"
    and "get_int ''device_id'' msg = Some (JInt (int i))" and "get_str ''session_id'' msg = Some s" and "s \<noteq> []"
    and "ie_dial env (length (hb_at h)) = Inr call" and "ie_have_db env" and "status_of i h = Some st0" and "usable c h"
    and "p = \<lparr>pm_conn = c, pm_session = s, pm_call = call, pm_device = Some (JInt (int i)), pm_live = True\<rparr>"
    and "ack = JObj [(''event'', JStr ''dial_ack''), (''session_id'', JStr s)]"
    and "list_all fits [ack, event_payload p CONNECTED None, event_payload p REMOTE_HANGUP cause]"
    and "h1 = snd (serve_line env c line h)" and "n = length (hb_pumps h)" and "h2 = pump_call_event env n CONNECTED None False h1"
  shows "status_of i h1 = Some DIALING \<and> status_of i h2 = Some IN_CALL
    \<and> status_of i (pump_call_event env n REMOTE_HANGUP cause False h2) = Some IDLE
    \<and> sent c (pump_call_event env n REMOTE_HANGUP cause False h2)
        = sent c h @ [ack, event_payload p CONNECTED None, event_payload p REMOTE_HANGUP cause]
    \<and> status_of i (pump_call_event env n REMOTE_HANGUP cause False (close_conn c h2)) = Some IN_CALL"
proof -
  let ?a = "set_status env (Some (JInt (int i))) DIALING h"
  let ?b = "?a\<lparr>hb_at := hb_at h @ [AtDialed number], hb_sessions := (hb_sessions h)(s \<mapsto> call), hb_pumps := hb_pumps h @ [p]\<rparr>"
  have run: "call_handler env c ''dial'' msg h = (Inr (Some ack), ?b)"
    using assms(2-6,10,11) by (simp add: call_handler_def handle_dial_def method_defs Let_def)
  have b: "usable c ?b" "sent c ?b = sent c h" "status_of i ?b = Some DIALING"
    using assms(9) status_of_set [OF assms(7,8), of DIALING] by (simp_all add: usable_def sent_def status_of_def)
  obtain h' where h': "conn_send c ack ?b = (Inr (), h')" "usable c h'" "sent c h' = sent c h @ [ack]" "hb_db h' = hb_db ?b"
      "hb_pumps h' = hb_pumps h @ [p]"
    using conn_send_ok [of ack c ?b] assms(12) b by auto
  have h1: "h1 = h'" using assms(1,13) run h'(1) by (simp add: serve_line_def bindm_def)
  have st1: "status_of i h1 = Some DIALING" using b(3) h'(4) by (simp add: h1 status_of_def)
  have p: "hb_pumps h1 ! n = p" "pm_conn p = c" "pm_device p = Some (JInt (int i))" "usable c h1"
    using h' assms(10,14) h1 by auto
  have f: "fits (event_payload p CONNECTED None)" "fits (event_payload p REMOTE_HANGUP cause)" using assms(12) by auto
  from pump_event_ok [OF p assms(7) st1 f(1)] have h2: "usable c h2" "sent c h2 = sent c h1 @ [event_payload p CONNECTED None]"
      "status_of i h2 = Some IN_CALL" "hb_pumps h2 = hb_pumps h1"
    using assms(15) by auto
  have p2: "hb_pumps h2 ! n = p" using p(1) h2(4) by simp
  from pump_event_ok [OF p2 p(2,3) h2(1) assms(7) h2(3) f(2)]
  have h3: "sent c (pump_call_event env n REMOTE_HANGUP cause False h2) = sent c h2 @ [event_payload p REMOTE_HANGUP cause]"
    "status_of i (pump_call_event env n REMOTE_HANGUP cause False h2) = Some IDLE" by auto
  have "pump_call_event env n REMOTE_HANGUP cause False (close_conn c h2) = end_pump n (close_conn c h2)"
    using p2 p(2) by (simp add: pump_call_event_def)
  then have "status_of i (pump_call_event env n REMOTE_HANGUP cause False (close_conn c h2)) = status_of i h2"
    by (simp add: status_of_def end_pump_def)
  then show ?thesis using st1 h2 h3 h1 h'(3) by simp
qed


lemma dialled_call_reported_witness:
  "let h = hub_init dial_db; h1 = snd (serve_line dial_env 0 ''{}'' h); h2 = pump_call_event dial_env 0 CONNECTED None False h1
   in status_of 5 h1 = Some DIALING \<and> status_of 5 h2 = Some IN_CALL
     \<and> status_of 5 (pump_call_event dial_env 0 REMOTE_HANGUP (Some ''no_answer'') False h2) = Some IDLE
     \<and> status_of 5 (pump_call_event dial_env 0 REMOTE_HANGUP (Some ''no_answer'') False (close_conn 0 h2)) = Some IN_CALL"
proof -
  have d: "ie_dial dial_env (length (hb_at (hub_init dial_db))) = Inr ''c1''" "ie_have_db dial_env" "status_of 5 (hub_init dial_db) = Some UNKNOWN"
    "usable 0 (hub_init dial_db)" "''s1'' \<noteq> []"
    by (simp_all add: dial_env_def hub_init_def dial_db_def status_of_def get_row_def usable_def new_conn_def)
  have f: "list_all fits [JObj [(''event'', JStr ''dial_ack''), (''session_id'', JStr ''s1'')],
      event_payload \<lparr>pm_conn = 0, pm_session = ''s1'', pm_call = ''c1'', pm_device = Some (JInt (int 5)), pm_live = True\<rparr> CONNECTED None,
      event_payload \<lparr>pm_conn = 0, pm_session = ''s1'', pm_call = ''c1'', pm_device = Some (JInt (int 5)), pm_live = True\<rparr> REMOTE_HANGUP (Some ''no_answer'')]"
    by (simp add: fits_def event_payload_def event_name_def quote_def escape_char_def Let_def MAX_FRAME_BYTES_def nat_str.simps)
  have n: "length (hb_pumps (hub_init dial_db)) = 0" by (simp add: hub_init_def)
  show ?thesis
    using dialled_call_reported [OF dial_frame dial_msg_fields(1-3) d(5) d(1-4) refl refl f refl refl refl]
    unfolding Let_def n by simp
qed

end
