(* ===== verification/Env_File.thy ===== *)
theory Env_File imports Prelude "HOL-Library.AList" begin

text \<open>
  The environment file of the desktop client, \<open>ui/env_writer.py\<close>: validation of the activation code and the
  endpoint, the parser, and the rewrite through a temporary file. A file is its text; the parsed entries are a
  Python dict, an association list in insertion order. What the file system raises is an input.
\<close>

section \<open>Validation\<close>

definition token_char :: "char \<Rightarrow> bool" where
  "token_char c \<longleftrightarrow> (let n = of_char c :: nat in (48 \<le> n \<and> n \<le> 57) \<or> (65 \<le> n \<and> n \<le> 90) \<or> (97 \<le> n \<and> n \<le> 122))
     \<or> c \<in> set ''._-+=/:''"

definition validate_token :: "string \<Rightarrow> pyexn + unit" where
  "validate_token token0 = (let token = strip token0 in
     if token = [] then Inl (EnvFileError ''token is empty'')
     else if length token < 16 then Inl (EnvFileError (''token too short (min 16 chars, got '' @ nat_str (length token) @ '')''))
     else if 512 < length token then Inl (EnvFileError ''token too long (max 512 chars)'')
     else if \<not> list_all token_char token then
       Inl (EnvFileError ''token contains disallowed characters; allowed: A-Z a-z 0-9 . _ - + = / :'')
     else Inr ())"

definition host_char :: "char \<Rightarrow> bool" where
  "host_char c \<longleftrightarrow> (let n = of_char c :: nat in (48 \<le> n \<and> n \<le> 57) \<or> (65 \<le> n \<and> n \<le> 90) \<or> (97 \<le> n \<and> n \<le> 122))
     \<or> c \<in> set ''.-''"

text \<open>The regular expression of an endpoint: an optional scheme, a host, an optional port of one to five digits. The
  message of a refusal is modelled without the \<open>repr\<close> of the endpoint it quotes.\<close>

definition drop_scheme :: "string \<Rightarrow> string" where
  "drop_scheme s = (if startswith ''grpcs://'' s then drop 8 s else if startswith ''grpc://'' s then drop 7 s else s)"

definition endpoint_matches :: "string \<Rightarrow> bool" where
  "endpoint_matches s = (let t = drop_scheme s; host = takeWhile host_char t; rest = dropWhile host_char t
     in host \<noteq> [] \<and> (case rest of [] \<Rightarrow> True
        | c # port \<Rightarrow> c = CHR '':'' \<and> list_all is_digit port \<and> 1 \<le> length port \<and> length port \<le> 5))"

definition validate_endpoint :: "string \<Rightarrow> pyexn + unit" where
  "validate_endpoint endpoint0 = (let endpoint = strip endpoint0 in
     if endpoint = [] then Inl (EnvFileError ''endpoint is empty'')
     else if \<not> endpoint_matches endpoint then Inl (EnvFileError ''endpoint does not look like host[:port] or grpcs://host[:port]'')
     else Inr ())"


section \<open>Reading\<close>

text \<open>\<open>read_text().splitlines()\<close>, up to the empty line a carriage return before a line feed gives, which the
  parser skips.\<close>

definition line_break :: "char \<Rightarrow> bool" where
  "line_break c \<longleftrightarrow> (let n = of_char c :: nat in (10 \<le> n \<and> n \<le> 13) \<or> (28 \<le> n \<and> n \<le> 30))"

fun text_lines :: "string \<Rightarrow> string list" where
  "text_lines [] = []"
| "text_lines (c # s) = (if line_break c then [] # text_lines s
     else (case text_lines s of [] \<Rightarrow> [[c]] | l # ls \<Rightarrow> (c # l) # ls))"

definition quoted :: "string \<Rightarrow> bool" where
  "quoted v \<longleftrightarrow> (startswith [CHR 34] v \<and> endswith [CHR 34] v) \<or> (startswith [CHR 39] v \<and> endswith [CHR 39] v)"

definition unquote :: "string \<Rightarrow> string" where
  "unquote v = (if quoted v then butlast (tl v) else v)"

definition parse_line :: "string \<Rightarrow> (string \<times> string) option" where
  "parse_line raw = (let line = strip raw in
     if line = [] \<or> startswith ''#'' line then None
     else if CHR ''='' \<notin> set line then None
     else let key = takeWhile (\<lambda>c. c \<noteq> CHR ''='') line; value = strip (tl (dropWhile (\<lambda>c. c \<noteq> CHR ''='') line))
       in Some (strip key, unquote value))"

fun parse_lines :: "(string \<times> string) list \<Rightarrow> string list \<Rightarrow> (string \<times> string) list" where
  "parse_lines out [] = out"
| "parse_lines out (raw # raws) = (case parse_line raw of None \<Rightarrow> parse_lines out raws
     | Some (k, v) \<Rightarrow> parse_lines (AList.update k v out) raws)"

definition read_env :: "string option \<Rightarrow> (string \<times> string) list" where
  "read_env content = (case content of None \<Rightarrow> [] | Some text \<Rightarrow> parse_lines [] (text_lines text))"


section \<open>Writing\<close>

record env_files =
  ef_main :: "string option"
  ef_tmp :: "string option"

text \<open>What goes wrong: creating the directory, reading, writing the temporary file with what got written, replacing.\<close>

record env_faults =
  fl_mkdir :: "pyexn option"
  fl_read :: "pyexn option"
  fl_write :: "(pyexn \<times> string) option"
  fl_replace :: "pyexn option"

definition TOKEN_KEY :: string where "TOKEN_KEY = ''ISALES_EDGE_DEVICE_TOKEN''"
definition ENDPOINT_KEY :: string where "ENDPOINT_KEY = ''ISALES_CLOUD_GRPC_ENDPOINT''"

definition env_body :: "(string \<times> string) list \<Rightarrow> string" where
  "env_body kvs = join_with [CHR 10] (map (\<lambda>(k, v). k @ ''='' @ v) kvs) @ [CHR 10]"

definition write_token_and_endpoint :: "env_faults \<Rightarrow> string \<Rightarrow> string \<Rightarrow> (env_files, unit) proc" where
  "write_token_and_endpoint fl token endpoint fs =
     (case validate_token token of Inl e \<Rightarrow> raise e fs
      | Inr _ \<Rightarrow> (case validate_endpoint endpoint of Inl e \<Rightarrow> raise e fs
      | Inr _ \<Rightarrow> (case fl_mkdir fl of Some e \<Rightarrow> raise e fs
      | None \<Rightarrow> (case fl_read fl of Some e \<Rightarrow> raise e fs
      | None \<Rightarrow>
          let current = AList.update ENDPOINT_KEY (strip endpoint) (AList.update TOKEN_KEY (strip token) (read_env (ef_main fs)));
              body = env_body current
          in (case fl_write fl of Some (e, part) \<Rightarrow> raise e (fs\<lparr>ef_tmp := Some part\<rparr>)
             | None \<Rightarrow> (case fl_replace fl of Some e \<Rightarrow> raise e (fs\<lparr>ef_tmp := Some body\<rparr>)
                | None \<Rightarrow> ret () (fs\<lparr>ef_main := Some body, ef_tmp := None\<rparr>)))))))"

text \<open>\<open>_load_env_file_into_environ\<close> of \<open>main_windows.py\<close>: entries of the file where the environment has none.\<close>

definition load_env_file :: "string option \<Rightarrow> (string \<rightharpoonup> string) \<Rightarrow> (string \<rightharpoonup> string)" where
  "load_env_file content env = foldl (\<lambda>m (k, v). case m k of None \<Rightarrow> m(k \<mapsto> v) | Some _ \<Rightarrow> m) env (read_env content)"


section \<open>Reading back what was written\<close>

definition key_ok :: "string \<Rightarrow> bool" where
  "key_ok k \<longleftrightarrow> strip k = k \<and> CHR ''='' \<notin> set k \<and> \<not> startswith ''#'' k \<and> list_all (\<lambda>c. \<not> line_break c) k"

definition entries_ok :: "(string \<times> string) list \<Rightarrow> bool" where
  "entries_ok kvs \<longleftrightarrow> distinct (map fst kvs) \<and> list_all (\<lambda>(k, v). key_ok k \<and> list_all (\<lambda>c. \<not> line_break c) v) kvs"

text \<open>What a value becomes when it is written and read again.\<close>

definition reread :: "string \<Rightarrow> string" where
  "reread v = unquote (strip v)"

lemma line_break_space: "line_break c \<Longrightarrow> is_space c"
  by (auto simp: line_break_def is_space_def Let_def)

lemma text_lines_line:
  "list_all (\<lambda>c. \<not> line_break c) l \<Longrightarrow> text_lines (l @ CHR 10 # s) = l # text_lines s"
  by (induction l) (simp_all add: line_break_def)

lemma text_lines_frames:
  "list_all (list_all (\<lambda>c. \<not> line_break c)) ls \<Longrightarrow> text_lines (concat (map (\<lambda>l. l @ [CHR 10]) ls)) = ls"
  by (induction ls) (simp_all add: text_lines_line)

lemma text_lines_no_break: "l \<in> set (text_lines s) \<Longrightarrow> list_all (\<lambda>c. \<not> line_break c) l"
  by (induction s arbitrary: l) (auto split: if_splits list.splits)

lemma env_body_lines:
  "kvs \<noteq> [] \<Longrightarrow> env_body kvs = concat (map (\<lambda>l. l @ [CHR 10]) (map (\<lambda>(k, v). k @ ''='' @ v) kvs))"
proof -
  have "ls \<noteq> [] \<Longrightarrow> join_with [CHR 10] ls @ [CHR 10] = concat (map (\<lambda>l. l @ [CHR 10]) ls)" for ls
    by (induction "[CHR 10]" ls rule: join_with.induct) simp_all
  then show "kvs \<noteq> [] \<Longrightarrow> ?thesis" by (simp add: env_body_def)
qed

lemma strip_by_middle:
  assumes "\<not> P (hd (u @ [x]))" and "\<not> P x"
  shows "strip_by P (u @ x # v) = u @ x # rstrip_by P v"
proof -
  have "dropWhile P (u @ x # v) = u @ x # v" using assms by (cases u) auto
  moreover have "dropWhile P (rev v @ x # rev u) = dropWhile P (rev v) @ x # rev u" by (rule dropWhile_append3) (rule assms(2))
  ultimately show ?thesis by (simp add: strip_by_def lstrip_by_def rstrip_by_def)
qed

lemma strip_by_rstrip: "strip_by P (rstrip_by P v) = strip_by P v"
proof -
  define t where "t = rev (takeWhile P (rev v))"
  have v: "v = rstrip_by P v @ t" by (metis rstrip_by_def t_def rev_append rev_rev_ident takeWhile_dropWhile_id)
  have t: "\<forall>c \<in> set t. P c" by (auto simp: t_def dest: set_takeWhileD)
  have "dropWhile P (rev t @ rev w) = dropWhile P (rev w)" for w by (rule dropWhile_append2) (use t in simp)
  then have r: "rstrip_by P (w @ t) = rstrip_by P w" for w by (simp add: rstrip_by_def)
  show ?thesis
  proof (cases "\<exists>c \<in> set (rstrip_by P v). \<not> P c")
    case True
    then obtain c where "c \<in> set (rstrip_by P v)" "\<not> P c" by blast
    then have "dropWhile P (rstrip_by P v @ t) = dropWhile P (rstrip_by P v) @ t" by (rule dropWhile_append1)
    then show ?thesis using v r by (metis strip_by_def lstrip_by_def)
  next
    case False
    then have "dropWhile P (rstrip_by P v) = []" and "dropWhile P (rstrip_by P v @ t) = []" using t by auto
    then show ?thesis using v by (metis strip_by_def lstrip_by_def)
  qed
qed

lemma until_char:
  "c \<notin> set k \<Longrightarrow> takeWhile (\<lambda>x. x \<noteq> c) (k @ c # w) = k" "c \<notin> set k \<Longrightarrow> dropWhile (\<lambda>x. x \<noteq> c) (k @ c # w) = c # w"
  by (induction k) auto

lemma eq_no_space: "\<not> is_space CHR ''=''" by (simp add: is_space_def)

lemma parse_entry:
  assumes "key_ok k"
  shows "parse_line (k @ ''='' @ v) = Some (k, reread v)"
proof -
  have h: "\<not> is_space (hd (k @ [CHR ''='']))"
    using assms strip_by_hd [of is_space k] eq_no_space by (cases k) (auto simp: key_ok_def strip_def)
  have s: "strip (k @ CHR ''='' # v) = k @ CHR ''='' # rstrip_by is_space v"
    using strip_by_middle [OF h eq_no_space] by (simp add: strip_def)
  have k: "takeWhile (\<lambda>c. c \<noteq> CHR ''='') (k @ CHR ''='' # w) = k" "dropWhile (\<lambda>c. c \<noteq> CHR ''='') (k @ CHR ''='' # w) = CHR ''='' # w" for w
    using assms by (auto simp: key_ok_def until_char)
  have c: "\<not> startswith ''#'' (k @ CHR ''='' # w)" for w
    using assms by (cases k) (auto simp: key_ok_def startswith_def)
  have "strip (rstrip_by is_space v) = strip v" by (simp add: strip_def strip_by_rstrip)
  then show ?thesis
    using assms by (simp add: parse_line_def s k c key_ok_def reread_def)
qed

lemma update_absent: "k \<notin> fst ` set out \<Longrightarrow> AList.update k v out = out @ [(k, v)]"
  by (induction out) auto

lemma parse_lines_entries:
  "entries_ok kvs \<Longrightarrow> distinct (map fst (out @ kvs)) \<Longrightarrow>
   parse_lines out (map (\<lambda>(k, v). k @ ''='' @ v) kvs) = out @ map (\<lambda>(k, v). (k, reread v)) kvs"
proof (induction kvs arbitrary: out)
  case (Cons kv kvs)
  obtain k v where kv: "kv = (k, v)" by (cases kv)
  have key: "key_ok k" and rest: "entries_ok kvs" using Cons.prems(1) by (auto simp: kv entries_ok_def)
  have upd: "AList.update k (reread v) out = out @ [(k, reread v)]" using Cons.prems(2) by (intro update_absent) (auto simp: kv)
  have "parse_lines out (map (\<lambda>(k, v). k @ ''='' @ v) (kv # kvs))
      = parse_lines (out @ [(k, reread v)]) (map (\<lambda>(k, v). k @ ''='' @ v) kvs)"
    using parse_entry [OF key, of v] by (simp add: kv upd)
  also have "\<dots> = (out @ [(k, reread v)]) @ map (\<lambda>(k, v). (k, reread v)) kvs"
    by (rule Cons.IH [OF rest]) (use Cons.prems(2) in \<open>auto simp: kv\<close>)
  finally show ?case by (simp add: kv)
qed simp

lemma read_env_body:
  assumes "entries_ok kvs" and "kvs \<noteq> []"
  shows "read_env (Some (env_body kvs)) = map (\<lambda>(k, v). (k, reread v)) kvs"
proof -
  have ll: "list_all (list_all (\<lambda>c. \<not> line_break c)) (map (\<lambda>(k, v). k @ ''='' @ v) kvs)"
    using assms(1) by (auto simp: entries_ok_def list_all_iff key_ok_def line_break_def)
  have "read_env (Some (env_body kvs)) = parse_lines [] (map (\<lambda>(k, v). k @ ''='' @ v) kvs)"
    by (simp only: read_env_def option.case env_body_lines [OF assms(2)] text_lines_frames [OF ll])
  also have "\<dots> = map (\<lambda>(k, v). (k, reread v)) kvs"
    using parse_lines_entries [OF assms(1), of "[]"] assms(1) by (simp add: entries_ok_def)
  finally show ?thesis .
qed

text \<open>What the parser returns can be written again.\<close>

lemma parse_line_ok:
  assumes "parse_line raw = Some (k, v)" and "list_all (\<lambda>c. \<not> line_break c) raw"
  shows "key_ok k \<and> list_all (\<lambda>c. \<not> line_break c) v"
proof -
  let ?l = "strip raw"
  let ?key = "takeWhile (\<lambda>c. c \<noteq> CHR ''='') ?l"
  let ?val = "strip (tl (dropWhile (\<lambda>c. c \<noteq> CHR ''='') ?l))"
  have l: "?l \<noteq> []" "\<not> startswith ''#'' ?l" and kv: "k = strip ?key" "v = unquote ?val"
    using assms(1) by (auto simp: parse_line_def Let_def split: if_splits)
  have sub: "set ?l \<subseteq> set raw" unfolding strip_def by (rule set_strip_by)
  have key_sub: "set k \<subseteq> set ?key" unfolding kv strip_def by (rule set_strip_by)
  have hd: "\<not> is_space (hd ?l)" using l(1) strip_by_hd unfolding strip_def by blast
  have "\<not> startswith ''#'' k"
  proof (cases ?key)
    case Nil
    then show ?thesis using key_sub by (simp add: startswith_def)
  next
    case (Cons c cs)
    then have c: "hd ?l = c" by (cases ?l) (auto split: if_splits)
    then have "\<not> is_space c" "c \<noteq> CHR ''#''" using hd l by (auto simp: startswith_def, cases ?l, auto)
    then have "k = c # rstrip_by is_space cs"
      unfolding kv(1) Cons unfolding strip_def using strip_by_middle [of is_space "[]" c cs] by simp
    then show ?thesis using \<open>c \<noteq> _\<close> by (simp add: startswith_def)
  qed
  moreover have "CHR ''='' \<notin> set k" using key_sub by (auto dest: set_takeWhileD)
  moreover have "strip k = k" by (simp add: kv(1) strip_def)
  moreover have "list_all (\<lambda>c. \<not> line_break c) k"
    using key_sub sub assms(2) by (auto simp: list_all_iff dest!: set_takeWhileD)
  moreover have "list_all (\<lambda>c. \<not> line_break c) v"
  proof -
    have "set v \<subseteq> set ?val" unfolding kv unquote_def by (auto dest: in_set_butlastD list.set_sel(2) [rotated])
        (metis in_set_butlastD list.sel(2) list.set_sel(2))
    moreover have "set ?val \<subseteq> set (tl (dropWhile (\<lambda>c. c \<noteq> CHR ''='') ?l))" unfolding strip_def by (rule set_strip_by)
    moreover have "set (tl (dropWhile (\<lambda>c. c \<noteq> CHR ''='') ?l)) \<subseteq> set ?l"
      by (metis set_dropWhileD subsetI list.sel(2) list.set_sel(2))
    ultimately have "set v \<subseteq> set raw" using sub by blast
    then show ?thesis using assms(2) by (auto simp: list_all_iff)
  qed
  ultimately show ?thesis by (simp add: key_ok_def)
qed

lemma set_update_sub: "set (AList.update k v out) \<subseteq> insert (k, v) (set out)"
  by (induction out) auto

lemma entries_ok_update:
  assumes "entries_ok kvs" "key_ok k" "list_all (\<lambda>c. \<not> line_break c) v"
  shows "entries_ok (AList.update k v kvs)"
proof -
  have "\<forall>x \<in> insert (k, v) (set kvs). case x of (k, v) \<Rightarrow> key_ok k \<and> list_all (\<lambda>c. \<not> line_break c) v"
    using assms by (auto simp: entries_ok_def list_all_iff)
  then have "\<forall>x \<in> set (AList.update k v kvs). case x of (k, v) \<Rightarrow> key_ok k \<and> list_all (\<lambda>c. \<not> line_break c) v"
    using set_update_sub [of k v kvs] by blast
  then show ?thesis using assms(1) unfolding entries_ok_def list_all_iff by (simp add: distinct_update)
qed

lemma parse_lines_ok:
  assumes "entries_ok out" and "list_all (list_all (\<lambda>c. \<not> line_break c)) ls"
  shows "entries_ok (parse_lines out ls)"
  using assms
proof (induction out ls rule: parse_lines.induct)
  case (2 out raw raws)
  show ?case
  proof (cases "parse_line raw")
    case (Some kv)
    obtain k v where kv: "kv = (k, v)" by (cases kv)
    have ok: "key_ok k" "list_all (\<lambda>c. \<not> line_break c) v" using parse_line_ok [of raw k v] Some kv 2(4) by auto
    have "entries_ok (AList.update k v out)" by (rule entries_ok_update [OF 2(3) ok])
    then show ?thesis using 2(2) Some kv 2(4) by simp
  qed (use 2 in simp)
qed simp


lemma read_env_ok: "entries_ok (read_env content)"
  by (cases content) (auto simp: read_env_def entries_ok_def list_all_iff
      intro!: parse_lines_ok [unfolded entries_ok_def list_all_iff] dest: text_lines_no_break [unfolded list_all_iff])

lemma keys_ok: "key_ok TOKEN_KEY" "key_ok ENDPOINT_KEY" "TOKEN_KEY \<noteq> ENDPOINT_KEY"
  by code_simp+

lemma token_char_plain: "token_char c \<Longrightarrow> \<not> is_space c \<and> c \<noteq> CHR 34 \<and> c \<noteq> CHR 39"
  by (auto simp: token_char_def is_space_def Let_def)

lemma unquoted_first: "v \<noteq> [] \<Longrightarrow> hd v \<noteq> CHR 34 \<Longrightarrow> hd v \<noteq> CHR 39 \<Longrightarrow> unquote v = v"
  by (cases v) (auto simp: unquote_def quoted_def startswith_def)

lemma valid_token_reread:
  assumes "validate_token token = Inr ()"
  shows "reread (strip token) = strip token" "list_all (\<lambda>c. \<not> line_break c) (strip token)"
proof -
  have t: "strip token \<noteq> []" "list_all token_char (strip token)"
    using assms by (auto simp: validate_token_def Let_def split: if_splits)
  then have "token_char (hd (strip token))" by (cases "strip token") auto
  then show "reread (strip token) = strip token"
    using unquoted_first [OF t(1)] token_char_plain by (simp add: reread_def strip_def)
  show "list_all (\<lambda>c. \<not> line_break c) (strip token)"
    using t(2) token_char_plain line_break_space by (auto simp: list_all_iff)
qed

definition plain_char :: "char \<Rightarrow> bool" where
  "plain_char c \<longleftrightarrow> \<not> is_space c \<and> c \<noteq> CHR 34 \<and> c \<noteq> CHR 39"

lemma host_plain: "host_char d \<Longrightarrow> plain_char d"
  by (auto simp: host_char_def is_space_def plain_char_def Let_def)

lemma digit_plain: "is_digit d \<Longrightarrow> plain_char d"
  by (auto simp: is_digit_def is_space_def plain_char_def Let_def)

lemma scheme_plain: "list_all plain_char ''grpcs://''" "list_all plain_char ''grpc://''" "plain_char CHR '':''"
  by code_simp+

lemma endpoint_chars:
  assumes "endpoint_matches s"
  shows "list_all plain_char s"
proof -
  let ?t = "drop_scheme s"
  have "\<exists>u. s = u @ ?t \<and> list_all plain_char u"
    using scheme_plain by (fastforce simp: drop_scheme_def startswith_iff)
  moreover have "list_all plain_char (takeWhile host_char ?t)"
    using host_plain by (auto simp: list_all_iff dest: set_takeWhileD)
  moreover have "list_all plain_char (dropWhile host_char ?t)"
  proof (cases "dropWhile host_char ?t")
    case (Cons c port)
    then have "c = CHR '':''" "list_all is_digit port" using assms by (simp_all add: endpoint_matches_def Let_def)
    then show ?thesis using Cons scheme_plain(3) digit_plain by (auto simp: list_all_iff)
  next
    case Nil
    then show ?thesis by (simp only: list.pred_inject)
  qed
  ultimately show ?thesis by (metis list_all_append takeWhile_dropWhile_id)
qed

lemma valid_endpoint_reread:
  assumes "validate_endpoint ep = Inr ()"
  shows "reread (strip ep) = strip ep" "list_all (\<lambda>c. \<not> line_break c) (strip ep)"
proof -
  have t: "strip ep \<noteq> []" "endpoint_matches (strip ep)"
    using assms by (auto simp: validate_endpoint_def Let_def split: if_splits)
  then show "reread (strip ep) = strip ep"
    using unquoted_first [OF t(1)] endpoint_chars [OF t(2)] hd_in_set [OF t(1)] by (simp add: reread_def strip_def plain_char_def list_all_iff)
  show "list_all (\<lambda>c. \<not> line_break c) (strip ep)"
    using endpoint_chars [OF t(2)] line_break_space by (auto simp: list_all_iff plain_char_def)
qed

lemma write_env_success:
  assumes "write_token_and_endpoint fl token endpoint fs = (Inr u, fs')"
  defines "kvs \<equiv> AList.update ENDPOINT_KEY (strip endpoint) (AList.update TOKEN_KEY (strip token) (read_env (ef_main fs)))"
  shows "validate_token token = Inr ()" "validate_endpoint endpoint = Inr ()" "ef_tmp fs' = None"
    "read_env (ef_main fs') = map (\<lambda>(k, v). (k, reread v)) kvs"
    "map_of (read_env (ef_main fs')) TOKEN_KEY = Some (strip token)"
    "map_of (read_env (ef_main fs')) ENDPOINT_KEY = Some (strip endpoint)"
proof -
  have ok: "validate_token token = Inr ()" "validate_endpoint endpoint = Inr ()" and new: "ef_main fs' = Some (env_body kvs)" "ef_tmp fs' = None"
    using assms(1) by (auto simp: write_token_and_endpoint_def raise_def ret_def Let_def kvs_def split: sum.splits option.splits prod.splits)
  have kvs: "entries_ok kvs"
    unfolding kvs_def by (intro entries_ok_update read_env_ok keys_ok valid_token_reread(2) [OF ok(1)] valid_endpoint_reread(2) [OF ok(2)])
  have readback: "read_env (ef_main fs') = map (\<lambda>(k, v). (k, reread v)) kvs"
    unfolding new by (rule read_env_body [OF kvs]) (simp add: kvs_def update_nonempty)
  have "map_of (read_env (ef_main fs')) k = map_option reread (map_of kvs k)" for k by (simp add: readback map_of_map)
  then show "map_of (read_env (ef_main fs')) TOKEN_KEY = Some (strip token)"
    "map_of (read_env (ef_main fs')) ENDPOINT_KEY = Some (strip endpoint)"
    using keys_ok(3) valid_token_reread(1) [OF ok(1)] valid_endpoint_reread(1) [OF ok(2)] by (simp_all add: kvs_def update_conv')
  show "validate_token token = Inr ()" "validate_endpoint endpoint = Inr ()" "ef_tmp fs' = None"
    "read_env (ef_main fs') = map (\<lambda>(k, v). (k, reread v)) kvs"
    by (fact ok new(2) readback)+
qed

lemma write_env_failure:
  "write_token_and_endpoint fl token endpoint fs = (Inl e, fs') \<Longrightarrow> ef_main fs' = ef_main fs"
  by (auto simp: write_token_and_endpoint_def raise_def ret_def Let_def split: sum.splits option.splits prod.splits)

text \<open>C28. Rewriting the environment file is atomic: whatever fails, the file is what it was. On success it parses to
  its old entries, in their order, with the new token and endpoint; the other values are read as \<open>reread\<close>, which
  is the identity on values without quotes or blanks at the ends, but takes off quotes that the first reading left.\<close>

theorem env_file_round_trip:
  assumes "write_token_and_endpoint fl token endpoint fs = (r, fs')"
  shows "case r of
      Inl e \<Rightarrow> ef_main fs' = ef_main fs
    | Inr _ \<Rightarrow> read_env (ef_main fs') = map (\<lambda>(k, v). (k, reread v))
          (AList.update ENDPOINT_KEY (strip endpoint) (AList.update TOKEN_KEY (strip token) (read_env (ef_main fs))))
        \<and> map_of (read_env (ef_main fs')) TOKEN_KEY = Some (strip token)
        \<and> map_of (read_env (ef_main fs')) ENDPOINT_KEY = Some (strip endpoint) \<and> ef_tmp fs' = None"
proof (cases r)
  case (Inl e)
  then show ?thesis using write_env_failure assms by simp
next
  case (Inr u)
  show ?thesis using write_env_success [OF assms [unfolded Inr]] by (simp only: Inr sum.case)
qed

definition no_faults :: env_faults where
  "no_faults = \<lparr>fl_mkdir = None, fl_read = None, fl_write = None, fl_replace = None\<rparr>"

lemma env_file_round_trip_witness:
  "\<exists>fs'. write_token_and_endpoint no_faults '' abcdefgh.12345678 '' ''grpcs://edge.example:443'' \<lparr>ef_main = Some ''# note'', ef_tmp = None\<rparr>
       = (Inr (), fs') \<and> map_of (read_env (ef_main fs')) TOKEN_KEY = Some ''abcdefgh.12345678''"
proof -
  have v: "validate_token '' abcdefgh.12345678 '' = Inr ()" "validate_endpoint ''grpcs://edge.example:443'' = Inr ()"
    "strip '' abcdefgh.12345678 '' = ''abcdefgh.12345678''" by code_simp+
  let ?fs = "\<lparr>ef_main = Some ''# note'', ef_tmp = None\<rparr>"
  obtain r fs' where run: "write_token_and_endpoint no_faults '' abcdefgh.12345678 '' ''grpcs://edge.example:443'' ?fs = (r, fs')"
    by (rule prod.exhaust)
  then have "r = Inr ()" using v by (auto simp: write_token_and_endpoint_def no_faults_def ret_def Let_def)
  then have "map_of (read_env (ef_main fs')) TOKEN_KEY = Some ''abcdefgh.12345678''"
    using env_file_round_trip [OF run] v(3) by (auto simp only: sum.case)
  with run \<open>r = Inr ()\<close> show ?thesis by blast
qed

text \<open>An entry whose quotes hold quotes loses the inner ones when only the token is replaced.\<close>

lemma rewrite_strips_inner_quotes:
  "parse_line ([CHR 75, CHR ''='', CHR 34, CHR 39] @ ''x'' @ [CHR 39, CHR 34]) = Some (''K'', [CHR 39] @ ''x'' @ [CHR 39])
   \<and> reread ([CHR 39] @ ''x'' @ [CHR 39]) = ''x''"
  by code_simp

end
