(* ===== verification/Edge_Ui.thy ===== *)
theory Edge_Ui imports Env_File Grpc_Client begin

text \<open>
  The desktop shell around the edge client: the status snapshot and its bus (\<open>ui/state.py\<close>), activation
  (\<open>ui/activation.py\<close>), the log handler, restarter, connection watcher, cleanup and signal handling of
  \<open>main_windows.py\<close>, and the heartbeat of \<open>edge/grpc_heartbeat.py\<close>. The bus is shared by threads: publishing is
  the exchange under the lock followed by one delivery per subscriber, and other publishers may run in between.
\<close>

section \<open>Status\<close>

datatype tray_colour = GREEN | RED

datatype cloud_link = CONNECTED_LINK | DISCONNECTED | AWAITING_ACTIVATION | AUTH_REJECTED

datatype modem_state = MODEM_IDLE | MODEM_BUSY | MODEM_ERROR | MODEM_OFFLINE

record modem_summary =
  ms_node :: string
  ms_state :: modem_state

record edge_status =
  es_link :: cloud_link
  es_modems :: "modem_summary list"
  es_logs :: "string list"
  es_error :: "string option"

definition default_status :: edge_status where
  "default_status = \<lparr>es_link = AWAITING_ACTIVATION, es_modems = [], es_logs = [], es_error = None\<rparr>"

definition tray_color :: "edge_status \<Rightarrow> tray_colour" where
  "tray_color s = (if es_link s \<noteq> CONNECTED_LINK then RED
     else if list_ex (\<lambda>m. ms_state m = MODEM_IDLE) (es_modems s) then GREEN else RED)"

definition is_activated :: "edge_status \<Rightarrow> bool" where
  "is_activated s \<longleftrightarrow> es_link s \<noteq> AWAITING_ACTIVATION"


section \<open>The bus\<close>

text \<open>\<open>bs_pending\<close> holds the publications whose deliveries are under way, \<open>bs_given\<close> what subscribers were given.
  A subscriber that raises is logged and changes nothing here.\<close>

record bus =
  bs_status :: edge_status
  bs_subs :: "nat list"
  bs_pending :: "(edge_status \<times> nat list) list"
  bs_given :: "(nat \<times> edge_status) list"

definition bus_init :: "edge_status option \<Rightarrow> bus" where
  "bus_init initial = \<lparr>bs_status = (case initial of None \<Rightarrow> default_status | Some s \<Rightarrow> s), bs_subs = [], bs_pending = [],
     bs_given = []\<rparr>"

definition subscribe :: "nat \<Rightarrow> bus \<Rightarrow> bus" where
  "subscribe n b = b\<lparr>bs_subs := bs_subs b @ [n]\<rparr>"

definition unsubscribe :: "nat \<Rightarrow> bus \<Rightarrow> bus" where
  "unsubscribe n b = b\<lparr>bs_subs := remove1 n (bs_subs b)\<rparr>"

text \<open>The part of \<open>set\<close> and \<open>update\<close> under the lock, one delivery of the \<open>i\<close>th publication, and all of the last.\<close>

definition publish :: "(edge_status \<Rightarrow> edge_status) \<Rightarrow> bus \<Rightarrow> bus" where
  "publish f b = b\<lparr>bs_status := f (bs_status b), bs_pending := bs_pending b @ [(f (bs_status b), bs_subs b)]\<rparr>"

definition deliver :: "nat \<Rightarrow> bus \<Rightarrow> bus" where
  "deliver i b = (if i < length (bs_pending b) then (case bs_pending b ! i of
       (s, []) \<Rightarrow> b\<lparr>bs_pending := take i (bs_pending b) @ drop (Suc i) (bs_pending b)\<rparr>
     | (s, n # ns) \<Rightarrow> b\<lparr>bs_pending := (bs_pending b)[i := (s, ns)], bs_given := bs_given b @ [(n, s)]\<rparr>) else b)"

definition fan_out :: "edge_status \<Rightarrow> bus \<Rightarrow> bus" where
  "fan_out s b = b\<lparr>bs_given := bs_given b @ map (\<lambda>n. (n, s)) (bs_subs b)\<rparr>"

text \<open>\<open>set\<close> and \<open>update\<close> when nothing runs in between.\<close>

definition bus_set :: "edge_status \<Rightarrow> bus \<Rightarrow> bus" where
  "bus_set s b = fan_out s (b\<lparr>bs_status := s\<rparr>)"

definition bus_update :: "(edge_status \<Rightarrow> edge_status) \<Rightarrow> bus \<Rightarrow> bus" where
  "bus_update f b = bus_set (f (bs_status b)) b"

definition last_given :: "nat \<Rightarrow> bus \<Rightarrow> edge_status option" where
  "last_given n b = map_option snd (find (\<lambda>g. fst g = n) (rev (bs_given b)))"


section \<open>Activation\<close>

record attempt =
  at_token :: string
  at_endpoint :: string
  at_error :: "string option"

definition exc_text :: "pyexn \<Rightarrow> string" where
  "exc_text e = (case e of EnvFileError m \<Rightarrow> m | OSError m \<Rightarrow> m | RuntimeError m \<Rightarrow> m | OtherError m \<Rightarrow> m | _ \<Rightarrow> class_name e)"

definition set_error :: "string option \<Rightarrow> edge_status \<Rightarrow> edge_status" where
  "set_error e s = s\<lparr>es_error := e\<rparr>"

definition set_link :: "cloud_link \<Rightarrow> edge_status \<Rightarrow> edge_status" where
  "set_link l s = s\<lparr>es_link := l\<rparr>"

text \<open>The UTF-8 bytes of the prefixes of the two messages.\<close>

definition write_failed_text :: string where
  "write_failed_text = map char_of [230, 151, 160, 230, 179, 149, 229, 134, 153, 229, 133, 165 :: nat] @ '' env ''
     @ map char_of [230, 150, 135, 228, 187, 182 :: nat] @ '': ''"

definition rejected_text :: string where
  "rejected_text = map char_of [228, 186, 145, 231, 171, 175, 230, 139, 146, 231, 187, 157, 230, 191, 128, 230, 180, 187, 231, 160, 129 :: nat]
     @ '': ''"

text \<open>\<open>process_submission\<close>: \<open>restart\<close> is the injected restarter, which may publish on the bus itself.
  \<open>except OSError\<close> lets other errors of the writer through.\<close>

record shell =
  sh_bus :: bus
  sh_files :: env_files

definition is_os_error :: "pyexn \<Rightarrow> bool" where
  "is_os_error e \<longleftrightarrow> (case e of OSError _ \<Rightarrow> True | _ \<Rightarrow> False)"

definition tell :: "(edge_status \<Rightarrow> edge_status) \<Rightarrow> shell \<Rightarrow> shell" where
  "tell f sh = sh\<lparr>sh_bus := bus_update f (sh_bus sh)\<rparr>"

definition process_submission ::
  "env_faults \<Rightarrow> (string \<Rightarrow> string \<Rightarrow> (bus, unit) proc) \<Rightarrow> string \<Rightarrow> string \<Rightarrow> string \<Rightarrow> (shell, attempt) proc" where
  "process_submission fl restart fallback token0 endpoint0 sh =
     (let token = strip token0; endpoint = (if strip endpoint0 = [] then fallback else strip endpoint0);
          outcome = (\<lambda>e. \<lparr>at_token = token, at_endpoint = endpoint, at_error = e\<rparr>)
      in case (case validate_token token of Inl e \<Rightarrow> Inl e | Inr _ \<Rightarrow> validate_endpoint endpoint) of
          Inl e \<Rightarrow> ret (outcome (Some (exc_text e))) (tell (set_error (Some (exc_text e))) sh)
        | Inr _ \<Rightarrow> (case write_token_and_endpoint fl token endpoint (sh_files sh) of
            (Inl e, fs) \<Rightarrow> let sh1 = sh\<lparr>sh_files := fs\<rparr>; msg = write_failed_text @ exc_text e in
              if is_os_error e then ret (outcome (Some msg)) (tell (set_error (Some msg)) sh1) else raise e sh1
          | (Inr _, fs) \<Rightarrow>
              let sh1 = tell (set_error None \<circ> set_link DISCONNECTED) (sh\<lparr>sh_files := fs\<rparr>) in
              (case restart endpoint token (sh_bus sh1) of
                 (Inl e, b) \<Rightarrow> let sh2 = sh1\<lparr>sh_bus := b\<rparr>; msg = rejected_text @ exc_text e in
                   if is_exception e then ret (outcome (Some msg)) (tell (set_error (Some msg) \<circ> set_link AUTH_REJECTED) sh2)
                   else raise e sh2
               | (Inr _, b) \<Rightarrow> ret (outcome None) (sh1\<lparr>sh_bus := b\<rparr>))))"

text \<open>\<open>run_dialog\<close>: the dialog gives the two fields, or \<open>None\<close> when it is cancelled.\<close>

definition run_dialog ::
  "env_faults \<Rightarrow> (string \<Rightarrow> string \<Rightarrow> (bus, unit) proc) \<Rightarrow> string \<Rightarrow> (string \<times> string) option \<Rightarrow> (shell, attempt option) proc" where
  "run_dialog fl restart fallback entered = (case entered of
       None \<Rightarrow> ret None
     | Some (token, endpoint) \<Rightarrow> bindm (process_submission fl restart fallback token (if endpoint = [] then fallback else endpoint))
         (\<lambda>a. case at_error a of None \<Rightarrow> ret (Some a)
            | Some e \<Rightarrow> seqm (modify (tell (set_error (Some e)))) (ret (Some a))))"

text \<open>\<open>_GrpcClientRestarter.restart\<close>: \<open>stop_res\<close> and \<open>start_res\<close> are what the client's two methods raise.\<close>

definition restart :: "pyexn option \<Rightarrow> pyexn option \<Rightarrow> (bus, unit) proc" where
  "restart stop_res start_res b = (case stop_res of
       Some e \<Rightarrow> if is_exception e then (case start_res of Some e2 \<Rightarrow> raise e2 b | None \<Rightarrow> ret () (bus_update (set_link CONNECTED_LINK) b))
         else raise e b
     | None \<Rightarrow> (case start_res of Some e2 \<Rightarrow> raise e2 b | None \<Rightarrow> ret () (bus_update (set_link CONNECTED_LINK) b)))"


section \<open>The process\<close>

definition log_emit :: "nat \<Rightarrow> string \<Rightarrow> bus \<Rightarrow> bus" where
  "log_emit capacity line b = (let ls = es_logs (bs_status b) @ [line];
       kept = (if capacity = 0 then ls else drop (length ls - capacity) ls)
     in bus_update (\<lambda>s. s\<lparr>es_logs := kept\<rparr>) b)"

text \<open>One tick of \<open>_watch_grpc_connection\<close>; the loop keeps \<open>last\<close>.\<close>

definition watched_link :: "bool \<Rightarrow> cloud_link \<Rightarrow> cloud_link" where
  "watched_link up current = (if up then CONNECTED_LINK
     else if current \<in> {AWAITING_ACTIVATION, AUTH_REJECTED} then current else DISCONNECTED)"

definition watch_tick :: "bool \<Rightarrow> cloud_link option \<times> bus \<Rightarrow> cloud_link option \<times> bus" where
  "watch_tick up lb = (case lb of (prev, b) \<Rightarrow> let now = watched_link up (es_link (bs_status b)) in
     if Some now \<noteq> prev then (Some now, bus_update (set_link now) b) else (prev, b))"

definition event_buffer_path :: "(string \<rightharpoonup> string) \<Rightarrow> string option" where
  "event_buffer_path env = (case env ''ISALES_EDGE_EVENT_BUFFER_PATH'' of
       Some p \<Rightarrow> if p \<noteq> [] then Some p else (case env ''APPDATA'' of Some a \<Rightarrow> if a = [] then None
           else Some (a @ ''/isales/sqlite/edge_buffer.db'') | None \<Rightarrow> None)
     | None \<Rightarrow> (case env ''APPDATA'' of Some a \<Rightarrow> if a = [] then None else Some (a @ ''/isales/sqlite/edge_buffer.db'') | None \<Rightarrow> None))"

text \<open>\<open>_graceful_cleanup\<close>: the outcome of each step; a step that times out or raises an \<open>Exception\<close> is passed over. The
  buffer's \<open>close\<close> is not guarded. The log names the steps that were started.\<close>

definition safe_step :: "string \<Rightarrow> pyexn option \<Rightarrow> (string list, unit) proc" where
  "safe_step name res = suppress (\<lambda>l. case res of None \<Rightarrow> ret () (l @ [name]) | Some e \<Rightarrow> raise e (l @ [name]))"

definition graceful_cleanup ::
  "pyexn option \<Rightarrow> pyexn option \<Rightarrow> pyexn option option \<Rightarrow> pyexn option option \<Rightarrow> (string list, unit) proc" where
  "graceful_cleanup orchestrator grpc buffer modem =
     seqm (safe_step ''orchestrator.stop'' orchestrator)
    (seqm (safe_step ''grpc_client.stop'' grpc)
    (seqm (case buffer of None \<Rightarrow> ret () | Some res \<Rightarrow> (\<lambda>l. case res of None \<Rightarrow> ret () (l @ [''event_buffer.close''])
              | Some e \<Rightarrow> raise e (l @ [''event_buffer.close''])))
          (case modem of None \<Rightarrow> ret () | Some res \<Rightarrow> safe_step ''at_client.aclose'' res)))"

text \<open>\<open>_request_stop\<close>: the first signal asks for a stop and arms the kill timer, a later one restores the default.\<close>

record signals =
  sg_down :: bool
  sg_stop :: bool
  sg_timers :: nat
  sg_default :: bool

definition request_stop :: "signals \<Rightarrow> signals" where
  "request_stop s = (if sg_down s then s\<lparr>sg_default := True\<rparr>
     else s\<lparr>sg_down := True, sg_stop := True, sg_timers := sg_timers s + 1\<rparr>)"


section \<open>Heartbeats\<close>

datatype device_health = HEALTH_IDLE | HEALTH_IN_CALL

record heartbeat =
  hb_device :: int
  hb_status :: device_health
  hb_signal :: int

definition build_heartbeat :: "int \<Rightarrow> device_health \<Rightarrow> int option \<Rightarrow> heartbeat" where
  "build_heartbeat device st sig = \<lparr>hb_device = device, hb_status = st, hb_signal = (case sig of None \<Rightarrow> -1 | Some v \<Rightarrow> v)\<rparr>"

definition device_status_provider :: "string list \<Rightarrow> device_health" where
  "device_status_provider active_calls = (if active_calls \<noteq> [] then HEALTH_IN_CALL else HEALTH_IDLE)"

text \<open>The loop over the readings of its iterations; \<open>wrap\<close> makes the frame. Every \<open>Exception\<close> of a send is passed over.\<close>

fun grpc_heartbeat_loop ::
  "('m \<Rightarrow> 'p) \<Rightarrow> (heartbeat \<Rightarrow> 'm) \<Rightarrow> int \<Rightarrow> (device_health \<times> int option) list \<Rightarrow> (('m, 'p) client, unit) proc" where
  "grpc_heartbeat_loop ser wrap device [] = ret ()"
| "grpc_heartbeat_loop ser wrap device ((st, sig) # rs) =
     seqm (suppress (client_send ser False (wrap (build_heartbeat device st sig)))) (grpc_heartbeat_loop ser wrap device rs)"


section \<open>Behaviour\<close>

lemma bus_update_status [simp]:
  "bs_status (bus_update f b) = f (bs_status b)" "bs_subs (bus_update f b) = bs_subs b" "bs_pending (bus_update f b) = bs_pending b"
  by (simp_all add: bus_update_def bus_set_def fan_out_def)

lemma tell_simps [simp]:
  "bs_status (sh_bus (tell f sh)) = f (bs_status (sh_bus sh))" "sh_files (tell f sh) = sh_files sh"
  by (simp_all add: tell_def)

lemma last_given_fan_out:
  "n \<in> set (bs_subs b) \<Longrightarrow> last_given n (fan_out s b) = Some s"
proof -
  have "n \<in> set ns \<Longrightarrow> map_option snd (find (\<lambda>g. fst g = n) (map (\<lambda>n. (n, s)) ns @ rest)) = Some s" for ns rest
    by (induction ns) auto
  then show "n \<in> set (bs_subs b) \<Longrightarrow> ?thesis" by (simp add: last_given_def fan_out_def rev_map)
qed


text \<open>While the watcher is the only writer of the link, the link after its ticks is what the last tick saw, and the
  waiting and rejected states are never overwritten by a missing connection. When another writer publishes
  a connection that is down again at the next tick, the watcher, which compares with its own last value, never
  corrects it: the icon shows the connection for as long as it stays down.\<close>

theorem watcher_link:
  "(prev \<in> {None, Some (es_link (bs_status b))} \<longrightarrow> ups \<noteq> [] \<longrightarrow>
      es_link (bs_status (snd (fold watch_tick ups (prev, b)))) =
        (if last ups then CONNECTED_LINK
         else if True \<in> set ups then DISCONNECTED
         else if es_link (bs_status b) \<in> {AWAITING_ACTIVATION, AUTH_REJECTED} then es_link (bs_status b) else DISCONNECTED))
   \<and> (prev = Some DISCONNECTED \<longrightarrow> es_link (bs_status b) = CONNECTED_LINK \<longrightarrow>
      snd (fold watch_tick (replicate n False) (prev, b)) = b)"
proof (intro conjI impI)
  assume "prev \<in> {None, Some (es_link (bs_status b))}" and "ups \<noteq> []"
  then show "es_link (bs_status (snd (fold watch_tick ups (prev, b)))) =
        (if last ups then CONNECTED_LINK
         else if True \<in> set ups then DISCONNECTED
         else if es_link (bs_status b) \<in> {AWAITING_ACTIVATION, AUTH_REJECTED} then es_link (bs_status b) else DISCONNECTED)"
  proof (induction ups arbitrary: prev b)
    case (Cons up ups)
    let ?now = "watched_link up (es_link (bs_status b))"
    define b1 where "b1 = snd (watch_tick up (prev, b))"
    have b1: "watch_tick up (prev, b) = (Some ?now, b1)" "es_link (bs_status b1) = ?now"
      using Cons.prems(1) by (auto simp: b1_def watch_tick_def Let_def set_link_def)
    show ?case
    proof (cases "ups = []")
      case True
      then show ?thesis using b1 by (auto simp: watched_link_def)
    next
      case False
      from Cons.IH [of "Some ?now" b1, OF _ False] b1 show ?thesis
        using False by (auto simp: watched_link_def)
    qed
  qed simp
next
  assume "prev = Some DISCONNECTED" and "es_link (bs_status b) = CONNECTED_LINK"
  then show "snd (fold watch_tick (replicate n False) (prev, b)) = b"
    by (induction n) (auto simp: watch_tick_def watched_link_def)
qed

lemma log_emit_newest:
  assumes "0 < capacity"
  shows "lines \<noteq> [] \<Longrightarrow> es_logs (bs_status (fold (log_emit capacity) lines b)) = newest capacity (es_logs (bs_status b) @ lines)"
proof (induction lines arbitrary: b)
  case (Cons l lines)
  have logs: "es_logs (bs_status (log_emit capacity l b)) = newest capacity (es_logs (bs_status b) @ [l])"
    using assms by (simp add: log_emit_def Let_def newest_def)
  show ?case
  proof (cases "lines = []")
    case True
    then show ?thesis by (simp add: logs)
  next
    case False
    then show ?thesis using Cons.IH [of "log_emit capacity l b"] by (simp add: logs newest_newest_append)
  qed
qed simp

text \<open>Two publishers on two threads: the status is the later one, but the deliveries of the earlier may come last.\<close>

lemma concurrent_publish_stale:
  assumes "bs_subs b = [n]" and "bs_pending b = []" and "f (bs_status b) \<noteq> g (f (bs_status b))"
  defines "b' \<equiv> deliver 0 (deliver 0 (deliver 1 (deliver 1 (publish g (publish f b)))))"
  shows "bs_pending b' = [] \<and> bs_status b' = g (f (bs_status b)) \<and> last_given n b' = Some (f (bs_status b))"
  using assms(1,2) by (simp add: b'_def publish_def deliver_def last_given_def numeral_2_eq_2)

lemma suppress_Inr: "m s = (Inr (), s') \<Longrightarrow> suppress m s = (Inr (), s')"
  by (simp add: suppress_def catchm_def)

lemma heartbeats_buffered:
  "backend_inv ser parse (cl_backend c) \<Longrightarrow> \<not> cl_connected c \<Longrightarrow>
   \<exists>b'. grpc_heartbeat_loop ser wrap device rs c = (Inr (), c\<lparr>cl_backend := b'\<rparr>) \<and> backend_inv ser parse b'
     \<and> backend_contents parse b' = newest (backend_limit (cl_backend c))
         (backend_contents parse (cl_backend c) @ map (\<lambda>(st, sig). wrap (build_heartbeat device st sig)) rs)"
proof (induction rs arbitrary: c)
  case Nil
  then show ?case by (intro exI [of _ "cl_backend c"]) (simp add: ret_def frames.contents_bound)
next
  case (Cons r rs)
  obtain st sig where r: "r = (st, sig)" by (cases r)
  let ?m = "wrap (build_heartbeat device st sig)"
  from frames.append_ok [OF Cons.prems(1), of ?m] obtain b1 where b1: "backend_append ser ?m (cl_backend c) = (Inr (), b1)"
    "backend_inv ser parse b1" "backend_limit b1 = backend_limit (cl_backend c)"
    "backend_contents parse b1 = newest (backend_limit (cl_backend c)) (backend_contents parse (cl_backend c) @ [?m])" by blast
  have "suppress (client_send ser False ?m) c = (Inr (), c\<lparr>cl_backend := b1\<rparr>)"
    by (rule suppress_Inr) (simp add: client_send_def b1(1) Cons.prems(2))
  with Cons.IH [of "c\<lparr>cl_backend := b1\<rparr>"] b1 Cons.prems(2) show ?case
    by (auto simp: r seqm_def bindm_def newest_newest_append)
qed

text \<open>Heartbeats of an outage are buffered like events: they share the buffer's limit with them, and once as many
  heartbeats were due as the buffer holds, nothing is left in it but heartbeats. The loop itself never fails.\<close>

theorem outage_heartbeats_evict_events:
  assumes "backend_inv ser parse (cl_backend c)" and "\<not> cl_connected c"
  shows "\<exists>c'. grpc_heartbeat_loop ser wrap device rs c = (Inr (), c')
    \<and> backend_contents parse (cl_backend c') = newest (backend_limit (cl_backend c))
         (backend_contents parse (cl_backend c) @ map (\<lambda>(st, sig). wrap (build_heartbeat device st sig)) rs)
    \<and> (backend_limit (cl_backend c) \<le> length rs \<longrightarrow> set (backend_contents parse (cl_backend c')) \<subseteq> range wrap)"
proof -
  let ?hb = "map (\<lambda>(st, sig). wrap (build_heartbeat device st sig)) rs"
  from heartbeats_buffered [OF assms, of wrap device rs] obtain b' where b':
    "grpc_heartbeat_loop ser wrap device rs c = (Inr (), c\<lparr>cl_backend := b'\<rparr>)"
    "backend_contents parse b' = newest (backend_limit (cl_backend c)) (backend_contents parse (cl_backend c) @ ?hb)" by blast
  have "set (newest n (xs @ ?hb)) \<subseteq> range wrap" if "n \<le> length rs" for n xs
    using that by (auto simp: newest_def dest!: in_set_dropD)
  then show ?thesis using b' by (intro exI [of _ "c\<lparr>cl_backend := b'\<rparr>"]) simp
qed

lemma outage_heartbeats_evict_events_witness:
  "\<exists>c'. grpc_heartbeat_loop id (\<lambda>h. nat (hb_device h)) 5 [(HEALTH_IDLE, None), (HEALTH_IN_CALL, Some 20)] client_ex = (Inr (), c')
     \<and> backend_contents Some (cl_backend c') = [5, 5]"
proof -
  have inv: "backend_inv id Some (cl_backend client_ex)" "\<not> cl_connected client_ex"
    by (simp_all add: client_ex_def ebuf_ex_def healthy_def ebuf_inv_def codec_def corrupt_def)
  from outage_heartbeats_evict_events [OF inv, of "\<lambda>h. nat (hb_device h)" 5 "[(HEALTH_IDLE, None), (HEALTH_IN_CALL, Some 20)]"]
  obtain c' where c': "grpc_heartbeat_loop id (\<lambda>h. nat (hb_device h)) 5 [(HEALTH_IDLE, None), (HEALTH_IN_CALL, Some 20)] client_ex = (Inr (), c')"
    "backend_contents Some (cl_backend c') = newest (backend_limit (cl_backend client_ex)) (backend_contents Some (cl_backend client_ex) @ [5, 5])"
    by (auto simp: build_heartbeat_def)
  have "newest (backend_limit (cl_backend client_ex)) (backend_contents Some (cl_backend client_ex) @ [5, 5]) = [5, 5]"
    by (simp add: client_ex_def ebuf_ex_def newest_def good_def)
  with c' show ?thesis by auto
qed

lemma watcher_link_witness:
  "let b = bus_update (set_link CONNECTED_LINK) (bus_init None) in
     snd (fold watch_tick (replicate 9 False) (Some DISCONNECTED, b)) = b
     \<and> es_link (bs_status (snd (fold watch_tick [True, False] (None, b)))) = DISCONNECTED"
proof -
  let ?b = "bus_update (set_link CONNECTED_LINK) (bus_init None)"
  have l: "es_link (bs_status ?b) = CONNECTED_LINK" by (simp add: set_link_def)
  from watcher_link [of "Some DISCONNECTED" ?b "[]" 9] l
  have "snd (fold watch_tick (replicate 9 False) (Some DISCONNECTED, ?b)) = ?b" by blast
  moreover from watcher_link [of None ?b "[True, False]" 0]
  have "es_link (bs_status (snd (fold watch_tick [True, False] (None, ?b)))) = DISCONNECTED"
    by (simp del: fold_simps)
  ultimately show ?thesis unfolding Let_def by blast
qed


end
