(* ===== verification/Rtc_Session.thy ===== *)
theory Rtc_Session imports Audio_Bridge begin

text \<open>
  The RTC sessions behind the audio bridge: the Windows session over the DingRTC binding
  (\<open>audio_bridge/windows_dingrtc_session.py\<close>), the in-memory session of the macOS edge (\<open>audio_bridge/session.py\<close>)
  with the channel registry its instances share, and the choice between them (\<open>audio_bridge/__init__.py\<close>). The
  binding is a parameter: the calls made on it are logged, and which of them raise is an input.
\<close>

section \<open>The Windows session\<close>

record rtc_frame = pcm_frame +
  pf_timestamp :: int

text \<open>Calls on the binding, with the engine they are made on.\<close>

datatype sdk_call =
    Create | SetListener | RegisterObserver | EnableObserver | CustomCapture | ExternalSource int int
  | PublishAudio | NoVideo | SubscribeAll | JoinChannel string string string string string
  | LeaveChannel | UnregisterObserver | Destroy | ClearCallbacks
  | PushExternal bytes int int int

record win_session =
  ws_app :: string
  ws_gslb :: string
  ws_capacity :: nat
  ws_engine :: "nat option"
  ws_listener :: bool
  ws_observer :: bool
  ws_buffer :: bool
  ws_joined :: bool
  ws_closed :: bool
  ws_rate :: int
  ws_channels :: int
  ws_queue :: "rtc_frame option list option"
  ws_drainer :: bool
  ws_next :: nat
  ws_calls :: "(nat \<times> sdk_call) list"

definition win_init :: "string \<Rightarrow> string \<Rightarrow> nat \<Rightarrow> pyexn + win_session" where
  "win_init app gslb capacity = (if app = [] then Inl (ValueError ''WindowsDingRtcSession requires app_id'')
     else Inr \<lparr>ws_app = app, ws_gslb = gslb, ws_capacity = capacity, ws_engine = None, ws_listener = False, ws_observer = False,
       ws_buffer = False, ws_joined = False, ws_closed = False, ws_rate = 16000, ws_channels = 1, ws_queue = None,
       ws_drainer = False, ws_next = 0, ws_calls = []\<rparr>)"

definition sdk :: "nat \<Rightarrow> sdk_call list \<Rightarrow> win_session \<Rightarrow> win_session" where
  "sdk e calls ws = ws\<lparr>ws_calls := ws_calls ws @ map (\<lambda>c. (e, c)) calls\<rparr>"

definition setup_calls :: "string \<Rightarrow> string \<Rightarrow> string \<Rightarrow> win_session \<Rightarrow> sdk_call list" where
  "setup_calls room token uid ws = [Create, SetListener, RegisterObserver, EnableObserver, CustomCapture,
     ExternalSource (ws_rate ws) (ws_channels ws), PublishAudio, NoVideo, SubscribeAll,
     JoinChannel room uid (ws_app ws) token (ws_gslb ws)]"

text \<open>The frame queue holds twice the capacity; a size of 0 is unbounded.\<close>

definition room_left :: "nat \<Rightarrow> 'a list \<Rightarrow> bool" where
  "room_left capacity q \<longleftrightarrow> capacity = 0 \<or> length q < 2 * capacity"

text \<open>The sentinel is \<open>None\<close>; a full queue does not take it.\<close>

definition put_sentinel :: "win_session \<Rightarrow> win_session" where
  "put_sentinel ws = (case ws_queue ws of None \<Rightarrow> ws
     | Some q \<Rightarrow> if room_left (ws_capacity ws) q then ws\<lparr>ws_queue := Some (q @ [None])\<rparr> else ws)"

definition teardown_partial :: "win_session \<Rightarrow> win_session" where
  "teardown_partial ws =
     (let ws1 = ws\<lparr>ws_drainer := False\<rparr>;
          ws2 = (case ws_engine ws1 of None \<Rightarrow> ws1 | Some e \<Rightarrow> (sdk e [UnregisterObserver, Destroy] ws1)\<lparr>ws_engine := None\<rparr>);
          ws3 = (if ws_listener ws2 then (sdk 0 [ClearCallbacks] ws2)\<lparr>ws_listener := False\<rparr> else ws2)
      in put_sentinel (ws3\<lparr>ws_observer := False, ws_buffer := False\<rparr>))"

text \<open>What the wait for \<open>OnJoinChannelResult\<close> ends with.\<close>

datatype join_outcome = JoinResult int | JoinTimeout | JoinError string | JoinCancelled

text \<open>\<open>setup\<close>: the index of the set-up call that raises \<open>DingRtcError\<close>, if one does.\<close>

definition win_join ::
  "nat option \<Rightarrow> join_outcome \<Rightarrow> string \<Rightarrow> string \<Rightarrow> string \<Rightarrow> int \<Rightarrow> int \<Rightarrow> (win_session, unit) proc" where
  "win_join setup outcome room token uid rate channels ws =
     (if ws_joined ws then raise (RtcError ''WindowsDingRtcSession already joined'') ws
      else if ws_closed ws then raise (RtcError ''WindowsDingRtcSession is closed; create new instance'') ws
      else let e = ws_next ws; ws1 = ws\<lparr>ws_rate := rate, ws_channels := channels, ws_next := Suc e\<rparr>;
               calls = setup_calls room token uid ws1
           in case (case setup of Some k \<Rightarrow> if k < length calls then Some k else None | None \<Rightarrow> None) of
               Some k \<Rightarrow> raise (RtcError ''DingRTC join setup failed'') (sdk e (take (Suc k) calls @ [Destroy]) ws1)
             | None \<Rightarrow>
                 let ws2 = (sdk e calls ws1)\<lparr>ws_engine := Some e, ws_listener := True, ws_buffer := True, ws_observer := True\<rparr>
                 in case outcome of
                     JoinTimeout \<Rightarrow> raise (RtcError ''JoinChannel timed out'') (teardown_partial ws2)
                   | JoinError m \<Rightarrow> raise (RtcError m) (teardown_partial ws2)
                   | JoinCancelled \<Rightarrow> raise Cancelled ws2
                   | JoinResult rc \<Rightarrow> if rc \<noteq> 0 then raise (RtcError ''OnJoinChannelResult'') (teardown_partial ws2)
                       else ret () (ws2\<lparr>ws_queue := Some [], ws_drainer := True, ws_joined := True\<rparr>))"

definition win_leave :: "win_session \<Rightarrow> win_session" where
  "win_leave ws = (if \<not> ws_joined ws \<and> ws_closed ws then ws
     else let ws1 = (case ws_engine ws of None \<Rightarrow> ws | Some e \<Rightarrow> sdk e [LeaveChannel] ws)
          in (teardown_partial ws1)\<lparr>ws_joined := False, ws_closed := True\<rparr>)"

text \<open>Inbound: a frame of the native buffer, with the attributes it may lack, and one pass of \<open>_drain_loop\<close>.\<close>

record raw_frame =
  rw_uid :: "string option"
  rw_pcm :: bytes
  rw_rate :: "nat option"
  rw_channels :: "nat option"
  rw_timestamp :: "int option"

definition or_default :: "nat \<Rightarrow> nat option \<Rightarrow> nat" where
  "or_default d v = (case v of None \<Rightarrow> d | Some n \<Rightarrow> if n = 0 then d else n)"

definition frame_of :: "raw_frame \<Rightarrow> rtc_frame" where
  "frame_of raw = \<lparr>pf_sender = (case rw_uid raw of None \<Rightarrow> [] | Some u \<Rightarrow> u), pf_pcm = rw_pcm raw,
     pf_rate = or_default 16000 (rw_rate raw), pf_channels = or_default 1 (rw_channels raw),
     pf_timestamp = (case rw_timestamp raw of None \<Rightarrow> 0 | Some t \<Rightarrow> t)\<rparr>"

definition queue_frame :: "nat \<Rightarrow> rtc_frame option list \<Rightarrow> rtc_frame \<Rightarrow> rtc_frame option list" where
  "queue_frame capacity q f = (if room_left capacity q then q @ [Some f] else tl q @ [Some f])"

definition drain_pass :: "raw_frame list \<Rightarrow> win_session \<Rightarrow> win_session" where
  "drain_pass raws ws = (if \<not> ws_drainer ws then ws
     else ws\<lparr>ws_queue := map_option (\<lambda>q. foldl (queue_frame (ws_capacity ws)) q (map frame_of raws)) (ws_queue ws)\<rparr>)"

text \<open>\<open>audio_frames\<close>: what starting it does, and one step of the iterator, \<open>None\<close> while it waits.\<close>

definition frames_start :: "(win_session, unit) proc" where
  "frames_start ws = (if \<not> ws_joined ws \<or> ws_queue ws = None then raise RtcNotJoined ws else ret () ws)"

datatype frame_step = Yielded rtc_frame | Ended | Waiting

definition frames_next :: "win_session \<Rightarrow> frame_step \<times> win_session" where
  "frames_next ws = (case ws_queue ws of
       Some (None # q) \<Rightarrow> (Ended, ws\<lparr>ws_queue := Some q\<rparr>)
     | Some (Some f # q) \<Rightarrow> (Yielded f, ws\<lparr>ws_queue := Some q\<rparr>)
     | _ \<Rightarrow> (Waiting, ws))"

text \<open>Outbound: the 10 ms slices with their time stamps; \<open>failing\<close> is the index of the push that raises.\<close>

function slices :: "nat \<Rightarrow> bytes \<Rightarrow> int \<Rightarrow> (bytes \<times> int) list" where
  "slices n pcm ts = (if pcm = [] \<or> n = 0 then []
     else (take n pcm @ replicate (n - length pcm) 0, ts) # slices n (drop n pcm) (ts + 10))"
  by pat_completeness auto
termination
  by (relation "measure (\<lambda>(n, pcm, ts). length pcm)") auto

declare slices.simps [simp del]

definition win_push :: "nat option \<Rightarrow> bytes \<Rightarrow> int \<Rightarrow> (win_session, unit) proc" where
  "win_push failing pcm ts ws = (case ws_engine ws of
       None \<Rightarrow> raise RtcNotJoined ws
     | Some e \<Rightarrow>
         if \<not> ws_joined ws then raise RtcNotJoined ws
         else if ws_rate ws \<le> 0 \<or> ws_channels ws \<le> 0 then raise RtcNotJoined ws
         else if pcm = [] then ret () ws
         else let n = nat (ws_rate ws div 100 * ws_channels ws * 2);
                  pushes = map (\<lambda>(f, t). PushExternal f (ws_rate ws) (ws_channels ws) t) (slices n pcm ts)
              in if n = 0 then raise (ValueError ''range() arg 3 must not be zero'') ws
                 else (case failing of
                     Some k \<Rightarrow> if k < length pushes then raise (RtcError ''PushExternalAudioFrame failed'') (sdk e (take (Suc k) pushes) ws)
                       else ret () (sdk e pushes ws)
                   | None \<Rightarrow> ret () (sdk e pushes ws)))"


section \<open>The in-memory session\<close>

record mac_config =
  mc_inbound :: nat
  mc_outbound :: nat
  mc_channels :: nat

record mac_session =
  mp_config :: mac_config
  mp_joined :: bool
  mp_channel :: "string option"
  mp_uid :: "string option"
  mp_rate :: nat
  mp_inbound :: "rtc_frame option list"
  mp_drained :: bool
  mp_outbound :: nat
  mp_force :: bool
  mp_backpressure :: nat

text \<open>The sessions of the process and the class-level registry.\<close>

record mac_world =
  mw_sessions :: "nat \<Rightarrow> mac_session"
  mw_registry :: "string \<Rightarrow> nat list"

definition mac_init :: "mac_config \<Rightarrow> mac_session" where
  "mac_init cfg = \<lparr>mp_config = cfg, mp_joined = False, mp_channel = None, mp_uid = None, mp_rate = 16000, mp_inbound = [],
     mp_drained = True, mp_outbound = 0, mp_force = False, mp_backpressure = 0\<rparr>"

definition upd_session :: "nat \<Rightarrow> (mac_session \<Rightarrow> mac_session) \<Rightarrow> mac_world \<Rightarrow> mac_world" where
  "upd_session i f w = w\<lparr>mw_sessions := (mw_sessions w)(i := f (mw_sessions w i))\<rparr>"

definition mac_join :: "nat \<Rightarrow> string \<Rightarrow> string \<Rightarrow> nat \<Rightarrow> (mac_world, unit) proc" where
  "mac_join i room uid rate w =
     (if mp_joined (mw_sessions w i) then raise (RtcError ''session already joined'') w
      else ret () ((upd_session i (\<lambda>s. s\<lparr>mp_channel := Some room, mp_uid := Some uid, mp_rate := rate, mp_joined := True\<rparr>) w)
        \<lparr>mw_registry := (mw_registry w)(room := mw_registry w room @ [i])\<rparr>))"

text \<open>\<open>leave\<close> up to the put of the sentinel, which waits while the inbound queue is full, and its end.\<close>

definition leave_begin :: "nat \<Rightarrow> mac_world \<Rightarrow> mac_world" where
  "leave_begin i w = (let s = mw_sessions w i; w1 = upd_session i (\<lambda>s. s\<lparr>mp_joined := False\<rparr>) w in
     case mp_channel s of None \<Rightarrow> w1
     | Some c \<Rightarrow> w1\<lparr>mw_registry := (mw_registry w1)(c := remove1 i (mw_registry w1 c))\<rparr>)"

definition mac_leave :: "nat \<Rightarrow> mac_world \<Rightarrow> (pyexn + unit) option \<times> mac_world" where
  "mac_leave i w = (if \<not> mp_joined (mw_sessions w i) then (Some (Inr ()), w)
     else let w1 = leave_begin i w; s = mw_sessions w1 i in
       if mc_inbound (mp_config s) \<noteq> 0 \<and> mc_inbound (mp_config s) \<le> length (mp_inbound s) then (None, w1)
       else (Some (Inr ()), upd_session i (\<lambda>s. s\<lparr>mp_inbound := mp_inbound s @ [None], mp_drained := True\<rparr>) w1))"

definition mac_is_joined :: "nat \<Rightarrow> mac_world \<Rightarrow> bool" where
  "mac_is_joined i w = mp_joined (mw_sessions w i)"

definition mac_frames_next :: "nat \<Rightarrow> mac_world \<Rightarrow> frame_step \<times> mac_world" where
  "mac_frames_next i w = (case mp_inbound (mw_sessions w i) of
       [] \<Rightarrow> (Waiting, w)
     | None # q \<Rightarrow> (Ended, upd_session i (\<lambda>s. s\<lparr>mp_inbound := q\<rparr>) w)
     | Some f # q \<Rightarrow> (Yielded f, upd_session i (\<lambda>s. s\<lparr>mp_inbound := q\<rparr>) w))"

definition accept_frame :: "rtc_frame \<Rightarrow> mac_session \<Rightarrow> mac_session" where
  "accept_frame f s = (if mc_inbound (mp_config s) = 0 \<or> length (mp_inbound s) < mc_inbound (mp_config s)
     then s\<lparr>mp_inbound := mp_inbound s @ [Some f]\<rparr> else s)"

definition mac_peers :: "nat \<Rightarrow> mac_world \<Rightarrow> nat list" where
  "mac_peers i w = filter (\<lambda>j. j \<noteq> i \<and> mp_joined (mw_sessions w j))
     (mw_registry w (case mp_channel (mw_sessions w i) of None \<Rightarrow> [] | Some c \<Rightarrow> c))"

text \<open>\<open>push_audio\<close>; the outer \<open>None\<close> is the wait for the drain event, which the scheduled \<open>mac_drain\<close> ends.\<close>

definition mac_push :: "nat \<Rightarrow> bytes \<Rightarrow> int \<Rightarrow> mac_world \<Rightarrow> (pyexn + unit) option \<times> mac_world" where
  "mac_push i pcm ts w = (let s = mw_sessions w i in
     if \<not> mp_joined s then (Some (Inl RtcNotJoined), w)
     else if mp_force s then (Some (Inl RtcPushBackpressure),
       upd_session i (\<lambda>s. s\<lparr>mp_force := False, mp_backpressure := mp_backpressure s + 1\<rparr>) w)
     else if \<not> mp_drained s then (None, w)
     else let f = \<lparr>pf_sender = (case mp_uid s of None \<Rightarrow> [] | Some u \<Rightarrow> u), pf_pcm = pcm, pf_rate = mp_rate s,
                pf_channels = mc_channels (mp_config s), pf_timestamp = ts\<rparr>;
              w1 = foldl (\<lambda>w j. upd_session j (accept_frame f) w) w (mac_peers i w)
          in (Some (Inr ()), upd_session i (\<lambda>s. if mc_outbound (mp_config s) \<le> mp_outbound s + 1
                then s\<lparr>mp_outbound := 0, mp_drained := False, mp_backpressure := mp_backpressure s + 1\<rparr>
                else s\<lparr>mp_outbound := mp_outbound s + 1\<rparr>) w1))"

definition mac_drain :: "nat \<Rightarrow> mac_world \<Rightarrow> mac_world" where
  "mac_drain i = upd_session i (\<lambda>s. s\<lparr>mp_drained := True\<rparr>)"


section \<open>The factory\<close>

datatype session_class = WindowsDingRtc string | MacosDingRtc | MacosMock

definition get_default_rtc_session_factory :: "string \<Rightarrow> bool \<Rightarrow> string option \<Rightarrow> pyexn + session_class" where
  "get_default_rtc_session_factory plat pyobjc app =
     (if plat = ''win32'' then (case app of Some a \<Rightarrow> if a \<noteq> [] then Inr (WindowsDingRtc a)
          else Inl (ValueError ''Windows edge RtcSession (DingRTC) requires app_id'')
        | None \<Rightarrow> Inl (ValueError ''Windows edge RtcSession (DingRTC) requires app_id''))
      else if plat = ''darwin'' then Inr (if pyobjc then MacosDingRtc else MacosMock)
      else Inl (OtherError ''NotImplementedError''))"

section \<open>Outbound slices\<close>

lemma slices_step:
  "pcm \<noteq> [] \<Longrightarrow> 0 < n \<Longrightarrow> slices n pcm ts = (take n pcm @ replicate (n - length pcm) 0, ts) # slices n (drop n pcm) (ts + 10)"
  by (subst slices.simps) simp

lemma slices_nil [simp]: "slices n [] ts = []" by (subst slices.simps) simp

lemma slices_facts:
  assumes "0 < n"
  shows "(\<exists>k < n. concat (map fst (slices n pcm ts)) = pcm @ replicate k 0) \<and> (\<forall>s \<in> set (slices n pcm ts). length (fst s) = n)
    \<and> map snd (slices n pcm ts) = map (\<lambda>i. ts + 10 * int i) [0..<length (slices n pcm ts)]"
  using assms
proof (induction n pcm ts rule: slices.induct)
  case (1 n pcm ts)
  show ?case
  proof (cases "pcm = []")
    case False
    let ?rest = "slices n (drop n pcm) (ts + 10)"
    from "1.IH" False "1.prems" have IH: "\<exists>k < n. concat (map fst ?rest) = drop n pcm @ replicate k 0"
        "\<forall>s \<in> set ?rest. length (fst s) = n" "map snd ?rest = map (\<lambda>i. ts + 10 + 10 * int i) [0..<length ?rest]"
      by auto
    have stamps: "map snd ((u, ts) # ?rest) = map (\<lambda>i. ts + 10 * int i) [0..<length ((u, ts) # ?rest)]" for u :: bytes
      unfolding list.map snd_conv IH(3) by (simp add: upt_conv_Cons map_Suc_upt [symmetric] comp_def algebra_simps del: upt_Suc)
    have "\<exists>k < n. take n pcm @ replicate (n - length pcm) 0 @ concat (map fst ?rest) = pcm @ replicate k 0"
    proof (cases "length pcm < n")
      case True
      then show ?thesis using False by (intro exI [of _ "n - length pcm"]) auto
    next
      case le: False
      from IH(1) obtain k where "k < n" "concat (map fst ?rest) = drop n pcm @ replicate k 0" by blast
      then show ?thesis using le by (intro exI [of _ k]) simp
    qed
    then show ?thesis
      using IH(2) stamps "1.prems" unfolding slices_step [OF False "1.prems"] by auto
  qed (use "1.prems" in simp)
qed

text \<open>What is pushed to the SDK is the caller's audio, cut into frames of exactly 10 ms in order, with time stamps 10 ms
  apart; only the last frame is padded, with less than a frame of silence.\<close>

theorem pushed_audio_is_sliced:
  assumes "ws_engine ws = Some e" and "ws_joined ws" and "100 \<le> ws_rate ws" and "0 < ws_channels ws" and "pcm \<noteq> []"
    and "n = nat (ws_rate ws div 100 * ws_channels ws * 2)"
  shows "\<exists>fs k ws'. win_push None pcm ts ws = (Inr (), ws')
    \<and> ws_calls ws' = ws_calls ws @ map (\<lambda>(f, t). (e, PushExternal f (ws_rate ws) (ws_channels ws) t)) fs
    \<and> concat (map fst fs) = pcm @ replicate k 0 \<and> k < n \<and> (\<forall>f \<in> set fs. length (fst f) = n)
    \<and> map snd fs = map (\<lambda>i. ts + 10 * int i) [0..<length fs]"
proof -
  have "0 < ws_rate ws div 100" using assms(3) by (simp add: pos_imp_zdiv_pos_iff)
  then have n: "0 < n" using assms(4,6) by (simp add: zero_less_mult_iff)
  from slices_facts [OF n, of pcm ts] obtain k where "k < n" "concat (map fst (slices n pcm ts)) = pcm @ replicate k 0" by blast
  let ?pushes = "map (\<lambda>(f, t). PushExternal f (ws_rate ws) (ws_channels ws) t) (slices n pcm ts)"
  have "win_push None pcm ts ws = (Inr (), sdk e ?pushes ws)"
    using assms(1-5) n unfolding win_push_def assms(6) [symmetric] by (simp add: ret_def)
  then show ?thesis
    using slices_facts [OF n, of pcm ts] \<open>k < n\<close> \<open>concat _ = _\<close>
    by (intro exI [of _ "slices n pcm ts"] exI [of _ k] exI [of _ "sdk e ?pushes ws"]) (simp add: sdk_def comp_def case_prod_beta)
qed

lemma pushed_audio_is_sliced_witness:
  "let ws = \<lparr>ws_app = ''a'', ws_gslb = ''g'', ws_capacity = 4, ws_engine = Some 0, ws_listener = True, ws_observer = True,
       ws_buffer = True, ws_joined = True, ws_closed = False, ws_rate = 100, ws_channels = 1, ws_queue = Some [],
       ws_drainer = True, ws_next = 1, ws_calls = []\<rparr>
   in \<exists>ws'. win_push None [1, 2, 3] 40 ws = (Inr (), ws') \<and> (\<exists>fs :: (bytes \<times> int) list. concat (map fst fs) = [1, 2, 3, 0] \<and> length (ws_calls ws') = length fs)"
proof -
  define ws where "ws = \<lparr>ws_app = ''a'', ws_gslb = ''g'', ws_capacity = 4, ws_engine = Some 0, ws_listener = True, ws_observer = True,
       ws_buffer = True, ws_joined = True, ws_closed = False, ws_rate = 100, ws_channels = 1, ws_queue = Some [],
       ws_drainer = True, ws_next = 1, ws_calls = []\<rparr>"
  have "2 = nat (ws_rate ws div 100 * ws_channels ws * 2)" by (simp add: ws_def)
  from pushed_audio_is_sliced [of ws 0 "[1, 2, 3]" 2 40, OF _ _ _ _ _ this]
  obtain fs :: "(bytes \<times> int) list" and k ws' where w: "win_push None [1, 2, 3] 40 ws = (Inr (), ws')" "length (ws_calls ws') = length fs"
    "concat (map fst fs) = [1, 2, 3] @ replicate k 0" "k < 2" "\<forall>f \<in> set fs. length (fst f) = 2"
    by (auto simp: ws_def)
  have "length (concat (map fst fs)) = 2 * length fs" using w(5) by (induction fs) auto
  then have "3 + k = 2 * length fs" using w(3) by simp
  then have "k = 1" using w(4) by presburger
  then show ?thesis using w unfolding ws_def [symmetric] Let_def by auto
qed

section \<open>Engines are released\<close>

inductive win_reach :: "win_session \<Rightarrow> bool" where
  init: "win_init app gslb capacity = Inr ws \<Longrightarrow> win_reach ws"
| join: "win_reach ws \<Longrightarrow> ws_joined ws \<or> ws_engine ws = None \<Longrightarrow> win_join setup outcome room token uid rate channels ws = (r, ws') \<Longrightarrow> win_reach ws'"
| leave: "win_reach ws \<Longrightarrow> win_reach (win_leave ws)"
| drain: "win_reach ws \<Longrightarrow> win_reach (drain_pass raws ws)"
| frame: "win_reach ws \<Longrightarrow> frames_next ws = (st, ws') \<Longrightarrow> win_reach ws'"
| push: "win_reach ws \<Longrightarrow> win_push failing pcm ts ws = (r, ws') \<Longrightarrow> win_reach ws'"

definition win_inv :: "win_session \<Rightarrow> bool" where
  "win_inv ws \<longleftrightarrow> (\<forall>e. count_list (ws_calls ws) (e, Create) = (if e < ws_next ws then 1 else 0)
       \<and> count_list (ws_calls ws) (e, Destroy) = (if e < ws_next ws \<and> ws_engine ws \<noteq> Some e then 1 else 0))
     \<and> (\<forall>e. ws_engine ws = Some e \<longrightarrow> e < ws_next ws)
     \<and> (ws_joined ws \<longrightarrow> ws_engine ws \<noteq> None \<and> ws_drainer ws \<and> ws_queue ws \<noteq> None \<and> \<not> ws_closed ws)
     \<and> (ws_closed ws \<longrightarrow> ws_engine ws = None \<and> \<not> ws_drainer ws)"

lemma count_sdk:
  "count_list (ws_calls (sdk e calls ws)) (e', c) = count_list (ws_calls ws) (e', c) + (if e = e' then count_list calls c else 0)"
  by (induction calls) (auto simp: sdk_def)

lemma setup_counts:
  "count_list (setup_calls room token uid ws) Create = 1" "count_list (setup_calls room token uid ws) Destroy = 0"
  "k < length (setup_calls room token uid ws) \<Longrightarrow> count_list (take (Suc k) (setup_calls room token uid ws)) Create = 1"
  "count_list (take k (setup_calls room token uid ws)) Destroy = 0"
proof -
  have rest: "Create \<notin> set (tl (setup_calls room token uid ws))" "Destroy \<notin> set (setup_calls room token uid ws)"
    by (auto simp: setup_calls_def)
  then show "count_list (take k (setup_calls room token uid ws)) Destroy = 0"
    "count_list (setup_calls room token uid ws) Destroy = 0"
    by (auto simp: count_list_0_iff dest: in_set_takeD)
  have "setup_calls room token uid ws = Create # tl (setup_calls room token uid ws)" by (simp add: setup_calls_def)
  moreover have "count_list (take k (tl (setup_calls room token uid ws))) Create = 0" for k
    using rest(1) by (auto simp: count_list_0_iff dest: in_set_takeD)
  ultimately show "count_list (take (Suc k) (setup_calls room token uid ws)) Create = 1" for k
    by (metis add_0 count_list.simps(2) take_Suc_Cons plus_1_eq_Suc One_nat_def)
  from this [of "length (setup_calls room token uid ws)"] show "count_list (setup_calls room token uid ws) Create = 1" by simp
qed

lemma teardown_fields [simp]:
  "ws_engine (teardown_partial ws) = None" "ws_drainer (teardown_partial ws) = False" "ws_next (teardown_partial ws) = ws_next ws"
  "ws_joined (teardown_partial ws) = ws_joined ws" "ws_closed (teardown_partial ws) = ws_closed ws"
  by (simp_all add: teardown_partial_def put_sentinel_def sdk_def Let_def split: option.splits)

lemma teardown_counts:
  "count_list (ws_calls (teardown_partial ws)) (e, Create) = count_list (ws_calls ws) (e, Create)"
  "count_list (ws_calls (teardown_partial ws)) (e, Destroy) = count_list (ws_calls ws) (e, Destroy) + (if ws_engine ws = Some e then 1 else 0)"
  by (auto simp: teardown_partial_def put_sentinel_def sdk_def Let_def split: option.splits)

lemma win_inv_teardown:
  assumes "\<forall>e. count_list (ws_calls ws) (e, Create) = (if e < ws_next ws then 1 else 0)
       \<and> count_list (ws_calls ws) (e, Destroy) = (if e < ws_next ws \<and> ws_engine ws \<noteq> Some e then 1 else 0)"
    and "\<forall>e. ws_engine ws = Some e \<longrightarrow> e < ws_next ws" and "\<not> ws_joined ws"
  shows "win_inv (teardown_partial ws)"
  using assms by (auto simp: win_inv_def teardown_counts)

lemma win_inv_join:
  assumes "win_inv ws" and "ws_joined ws \<or> ws_engine ws = None" and "win_join setup outcome room token uid rate channels ws = (r, ws')"
  shows "win_inv ws'"
proof (cases "ws_joined ws \<or> ws_closed ws")
  case True
  then show ?thesis using assms(1,3) by (cases "ws_joined ws") (auto simp: win_join_def raise_def)
next
  case False
  then have none: "ws_engine ws = None" using assms(2) by blast
  let ?e = "ws_next ws"
  let ?ws1 = "ws\<lparr>ws_rate := rate, ws_channels := channels, ws_next := Suc ?e\<rparr>"
  let ?calls = "setup_calls room token uid ?ws1"
  let ?ws2 = "(sdk ?e ?calls ?ws1)\<lparr>ws_engine := Some ?e, ws_listener := True, ws_buffer := True, ws_observer := True\<rparr>"
  have counts: "\<forall>e. count_list (ws_calls ws) (e, Create) = (if e < ?e then 1 else 0)
      \<and> count_list (ws_calls ws) (e, Destroy) = (if e < ?e then 1 else 0)"
    using assms(1) none by (simp add: win_inv_def)
  have c2: "\<forall>e. count_list (ws_calls ?ws2) (e, Create) = (if e < ws_next ?ws2 then 1 else 0)
       \<and> count_list (ws_calls ?ws2) (e, Destroy) = (if e < ws_next ?ws2 \<and> ws_engine ?ws2 \<noteq> Some e then 1 else 0)"
    using counts by (auto simp: count_sdk setup_counts less_Suc_eq) (auto simp: sdk_def)
  have t2: "win_inv (teardown_partial ?ws2)"
    by (rule win_inv_teardown [OF c2]) (use False in \<open>auto simp: sdk_def\<close>)
  have failed: "win_inv (sdk ?e (take (Suc k) ?calls @ [Destroy]) ?ws1)" if "k < length ?calls" for k
  proof -
    have "\<forall>e. count_list (ws_calls (sdk ?e (take (Suc k) ?calls @ [Destroy]) ?ws1)) (e, Create) = (if e < Suc ?e then 1 else 0)
       \<and> count_list (ws_calls (sdk ?e (take (Suc k) ?calls @ [Destroy]) ?ws1)) (e, Destroy) = (if e < Suc ?e then 1 else 0)"
      using counts setup_counts(3) [OF that] setup_counts(4) [of "Suc k" room token uid ?ws1] by (auto simp: count_sdk less_Suc_eq)
    then show ?thesis using False none assms(1) by (simp add: win_inv_def sdk_def)
  qed
  have up: "win_inv (?ws2\<lparr>ws_queue := Some [], ws_drainer := True, ws_joined := True\<rparr>)" "win_inv ?ws2"
    using c2 False by (auto simp: win_inv_def sdk_def)
  show ?thesis
    using assms(3) False t2 failed up
    by (auto simp: win_join_def raise_def ret_def Let_def split: option.splits if_splits join_outcome.splits)
qed

lemma win_inv_leave:
  assumes "win_inv ws" shows "win_inv (win_leave ws)"
proof (cases "\<not> ws_joined ws \<and> ws_closed ws")
  case True
  then show ?thesis using assms by (simp add: win_leave_def)
next
  case False
  let ?ws1 = "case ws_engine ws of None \<Rightarrow> ws | Some e \<Rightarrow> sdk e [LeaveChannel] ws"
  have "\<forall>e. count_list (ws_calls ?ws1) (e, Create) = (if e < ws_next ?ws1 then 1 else 0)
       \<and> count_list (ws_calls ?ws1) (e, Destroy) = (if e < ws_next ?ws1 \<and> ws_engine ?ws1 \<noteq> Some e then 1 else 0)"
    using assms by (auto simp: win_inv_def sdk_def split: option.splits)
  moreover have "\<forall>e. ws_engine ?ws1 = Some e \<longrightarrow> e < ws_next ?ws1"
    using assms by (auto simp: win_inv_def sdk_def split: option.splits)
  ultimately show ?thesis
    using False by (auto simp: win_leave_def win_inv_def teardown_counts)
qed

lemma win_push_inv:
  assumes "win_inv ws" and "win_push failing pcm ts ws = (r, ws')" shows "win_inv ws'"
proof -
  have "c \<in> {Create, Destroy} \<Longrightarrow> count_list (map (\<lambda>(f, t). PushExternal f a b t) xs) c = 0" for a b xs c
    by (auto simp: count_list_0_iff)
  then have "win_inv (sdk e (map (\<lambda>(f, t). PushExternal f a b t) xs) ws)" for e a b xs
    using assms(1) by (simp add: win_inv_def count_sdk) (simp add: sdk_def)
  then show ?thesis
    using assms by (auto simp: win_push_def raise_def ret_def Let_def take_map split: option.splits if_splits)
qed

lemma win_reach_inv: "win_reach ws \<Longrightarrow> win_inv ws"
proof (induction rule: win_reach.induct)
  case (init app gslb capacity ws)
  then show ?case by (auto simp: win_init_def win_inv_def split: if_splits)
next
  case (drain ws raws)
  then show ?case by (auto simp: drain_pass_def win_inv_def)
next
  case (frame ws st ws')
  then show ?case by (auto simp: frames_next_def win_inv_def split: option.splits list.splits)
qed (auto intro: win_inv_join win_inv_leave win_push_inv)


text \<open>A join that is cancelled keeps its engine; joining again forgets it, and no \<open>leave\<close> destroys it.\<close>

lemma rejoin_after_cancel_leaks:
  assumes "\<not> ws_joined ws" and "\<not> ws_closed ws" and "ws_engine ws = Some e" and "e \<noteq> ws_next ws"
    and "win_join None (JoinResult 0) room token uid rate channels ws = (r, ws')"
  shows "ws_engine ws' = Some (ws_next ws) \<and>
    count_list (ws_calls (win_leave ws')) (e, Destroy) = count_list (ws_calls ws) (e, Destroy)"
  using assms by (auto simp: win_join_def ret_def Let_def win_leave_def teardown_counts sdk_def setup_calls_def)



section \<open>The in-memory channel\<close>

inductive mac_reach :: "mac_world \<Rightarrow> bool" where
  init: "mac_reach \<lparr>mw_sessions = (\<lambda>i. mac_init (cfg i)), mw_registry = (\<lambda>_. [])\<rparr>"
| join: "mac_reach w \<Longrightarrow> mac_join i room uid rate w = (r, w') \<Longrightarrow> mac_reach w'"
| leave: "mac_reach w \<Longrightarrow> mac_leave i w = (r, w') \<Longrightarrow> mac_reach w'"
| left: "mac_reach w \<Longrightarrow> mac_reach (upd_session i (\<lambda>s. s\<lparr>mp_inbound := mp_inbound s @ [None], mp_drained := True\<rparr>) w)"
| frame: "mac_reach w \<Longrightarrow> mac_frames_next i w = (st, w') \<Longrightarrow> mac_reach w'"
| push: "mac_reach w \<Longrightarrow> mac_push i pcm ts w = (r, w') \<Longrightarrow> mac_reach w'"
| drained: "mac_reach w \<Longrightarrow> mac_reach (mac_drain i w)"
| force: "mac_reach w \<Longrightarrow> mac_reach (upd_session i (\<lambda>s. s\<lparr>mp_force := True\<rparr>) w)"

text \<open>The registry lists exactly the joined sessions of each channel, each once.\<close>

definition mac_inv :: "mac_world \<Rightarrow> bool" where
  "mac_inv w \<longleftrightarrow> (\<forall>c. distinct (mw_registry w c) \<and>
     (\<forall>j. j \<in> set (mw_registry w c) \<longleftrightarrow> mp_joined (mw_sessions w j) \<and> mp_channel (mw_sessions w j) = Some c))"

definition same_place :: "mac_session \<Rightarrow> mac_session \<Rightarrow> bool" where
  "same_place s t \<longleftrightarrow> mp_joined s = mp_joined t \<and> mp_channel s = mp_channel t"

lemma mac_inv_upd:
  "mac_inv w \<Longrightarrow> same_place (f (mw_sessions w i)) (mw_sessions w i) \<Longrightarrow> mac_inv (upd_session i f w)"
  by (auto simp: mac_inv_def upd_session_def same_place_def)

lemma mac_inv_join: "mac_inv w \<Longrightarrow> mac_join i room uid rate w = (r, w') \<Longrightarrow> mac_inv w'"
  by (auto simp: mac_join_def mac_inv_def upd_session_def raise_def ret_def split: if_splits)

lemma mac_inv_leave_begin: "mac_inv w \<Longrightarrow> mp_joined (mw_sessions w i) \<Longrightarrow> mac_inv (leave_begin i w)"
  by (auto simp: leave_begin_def mac_inv_def upd_session_def Let_def split: option.splits)

lemma same_place_refl [simp]: "same_place s s" by (simp add: same_place_def)

lemma accept_same_place: "same_place (accept_frame f s) s" by (simp add: accept_frame_def same_place_def)

lemma mac_inv_accepts: "mac_inv w \<Longrightarrow> mac_inv (foldl (\<lambda>w j. upd_session j (accept_frame f) w) w js)"
  by (induction js arbitrary: w) (auto intro: mac_inv_upd accept_same_place)

lemma mac_reach_inv: "mac_reach w \<Longrightarrow> mac_inv w"
proof (induction rule: mac_reach.induct)
  case (init cfg)
  show ?case by (simp add: mac_inv_def mac_init_def)
next
  case (join w i room uid rate r w')
  then show ?case by (blast intro: mac_inv_join)
next
  case (leave w i r w')
  show ?case
  proof (cases "mp_joined (mw_sessions w i)")
    case True
    have "mac_inv (leave_begin i w)" by (rule mac_inv_leave_begin [OF leave.IH True])
    then show ?thesis
      using leave True by (auto simp: mac_leave_def Let_def same_place_def split: if_splits intro: mac_inv_upd)
  qed (use leave in \<open>auto simp: mac_leave_def\<close>)
next
  case (left w i)
  then show ?case by (auto intro: mac_inv_upd simp: same_place_def)
next
  case (frame w i st w')
  then show ?case by (auto simp: mac_frames_next_def same_place_def split: list.splits option.splits intro: mac_inv_upd)
next
  case (push w i pcm ts r w')
  then show ?case
    by (auto simp: mac_push_def Let_def same_place_def split: if_splits intro!: mac_inv_upd mac_inv_accepts)
next
  case (drained w i)
  then show ?case unfolding mac_drain_def by (intro mac_inv_upd) (simp_all add: same_place_def)
next
  case (force w i)
  then show ?case by (intro mac_inv_upd) (simp_all add: same_place_def)
qed

lemma accepts_sessions:
  "distinct js \<Longrightarrow> mw_sessions (foldl (\<lambda>w j. upd_session j (accept_frame f) w) w js) j
     = (if j \<in> set js then accept_frame f (mw_sessions w j) else mw_sessions w j)"
  by (induction js arbitrary: w) (auto simp: upd_session_def)

text \<open>In every reachable world a push delivers its frame, with the sender's identity and rate, to exactly the other
  joined sessions of the sender's channel whose inbound queue has room, once each and behind what they hold.\<close>

theorem push_reaches_the_channel:
  assumes "mac_reach w" and "mp_joined (mw_sessions w i)" and "mp_channel (mw_sessions w i) = Some room"
    and "mac_push i pcm ts w = (Some (Inr ()), w')"
    and "f = \<lparr>pf_sender = (case mp_uid (mw_sessions w i) of None \<Rightarrow> [] | Some u \<Rightarrow> u), pf_pcm = pcm, pf_rate = mp_rate (mw_sessions w i),
          pf_channels = mc_channels (mp_config (mw_sessions w i)), pf_timestamp = ts\<rparr>"
  shows "mp_inbound (mw_sessions w' j) = mp_inbound (mw_sessions w j)
    @ (if j \<noteq> i \<and> mp_joined (mw_sessions w j) \<and> mp_channel (mw_sessions w j) = Some room
          \<and> (mc_inbound (mp_config (mw_sessions w j)) = 0
             \<or> length (mp_inbound (mw_sessions w j)) < mc_inbound (mp_config (mw_sessions w j)))
       then [Some f] else [])"
proof -
  have inv: "mac_inv w" by (rule mac_reach_inv [OF assms(1)])
  have reg: "k \<in> set (mw_registry w room) \<longleftrightarrow> mp_joined (mw_sessions w k) \<and> mp_channel (mw_sessions w k) = Some room" for k
    using inv by (simp add: mac_inv_def)
  have peers: "distinct (mac_peers i w)" "j \<in> set (mac_peers i w)
      \<longleftrightarrow> j \<noteq> i \<and> mp_joined (mw_sessions w j) \<and> mp_channel (mw_sessions w j) = Some room"
    using inv assms(3) reg by (auto simp: mac_peers_def mac_inv_def)
  let ?w1 = "foldl (\<lambda>w j. upd_session j (accept_frame f) w) w (mac_peers i w)"
  have "mp_inbound (mw_sessions w' j) = mp_inbound (mw_sessions ?w1 j)"
    using assms(2,4) unfolding assms(5) by (auto simp: mac_push_def Let_def upd_session_def split: if_splits)
  then show ?thesis
    by (simp add: accepts_sessions [OF peers(1)] peers(2) accept_frame_def)
qed

lemma push_reaches_the_channel_witness:
  "\<exists>w w'. mac_reach w \<and> mac_push 0 [7] 5 w = (Some (Inr ()), w') \<and> length (mp_inbound (mw_sessions w' 1)) = 1"
proof -
  let ?cfg = "\<lparr>mc_inbound = 4, mc_outbound = 4, mc_channels = 1\<rparr>"
  let ?w0 = "\<lparr>mw_sessions = (\<lambda>i. mac_init ?cfg), mw_registry = (\<lambda>_. [])\<rparr>"
  define w1 where "w1 = snd (mac_join 0 ''room'' ''edge'' 16000 ?w0)"
  define w2 where "w2 = snd (mac_join 1 ''room'' ''engine'' 16000 w1)"
  have "mac_reach w1" unfolding w1_def by (rule mac_reach.join [OF mac_reach.init [of "\<lambda>_. ?cfg"] surjective_pairing])
  then have r: "mac_reach w2" unfolding w2_def by (rule mac_reach.join [OF _ surjective_pairing])
  have st: "mp_joined (mw_sessions w2 0)" "mp_channel (mw_sessions w2 0) = Some ''room''" "mp_joined (mw_sessions w2 1)"
    "mp_channel (mw_sessions w2 1) = Some ''room''" "mp_inbound (mw_sessions w2 1) = []" "mc_inbound (mp_config (mw_sessions w2 1)) = 4"
    "\<not> mp_force (mw_sessions w2 0)" "mp_drained (mw_sessions w2 0)"
    by (simp_all add: w2_def w1_def mac_join_def ret_def upd_session_def mac_init_def)
  obtain w3 where w3: "mac_push 0 [7] 5 w2 = (Some (Inr ()), w3)" using st(1,7,8) by (simp add: mac_push_def Let_def)
  from push_reaches_the_channel [OF r st(1,2) w3 refl, of 1] st have "length (mp_inbound (mw_sessions w3 1)) = 1" by simp
  with r w3 show ?thesis by blast
qed

end
