(* ===== verification/Mac_Dingrtc.thy ===== *)
theory Mac_Dingrtc imports Rtc_Session begin

text \<open>
  The RTC session of the macOS development mode over the Objective-C SDK, \<open>audio_bridge/macos_dingrtc_pyobjc.py\<close>:
  finding and loading the framework, the delegates' conversion of a playback frame, and the session. The SDK
  is an input: which selectors its objects have, which raise, and which callbacks it fires while a join waits.
  A path is the list of its components. Texts of the errors are shortened. The contract that this session and
  the Windows session share, that one which was left does nothing any more, is the locale \<open>closing_session\<close>.
\<close>

section \<open>Objects of the SDK\<close>

text \<open>An attribute as \<open>_safe_call\<close> finds it; a method that raises returns \<open>None\<close> here.\<close>

datatype 'a attr = Absent | Plain 'a | Method "'a option"

definition safe_call :: "'a attr \<Rightarrow> 'a \<Rightarrow> 'a" where
  "safe_call a d = (case a of Absent \<Rightarrow> d | Plain v \<Rightarrow> v | Method (Some v) \<Rightarrow> v | Method None \<Rightarrow> d)"

text \<open>A selector as \<open>_maybe_invoke\<close> finds it: missing, working, or raising an \<open>Exception\<close> with a text.\<close>

datatype selector = Missing | Works | Fails string

datatype ding_call =
    Shared | SetField string string | Register | Observe int | External int int | Publish | JoinWith string
  | Leave | DestroyClass | DestroyEngine | ReleaseEngine | Push bytes nat nat int int

record audio_sample =
  as_samples :: "nat attr"
  as_width :: "nat attr"
  as_channels :: "nat attr"
  as_rate :: "nat attr"
  as_timestamp :: "int attr"
  as_data :: "nat attr"

text \<open>\<open>onPlaybackAudioFrame:\<close>: the arguments of the callback it schedules; \<open>mem\<close> reads the SDK's memory.\<close>

definition playback_frame :: "(nat \<Rightarrow> nat \<Rightarrow> bytes option) \<Rightarrow> audio_sample \<Rightarrow> raw_frame" where
  "playback_frame mem smp =
     (let n = safe_call (as_samples smp) 0 * safe_call (as_width smp) 2 * safe_call (as_channels smp) 1;
          ptr = safe_call (as_data smp) 0;
          pcm = (if ptr \<noteq> 0 \<and> n \<noteq> 0 then (case mem ptr n of None \<Rightarrow> [] | Some b \<Rightarrow> b) else [])
      in \<lparr>rw_uid = Some [], rw_pcm = pcm, rw_rate = Some (safe_call (as_rate smp) 16000),
          rw_channels = Some (safe_call (as_channels smp) 1), rw_timestamp = Some (safe_call (as_timestamp smp) 0)\<rparr>)"


section \<open>The framework\<close>

type_synonym path = "string list"

definition path_of :: "string \<Rightarrow> path" where
  "path_of s = (if startswith ''/'' s then [''/''] else []) @ filter (\<lambda>c. c \<noteq> [] \<and> c \<noteq> ''.'') (split_on CHR ''/'' s)"

text \<open>\<open>PurePath.suffix\<close> and \<open>stem\<close>: the last dot of the name counts unless it is its first or last character.\<close>

definition path_name :: "path \<Rightarrow> string" where
  "path_name p = (if p = [] \<or> last p = ''/'' then [] else last p)"

definition path_suffix :: "path \<Rightarrow> string" where
  "path_suffix p = (let n = path_name p; ext = rev (takeWhile (\<lambda>c. c \<noteq> CHR ''.'') (rev n)) in
     if CHR ''.'' \<in> set n \<and> ext \<noteq> [] \<and> length ext + 1 < length n then CHR ''.'' # ext else [])"

definition path_stem :: "path \<Rightarrow> string" where
  "path_stem p = take (length (path_name p) - length (path_suffix p)) (path_name p)"

definition default_framework :: "path \<Rightarrow> path" where
  "default_framework home = home @ [''codes'', ''vendor'', ''DingRTC_macOS_SDK_3_9_0'', ''DingRTC.framework'']"

definition resolve_framework_path :: "path \<Rightarrow> (string \<rightharpoonup> string) \<Rightarrow> string option \<Rightarrow> path" where
  "resolve_framework_path home env arg =
     (let given = (\<lambda>k. case env k of Some v \<Rightarrow> if v \<noteq> [] then Some v else None | None \<Rightarrow> None) in
      case arg of Some a \<Rightarrow> path_of a
      | None \<Rightarrow> (case given ''ISALES_MACOS_DINGRTC_FRAMEWORK_PATH'' of Some v \<Rightarrow> path_of v
        | None \<Rightarrow> (case given ''ISALES_MACOS_ARTC_FRAMEWORK_PATH'' of Some v \<Rightarrow> path_of v
          | None \<Rightarrow> default_framework home)))"

record framework_host =
  fh_exists :: "path \<Rightarrow> bool"
  fh_is_dir :: "path \<Rightarrow> bool"
  fh_loads :: "path \<Rightarrow> bool"
  fh_class :: "string \<Rightarrow> bool"

definition required_classes :: "string list" where
  "required_classes = [''DingRtcEngine'', ''DingRtcAuthInfo'', ''DingRtcAudioDataSample'']"

definition load_framework :: "framework_host \<Rightarrow> path \<Rightarrow> pyexn + string list" where
  "load_framework fh p =
     (let binary = p @ [path_stem p]; ffmpeg = butlast p @ [''libffmpeg.dylib''] in
      if \<not> fh_exists fh p then Inl (RtcError ''DingRTC framework not found'')
      else if \<not> fh_is_dir fh p \<or> path_suffix p \<noteq> ''.framework'' then Inl (RtcError ''not a .framework bundle directory'')
      else if \<not> fh_exists fh binary then Inl (RtcError ''Framework binary missing'')
      else if fh_exists fh ffmpeg \<and> \<not> fh_loads fh ffmpeg then Inl (RtcError ''ctypes.CDLL(libffmpeg.dylib) failed'')
      else if \<not> fh_loads fh binary then Inl (RtcError ''ctypes.CDLL failed'')
      else (case find (\<lambda>c. \<not> fh_class fh c) required_classes of
          Some c \<Rightarrow> Inl (RtcError (''objc.lookUpClass('' @ c @ '') failed''))
        | None \<Rightarrow> Inr required_classes))"


section \<open>The session\<close>

record ding_session =
  dg_capacity :: nat
  dg_framework :: "string option"
  dg_app :: string
  dg_gslb :: string
  dg_joined :: bool
  dg_closed :: bool
  dg_rate :: int
  dg_channels :: int
  dg_classes :: "string list"
  dg_engine :: bool
  dg_engine_delegate :: bool
  dg_audio_delegate :: bool
  dg_future :: "(pyexn + int) option option"
  dg_queue :: "rtc_frame option list option"
  dg_push :: "bytes option"
  dg_log :: "ding_call list"

definition ding_init :: "nat \<Rightarrow> string option \<Rightarrow> string \<Rightarrow> string \<Rightarrow> ding_session" where
  "ding_init capacity framework app gslb = \<lparr>dg_capacity = capacity, dg_framework = framework, dg_app = app, dg_gslb = gslb,
     dg_joined = False, dg_closed = False, dg_rate = 16000, dg_channels = 1, dg_classes = [], dg_engine = False,
     dg_engine_delegate = False, dg_audio_delegate = False, dg_future = None, dg_queue = None, dg_push = None, dg_log = []\<rparr>"

definition production :: "(string \<rightharpoonup> string) \<Rightarrow> string option \<Rightarrow> string option \<Rightarrow> pyexn + ding_session" where
  "production env app framework =
     (let resolved = (case app of Some a \<Rightarrow> a | None \<Rightarrow> (case env ''ISALES_RTC_APP_ID'' of Some a \<Rightarrow> a | None \<Rightarrow> [])) in
      if resolved = [] then Inl (RtcError ''ISALES_RTC_APP_ID env not set and no app_id passed'')
      else Inr (ding_init 64 framework resolved ''https://gslb.dingrtc.com''))"

definition log_call :: "ding_call \<Rightarrow> ding_session \<Rightarrow> ding_session" where
  "log_call c s = s\<lparr>dg_log := dg_log s @ [c]\<rparr>"

definition maybe_invoke :: "selector \<Rightarrow> ding_call \<Rightarrow> (ding_session, bool) proc" where
  "maybe_invoke sel c s = (case sel of Missing \<Rightarrow> ret False s | Works \<Rightarrow> ret True (log_call c s)
     | Fails m \<Rightarrow> raise (OtherError m) (log_call c s))"

text \<open>The callbacks as they arrive on the event loop; the other notifications only log.\<close>

definition on_join_result :: "int \<Rightarrow> ding_session \<Rightarrow> ding_session" where
  "on_join_result rc s = (case dg_future s of Some None \<Rightarrow> s\<lparr>dg_future := Some (Some (Inr rc))\<rparr> | _ \<Rightarrow> s)"

definition on_error :: "ding_session \<Rightarrow> ding_session" where
  "on_error s = (case dg_future s of Some None \<Rightarrow> s\<lparr>dg_future := Some (Some (Inl (RtcError ''DingRTC error during join'')))\<rparr> | _ \<Rightarrow> s)"

definition on_audio_frame :: "raw_frame \<Rightarrow> ding_session \<Rightarrow> ding_session" where
  "on_audio_frame raw s = (case dg_queue s of None \<Rightarrow> s
     | Some q \<Rightarrow> s\<lparr>dg_queue := Some (queue_frame (dg_capacity s) q (frame_of raw))\<rparr>)"

datatype ding_event = OnJoin int | OnError | OnFrame raw_frame | OnOther

fun ding_deliver :: "ding_event \<Rightarrow> ding_session \<Rightarrow> ding_session" where
  "ding_deliver (OnJoin rc) s = on_join_result rc s"
| "ding_deliver OnError s = on_error s"
| "ding_deliver (OnFrame raw) s = on_audio_frame raw s"
| "ding_deliver OnOther s = s"

text \<open>How the SDK behaves in one join, and how its engine can be destroyed.\<close>

datatype shared = SharedOk | SharedMissing | SharedFails string

record ding_sdk =
  sk_load :: "pyexn + string list"
  sk_shared :: shared
  sk_register :: selector
  sk_observe :: selector
  sk_external :: selector
  sk_publish :: selector
  sk_auth :: "string option"
  sk_join :: selector
  sk_events :: "ding_event list"
  sk_cancelled :: bool

record ding_ends =
  de_class :: bool
  de_engine :: selector
  de_release :: selector

definition ding_teardown :: "ding_ends \<Rightarrow> ding_session \<Rightarrow> ding_session" where
  "ding_teardown de s =
     (let s1 = (if dg_engine s then
                  (if ''DingRtcEngine'' \<in> set (dg_classes s) \<and> de_class de then log_call DestroyClass s
                   else (case maybe_invoke (de_engine de) DestroyEngine s of
                       (Inr False, s') \<Rightarrow> snd (maybe_invoke (de_release de) ReleaseEngine s')
                     | (_, s') \<Rightarrow> s'))
                else s);
          s2 = s1\<lparr>dg_engine := False, dg_engine_delegate := False, dg_audio_delegate := False, dg_classes := [], dg_push := None\<rparr>
      in case dg_queue s2 of None \<Rightarrow> s2
         | Some q \<Rightarrow> if room_left (dg_capacity s2) q then s2\<lparr>dg_queue := Some (q @ [None])\<rparr> else s2)"

text \<open>\<open>except Exception\<close> around a set-up call.\<close>

definition guarded :: "ding_ends \<Rightarrow> string \<Rightarrow> (ding_session, 'a) proc \<Rightarrow> (ding_session, 'a) proc" where
  "guarded de msg m = catchm m (\<lambda>e. Some (seqm (modify (ding_teardown de)) (raise (RtcError msg))))"

definition fill_auth :: "ding_sdk \<Rightarrow> string \<Rightarrow> string \<Rightarrow> string \<Rightarrow> (ding_session, unit) proc" where
  "fill_auth k room token uid s = (case sk_auth k of Some m \<Rightarrow> raise (OtherError m) s
     | None \<Rightarrow> ret () (fold log_call [SetField ''channelId'' room, SetField ''userId'' uid, SetField ''appId'' (dg_app s),
         SetField ''token'' token, SetField ''gslbServer'' (dg_gslb s)] s))"

definition await_join :: "ding_sdk \<Rightarrow> ding_ends \<Rightarrow> (ding_session, unit) proc" where
  "await_join k de s0 =
     (let s = fold ding_deliver (sk_events k) s0 in
      case dg_future s of
        Some (Some (Inr rc)) \<Rightarrow> if rc \<noteq> 0 then raise (RtcError ''onJoinChannelResult reported failure'') (ding_teardown de s)
          else ret () (s\<lparr>dg_joined := True\<rparr>)
      | Some (Some (Inl e)) \<Rightarrow> raise e (ding_teardown de s)
      | _ \<Rightarrow> if sk_cancelled k then raise Cancelled s else raise (RtcError ''joinChannel timed out'') (ding_teardown de s))"

definition ding_set_up :: "ding_sdk \<Rightarrow> ding_ends \<Rightarrow> string \<Rightarrow> string \<Rightarrow> string \<Rightarrow> (ding_session, unit) proc" where
  "ding_set_up k de room token uid =
     seqm (guarded de ''registerAudioFrameObserver / enableAudioFrameObserver failed''
             (seqm (maybe_invoke (sk_register k) Register) (maybe_invoke (sk_observe k) (Observe 8))))
    (seqm (guarded de ''setExternalAudioSource failed''
             (\<lambda>s. maybe_invoke (sk_external k) (External (dg_rate s) (dg_channels s)) s))
    (seqm (suppress (seqm (maybe_invoke (sk_publish k) Publish) (ret ())))
    (seqm (fill_auth k room token uid)
    (seqm (guarded de ''joinChannel failed synchronously'' (maybe_invoke (sk_join k) (JoinWith uid)))
          (await_join k de)))))"

definition ding_join ::
  "ding_sdk \<Rightarrow> ding_ends \<Rightarrow> string \<Rightarrow> string \<Rightarrow> string \<Rightarrow> int \<Rightarrow> int \<Rightarrow> (ding_session, unit) proc" where
  "ding_join k de room token uid rate channels s =
     (if dg_joined s then raise (RtcError ''already joined'') s
      else if dg_closed s then raise (RtcError ''closed; create a new instance'') s
      else if dg_app s = [] then raise (RtcError ''app_id not set on instance'') s
      else let s1 = s\<lparr>dg_rate := rate, dg_channels := channels, dg_future := Some None, dg_queue := Some []\<rparr> in
        (case sk_load k of Inl e \<Rightarrow> raise e s1
         | Inr classes \<Rightarrow>
             let s2 = s1\<lparr>dg_classes := classes, dg_engine_delegate := True\<rparr> in
             (case sk_shared k of
                SharedMissing \<Rightarrow> raise (RtcError ''sharedInstance:extras: not present'') s2
              | SharedFails m \<Rightarrow> raise (OtherError m) s2
              | SharedOk \<Rightarrow> ding_set_up k de room token uid
                  ((log_call Shared s2)\<lparr>dg_engine := True, dg_audio_delegate := True\<rparr>))))"

definition ding_leave :: "selector \<Rightarrow> ding_ends \<Rightarrow> ding_session \<Rightarrow> ding_session" where
  "ding_leave leave_channel de s =
     (if \<not> dg_joined s \<and> dg_closed s then s
      else let s1 = (if dg_engine s then snd (maybe_invoke leave_channel Leave s) else s)
           in (ding_teardown de s1)\<lparr>dg_joined := False, dg_closed := True\<rparr>)"

definition ding_frames_start :: "(ding_session, unit) proc" where
  "ding_frames_start s = (if \<not> dg_joined s \<or> dg_queue s = None then raise RtcNotJoined s else ret () s)"

definition ding_frames_next :: "ding_session \<Rightarrow> frame_step \<times> ding_session" where
  "ding_frames_next s = (case dg_queue s of
       Some (None # q) \<Rightarrow> (Ended, s\<lparr>dg_queue := Some q\<rparr>)
     | Some (Some f # q) \<Rightarrow> (Yielded f, s\<lparr>dg_queue := Some q\<rparr>)
     | _ \<Rightarrow> (Waiting, s))"

text \<open>The sample object holds a pointer to the kept buffer with the counts the SDK reads it by.\<close>

definition ding_push :: "selector \<Rightarrow> bytes \<Rightarrow> int \<Rightarrow> (ding_session, unit) proc" where
  "ding_push push_frame pcm ts s =
     (if \<not> dg_joined s \<or> \<not> dg_engine s then raise RtcNotJoined s
      else if dg_rate s \<le> 0 \<or> dg_channels s \<le> 0 then raise RtcNotJoined s
      else if ''DingRtcAudioDataSample'' \<notin> set (dg_classes s) then raise (RtcError ''DingRtcAudioDataSample class not loaded'') s
      else let width = 2; step = width * nat (dg_channels s) in
        if pcm = [] \<or> length pcm mod step \<noteq> 0 then raise (RtcError ''pcm length not a multiple of bytes_per_sample*channels'') s
        else let s1 = s\<lparr>dg_push := Some pcm\<rparr>; c = Push pcm (length pcm div step) width (dg_channels s) (dg_rate s) in
          (case push_frame of
             Missing \<Rightarrow> raise (RtcError ''pushExternalAudioFrame: selector not found on engine'') s1
           | Works \<Rightarrow> ret () (log_call c s1)
           | Fails m \<Rightarrow> if contains_str ''buffer'' (lower m) \<and> contains_str ''full'' (lower m)
               then raise RtcPushBackpressure (log_call c s1) else raise (RtcError (''pushExternalAudioFrame failed: '' @ m)) (log_call c s1)))"


section \<open>Sessions that close for good\<close>

text \<open>One call of a client, and what it may rely on after \<open>leave\<close>; the operations are given with whatever they depend
  on besides the session.\<close>

definition client_step ::
  "('j \<Rightarrow> ('s, unit) proc) \<Rightarrow> ('l \<Rightarrow> 's \<Rightarrow> 's) \<Rightarrow> ('p \<Rightarrow> ('s, unit) proc) \<Rightarrow> 'j + 'l + 'p \<Rightarrow> 's \<Rightarrow> 's" where
  "client_step join leave push c s = (case c of Inl j \<Rightarrow> snd (join j s) | Inr (Inl l) \<Rightarrow> leave l s | Inr (Inr p) \<Rightarrow> snd (push p s))"

locale closing_session =
  fixes join :: "'j \<Rightarrow> ('s, unit) proc" and leave :: "'l \<Rightarrow> 's \<Rightarrow> 's" and push :: "'p \<Rightarrow> ('s, unit) proc"
    and joined :: "'s \<Rightarrow> bool" and closed :: "'s \<Rightarrow> bool"
  assumes leave_closes: "closed (leave l s) \<and> \<not> joined (leave l s)"
    and leave_again: "closed s \<Longrightarrow> \<not> joined s \<Longrightarrow> leave l s = s"
    and join_closed: "closed s \<Longrightarrow> \<exists>m. join j s = (Inl (RtcError m), s)"
    and push_unjoined: "\<not> joined s \<Longrightarrow> push p s = (Inl RtcNotJoined, s)"
begin

lemma closed_step: "closed s \<Longrightarrow> \<not> joined s \<Longrightarrow> client_step join leave push c s = s"
  using leave_again [of s] join_closed [of s] push_unjoined [of s]
  by (auto simp: client_step_def split: sum.splits) (metis snd_conv)

lemma left_is_inert: "fold (client_step join leave push) cs (leave l s) = leave l s"
  by (induction cs) (simp_all add: closed_step leave_closes)

lemma left_refuses: "(\<exists>m. join j (fold (client_step join leave push) cs (leave l s)) = (Inl (RtcError m), leave l s))
    \<and> push p (fold (client_step join leave push) cs (leave l s)) = (Inl RtcNotJoined, leave l s)"
  unfolding left_is_inert using join_closed push_unjoined leave_closes by blast

end

type_synonym win_joining = "nat option \<times> join_outcome \<times> string \<times> string \<times> string \<times> int \<times> int"

definition win_join_call :: "win_joining \<Rightarrow> (win_session, unit) proc" where
  "win_join_call j = (case j of (setup, outcome, room, token, uid, rate, channels) \<Rightarrow> win_join setup outcome room token uid rate channels)"

definition win_push_call :: "nat option \<times> bytes \<times> int \<Rightarrow> (win_session, unit) proc" where
  "win_push_call p = (case p of (failing, pcm, ts) \<Rightarrow> win_push failing pcm ts)"

type_synonym ding_joining = "ding_sdk \<times> ding_ends \<times> string \<times> string \<times> string \<times> int \<times> int"

definition ding_join_call :: "ding_joining \<Rightarrow> (ding_session, unit) proc" where
  "ding_join_call j = (case j of (k, de, room, token, uid, rate, channels) \<Rightarrow> ding_join k de room token uid rate channels)"

definition ding_leave_call :: "selector \<times> ding_ends \<Rightarrow> ding_session \<Rightarrow> ding_session" where
  "ding_leave_call l = (case l of (sel, de) \<Rightarrow> ding_leave sel de)"

definition ding_push_call :: "selector \<times> bytes \<times> int \<Rightarrow> (ding_session, unit) proc" where
  "ding_push_call p = (case p of (sel, pcm, ts) \<Rightarrow> ding_push sel pcm ts)"

lemma win_push_unjoined: "\<not> ws_joined ws \<Longrightarrow> win_push failing pcm ts ws = (Inl RtcNotJoined, ws)"
  by (simp add: win_push_def raise_def split: option.splits)

interpretation win_closing: closing_session win_join_call "\<lambda>_ :: unit. win_leave" win_push_call ws_joined ws_closed
proof
  fix s l
  show "ws_closed (win_leave s) \<and> \<not> ws_joined (win_leave s)"
    by (cases "\<not> ws_joined s \<and> ws_closed s") (simp_all add: win_leave_def)
qed (auto simp: win_leave_def win_join_call_def win_join_def win_push_call_def win_push_unjoined raise_def split: prod.splits)

interpretation ding_closing: closing_session ding_join_call ding_leave_call ding_push_call dg_joined dg_closed
proof
  fix s l
  show "dg_closed (ding_leave_call l s) \<and> \<not> dg_joined (ding_leave_call l s)"
    by (cases "\<not> dg_joined s \<and> dg_closed s") (simp_all add: ding_leave_call_def ding_leave_def split: prod.splits)
qed (auto simp: ding_leave_call_def ding_leave_def ding_join_call_def ding_join_def ding_push_call_def ding_push_def raise_def split: prod.splits)




section \<open>Failed joins\<close>

definition constants :: "ding_session \<Rightarrow> nat \<times> string option \<times> string \<times> string \<times> bool \<times> bool" where
  "constants s = (dg_capacity s, dg_framework s, dg_app s, dg_gslb s, dg_joined s, dg_closed s)"

definition ready :: "ding_session \<Rightarrow> bool" where
  "ready s \<longleftrightarrow> dg_engine s \<and> ''DingRtcEngine'' \<in> set (dg_classes s) \<and> dg_push s = None"

definition engines :: "ding_session \<Rightarrow> nat \<times> nat" where
  "engines s = (count_list (dg_log s) Shared, count_list (dg_log s) DestroyClass)"

definition kept :: "ding_session \<Rightarrow> ding_session \<Rightarrow> bool" where
  "kept s s' \<longleftrightarrow> ready s' \<and> constants s' = constants s \<and> engines s' = engines s"

definition released :: "ding_session \<Rightarrow> ding_session \<Rightarrow> bool" where
  "released s s' \<longleftrightarrow> \<not> dg_engine s' \<and> dg_push s' = None \<and> constants s' = constants s \<and> engines s' = (fst (engines s), Suc (snd (engines s)))"

definition set_up_step :: "(ding_session, 'a) proc \<Rightarrow> bool" where
  "set_up_step m \<longleftrightarrow> (\<forall>s. ready s \<longrightarrow> (case m s of (Inl _, s') \<Rightarrow> released s s' | (Inr _, s') \<Rightarrow> kept s s'))"

definition harmless :: "(ding_session, 'a) proc \<Rightarrow> bool" where
  "harmless m \<longleftrightarrow> (\<forall>s. ready s \<longrightarrow> kept s (snd (m s)) \<and> fst (m s) \<noteq> Inl Cancelled)"

lemma harmless_invoke: "c \<noteq> Shared \<Longrightarrow> c \<noteq> DestroyClass \<Longrightarrow> harmless (maybe_invoke sel c)"
  by (auto simp: harmless_def maybe_invoke_def kept_def ready_def constants_def engines_def log_call_def ret_def raise_def split: selector.splits)

lemma kept_trans: "kept s s' \<Longrightarrow> kept s' s'' \<Longrightarrow> kept s s''" "kept s s' \<Longrightarrow> released s' s'' \<Longrightarrow> released s s''" "kept s s' \<Longrightarrow> ready s'"
  by (auto simp: kept_def released_def)

lemma harmless_seqm:
  assumes "harmless m" and "harmless m'"
  shows "harmless (seqm m m')"
  unfolding harmless_def
proof (intro allI impI)
  fix s assume s: "ready s"
  obtain r s1 where m: "m s = (r, s1)" by (cases "m s")
  then have s1: "kept s s1" "r \<noteq> Inl Cancelled" using assms(1) s by (auto simp: harmless_def)
  show "kept s (snd (seqm m m' s)) \<and> fst (seqm m m' s) \<noteq> Inl Cancelled"
  proof (cases r)
    case (Inl e)
    then show ?thesis using m s1 by (simp add: seqm_def bindm_def)
  next
    case (Inr x)
    then have "kept s1 (snd (m' s1)) \<and> fst (m' s1) \<noteq> Inl Cancelled" using assms(2) s1 kept_trans(3) by (auto simp: harmless_def)
    then show ?thesis using m s1 Inr kept_trans(1) by (auto simp: seqm_def bindm_def)
  qed
qed

lemma teardown_releases:
  assumes "kept s s'" and "de_class de"
  shows "released s (ding_teardown de s')"
  using assms
  by (auto simp: ding_teardown_def released_def kept_def ready_def constants_def engines_def log_call_def Let_def split: option.splits)

lemma guarded_step:
  assumes "harmless m" and "de_class de"
  shows "set_up_step (guarded de msg m)"
  unfolding set_up_step_def
proof (intro allI impI)
  fix s assume s: "ready s"
  obtain r s1 where m: "m s = (r, s1)" by (cases "m s")
  then have "kept s s1" using assms(1) s by (auto simp: harmless_def)
  then show "case guarded de msg m s of (Inl e, s') \<Rightarrow> released s s' | (Inr x, s') \<Rightarrow> kept s s'"
    using m teardown_releases [OF _ assms(2)] by (cases r) (simp_all add: guarded_def method_defs)
qed

lemma suppress_step:
  assumes "harmless m"
  shows "set_up_step (suppress m)"
  unfolding set_up_step_def
proof (intro allI impI)
  fix s assume s: "ready s"
  obtain r s1 where m: "m s = (r, s1)" by (cases "m s")
  then have "kept s s1" "r \<noteq> Inl Cancelled" using assms s by (auto simp: harmless_def)
  then show "case suppress m s of (Inl e, s') \<Rightarrow> released s s' | (Inr x, s') \<Rightarrow> kept s s'"
    using m by (cases r) (simp_all add: method_defs is_exception_def)
qed

lemma set_up_stepD: "set_up_step m \<Longrightarrow> ready s \<Longrightarrow> (case m s of (Inl e, s') \<Rightarrow> released s s' | (Inr x, s') \<Rightarrow> kept s s')"
  by (simp add: set_up_step_def)

lemma set_up_seqm:
  assumes "set_up_step m" and "set_up_step m'"
  shows "set_up_step (seqm m m')"
  unfolding set_up_step_def
proof (intro allI impI)
  fix s assume s: "ready s"
  obtain r s1 where m: "m s = (r, s1)" by (cases "m s")
  obtain r2 s2 where m2: "m' s1 = (r2, s2)" by (cases "m' s1")
  show "case seqm m m' s of (Inl e, s') \<Rightarrow> released s s' | (Inr x, s') \<Rightarrow> kept s s'"
  proof (cases r)
    case (Inl e)
    then show ?thesis using m assms(1) s by (auto simp: set_up_step_def seqm_def bindm_def)
  next
    case (Inr x)
    then have k: "kept s s1" using m assms(1) s by (auto simp: set_up_step_def)
    then have "case (r2, s2) of (Inl e, s') \<Rightarrow> released s1 s' | (Inr x, s') \<Rightarrow> kept s1 s'"
      using set_up_stepD [OF assms(2) kept_trans(3) [OF k]] by (simp only: m2)
    moreover have "seqm m m' s = (r2, s2)" by (simp add: seqm_def bindm_def m m2 Inr)
    ultimately show ?thesis using kept_trans(1,2) [OF k] by (cases r2) simp_all
  qed
qed

lemma fill_auth_step: "sk_auth k = None \<Longrightarrow> set_up_step (fill_auth k room token uid)"
  by (simp add: set_up_step_def fill_auth_def ret_def kept_def ready_def constants_def engines_def log_call_def)

lemma deliver_kept: "kept s s' \<Longrightarrow> kept s (ding_deliver ev s')"
  by (cases ev) (auto simp: kept_def ready_def constants_def engines_def on_join_result_def on_error_def on_audio_frame_def
      split: option.splits)

lemma deliver_all_kept: "kept s s' \<Longrightarrow> kept s (fold ding_deliver evs s')"
  by (induction evs arbitrary: s') (auto intro: deliver_kept)

lemma await_released:
  assumes "ready s" and "\<not> sk_cancelled k" and "de_class de" and "await_join k de s = (Inl e, s')"
  shows "released s s'"
proof -
  have "kept s (fold ding_deliver (sk_events k) s)" by (rule deliver_all_kept) (simp add: kept_def assms(1))
  then show ?thesis
    using assms(2,4) teardown_releases [OF _ assms(3)]
    by (auto simp: await_join_def raise_def ret_def Let_def split: option.splits sum.splits if_splits)
qed

lemma set_up_released:
  assumes "ready s" and "\<not> sk_cancelled k" and "de_class de" and "sk_auth k = None"
    and "ding_set_up k de room token uid s = (Inl e, s')"
  shows "released s s'"
proof -
  let ?pre = "seqm (guarded de ''registerAudioFrameObserver / enableAudioFrameObserver failed''
             (seqm (maybe_invoke (sk_register k) Register) (maybe_invoke (sk_observe k) (Observe 8))))
    (seqm (guarded de ''setExternalAudioSource failed''
             (\<lambda>s. maybe_invoke (sk_external k) (External (dg_rate s) (dg_channels s)) s))
    (seqm (suppress (seqm (maybe_invoke (sk_publish k) Publish) (ret ())))
    (seqm (fill_auth k room token uid)
          (guarded de ''joinChannel failed synchronously'' (maybe_invoke (sk_join k) (JoinWith uid))))))"
  have ext: "harmless (\<lambda>s. maybe_invoke (sk_external k) (External (dg_rate s) (dg_channels s)) s)"
    using harmless_invoke [of "External a b" "sk_external k" for a b] by (auto simp: harmless_def)
  have "harmless (ret ())" by (simp add: harmless_def ret_def kept_def)
  then have pre: "set_up_step ?pre"
    by (intro set_up_seqm guarded_step suppress_step harmless_seqm harmless_invoke ext fill_auth_step assms) simp_all
  have "ding_set_up k de room token uid s = seqm ?pre (await_join k de) s"
    unfolding ding_set_up_def seqm_def bindm_assoc ..
  with assms(5) obtain r s1 where run: "?pre s = (r, s1)" "case r of Inl e' \<Rightarrow> s1 = s' | Inr x \<Rightarrow> await_join k de s1 = (Inl e, s')"
    by (auto simp: seqm_def bindm_def split: prod.splits sum.splits)
  show ?thesis
  proof (cases r)
    case (Inl e')
    then show ?thesis using run pre assms(1) by (auto simp: set_up_step_def)
  next
    case (Inr x)
    then have "kept s s1" using run(1) pre assms(1) by (auto simp: set_up_step_def)
    then show ?thesis using await_released [OF kept_trans(3) assms(2,3)] kept_trans(2) run(2) Inr by auto
  qed
qed


text \<open>What happens does not depend on the log.\<close>

definition quiet :: "ding_session \<Rightarrow> ding_session" where
  "quiet s = s\<lparr>dg_log := []\<rparr>"

definition log_free :: "(ding_session, 'a) proc \<Rightarrow> bool" where
  "log_free m \<longleftrightarrow> (\<forall>s l. fst (m (s\<lparr>dg_log := l\<rparr>)) = fst (m s) \<and> quiet (snd (m (s\<lparr>dg_log := l\<rparr>))) = quiet (snd (m s)))"

lemma quiet_eq: "quiet s = quiet t \<longleftrightarrow> t = s\<lparr>dg_log := dg_log t\<rparr>"
  by (cases s, cases t) (auto simp: quiet_def)

lemma log_free_at:
  assumes "log_free m" and "quiet s = quiet t"
  shows "fst (m s) = fst (m t) \<and> quiet (snd (m s)) = quiet (snd (m t))"
proof -
  have t: "t = s\<lparr>dg_log := dg_log t\<rparr>" using assms(2) by (simp only: quiet_eq)
  have "fst (m (s\<lparr>dg_log := dg_log t\<rparr>)) = fst (m s) \<and> quiet (snd (m (s\<lparr>dg_log := dg_log t\<rparr>))) = quiet (snd (m s))"
    using assms(1) unfolding log_free_def by blast
  from this [folded t] show ?thesis by simp
qed

lemma log_free_runs:
  "log_free m \<Longrightarrow> m s = (r, s1) \<Longrightarrow> m (s\<lparr>dg_log := l\<rparr>) = (r', t1) \<Longrightarrow> r' = r \<and> quiet s1 = quiet t1"
  unfolding log_free_def by (drule spec [of _ s], drule spec [of _ l]) simp

lemma log_free_seqm:
  assumes "log_free m" and "log_free m'"
  shows "log_free (seqm m m')"
  unfolding log_free_def
proof (intro allI)
  fix s l
  obtain r s1 r' t1 where m: "m s = (r, s1)" "m (s\<lparr>dg_log := l\<rparr>) = (r', t1)" by (cases "m s", cases "m (s\<lparr>dg_log := l\<rparr>)")
  have same: "r' = r" "quiet s1 = quiet t1" using log_free_runs [OF assms(1) m] by blast+
  show "fst (seqm m m' (s\<lparr>dg_log := l\<rparr>)) = fst (seqm m m' s) \<and> quiet (snd (seqm m m' (s\<lparr>dg_log := l\<rparr>))) = quiet (snd (seqm m m' s))"
    using log_free_at [OF assms(2) same(2)] same m by (cases r) (simp_all add: seqm_def bindm_def)
qed

lemma log_free_catchm:
  assumes "log_free m" and "\<And>e k. h e = Some k \<Longrightarrow> log_free k"
  shows "log_free (catchm m h)"
  unfolding log_free_def
proof (intro allI)
  fix s l
  obtain r s1 r' t1 where m: "m s = (r, s1)" "m (s\<lparr>dg_log := l\<rparr>) = (r', t1)" by (cases "m s", cases "m (s\<lparr>dg_log := l\<rparr>)")
  have same: "r' = r" "quiet s1 = quiet t1" using log_free_runs [OF assms(1) m] by blast+
  show "fst (catchm m h (s\<lparr>dg_log := l\<rparr>)) = fst (catchm m h s) \<and> quiet (snd (catchm m h (s\<lparr>dg_log := l\<rparr>))) = quiet (snd (catchm m h s))"
  proof (cases r)
    case (Inl e)
    show ?thesis using same m Inl log_free_at [OF assms(2) same(2)] by (cases "h e") (simp_all add: catchm_def)
  next
    case (Inr x)
    then show ?thesis using same m by (simp add: catchm_def)
  qed
qed

lemma log_free_basic: "log_free (ret x)" "log_free (raise e)" "log_free (maybe_invoke sel c)"
    "log_free (\<lambda>s. maybe_invoke sel (External (dg_rate s) (dg_channels s)) s)" "log_free (fill_auth k room token uid)"
  by (auto simp: log_free_def ret_def raise_def maybe_invoke_def log_call_def quiet_def fill_auth_def split: selector.splits option.splits)

lemma maybe_invoke_log: "\<exists>r l. maybe_invoke sel c s = (r, s\<lparr>dg_log := l\<rparr>)"
  by (cases sel) (auto simp: maybe_invoke_def log_call_def ret_def raise_def intro: exI [of _ "dg_log s"])

lemma teardown_shape:
  "\<exists>l. ding_teardown de s = (let s2 = s\<lparr>dg_engine := False, dg_engine_delegate := False, dg_audio_delegate := False, dg_classes := [], dg_push := None\<rparr>
    in case dg_queue s2 of None \<Rightarrow> s2 | Some q \<Rightarrow> if room_left (dg_capacity s2) q then s2\<lparr>dg_queue := Some (q @ [None])\<rparr> else s2)\<lparr>dg_log := l\<rparr>"
proof -
  obtain r1 l1 where one: "maybe_invoke (de_engine de) DestroyEngine s = (r1, s\<lparr>dg_log := l1\<rparr>)" using maybe_invoke_log by blast
  obtain r2 l2 where two: "maybe_invoke (de_release de) ReleaseEngine (s\<lparr>dg_log := l1\<rparr>) = (r2, s\<lparr>dg_log := l1\<rparr>\<lparr>dg_log := l2\<rparr>)"
    using maybe_invoke_log by blast
  let ?s1 = "if dg_engine s then (if ''DingRtcEngine'' \<in> set (dg_classes s) \<and> de_class de then log_call DestroyClass s
       else (case maybe_invoke (de_engine de) DestroyEngine s of (Inr False, s') \<Rightarrow> snd (maybe_invoke (de_release de) ReleaseEngine s') | (_, s') \<Rightarrow> s'))
     else s"
  have "\<exists>l. ?s1 = s\<lparr>dg_log := l\<rparr>"
    by (auto simp: one two log_call_def intro: exI [of _ "dg_log s"] split: sum.splits bool.splits)
  then obtain l where s1: "?s1 = s\<lparr>dg_log := l\<rparr>" by blast
  show ?thesis unfolding ding_teardown_def s1 by (intro exI [of _ l]) (simp add: Let_def split: option.splits)
qed

lemma quiet_teardown: "quiet (ding_teardown de (s\<lparr>dg_log := l\<rparr>)) = quiet (ding_teardown de s)"
proof -
  obtain a where "ding_teardown de s = (let s2 = s\<lparr>dg_engine := False, dg_engine_delegate := False, dg_audio_delegate := False, dg_classes := [], dg_push := None\<rparr>
    in case dg_queue s2 of None \<Rightarrow> s2 | Some q \<Rightarrow> if room_left (dg_capacity s2) q then s2\<lparr>dg_queue := Some (q @ [None])\<rparr> else s2)\<lparr>dg_log := a\<rparr>"
    using teardown_shape [of de s] by blast
  moreover obtain b where "ding_teardown de (s\<lparr>dg_log := l\<rparr>) = (let s2 = (s\<lparr>dg_log := l\<rparr>)\<lparr>dg_engine := False, dg_engine_delegate := False, dg_audio_delegate := False, dg_classes := [], dg_push := None\<rparr>
    in case dg_queue s2 of None \<Rightarrow> s2 | Some q \<Rightarrow> if room_left (dg_capacity s2) q then s2\<lparr>dg_queue := Some (q @ [None])\<rparr> else s2)\<lparr>dg_log := b\<rparr>"
    using teardown_shape [of de "s\<lparr>dg_log := l\<rparr>"] by blast
  ultimately show ?thesis by (simp add: quiet_def Let_def split: option.splits)
qed

lemma log_free_teardown: "log_free (modify (ding_teardown de))"
  by (simp add: log_free_def modify_def quiet_teardown)

lemma log_free_guarded: "log_free m \<Longrightarrow> log_free (guarded de msg m)"
  unfolding guarded_def by (rule log_free_catchm) (auto intro: log_free_seqm log_free_basic log_free_teardown)

lemma log_free_suppress: "log_free m \<Longrightarrow> log_free (suppress m)"
  unfolding suppress_def by (rule log_free_catchm) (auto intro: log_free_basic split: if_splits)

lemma deliver_log: "fold ding_deliver evs (s\<lparr>dg_log := l\<rparr>) = (fold ding_deliver evs s)\<lparr>dg_log := l\<rparr>"
proof (induction evs arbitrary: s)
  case (Cons ev evs)
  have "ding_deliver ev (s\<lparr>dg_log := l\<rparr>) = (ding_deliver ev s)\<lparr>dg_log := l\<rparr>"
    by (cases ev) (auto simp: on_join_result_def on_error_def on_audio_frame_def split: option.splits)
  then show ?case by (simp add: Cons.IH)
qed simp

lemma log_free_await: "log_free (await_join k de)"
  using quiet_teardown [of de]
  by (auto simp: log_free_def await_join_def deliver_log ret_def raise_def Let_def quiet_def split: option.splits sum.splits)

lemma log_free_set_up: "log_free (ding_set_up k de room token uid)"
  unfolding ding_set_up_def
  by (intro log_free_seqm log_free_guarded log_free_suppress log_free_basic log_free_await)

lemma join_elsewhere:
  assumes "constants s = constants t" and "dg_push s = dg_push t" and "\<not> dg_joined s" and "\<not> dg_closed s"
  shows "fst (ding_join k de room token uid rate channels s) = fst (ding_join k de room token uid rate channels t)
    \<and> (\<not> raised (ding_join k de room token uid rate channels s) \<longrightarrow>
         quiet (snd (ding_join k de room token uid rate channels s)) = quiet (snd (ding_join k de room token uid rate channels t)))"
proof -
  let ?up = "\<lambda>cls x. (log_call Shared (x\<lparr>dg_rate := rate, dg_channels := channels, dg_future := Some None, dg_queue := Some [],
      dg_classes := cls, dg_engine_delegate := True\<rparr>))\<lparr>dg_engine := True, dg_audio_delegate := True\<rparr>"
  have "quiet (?up cls s) = quiet (?up cls t)" for cls
    using assms(1,2) by (simp add: quiet_def constants_def log_call_def)
  from log_free_at [OF log_free_set_up this] show ?thesis
    using assms by (auto simp: ding_join_def constants_def raise_def Let_def split: sum.splits shared.splits)
qed

lemma load_gives_engine: "load_framework fh p = Inr classes \<Longrightarrow> ''DingRtcEngine'' \<in> set classes"
  by (auto simp: load_framework_def required_classes_def Let_def split: if_splits option.splits)


text \<open>Whatever is pushed, the sample object handed to the SDK describes exactly the kept buffer: its counts multiply to
  the buffer's length, so the SDK reads neither less nor more, and the buffer is the caller's audio.\<close>

theorem pushed_sample_in_bounds:
  assumes "ding_push push_frame pcm ts s = (r, s')"
  shows "dg_log s' = dg_log s
    \<or> (\<exists>n. dg_log s' = dg_log s @ [Push pcm n 2 (dg_channels s) (dg_rate s)] \<and> 0 < n \<and> length pcm = n * 2 * nat (dg_channels s)
         \<and> dg_push s' = Some pcm)"
proof -
  have "0 < length pcm div d" if "pcm \<noteq> []" "length pcm mod d = 0" for d
    using that by (metis div_greater_zero_iff gr0I length_0_conv mod_less mod_by_0 not_less)
  moreover have "length pcm = length pcm div (2 * c) * 2 * c" if "length pcm mod (2 * c) = 0" for c
    using that by (metis add.right_neutral div_mult_mod_eq mult.assoc)
  ultimately show ?thesis
    using assms by (auto simp: ding_push_def raise_def ret_def log_call_def Let_def split: if_splits selector.splits)
qed

definition ding_host :: framework_host where
  "ding_host = \<lparr>fh_exists = (\<lambda>p. last p \<noteq> ''libffmpeg.dylib''), fh_is_dir = (\<lambda>_. True), fh_loads = (\<lambda>_. True), fh_class = (\<lambda>_. True)\<rparr>"

definition ding_failing :: ding_sdk where
  "ding_failing = \<lparr>sk_load = load_framework ding_host (path_of ''/opt/DingRTC.framework''), sk_shared = SharedOk, sk_register = Works,
     sk_observe = Works, sk_external = Fails ''busy'', sk_publish = Works, sk_auth = None, sk_join = Works, sk_events = [],
     sk_cancelled = False\<rparr>"

definition ding_working :: ding_sdk where
  "ding_working = ding_failing\<lparr>sk_external := Works, sk_events := [OnOther, OnJoin 0]\<rparr>"

definition ding_class_ends :: ding_ends where
  "ding_class_ends = \<lparr>de_class = True, de_engine = Missing, de_release = Works\<rparr>"


lemma pushed_sample_in_bounds_witness:
  "let s = (ding_init 64 None ''app'' ''gslb'')\<lparr>dg_joined := True, dg_engine := True, dg_classes := required_classes\<rparr> in
     \<exists>s'. ding_push Works [1, 2, 3, 4] 0 s = (Inr (), s') \<and> dg_push s' = Some [1, 2, 3, 4]"
proof -
  define s where "s = (ding_init 64 None ''app'' ''gslb'')\<lparr>dg_joined := True, dg_engine := True, dg_classes := required_classes\<rparr>"
  obtain s' where s': "ding_push Works [1, 2, 3, 4] 0 s = (Inr (), s')" "dg_log s' \<noteq> dg_log s"
    by (simp add: s_def ding_push_def ding_init_def required_classes_def ret_def log_call_def)
  from pushed_sample_in_bounds [OF s'(1)] s' show ?thesis unfolding s_def [symmetric] Let_def by blast
qed

end
