(* ===== verification/Edge_Main.thy ===== *)
theory Edge_Main imports Core_Audio Usb_Watch Ipc_Server Edge_Ui Mac_Dingrtc begin

text \<open>
  The edge daemon (\<open>edge/main.py\<close>): what it reads from the environment, which parts it builds and in which
  order, how it serves until it is asked to stop, and what it takes down. Each call of a part is named in a
  log; what the call raises is an input (\<open>mc_out\<close>), so a run is determined by the machine it runs on. The
  discovery of the modem, the shared audio port, the recorder, the choice of the AT client and of the RTC
  session are those of the other theories.
\<close>

named_theorems daemon_simps \<open>evaluation of the steps of a daemon\<close>

section \<open>The machine and the log\<close>

datatype daemon_call =
    OpenAt string string
  | BuildMockAt
  | DisablePcm
  | SetPcmFrame string
  | MakeBufferDir string
  | OpenBuffer string
  | MakeRecordingsDir string
  | StartGrpc string string
  | StartOrchestrator
  | WaitStop
  | CancelHeartbeat
  | AwaitHeartbeat
  | DevTerminate
  | StopOrchestrator
  | StopGrpc
  | CloseBuffer
  | CloseAt

record machine =
  mc_platform :: string
  mc_pyobjc :: bool
  mc_env :: "string \<rightharpoonup> string"
  mc_scan :: "pyexn + port_info list"
  mc_prober :: "string \<Rightarrow> bool"
  mc_port :: "pyexn + nat"
  mc_files :: "wav_file list"
  mc_out :: "daemon_call \<Rightarrow> pyexn option"

record daemon =
  dm_calls :: "daemon_call list"
  dm_ports :: "port_call list"
  dm_heartbeat :: "int option"

definition daemon_init :: daemon where
  "daemon_init = \<lparr>dm_calls = [], dm_ports = [], dm_heartbeat = None\<rparr>"

definition call :: "machine \<Rightarrow> daemon_call \<Rightarrow> (daemon, unit) proc" where
  "call m c d = (let d' = d\<lparr>dm_calls := dm_calls d @ [c]\<rparr> in
     case mc_out m c of None \<Rightarrow> ret () d' | Some e \<Rightarrow> raise e d')"

definition lift :: "pyexn + 'a \<Rightarrow> (daemon, 'a) proc" where
  "lift r = (case r of Inl e \<Rightarrow> raise e | Inr x \<Rightarrow> ret x)"

definition env_or :: "string \<Rightarrow> string \<Rightarrow> (string \<rightharpoonup> string) \<Rightarrow> string" where
  "env_or name fallback env = (case env name of None \<Rightarrow> fallback | Some v \<Rightarrow> v)"


section \<open>Configuration\<close>

definition required_env :: "string \<Rightarrow> (string \<rightharpoonup> string) \<Rightarrow> pyexn + string" where
  "required_env name env = (if env_or name [] env = []
     then Inl (RuntimeError (name @ '' is required to start isales-telephony-edge''))
     else Inr (env_or name [] env))"

definition parse_int :: "string \<Rightarrow> pyexn + int" where
  "parse_int s = (case py_int s of None \<Rightarrow> Inl (ValueError ''invalid literal for int()'') | Some n \<Rightarrow> Inr n)"

definition heartbeat_device :: "(string \<rightharpoonup> string) \<Rightarrow> pyexn + int option" where
  "heartbeat_device env = (let raw = env_or ''ISALES_DEVICE_ID'' [] env in
     if strip raw = [] then Inr None else map_sum id Some (parse_int raw))"

definition device_id_warned :: "int option \<Rightarrow> bool" where
  "device_id_warned device \<longleftrightarrow> device = None \<or> device = Some 0"

text \<open>The two backends the daemon holds: two Core Audio objects, or the two holders of one audio port.\<close>

datatype backends = CoreAudioPair core_stream core_stream | SerialPair holder holder

definition audio_backend :: "(string \<rightharpoonup> string) \<Rightarrow> string" where
  "audio_backend env = env_or ''ISALES_EDGE_AUDIO_BACKEND'' ''macos'' env"

definition discover :: "string \<Rightarrow> machine \<Rightarrow> pyexn + (string \<times> string)" where
  "discover what m = (case discover_modem_serial_paths (mc_scan m) (mc_prober m) of
       Inl (ModemDiscoveryError t) \<Rightarrow> Inl (RuntimeError (what @ t))
     | r \<Rightarrow> r)"

definition serial_pair :: "machine \<Rightarrow> string \<Rightarrow> (daemon, backends) proc" where
  "serial_pair m path d = (case open_port (mc_port m) (holder_init path, dm_ports d) of
       (Inl e, (cap, l)) \<Rightarrow> raise e (d\<lparr>dm_ports := l\<rparr>)
     | (Inr _, (cap, l)) \<Rightarrow> (case adopt_serial_from cap (holder_init path) of
           (Inl e, play) \<Rightarrow> raise e (d\<lparr>dm_ports := l\<rparr>)
         | (Inr _, play) \<Rightarrow> ret (SerialPair cap play) (d\<lparr>dm_ports := l\<rparr>)))"

definition build_audio_backends :: "machine \<Rightarrow> string option \<Rightarrow> (daemon, backends) proc" where
  "build_audio_backends m audio_path =
     (let backend = audio_backend (mc_env m) in
      if backend = ''macos'' then ret (CoreAudioPair (core_init None DEFAULT_BLOCKSIZE) (core_init None DEFAULT_BLOCKSIZE))
      else if backend = ''linux'' then
        bindm (lift linux_alsa_capture) (\<lambda>_. bindm (lift linux_alsa_playback) (\<lambda>_. raise (OtherError ''unreachable'')))
      else if backend = ''windows'' then
        bindm (case audio_path of Some p \<Rightarrow> ret p
             | None \<Rightarrow> lift (map_sum id snd (discover ''windows audio backend: modem auto-discovery failed: '' m)))
          (serial_pair m)
      else raise (RuntimeError (''unknown ISALES_EDGE_AUDIO_BACKEND='' @ [CHR 39] @ backend @ [CHR 39])))"

definition build_recorder :: "machine \<Rightarrow> (daemon, recorder option \<times> int) proc" where
  "build_recorder m =
     (let env = mc_env m; dir = env_or ''ISALES_EDGE_RECORDINGS_DIR'' [] env in
      bindm (lift (parse_int (env_or ''ISALES_EDGE_MAX_RECORDINGS'' ''10'' env))) (\<lambda>kept.
        if dir = [] \<or> kept \<le> 0 then ret (None, 0)
        else bindm (lift (parse_int (env_or ''ISALES_EDGE_RECORDING_MIN_FREE_GB'' ''1'' env))) (\<lambda>gb.
          seqm (call m (MakeRecordingsDir dir)) (ret (Some (recorder_init gb (mc_files m)), kept)))))"

definition build_event_buffer :: "machine \<Rightarrow> (daemon, string option) proc" where
  "build_event_buffer m = (let path = env_or ''ISALES_EDGE_EVENT_BUFFER_PATH'' [] (mc_env m) in
     if path = [] then ret None else seqm (call m (OpenBuffer path)) (ret (Some path)))"


section \<open>The daemon with a modem\<close>

datatype session_factory = BareClass session_class | ProductionOf session_class

record parts =
  pt_endpoint :: string
  pt_token :: string
  pt_device :: "int option"
  pt_at :: "client_choice option"
  pt_audio :: "backends option"
  pt_buffer :: "string option"
  pt_recorder :: "recorder option"
  pt_kept :: int
  pt_factory :: session_factory

definition open_client :: "machine \<Rightarrow> client_choice \<Rightarrow> (daemon, client_choice) proc" where
  "open_client m c = seqm (case c of UseSerial tty hint \<Rightarrow> call m (OpenAt tty hint) | UseMock \<Rightarrow> call m BuildMockAt) (ret c)"

definition modem_and_audio :: "machine \<Rightarrow> (daemon, client_choice \<times> backends) proc" where
  "modem_and_audio m = (if audio_backend (mc_env m) = ''windows''
     then bindm (lift (discover ''modem auto-discovery failed: '' m)) (\<lambda>(at_path, audio_path).
       bindm (open_client m (UseSerial at_path (env_or ''ISALES_MODEM_DRIVER'' [] (mc_env m)))) (\<lambda>c.
       bindm (build_audio_backends m (Some audio_path)) (\<lambda>b. ret (c, b))))
     else bindm (lift (make_at_client (mc_env m))) (\<lambda>choice. bindm (open_client m choice) (\<lambda>c.
       bindm (build_audio_backends m None) (\<lambda>b. ret (c, b)))))"

definition session_factory :: "machine \<Rightarrow> pyexn + session_class" where
  "session_factory m = get_default_rtc_session_factory (mc_platform m) (mc_pyobjc m)
     (Some (env_or ''ISALES_RTC_APP_ID'' [] (mc_env m)))"

definition setup_real :: "machine \<Rightarrow> (daemon, parts) proc" where
  "setup_real m =
     bindm (lift (required_env ''ISALES_CLOUD_EDGE_ENDPOINT'' (mc_env m))) (\<lambda>endpoint.
     bindm (lift (required_env ''ISALES_EDGE_DEVICE_TOKEN'' (mc_env m))) (\<lambda>token.
     bindm (lift (heartbeat_device (mc_env m))) (\<lambda>device.
     bindm (modem_and_audio m) (\<lambda>(client, audio).
     bindm (build_event_buffer m) (\<lambda>buffer.
     bindm (build_recorder m) (\<lambda>(rcd, kept).
     bindm (lift (session_factory m)) (\<lambda>factory.
       ret \<lparr>pt_endpoint = endpoint, pt_token = token, pt_device = device, pt_at = Some client, pt_audio = Some audio,
         pt_buffer = buffer, pt_recorder = rcd, pt_kept = kept, pt_factory = BareClass factory\<rparr>)))))))"

definition start_heartbeat :: "int option \<Rightarrow> (daemon, unit) proc" where
  "start_heartbeat device = modify (\<lambda>d. d\<lparr>dm_heartbeat := device\<rparr>)"

definition serve_body :: "machine \<Rightarrow> parts \<Rightarrow> (daemon, unit) proc" where
  "serve_body m p = seqm (call m (StartGrpc (pt_endpoint p) (pt_token p))) (seqm (call m StartOrchestrator)
     (seqm (start_heartbeat (pt_device p)) (call m WaitStop)))"

definition cancel_heartbeat :: "machine \<Rightarrow> (daemon, unit) proc" where
  "cancel_heartbeat m d = (case dm_heartbeat d of
       None \<Rightarrow> ret () d
     | Some _ \<Rightarrow> seqm (modify (\<lambda>d. d\<lparr>dm_calls := dm_calls d @ [CancelHeartbeat]\<rparr>))
         (catchm (call m AwaitHeartbeat) (\<lambda>e. if e = Cancelled then Some (ret ()) else None)) d)"

definition close_buffer :: "machine \<Rightarrow> string option \<Rightarrow> (daemon, unit) proc" where
  "close_buffer m buffer = (case buffer of None \<Rightarrow> ret () | Some _ \<Rightarrow> call m CloseBuffer)"

definition shutdown_real :: "machine \<Rightarrow> parts \<Rightarrow> (daemon, unit) proc" where
  "shutdown_real m p = seqm (cancel_heartbeat m) (seqm (call m StopOrchestrator) (seqm (call m StopGrpc)
     (seqm (close_buffer m (pt_buffer p))
       (case pt_at p of Some (UseSerial _ _) \<Rightarrow> suppress (call m CloseAt) | _ \<Rightarrow> ret ()))))"

definition arun_real :: "machine \<Rightarrow> (daemon, unit) proc" where
  "arun_real m = bindm (setup_real m) (\<lambda>p. finallym (serve_body m p) (shutdown_real m p))"


section \<open>The daemon without a modem\<close>

text \<open>\<open>production\<close> is an attribute of the DingRTC class of macOS only.\<close>

definition production_factory :: "session_class \<Rightarrow> session_factory" where
  "production_factory c = (case c of MacosDingRtc \<Rightarrow> ProductionOf c | _ \<Rightarrow> BareClass c)"

definition setup_dev :: "machine \<Rightarrow> (daemon, parts) proc" where
  "setup_dev m =
     bindm (lift (required_env ''ISALES_CLOUD_EDGE_ENDPOINT'' (mc_env m))) (\<lambda>endpoint.
     bindm (lift (required_env ''ISALES_EDGE_DEVICE_TOKEN'' (mc_env m))) (\<lambda>token.
     bindm (build_event_buffer m) (\<lambda>buffer.
     bindm (lift (heartbeat_device (mc_env m))) (\<lambda>device.
     bindm (lift (session_factory m)) (\<lambda>factory.
     bindm (build_recorder m) (\<lambda>(rcd, kept).
       ret \<lparr>pt_endpoint = endpoint, pt_token = token, pt_device = device, pt_at = None, pt_audio = None,
         pt_buffer = buffer, pt_recorder = rcd, pt_kept = kept, pt_factory = production_factory factory\<rparr>))))))"

definition shutdown_dev :: "machine \<Rightarrow> parts \<Rightarrow> (daemon, unit) proc" where
  "shutdown_dev m p = seqm (cancel_heartbeat m) (seqm (call m DevTerminate) (seqm (call m StopOrchestrator)
     (seqm (call m StopGrpc) (close_buffer m (pt_buffer p)))))"

definition arun_dev_no_modem :: "machine \<Rightarrow> (daemon, unit) proc" where
  "arun_dev_no_modem m = bindm (setup_dev m) (\<lambda>p. finallym (serve_body m p) (shutdown_dev m p))"


section \<open>The process\<close>

datatype process_end = Returned | Exited nat | Died pyexn

definition arun :: "bool \<Rightarrow> machine \<Rightarrow> (daemon, unit) proc" where
  "arun dev m = (if dev then arun_dev_no_modem m else arun_real m)"

definition edge_run :: "bool \<Rightarrow> machine \<Rightarrow> process_end \<times> daemon" where
  "edge_run dev m = (if dev \<and> mc_platform m \<noteq> ''darwin'' then (Exited 2, daemon_init)
     else (case arun dev m daemon_init of
         (Inl e, d) \<Rightarrow> (if e = OtherError ''KeyboardInterrupt'' then Returned else Died e, d)
       | (Inr _, d) \<Rightarrow> (Returned, d)))"


section \<open>What a start acquires\<close>

definition is_release :: "daemon_call \<Rightarrow> bool" where
  "is_release c \<longleftrightarrow> c \<in> {CancelHeartbeat, AwaitHeartbeat, DevTerminate, StopOrchestrator, StopGrpc, CloseBuffer, CloseAt}"

definition is_port_close :: "port_call \<Rightarrow> bool" where
  "is_port_close c = (case c of PortClosed _ \<Rightarrow> True | _ \<Rightarrow> False)"

text \<open>A step that only acquires: it adds calls that are no releases, closes no port and starts no heartbeat.\<close>

definition acquires :: "(daemon, 'a) proc \<Rightarrow> bool" where
  "acquires f \<longleftrightarrow> (\<forall>d r d'. f d = (r, d') \<longrightarrow> (\<exists>cs ps. dm_calls d' = dm_calls d @ cs \<and> list_all (\<lambda>c. \<not> is_release c) cs
     \<and> dm_ports d' = dm_ports d @ ps \<and> list_all (\<lambda>c. \<not> is_port_close c) ps \<and> dm_heartbeat d' = dm_heartbeat d))"

named_theorems acquires_rules \<open>closure of the acquiring steps\<close>

lemma acquires_ret [acquires_rules]: "acquires (ret x)"
  by (auto simp: acquires_def ret_def)

lemma acquires_raise [acquires_rules]: "acquires (raise e)"
  by (auto simp: acquires_def raise_def)

lemma acquires_lift [acquires_rules]: "acquires (lift r)"
  by (cases r) (auto simp: lift_def acquires_rules)

lemma acquires_call [acquires_rules]: "\<not> is_release c \<Longrightarrow> acquires (call m c)"
  by (auto simp: acquires_def call_def ret_def raise_def Let_def split: option.splits)

lemma acquires_bindm [acquires_rules]:
  assumes "acquires f" and "\<And>x. acquires (k x)"
  shows "acquires (bindm f k)"
  unfolding acquires_def
proof (intro allI impI)
  fix d r d' assume run: "bindm f k d = (r, d')"
  obtain r1 d1 where f: "f d = (r1, d1)" by (cases "f d")
  obtain cs ps where one: "dm_calls d1 = dm_calls d @ cs" "list_all (\<lambda>c. \<not> is_release c) cs" "dm_ports d1 = dm_ports d @ ps"
    "list_all (\<lambda>c. \<not> is_port_close c) ps" "dm_heartbeat d1 = dm_heartbeat d"
    using assms(1) f unfolding acquires_def by blast
  show "\<exists>cs ps. dm_calls d' = dm_calls d @ cs \<and> list_all (\<lambda>c. \<not> is_release c) cs
     \<and> dm_ports d' = dm_ports d @ ps \<and> list_all (\<lambda>c. \<not> is_port_close c) ps \<and> dm_heartbeat d' = dm_heartbeat d"
  proof (cases r1)
    case (Inl e)
    with run f one show ?thesis by (auto simp: bindm_def)
  next
    case (Inr x)
    with run f have "k x d1 = (r, d')" by (simp add: bindm_def)
    then obtain cs' ps' where "dm_calls d' = dm_calls d1 @ cs'" "list_all (\<lambda>c. \<not> is_release c) cs'"
      "dm_ports d' = dm_ports d1 @ ps'" "list_all (\<lambda>c. \<not> is_port_close c) ps'" "dm_heartbeat d' = dm_heartbeat d1"
      using assms(2) [of x] unfolding acquires_def by blast
    with one show ?thesis by (intro exI [of _ "cs @ cs'"] exI [of _ "ps @ ps'"]) simp
  qed
qed

lemma acquires_seqm [acquires_rules]: "acquires f \<Longrightarrow> acquires k \<Longrightarrow> acquires (seqm f k)"
  unfolding seqm_def by (rule acquires_bindm)

lemma acquires_serial_pair [acquires_rules]: "acquires (serial_pair m path)"
  unfolding acquires_def
  by (auto simp: serial_pair_def open_port_def adopt_serial_from_def holder_init_def ret_def raise_def is_port_close_def
      split: sum.splits if_splits)

lemma acquires_backends [acquires_rules]: "acquires (build_audio_backends m p)"
  unfolding build_audio_backends_def Let_def
  by (auto intro!: acquires_rules split: option.splits)

lemma acquires_buffer [acquires_rules]: "acquires (build_event_buffer m)"
  by (auto simp: build_event_buffer_def Let_def is_release_def intro!: acquires_rules)

lemma acquires_recorder [acquires_rules]: "acquires (build_recorder m)"
  unfolding build_recorder_def Let_def by (auto simp: is_release_def intro!: acquires_rules)

lemma acquires_client [acquires_rules]: "acquires (open_client m c)"
  by (cases c) (auto simp: open_client_def is_release_def intro!: acquires_rules)

lemma acquires_modem [acquires_rules]: "acquires (modem_and_audio m)"
  unfolding modem_and_audio_def by (auto intro!: acquires_rules split: prod.splits)

lemma acquires_setup_real: "acquires (setup_real m)"
  unfolding setup_real_def by (auto intro!: acquires_rules split: prod.splits)

lemma acquires_setup_dev: "acquires (setup_dev m)"
  unfolding setup_dev_def by (auto intro!: acquires_rules split: prod.splits)


section \<open>What a stop releases\<close>

fun up_to :: "('a \<Rightarrow> bool) \<Rightarrow> 'a list \<Rightarrow> 'a list" where
  "up_to P [] = []"
| "up_to P (x # xs) = x # (if P x then [] else up_to P xs)"

text \<open>Which outcome of a step of the stop ends it: the heartbeat's own cancellation and a failed release of the modem
  are passed over.\<close>

definition fatal :: "machine \<Rightarrow> daemon_call \<Rightarrow> bool" where
  "fatal m c = (case mc_out m c of None \<Rightarrow> False | Some e \<Rightarrow> (case c of CancelHeartbeat \<Rightarrow> False
     | AwaitHeartbeat \<Rightarrow> e \<noteq> Cancelled | CloseAt \<Rightarrow> \<not> is_exception e | _ \<Rightarrow> True))"

definition heartbeat_steps :: "int option \<Rightarrow> daemon_call list" where
  "heartbeat_steps device = (case device of None \<Rightarrow> [] | Some _ \<Rightarrow> [CancelHeartbeat, AwaitHeartbeat])"

definition buffer_steps :: "string option \<Rightarrow> daemon_call list" where
  "buffer_steps buffer = (case buffer of None \<Rightarrow> [] | Some _ \<Rightarrow> [CloseBuffer])"

definition stop_steps :: "int option \<Rightarrow> parts \<Rightarrow> daemon_call list" where
  "stop_steps device p = heartbeat_steps device @ [StopOrchestrator, StopGrpc] @ buffer_steps (pt_buffer p)
     @ (case pt_at p of Some (UseSerial _ _) \<Rightarrow> [CloseAt] | _ \<Rightarrow> [])"

definition dev_stop_steps :: "int option \<Rightarrow> parts \<Rightarrow> daemon_call list" where
  "dev_stop_steps device p = heartbeat_steps device @ [DevTerminate, StopOrchestrator, StopGrpc] @ buffer_steps (pt_buffer p)"

text \<open>The heartbeat runs when both the client and the orchestrator have started and the device has a number.\<close>

definition beating :: "machine \<Rightarrow> parts \<Rightarrow> int option" where
  "beating m p = (if mc_out m (StartGrpc (pt_endpoint p) (pt_token p)) = None \<and> mc_out m StartOrchestrator = None
     then pt_device p else None)"

definition serve_steps :: "parts \<Rightarrow> daemon_call list" where
  "serve_steps p = [StartGrpc (pt_endpoint p) (pt_token p), StartOrchestrator, WaitStop]"

lemmas step_defs = call_def seqm_def bindm_def modify_def ret_def raise_def Let_def

lemma serve_body_calls:
  assumes "dm_heartbeat d = None"
  shows "snd (serve_body m p d) = d\<lparr>dm_calls := dm_calls d @ up_to (\<lambda>c. mc_out m c \<noteq> None) (serve_steps p), dm_heartbeat := beating m p\<rparr>"
  using assms by (cases d) (auto simp: serve_body_def serve_steps_def beating_def start_heartbeat_def step_defs split: option.splits)

lemma shutdown_real_calls:
  "dm_calls (snd (shutdown_real m p d)) = dm_calls d @ up_to (fatal m) (stop_steps (dm_heartbeat d) p)
     \<and> dm_ports (snd (shutdown_real m p d)) = dm_ports d"
  by (auto simp: shutdown_real_def cancel_heartbeat_def close_buffer_def stop_steps_def heartbeat_steps_def buffer_steps_def
      fatal_def step_defs catchm_def suppress_def is_exception_def split: option.splits client_choice.splits sum.splits if_splits)

lemma shutdown_dev_calls:
  "dm_calls (snd (shutdown_dev m p d)) = dm_calls d @ up_to (fatal m) (dev_stop_steps (dm_heartbeat d) p)
     \<and> dm_ports (snd (shutdown_dev m p d)) = dm_ports d"
  by (auto simp: shutdown_dev_def cancel_heartbeat_def close_buffer_def dev_stop_steps_def heartbeat_steps_def buffer_steps_def
      fatal_def step_defs catchm_def suppress_def is_exception_def split: option.splits sum.splits if_splits)

lemma finallym_snd: "snd (finallym f g d) = snd (g (snd (f d)))"
  by (auto simp: finallym_def split: prod.splits sum.splits)

text \<open>The daemon made of one setup and its stop.\<close>

lemma daemon_run:
  assumes "acquires setup" and "setup daemon_init = (Inr p, d)"
    and "\<And>d. dm_calls (snd (stop d)) = dm_calls d @ up_to (fatal m) (steps (dm_heartbeat d)) \<and> dm_ports (snd (stop d)) = dm_ports d"
  shows "let s = snd (bindm setup (\<lambda>p. finallym (serve_body m p) stop) daemon_init) in
     dm_calls s = dm_calls d @ up_to (\<lambda>c. mc_out m c \<noteq> None) (serve_steps p) @ up_to (fatal m) (steps (beating m p))
     \<and> dm_ports s = dm_ports d"
proof -
  have "dm_heartbeat d = dm_heartbeat daemon_init" using assms(1,2) unfolding acquires_def by blast
  then have "dm_heartbeat d = None" by (simp add: daemon_init_def)
  from serve_body_calls [OF this, of m p] assms(2,3) show ?thesis
    by (simp add: bindm_def finallym_snd Let_def)
qed

text \<open>C33. Once the daemon is built, its stop runs however serving ended, in the order heartbeat, orchestrator, cloud
  client, event buffer, modem, each once, up to the first step whose exception is not passed over; and the shared
  audio port, where one was opened, stays open.\<close>

theorem daemon_stop_order:
  assumes "setup_real m daemon_init = (Inr p, d)"
  shows "let s = snd (arun_real m daemon_init) in
      dm_calls s = dm_calls d @ up_to (\<lambda>c. mc_out m c \<noteq> None) (serve_steps p) @ up_to (fatal m) (stop_steps (beating m p) p)
      \<and> list_all (\<lambda>c. \<not> is_release c) (dm_calls d) \<and> list_all (\<lambda>c. \<not> is_port_close c) (dm_ports s)"
proof -
  have quiet: "list_all (\<lambda>c. \<not> is_release c) (dm_calls d)" "list_all (\<lambda>c. \<not> is_port_close c) (dm_ports d)"
    using acquires_setup_real [of m] assms unfolding acquires_def by (fastforce simp: daemon_init_def)+
  from daemon_run [OF acquires_setup_real assms, where steps = "\<lambda>hb. stop_steps hb p", OF shutdown_real_calls] quiet show ?thesis
    by (simp add: arun_real_def bindm_def assms Let_def)
qed

definition windows_scan :: "port_info list" where
  "windows_scan =
     [\<lparr>pi_device = ''COM9'', pi_vid = Some 1, pi_pid = Some 2, pi_serial = Some ''sn'', pi_description = Some ''HS-USB AT Port 9001''\<rparr>,
      \<lparr>pi_device = ''COM11'', pi_vid = Some 1, pi_pid = Some 2, pi_serial = Some ''sn'', pi_description = Some ''HS-USB Audio''\<rparr>]"

definition windows_env :: "string \<rightharpoonup> string" where
  "windows_env = map_of [(''ISALES_CLOUD_EDGE_ENDPOINT'', ''cloud:443''), (''ISALES_EDGE_DEVICE_TOKEN'', ''tok''), (''ISALES_DEVICE_ID'', '' 7 ''),
     (''ISALES_EDGE_AUDIO_BACKEND'', ''windows''), (''ISALES_RTC_APP_ID'', ''app''), (''ISALES_EDGE_EVENT_BUFFER_PATH'', ''b.db'')]"

definition windows_machine :: "daemon_call list \<Rightarrow> machine" where
  "windows_machine failing = \<lparr>mc_platform = ''win32'', mc_pyobjc = False, mc_env = windows_env, mc_scan = Inr windows_scan,
     mc_prober = (\<lambda>_. True), mc_port = Inr 3, mc_files = [],
     mc_out = (\<lambda>c. if c \<in> set failing then Some (OSError ''x'') else None)\<rparr>"

lemma windows_values:
  "discover_modem_serial_paths (Inr windows_scan) (\<lambda>_. True) = Inr (''COM9'', ''COM11'')"
  "heartbeat_device windows_env = Inr (Some 7)"
  "parse_int (env_or ''ISALES_EDGE_MAX_RECORDINGS'' ''10'' windows_env) = Inr 10"
  by code_simp+

text \<open>The daemon builds on such a machine, and holds the modem and its audio port.\<close>

lemma windows_setup:
  assumes "OpenBuffer ''b.db'' \<notin> set failing" and "OpenAt ''COM9'' [] \<notin> set failing"
  shows "\<exists>p. setup_real (windows_machine failing) daemon_init = (Inr p, \<lparr>dm_calls = [OpenAt ''COM9'' [], OpenBuffer ''b.db''],
      dm_ports = [PortOpened 3], dm_heartbeat = None\<rparr>)
     \<and> pt_at p = Some (UseSerial ''COM9'' []) \<and> pt_buffer p = Some ''b.db'' \<and> pt_device p = Some 7
     \<and> pt_endpoint p = ''cloud:443'' \<and> pt_token p = ''tok''"
proof -
  note disc = windows_values(1) and dev = windows_values(2) and kept = windows_values(3)
  have env: "required_env ''ISALES_CLOUD_EDGE_ENDPOINT'' windows_env = Inr ''cloud:443''"
    "required_env ''ISALES_EDGE_DEVICE_TOKEN'' windows_env = Inr ''tok''"
    "audio_backend windows_env = ''windows''" "env_or ''ISALES_EDGE_RECORDINGS_DIR'' [] windows_env = []"
    "env_or ''ISALES_EDGE_EVENT_BUFFER_PATH'' [] windows_env = ''b.db''"
    "env_or ''ISALES_MODEM_DRIVER'' [] windows_env = []" "env_or ''ISALES_RTC_APP_ID'' [] windows_env = ''app''"
    by code_simp+
  show ?thesis using assms
    by (simp add: setup_real_def modem_and_audio_def discover_def windows_machine_def disc dev kept env lift_def method_defs
        open_client_def call_def build_audio_backends_def serial_pair_def open_port_def adopt_serial_from_def holder_init_def
        build_event_buffer_def build_recorder_def session_factory_def get_default_rtc_session_factory_def daemon_init_def Let_def)
qed

lemma daemon_stop_order_witness:
  "dm_calls (snd (arun_real (windows_machine [StopGrpc]) daemon_init)) =
     [OpenAt ''COM9'' [], OpenBuffer ''b.db'', StartGrpc ''cloud:443'' ''tok'', StartOrchestrator, WaitStop,
      CancelHeartbeat, AwaitHeartbeat, StopOrchestrator, StopGrpc]"
proof -
  obtain p where p: "setup_real (windows_machine [StopGrpc]) daemon_init = (Inr p, \<lparr>dm_calls = [OpenAt ''COM9'' [], OpenBuffer ''b.db''],
      dm_ports = [PortOpened 3], dm_heartbeat = None\<rparr>)" "pt_at p = Some (UseSerial ''COM9'' [])" "pt_buffer p = Some ''b.db''"
    "pt_device p = Some 7" "pt_endpoint p = ''cloud:443''" "pt_token p = ''tok''"
    using windows_setup [of "[StopGrpc]"] by auto
  from daemon_stop_order [OF p(1)] p(2-) show ?thesis
    by (simp add: Let_def serve_steps_def beating_def stop_steps_def heartbeat_steps_def buffer_steps_def windows_machine_def fatal_def)
qed

text \<open>C34. A daemon that fails while it is being built releases nothing: the exception is raised before the \<open>try\<close>, so neither
  an AT client that is open nor the audio port is closed, nor is the event buffer.\<close>

theorem failed_build_releases_nothing:
  assumes "setup_real m daemon_init = (Inl e, d)"
  shows "arun_real m daemon_init = (Inl e, d) \<and> list_all (\<lambda>c. \<not> is_release c) (dm_calls d) \<and> list_all (\<lambda>c. \<not> is_port_close c) (dm_ports d)"
  using acquires_setup_real [of m] assms unfolding acquires_def
  by (fastforce simp: daemon_init_def arun_real_def bindm_def)

lemma failed_build_releases_nothing_witness:
  "\<exists>d. arun_real (windows_machine [OpenBuffer ''b.db'']) daemon_init = (Inl (OSError ''x''), d)
     \<and> dm_calls d = [OpenAt ''COM9'' [], OpenBuffer ''b.db''] \<and> dm_ports d = [PortOpened 3]"
proof -
  note disc = windows_values(1) and dev = windows_values(2)
  have env: "required_env ''ISALES_CLOUD_EDGE_ENDPOINT'' windows_env = Inr ''cloud:443''"
    "required_env ''ISALES_EDGE_DEVICE_TOKEN'' windows_env = Inr ''tok''"
    "audio_backend windows_env = ''windows''" "env_or ''ISALES_EDGE_EVENT_BUFFER_PATH'' [] windows_env = ''b.db''"
    "env_or ''ISALES_MODEM_DRIVER'' [] windows_env = []"
    by code_simp+
  have "setup_real (windows_machine [OpenBuffer ''b.db'']) daemon_init = (Inl (OSError ''x''),
      \<lparr>dm_calls = [OpenAt ''COM9'' [], OpenBuffer ''b.db''], dm_ports = [PortOpened 3], dm_heartbeat = None\<rparr>)"
    by (simp add: setup_real_def modem_and_audio_def discover_def windows_machine_def disc dev env lift_def method_defs
        open_client_def call_def build_audio_backends_def serial_pair_def open_port_def adopt_serial_from_def holder_init_def
        build_event_buffer_def daemon_init_def Let_def)
  from failed_build_releases_nothing [OF this] show ?thesis by simp
qed

text \<open>The daemon without a modem reports the end of its calls before the orchestrator is stopped, so before their sessions go.\<close>

lemma dev_stop_order:
  assumes "setup_dev m daemon_init = (Inr p, d)"
  shows "dm_calls (snd (arun_dev_no_modem m daemon_init)) = dm_calls d
      @ up_to (\<lambda>c. mc_out m c \<noteq> None) (serve_steps p) @ up_to (fatal m) (dev_stop_steps (beating m p) p)"
  using daemon_run [OF acquires_setup_dev assms, where steps = "\<lambda>hb. dev_stop_steps hb p", OF shutdown_dev_calls] by (simp add: arun_dev_no_modem_def bindm_def assms Let_def)

text \<open>On macOS the daemon with a modem hands the orchestrator the bare session class: its sessions carry no application
  identifier, and joining fails whatever the environment says.\<close>

lemma real_daemon_bare_class:
  assumes "setup_real m daemon_init = (Inr p, d)" and "mc_platform m = ''darwin''" and "mc_pyobjc m"
  shows "pt_factory p = BareClass MacosDingRtc"
  using assms by (auto simp: setup_real_def session_factory_def get_default_rtc_session_factory_def lift_def bindm_def ret_def raise_def
      split: prod.splits sum.splits if_splits)

end
