(* ===== verification/Win_Main.thy ===== *)
theory Win_Main imports Edge_Main begin

text \<open>
  The Windows shell (\<open>main_windows.py\<close>) with its tray icon (\<open>ui/tray.py\<close>) and the text of its diagnostic
  window (\<open>ui/diagnostic.py\<close>): building the parts, the activation loop, the task group the program lives in,
  the cleanup, the menu. The parts and their calls are those of the edge daemon; the answers of the dialog
  (\<open>run_dialog\<close> of \<open>Edge_Ui\<close>) and how the tasks end are inputs.
\<close>

section \<open>Building\<close>

text \<open>The machine after the environment file has been merged in.\<close>

definition with_env_file :: "string option \<Rightarrow> machine \<Rightarrow> machine" where
  "with_env_file content m = m\<lparr>mc_env := load_env_file content (mc_env m)\<rparr>"

definition DEFAULT_CLOUD_ENDPOINT :: string where
  "DEFAULT_CLOUD_ENDPOINT = ''isales.example.com:443''"

definition best_effort :: "machine \<Rightarrow> daemon_call \<Rightarrow> (daemon, unit) proc" where
  "best_effort m c = suppress (call m c)"

definition build_shell_buffer :: "machine \<Rightarrow> (daemon, string option) proc" where
  "build_shell_buffer m = (let given = env_or ''ISALES_EDGE_EVENT_BUFFER_PATH'' [] (mc_env m); appdata = env_or ''APPDATA'' [] (mc_env m) in
     seqm (if given = [] \<and> appdata \<noteq> [] then call m (MakeBufferDir (appdata @ ''/isales/sqlite'')) else ret ())
       (case event_buffer_path (mc_env m) of None \<Rightarrow> ret None
        | Some path \<Rightarrow> seqm (call m (OpenBuffer path)) (ret (Some path))))"

text \<open>\<open>get_capture_class()(path)\<close>: the constructors of the other platforms take no positional argument.\<close>

definition shell_backends :: "machine \<Rightarrow> string \<Rightarrow> (daemon, backends) proc" where
  "shell_backends m path =
     bindm (lift (get_capture_class (mc_platform m))) (\<lambda>c. case c of
         WindowsSerialPcm \<Rightarrow> bindm (lift (get_playback_class (mc_platform m))) (\<lambda>_. serial_pair m path)
       | _ \<Rightarrow> raise (OtherError ''TypeError''))"

definition setup_windows :: "machine \<Rightarrow> (daemon, parts) proc" where
  "setup_windows m =
     (let env = mc_env m in
      bindm (lift (heartbeat_device env)) (\<lambda>device.
      bindm (lift (discover ''modem auto-discovery failed: '' m)) (\<lambda>(at_path, audio_path).
      bindm (open_client m (UseSerial at_path (env_or ''ISALES_MODEM_DRIVER'' [] env))) (\<lambda>client.
      seqm (best_effort m DisablePcm) (seqm (best_effort m (SetPcmFrame ''AT+CPCMFRM=0''))
      (bindm (shell_backends m audio_path) (\<lambda>audio.
      bindm (build_shell_buffer m) (\<lambda>buffer.
      bindm (build_recorder m) (\<lambda>(rcd, kept).
      bindm (lift (session_factory m)) (\<lambda>factory.
        ret \<lparr>pt_endpoint = env_or ''ISALES_CLOUD_GRPC_ENDPOINT'' DEFAULT_CLOUD_ENDPOINT env,
          pt_token = env_or ''ISALES_EDGE_DEVICE_TOKEN'' [] env, pt_device = device, pt_at = Some client, pt_audio = Some audio,
          pt_buffer = buffer, pt_recorder = rcd, pt_kept = kept, pt_factory = BareClass factory\<rparr>))))))))))"


section \<open>Connecting\<close>

type_synonym shell_state = "daemon \<times> bus"

definition on_daemon :: "(daemon, 'a) proc \<Rightarrow> (shell_state, 'a) proc" where
  "on_daemon f s = (case f (fst s) of (r, d) \<Rightarrow> (r, (d, snd s)))"

definition publish_link :: "cloud_link \<Rightarrow> (shell_state, unit) proc" where
  "publish_link l = modify (\<lambda>s. (fst s, bus_update (set_link l) (snd s)))"

text \<open>The activation loop over the stop flag at each turn and what the dialog gave. \<open>None\<close> is a dialog still open.\<close>

datatype activated = GoOn | GiveUp

fun activation_loop :: "(bool \<times> attempt option) list \<Rightarrow> activated option" where
  "activation_loop [] = None"
| "activation_loop ((stop, answer) # turns) = (if stop then Some GoOn
     else case answer of None \<Rightarrow> Some GiveUp
       | Some a \<Rightarrow> if at_error a = None then Some GoOn else activation_loop turns)"

definition connect :: "machine \<Rightarrow> parts \<Rightarrow> (shell_state, unit) proc" where
  "connect m p = catchm
     (seqm (on_daemon (call m (StartGrpc (pt_endpoint p) (pt_token p)))) (publish_link CONNECTED_LINK))
     (\<lambda>e. if is_exception e then Some (publish_link DISCONNECTED) else None)"


section \<open>The task group\<close>

text \<open>How a task stands: it returned, raised, or still runs. \<open>asyncio.TaskGroup\<close> counts a task that raises
  \<open>CancelledError\<close> as cancelled, and a cancelled task neither ends the group nor stops its siblings: the group
  ends when a task raises something else, when it is cancelled from outside, or when no task is left.\<close>

datatype task_end = TaskDone | TaskRaised pyexn | TaskRunning

datatype group_end = GroupDone | GroupCancelled | GroupFailed "pyexn list" | GroupWaits

definition task_errors :: "task_end list \<Rightarrow> pyexn list" where
  "task_errors ts = concat (map (\<lambda>t. case t of TaskRaised e \<Rightarrow> if e = Cancelled then [] else [e] | _ \<Rightarrow> []) ts)"

definition task_group :: "task_end list \<Rightarrow> bool \<Rightarrow> group_end" where
  "task_group ts cancelled = (if task_errors ts \<noteq> [] then GroupFailed (task_errors ts)
     else if cancelled then GroupCancelled
     else if TaskRunning \<in> set ts then GroupWaits else GroupDone)"

text \<open>\<open>_wait_stop\<close> raises \<open>CancelledError\<close> when the stop event is set; the watcher and the heartbeat loop for ever.\<close>

definition wait_stop :: "bool \<Rightarrow> task_end" where
  "wait_stop stop = (if stop then TaskRaised Cancelled else TaskRunning)"

definition task_of :: "pyexn option \<Rightarrow> task_end" where
  "task_of res = (case res of None \<Rightarrow> TaskDone | Some e \<Rightarrow> TaskRaised e)"

definition endless :: "pyexn option \<Rightarrow> task_end" where
  "endless failure = (case failure of None \<Rightarrow> TaskRunning | Some e \<Rightarrow> TaskRaised e)"

record life =
  lf_turns :: "(bool \<times> attempt option) list"
  lf_stop :: bool
  lf_cancelled :: bool
  lf_watcher :: "pyexn option"
  lf_heartbeat :: "pyexn option"

definition shell_tasks :: "machine \<Rightarrow> parts \<Rightarrow> life \<Rightarrow> task_end list" where
  "shell_tasks m p lf = [task_of (mc_out m StartOrchestrator), endless (lf_watcher lf)]
     @ (case pt_device p of None \<Rightarrow> [] | Some _ \<Rightarrow> [endless (lf_heartbeat lf)]) @ [wait_stop (lf_stop lf)]"

datatype shell_end = ShellReturned | ShellRaised "pyexn list" | ShellWaits

text \<open>The group, \<open>except* CancelledError\<close> and the cleanup of the \<open>finally\<close>, whose log comes last.\<close>

definition serve_shell :: "machine \<Rightarrow> parts \<Rightarrow> life \<Rightarrow> shell_end \<times> string list" where
  "serve_shell m p lf = (case task_group (shell_tasks m p lf) (lf_cancelled lf) of
       GroupWaits \<Rightarrow> (ShellWaits, [])
     | g \<Rightarrow> (case graceful_cleanup (mc_out m StopOrchestrator) (mc_out m StopGrpc)
           (map_option (\<lambda>_. mc_out m CloseBuffer) (pt_buffer p)) (Some (mc_out m CloseAt)) [] of
         (Inl e, l) \<Rightarrow> (ShellRaised [e], l)
       | (Inr _, l) \<Rightarrow> ((case g of GroupFailed es \<Rightarrow> ShellRaised es | _ \<Rightarrow> ShellReturned), l)))"

definition arun_windows :: "machine \<Rightarrow> life \<Rightarrow> shell_state \<Rightarrow> (shell_end \<times> string list) \<times> shell_state" where
  "arun_windows m lf s = (case on_daemon (setup_windows m) s of
       (Inl e, s1) \<Rightarrow> ((ShellRaised [e], []), s1)
     | (Inr p, s1) \<Rightarrow>
         if pt_token p = [] then
           let s2 = snd (publish_link AWAITING_ACTIVATION s1) in
           (case activation_loop (lf_turns lf) of
              None \<Rightarrow> ((ShellWaits, []), s2)
            | Some GiveUp \<Rightarrow> ((ShellReturned, []), s2)
            | Some GoOn \<Rightarrow> (serve_shell m p lf, s2))
         else (case connect m p s1 of
              (Inl e, s2) \<Rightarrow> ((ShellRaised [e], []), s2)
            | (Inr _, s2) \<Rightarrow> (serve_shell m p lf, s2)))"


section \<open>Signals, menu and process\<close>

text \<open>The references of the menu callbacks: what \<open>_arun\<close> has stored, the window, the dialogs asked for.\<close>

record menu_refs =
  mr_bus :: bool
  mr_activation :: bool
  mr_stop :: "bool option"
  mr_window :: "nat option"
  mr_windows_built :: nat
  mr_shown :: nat
  mr_dialogs :: nat

definition menu_open_diagnostic :: "menu_refs \<Rightarrow> menu_refs" where
  "menu_open_diagnostic r = (if \<not> mr_bus r then r
     else let r1 = (case mr_window r of
              None \<Rightarrow> r\<lparr>mr_window := Some (mr_windows_built r), mr_windows_built := mr_windows_built r + 1\<rparr>
            | Some _ \<Rightarrow> r)
       in r1\<lparr>mr_shown := mr_shown r1 + 1\<rparr>)"

definition menu_reactivate :: "menu_refs \<Rightarrow> menu_refs" where
  "menu_reactivate r = (if mr_activation r then r\<lparr>mr_dialogs := mr_dialogs r + 1\<rparr> else r)"

definition menu_quit :: "menu_refs \<Rightarrow> menu_refs" where
  "menu_quit r = (case mr_stop r of None \<Rightarrow> r | Some _ \<Rightarrow> r\<lparr>mr_stop := Some True\<rparr>)"

text \<open>\<open>run\<close>: the steps of the process around \<open>_arun\<close>; \<open>icon\<close> is what starting the tray raises.\<close>

datatype process_step = BuildLoop | AddLogHandler | InstallSignals | TrayStarted | TrayStopped | QtQuit | DropLogHandler

definition windows_run :: "pyexn option \<Rightarrow> shell_end \<Rightarrow> process_step list" where
  "windows_run icon ended = [BuildLoop, AddLogHandler, InstallSignals] @
     (case icon of Some _ \<Rightarrow> [] | None \<Rightarrow> [TrayStarted] @
        (case ended of ShellWaits \<Rightarrow> [] | _ \<Rightarrow> [TrayStopped, QtQuit, DropLogHandler]))"


section \<open>The tray icon\<close>

definition dash :: string where "dash = map char_of [226, 128, 148 :: nat]"

definition cloud_label :: string where
  "cloud_label = map char_of [228, 186, 145, 231, 171, 175 :: nat]"

definition link_value :: "cloud_link \<Rightarrow> string" where
  "link_value l = (case l of CONNECTED_LINK \<Rightarrow> ''connected'' | DISCONNECTED \<Rightarrow> ''disconnected''
     | AWAITING_ACTIVATION \<Rightarrow> ''awaiting_activation'' | AUTH_REJECTED \<Rightarrow> ''auth_rejected'')"

definition modem_value :: "modem_state \<Rightarrow> string" where
  "modem_value s = (case s of MODEM_IDLE \<Rightarrow> ''idle'' | MODEM_BUSY \<Rightarrow> ''busy'' | MODEM_ERROR \<Rightarrow> ''error'' | MODEM_OFFLINE \<Rightarrow> ''offline'')"

definition tooltip_for :: "edge_status \<Rightarrow> string" where
  "tooltip_for s = ''iSales '' @ dash @ '' '' @ cloud_label @ '': '' @ link_value (es_link s) @ '' '' @ dash @ '' modem: ''
     @ nat_str (length (filter (\<lambda>m. ms_state m = MODEM_IDLE) (es_modems s))) @ ''/'' @ nat_str (length (es_modems s)) @ '' idle''"

record icon =
  ic_colour :: tray_colour
  ic_title :: string

record tray =
  ty_icon :: "icon option"
  ty_cache :: "tray_colour option"
  ty_subscribed :: bool
  ty_thread :: bool
  ty_stops :: nat

definition tray_init :: tray where
  "tray_init = \<lparr>ty_icon = None, ty_cache = None, ty_subscribed = False, ty_thread = False, ty_stops = 0\<rparr>"

definition tray_start :: "edge_status \<Rightarrow> tray \<Rightarrow> tray" where
  "tray_start initial t = t\<lparr>ty_icon := Some \<lparr>ic_colour = tray_color initial, ic_title = tooltip_for initial\<rparr>,
     ty_cache := Some (tray_color initial), ty_subscribed := True, ty_thread := True\<rparr>"

definition tray_stop :: "tray \<Rightarrow> tray" where
  "tray_stop t = t\<lparr>ty_subscribed := False, ty_stops := ty_stops t + (if ty_icon t = None then 0 else 1),
     ty_icon := None, ty_thread := False\<rparr>"

text \<open>\<open>_on_status\<close>: whether swapping the image and setting the title raise.\<close>

definition on_status :: "bool \<Rightarrow> bool \<Rightarrow> edge_status \<Rightarrow> tray \<Rightarrow> tray" where
  "on_status swap_fails title_fails s t = (case ty_icon t of
       None \<Rightarrow> t
     | Some i \<Rightarrow>
         let colour = tray_color s;
             t1 = (if Some colour \<noteq> ty_cache t
               then t\<lparr>ty_icon := Some (if swap_fails then i else i\<lparr>ic_colour := colour\<rparr>), ty_cache := Some colour\<rparr> else t);
             i1 = the (ty_icon t1)
         in if title_fails then t1 else t1\<lparr>ty_icon := Some (i1\<lparr>ic_title := tooltip_for s\<rparr>)\<rparr>)"

definition default_log_dir :: "(string \<rightharpoonup> string) \<Rightarrow> string \<Rightarrow> string" where
  "default_log_dir env home = (if env_or ''APPDATA'' [] env \<noteq> [] then env_or ''APPDATA'' [] env @ ''/isales/logs''
     else home @ ''/.local/share/isales/logs'')"

text \<open>\<open>AsyncMenuBridge._post\<close>: a callback is queued on the loop, or called at once when the loop is closed; what it
  raises then is logged. The result says what was queued and what was called.\<close>

definition post :: "bool \<Rightarrow> 'f option \<Rightarrow> 'f list \<times> 'f list \<Rightarrow> 'f list \<times> 'f list" where
  "post loop_closed f q = (case f of None \<Rightarrow> q
     | Some g \<Rightarrow> if loop_closed then (fst q, snd q @ [g]) else (fst q @ [g], snd q))"


section \<open>The diagnostic window\<close>

definition RECENT_LOG_LINES_MAX :: nat where "RECENT_LOG_LINES_MAX = 10"

record diagnostic_view =
  dv_cloud :: string
  dv_modems :: "string list"
  dv_logs :: "string list"
  dv_error :: string

definition connection_label :: string where
  "connection_label = cloud_label @ map char_of [232, 191, 158, 230, 142, 165 :: nat]"

definition no_modem_text :: string where
  "no_modem_text = ''('' @ map char_of [229, 176, 154, 230, 156, 170, 229, 143, 145, 231, 142, 176 :: nat] @ '' modem)''"

definition diagnostic_render :: "edge_status \<Rightarrow> diagnostic_view" where
  "diagnostic_render s = \<lparr>dv_cloud = connection_label @ '': '' @ link_value (es_link s),
     dv_modems = (if es_modems s = [] then [no_modem_text]
       else map (\<lambda>m. ms_node m @ ''  '' @ dash @ ''  '' @ modem_value (ms_state m)) (es_modems s)),
     dv_logs = drop (length (es_logs s) - RECENT_LOG_LINES_MAX) (es_logs s),
     dv_error = (case es_error s of None \<Rightarrow> [] | Some e \<Rightarrow> e)\<rparr>"


section \<open>When the shell ends\<close>

lemma acquires_best_effort [acquires_rules]: "\<not> is_release c \<Longrightarrow> acquires (best_effort m c)"
  by (auto simp: acquires_def best_effort_def call_def suppress_def catchm_def ret_def raise_def Let_def split: option.splits if_splits)

lemma acquires_shell_buffer [acquires_rules]: "acquires (build_shell_buffer m)"
  unfolding build_shell_buffer_def Let_def by (auto simp: is_release_def intro!: acquires_rules split: option.splits)

lemma acquires_shell_backends [acquires_rules]: "acquires (shell_backends m path)"
  unfolding shell_backends_def by (auto intro!: acquires_rules split: backend_class.splits)

lemma acquires_setup_windows: "acquires (setup_windows m)"
  unfolding setup_windows_def Let_def
  by (auto simp: is_release_def intro!: acquires_rules split: prod.splits)

definition harmless :: "pyexn option \<Rightarrow> bool" where
  "harmless r \<longleftrightarrow> r = None \<or> r = Some Cancelled"

lemma task_errors_simps [simp]:
  "task_errors [] = []" "task_errors (ts @ us) = task_errors ts @ task_errors us"
  "task_errors (task_of r # ts) = (if harmless r then task_errors ts else the r # task_errors ts)"
  "task_errors (endless r # ts) = (if harmless r then task_errors ts else the r # task_errors ts)"
  "task_errors (wait_stop b # ts) = task_errors ts" "task_errors (TaskRunning # ts) = task_errors ts"
  "task_errors (TaskDone # ts) = task_errors ts"
  by (auto simp: task_errors_def task_of_def endless_def wait_stop_def harmless_def split: option.splits)

lemma serve_shell_waits:
  assumes "task_group (shell_tasks m p lf) (lf_cancelled lf) = GroupWaits"
  shows "serve_shell m p lf = (ShellWaits, [])"
  using assms by (simp add: serve_shell_def)

text \<open>The cases in which the group ends: the orchestrator, the watcher or the heartbeat raises, or it is cancelled from
  outside. A watcher that is still running keeps it alive against everything else.\<close>

lemma group_waits_iff:
  assumes "lf_watcher lf = None"
  shows "task_group (shell_tasks m p lf) (lf_cancelled lf) = GroupWaits \<longleftrightarrow>
    \<not> lf_cancelled lf \<and> harmless (mc_out m StartOrchestrator) \<and> (pt_device p \<noteq> None \<longrightarrow> harmless (lf_heartbeat lf))"
  using assms by (auto simp: task_group_def shell_tasks_def harmless_def [of None] endless_def [of None] split: option.splits)

lemma serve_shell_stop:
  assumes "lf_watcher lf = None"
  shows "serve_shell m p (lf\<lparr>lf_stop := b\<rparr>) = serve_shell m p lf"
proof -
  have "task_group (shell_tasks m p (lf\<lparr>lf_stop := b\<rparr>)) (lf_cancelled lf) = task_group (shell_tasks m p lf) (lf_cancelled lf)"
    using assms by (auto simp: task_group_def shell_tasks_def endless_def [of None] split: option.splits)
  then show ?thesis by (simp add: serve_shell_def)
qed

text \<open>C35. Setting the stop event has no effect on the Windows shell: while the watcher runs, its run is the same whether
  the event is set or not, and as long as no task raises and it is not cancelled from outside the shell goes on
  waiting and cleans nothing up.\<close>

theorem stop_request_not_heard:
  assumes "lf_watcher lf = None"
  shows "arun_windows m (lf\<lparr>lf_stop := b\<rparr>) s = arun_windows m lf s
    \<and> (setup_windows m (fst s) = (Inr p, d) \<and> pt_token p \<noteq> [] \<and> mc_out m (StartGrpc (pt_endpoint p) (pt_token p)) \<noteq> Some Cancelled
        \<and> \<not> lf_cancelled lf \<and> harmless (mc_out m StartOrchestrator) \<and> harmless (lf_heartbeat lf)
      \<longrightarrow> fst (arun_windows m lf s) = (ShellWaits, []))"
proof (intro conjI impI)
  have turns: "lf_turns (lf\<lparr>lf_stop := b\<rparr>) = lf_turns lf" by simp
  show "arun_windows m (lf\<lparr>lf_stop := b\<rparr>) s = arun_windows m lf s"
    unfolding arun_windows_def serve_shell_stop [OF assms] turns by (rule refl)
next
  assume asm: "setup_windows m (fst s) = (Inr p, d) \<and> pt_token p \<noteq> [] \<and> mc_out m (StartGrpc (pt_endpoint p) (pt_token p)) \<noteq> Some Cancelled
        \<and> \<not> lf_cancelled lf \<and> harmless (mc_out m StartOrchestrator) \<and> harmless (lf_heartbeat lf)"
  then have "serve_shell m p lf = (ShellWaits, [])"
    by (intro serve_shell_waits) (use group_waits_iff [OF assms, of m p] in blast)
  moreover have "\<exists>t. connect m p (d, snd s) = (Inr (), t)"
    using asm by (auto simp: connect_def catchm_def seqm_def bindm_def on_daemon_def publish_link_def call_def ret_def raise_def modify_def
        is_exception_def Let_def split: option.splits)
  ultimately show "fst (arun_windows m lf s) = (ShellWaits, [])"
    using asm by (auto simp: arun_windows_def on_daemon_def)
qed

definition shell_machine :: machine where
  "shell_machine = windows_machine []"

definition quiet_life :: "bool \<Rightarrow> life" where
  "quiet_life stop = \<lparr>lf_turns = [], lf_stop = stop, lf_cancelled = False, lf_watcher = None, lf_heartbeat = None\<rparr>"

lemma windows_shell_setup:
  "\<exists>p. setup_windows shell_machine daemon_init = (Inr p, \<lparr>dm_calls = [OpenAt ''COM9'' [], DisablePcm, SetPcmFrame ''AT+CPCMFRM=0'', OpenBuffer ''b.db''],
      dm_ports = [PortOpened 3], dm_heartbeat = None\<rparr>) \<and> pt_token p = ''tok'' \<and> pt_buffer p = Some ''b.db''"
proof -
  note disc = windows_values(1) and dev = windows_values(2) and kept = windows_values(3)
  have env: "env_or ''ISALES_EDGE_DEVICE_TOKEN'' [] windows_env = ''tok''" "env_or ''ISALES_EDGE_RECORDINGS_DIR'' [] windows_env = []"
    "env_or ''ISALES_EDGE_EVENT_BUFFER_PATH'' [] windows_env = ''b.db''" "event_buffer_path windows_env = Some ''b.db''"
    "env_or ''ISALES_MODEM_DRIVER'' [] windows_env = []" "env_or ''ISALES_RTC_APP_ID'' [] windows_env = ''app''"
    by code_simp+
  show ?thesis
    by (simp add: setup_windows_def discover_def shell_machine_def windows_machine_def disc dev kept env lift_def method_defs
        open_client_def call_def best_effort_def shell_backends_def get_capture_class_def get_playback_class_def serial_pair_def
        open_port_def adopt_serial_from_def holder_init_def build_shell_buffer_def build_recorder_def session_factory_def
        get_default_rtc_session_factory_def daemon_init_def Let_def)
qed

lemma stop_request_not_heard_witness:
  "fst (arun_windows shell_machine (quiet_life True) (daemon_init, bus_init None)) = (ShellWaits, [])"
proof -
  obtain p d where "setup_windows shell_machine daemon_init = (Inr p, d)" "pt_token p = ''tok''"
    using windows_shell_setup by blast
  then show ?thesis
    using stop_request_not_heard [of "quiet_life True" shell_machine True "(daemon_init, bus_init None)" p d]
    by (simp add: quiet_life_def shell_machine_def windows_machine_def harmless_def)
qed

text \<open>A shell whose activation dialog is cancelled returns at once, with all it has opened still open.\<close>

lemma cancelled_activation_releases_nothing:
  assumes "setup_windows m d0 = (Inr p, d)" and "pt_token p = []" and "activation_loop (lf_turns lf) = Some GiveUp"
  shows "fst (arun_windows m lf (d0, b)) = (ShellReturned, []) \<and> fst (snd (arun_windows m lf (d0, b))) = d"
  using assms by (simp add: arun_windows_def on_daemon_def publish_link_def modify_def Let_def)

text \<open>A task that raises takes the shell down, after the cleanup: the exception is not kept from the tray.\<close>

lemma failing_task_ends_shell:
  assumes "mc_out m StartOrchestrator = Some e" and "is_exception e"
    and "\<And>x. mc_out m x = Some Cancelled \<Longrightarrow> False" and "mc_out m CloseBuffer = None"
  shows "\<exists>es. serve_shell m p lf = (ShellRaised (e # es),
    [''orchestrator.stop'', ''grpc_client.stop''] @ (if pt_buffer p = None then [] else [''event_buffer.close'']) @ [''at_client.aclose''])"
proof -
  have "harmless (mc_out m StartOrchestrator) = False" using assms by (auto simp: harmless_def is_exception_def)
  then obtain es where g: "task_group (shell_tasks m p lf) (lf_cancelled lf) = GroupFailed (e # es)"
    using assms(1) by (auto simp: task_group_def shell_tasks_def)
  have safe: "safe_step n (mc_out m x) l = (Inr (), l @ [n])" for n x l
    using assms(3) [of x] by (auto simp: safe_step_def suppress_def catchm_def is_exception_def ret_def raise_def split: option.splits)
  have "graceful_cleanup (mc_out m StopOrchestrator) (mc_out m StopGrpc) (map_option (\<lambda>_. mc_out m CloseBuffer) (pt_buffer p))
      (Some (mc_out m CloseAt)) [] = (Inr (), [''orchestrator.stop'', ''grpc_client.stop'']
        @ (if pt_buffer p = None then [] else [''event_buffer.close'']) @ [''at_client.aclose''])"
    using assms(4) by (auto simp: graceful_cleanup_def safe seqm_def bindm_def ret_def split: option.splits)
  with g show ?thesis by (simp add: serve_shell_def)
qed


section \<open>What the tray shows\<close>

lemma on_status_cache:
  assumes "ty_icon t = Some i" and "ty_cache t = Some (ic_colour i)"
  shows "\<exists>j. ty_icon (on_status False f s t) = Some j \<and> ic_colour j = tray_color s \<and> ty_cache (on_status False f s t) = Some (tray_color s)
    \<and> (\<not> f \<longrightarrow> ic_title j = tooltip_for s)"
  using assms by (auto simp: on_status_def Let_def)

text \<open>As long as the images can be swapped, the icon shows the colour of the last status; one failed swap and it keeps the
  wrong colour for as long as the statuses that follow have the colour it should have shown.\<close>

lemma tray_follows_bus:
  "\<exists>j. ty_icon (fold (on_status False f) ss (tray_start s0 t)) = Some j \<and> ic_colour j = tray_color (last (s0 # ss))"
proof -
  have "ty_icon u = Some i \<Longrightarrow> ty_cache u = Some (ic_colour i) \<Longrightarrow> ic_colour i = tray_color s \<Longrightarrow>
      \<exists>j. ty_icon (fold (on_status False f) ss u) = Some j \<and> ic_colour j = tray_color (last (s # ss))" for u i s
  proof (induction ss arbitrary: u i s)
    case (Cons x ss)
    from on_status_cache [OF Cons.prems(1,2), of f x] obtain j where
      j: "ty_icon (on_status False f x u) = Some j" "ic_colour j = tray_color x" "ty_cache (on_status False f x u) = Some (tray_color x)"
      by blast
    then have "ty_cache (on_status False f x u) = Some (ic_colour j)" by simp
    from Cons.IH [OF j(1) this j(2)] show ?case by simp
  qed simp
  from this [of "tray_start s0 t" "\<lparr>ic_colour = tray_color s0, ic_title = tooltip_for s0\<rparr>" s0] show ?thesis
    by (simp add: tray_start_def)
qed

lemma failed_swap_sticks:
  assumes "ty_icon t = Some i" and "ty_cache t = Some (ic_colour i)" and "tray_color s \<noteq> ic_colour i"
    and "\<forall>x \<in> set ss. tray_color x = tray_color s"
  shows "map_option ic_colour (ty_icon (fold (on_status False False) ss (on_status True False s t))) = Some (ic_colour i)"
proof -
  have keep: "ty_icon (fold (on_status False False) ss u) \<noteq> None
      \<and> map_option ic_colour (ty_icon (fold (on_status False False) ss u)) = map_option ic_colour (ty_icon u)"
    if "ty_cache u = Some (tray_color s)" "ty_icon u \<noteq> None" for u
    using that assms(4)
  proof (induction ss arbitrary: u)
    case (Cons x ss)
    have "ty_cache (on_status False False x u) = Some (tray_color s)" "ty_icon (on_status False False x u) \<noteq> None"
      "map_option ic_colour (ty_icon (on_status False False x u)) = map_option ic_colour (ty_icon u)"
      using Cons.prems by (auto simp: on_status_def Let_def)
    with Cons.IH [of "on_status False False x u"] Cons.prems(3) show ?case by simp
  qed simp
  have "ty_cache (on_status True False s t) = Some (tray_color s)" "ty_icon (on_status True False s t) \<noteq> None"
    "map_option ic_colour (ty_icon (on_status True False s t)) = Some (ic_colour i)"
    using assms(1-3) by (auto simp: on_status_def Let_def)
  with keep [of "on_status True False s t"] show ?thesis by simp
qed

text \<open>Everything the shell publishes: the watcher, the restarter inside the dialog, the first connection, the log lines.\<close>

datatype publication =
    PubWatch bool "cloud_link option"
  | PubDialog env_faults "pyexn option" "pyexn option" string "(string \<times> string) option"
  | PubLink cloud_link
  | PubLog nat string

definition publish_step :: "publication \<Rightarrow> shell \<Rightarrow> shell" where
  "publish_step x sh = (case x of
       PubWatch up prev \<Rightarrow> sh\<lparr>sh_bus := snd (watch_tick up (prev, sh_bus sh))\<rparr>
     | PubDialog fl stop_res start_res fallback entered \<Rightarrow> snd (run_dialog fl (\<lambda>_ _. restart stop_res start_res) fallback entered sh)
     | PubLink l \<Rightarrow> sh\<lparr>sh_bus := bus_update (set_link l) (sh_bus sh)\<rparr>
     | PubLog capacity line \<Rightarrow> sh\<lparr>sh_bus := log_emit capacity line (sh_bus sh)\<rparr>)"

definition modems_shown :: "shell \<Rightarrow> modem_summary list" where
  "modems_shown sh = es_modems (bs_status (sh_bus sh))"

lemma restart_modems: "es_modems (bs_status (snd (restart a c b))) = es_modems (bs_status b)"
  by (auto simp: restart_def raise_def ret_def set_link_def split: option.splits)

lemma submission_modems:
  "modems_shown (snd (process_submission fl (\<lambda>_ _. restart a c) fallback token endpoint sh)) = modems_shown sh"
  using restart_modems [of a c]
  by (auto simp: process_submission_def modems_shown_def tell_def set_error_def set_link_def raise_def ret_def Let_def
      split: sum.splits prod.splits if_splits dest!: arg_cong [where f = "\<lambda>x. es_modems (bs_status (snd x))"])

lemma publish_step_modems: "modems_shown (publish_step x sh) = modems_shown sh"
proof (cases x)
  case (PubDialog fl a c fallback entered)
  then show ?thesis
    using submission_modems [of fl a c fallback]
    by (auto simp: publish_step_def run_dialog_def bindm_def seqm_def modify_def ret_def modems_shown_def set_error_def tell_def
        split: option.splits prod.splits sum.splits) (metis snd_conv)+
qed (auto simp: publish_step_def modems_shown_def watch_tick_def log_emit_def set_link_def Let_def)

text \<open>The icon of the shell is never green: nothing in the program puts a modem on the status bus, so whatever is
  published, connected or not, the colour of the status is red.\<close>

theorem icon_never_green:
  "tray_color (bs_status (sh_bus (fold publish_step xs \<lparr>sh_bus = bus_init None, sh_files = fs\<rparr>))) = RED"
proof -
  have "modems_shown (fold publish_step xs sh) = modems_shown sh" for sh
    by (induction xs arbitrary: sh) (simp_all add: publish_step_modems)
  then have "modems_shown (fold publish_step xs \<lparr>sh_bus = bus_init None, sh_files = fs\<rparr>) = []"
    by (simp add: modems_shown_def bus_init_def default_status_def)
  then show ?thesis by (simp add: modems_shown_def tray_color_def)
qed

end
