(* ===== verification/Capture_Recover.thy ===== *)
theory Capture_Recover imports Usb_Watch Audio_Backends begin

text \<open>
  The recovery ladder for a modem whose capture has gone silent (\<open>scripts/modem_capture_recover.py\<close>): finding
  the ports, measuring the amplitude of the uplink, setting up and taking down the call, the six resets from
  the cheapest to the replug, and the climb that stops at the first one that helps. What the modem, the
  operator and the operating system do is an input; a log names every action that is asked of them.
\<close>

section \<open>Ports\<close>

record modem_ports =
  mp_at :: string
  mp_audio :: string
  mp_serial :: "string option"

definition descriptor_hex :: "nat option \<Rightarrow> string option" where
  "descriptor_hex v = (if v = Some 0 then None else vid_pid_hex v)"

text \<open>The loop of \<open>discover_ports\<close> keeps the last AT port, the last audio port and the last serial number.\<close>

fun scan_modem :: "string \<Rightarrow> string \<Rightarrow> string option \<times> string option \<times> string option \<Rightarrow> port_info list
    \<Rightarrow> string option \<times> string option \<times> string option" where
  "scan_modem vid pid acc [] = acc"
| "scan_modem vid pid (found, audio, serial) (p # ps) =
     (if descriptor_hex (pi_vid p) \<noteq> Some vid \<or> descriptor_hex (pi_pid p) \<noteq> Some pid
      then scan_modem vid pid (found, audio, serial) ps
      else let desc = (case pi_description p of None \<Rightarrow> [] | Some d \<Rightarrow> d)
        in if contains_str ''AT PORT'' desc then scan_modem vid pid (Some (pi_device p), audio, pi_serial p) ps
           else if contains_str ''Audio'' desc then scan_modem vid pid (found, Some (pi_device p), pi_serial p) ps
           else scan_modem vid pid (found, audio, pi_serial p) ps)"

definition nonempty :: "string option \<Rightarrow> string option" where
  "nonempty s = (if s = Some [] then None else s)"

definition discover_ports :: "string \<Rightarrow> string \<Rightarrow> port_info list \<Rightarrow> modem_ports option" where
  "discover_ports vid pid ps = (case scan_modem vid pid (None, None, None) ps of (found, audio, serial) \<Rightarrow>
     (case (nonempty found, nonempty audio) of
        (Some a, Some b) \<Rightarrow> Some \<lparr>mp_at = a, mp_audio = b, mp_serial = serial\<rparr>
      | _ \<Rightarrow> None))"

text \<open>The polls of \<open>wait_for_reenumeration\<close> before its deadline.\<close>

fun wait_for_reenumeration :: "string \<Rightarrow> string \<Rightarrow> port_info list list \<Rightarrow> modem_ports option" where
  "wait_for_reenumeration vid pid [] = None"
| "wait_for_reenumeration vid pid (scan # scans) = (case discover_ports vid pid scan of
       Some p \<Rightarrow> Some p | None \<Rightarrow> wait_for_reenumeration vid pid scans)"


section \<open>Measuring\<close>

definition PASS_AMP_THRESHOLD :: nat where "PASS_AMP_THRESHOLD = 1000"

definition amplitudes :: "bytes \<Rightarrow> int list" where
  "amplitudes buf = (case samples (take (length buf - length buf mod 2) buf) of None \<Rightarrow> [] | Some ss \<Rightarrow> map sint ss)"

definition amp_stats :: "bytes \<Rightarrow> nat \<times> nat \<times> nat" where
  "amp_stats buf = (let ss = amplitudes buf in
     (foldl (\<lambda>peak s. max peak (nat \<bar>s\<bar>)) 0 ss, foldl (\<lambda>acc s. acc + nat (s * s)) 0 ss, length ss))"

record meter =
  mt_sec_end :: int
  mt_sec_peak :: nat
  mt_max :: nat
  mt_sumsq :: nat
  mt_count :: nat
  mt_seconds :: "nat list"

record probe_result =
  pr_passed :: bool
  pr_max :: nat
  pr_rms :: rat
  pr_samples :: nat
  pr_seconds :: "nat list"
  pr_note :: string

text \<open>One turn of the loop: what the read gave, and the clock in milliseconds after it. At most one second is closed
  in a turn, however long the read took.\<close>

definition meter_turn :: "bytes \<times> int \<Rightarrow> meter \<Rightarrow> meter" where
  "meter_turn x m = (case x of (buf, now) \<Rightarrow>
     let m1 = (if buf = [] then m else (case amp_stats buf of (peak, sq, n) \<Rightarrow>
           m\<lparr>mt_max := max (mt_max m) peak, mt_sec_peak := max (mt_sec_peak m) peak, mt_sumsq := mt_sumsq m + sq,
             mt_count := mt_count m + n\<rparr>))
     in if mt_sec_end m1 \<le> now
        then m1\<lparr>mt_seconds := mt_seconds m1 @ [mt_sec_peak m1], mt_sec_peak := 0, mt_sec_end := mt_sec_end m1 + 1000\<rparr>
        else m1)"

definition wedged_note :: "nat \<Rightarrow> string" where
  "wedged_note peak = ''uplink peak '' @ nat_str peak @ '' < '' @ nat_str PASS_AMP_THRESHOLD @ '' ''
     @ map char_of [226, 128, 148 :: nat] @ '' capture wedged or far end silent''"

text \<open>The turns that start before the end of the window; a read that raises ends the measurement. \<open>fsqrt\<close> is the
  square fsqrt in floating point, rounded to one digit.\<close>

fun meter_run :: "((pyexn + bytes) \<times> int) list \<Rightarrow> meter \<Rightarrow> pyexn + meter" where
  "meter_run [] m = Inr m"
| "meter_run ((Inl e, now) # turns) m = Inl e"
| "meter_run ((Inr buf, now) # turns) m = meter_run turns (meter_turn (buf, now) m)"

definition measure_capture :: "(rat \<Rightarrow> rat) \<Rightarrow> int \<Rightarrow> ((pyexn + bytes) \<times> int) list \<Rightarrow> pyexn + probe_result" where
  "measure_capture fsqrt start turns =
     (case meter_run turns \<lparr>mt_sec_end = start + 1000, mt_sec_peak = 0, mt_max = 0, mt_sumsq = 0, mt_count = 0, mt_seconds = []\<rparr> of
        Inl e \<Rightarrow> Inl e
      | Inr m \<Rightarrow>
          let passed = PASS_AMP_THRESHOLD \<le> mt_max m
          in Inr \<lparr>pr_passed = passed, pr_max = mt_max m,
               pr_rms = (if mt_count m = 0 then 0 else fsqrt (of_nat (mt_sumsq m) / of_nat (mt_count m))),
               pr_samples = mt_count m,
               pr_seconds = (if mt_sec_peak m = 0 then mt_seconds m else mt_seconds m @ [mt_sec_peak m]),
               pr_note = (if passed then ''uplink carries audio'' else wedged_note (mt_max m))\<rparr>)"


section \<open>The call\<close>

datatype act =
    RungStarted nat
  | OpenedAt string
  | AtClosed
  | Dialled string
  | TaskStarted
  | TaskCancelled
  | PcmOn
  | PcmOff
  | CaptureOpened string
  | CaptureClosed
  | HungUp
  | SentAt string
  | RanCommand "string list"
  | Prompted nat

text \<open>How one call goes: opening the AT port, dialling, whether it is answered in time, enabling the PCM stream,
  opening the audio port, the reads, whether the far end hangs up before the end.\<close>

record trial =
  tl_open :: "pyexn option"
  tl_dial :: "pyexn option"
  tl_answered :: bool
  tl_pcm :: "pyexn option"
  tl_capture :: "pyexn option"
  tl_turns :: "((pyexn + bytes) \<times> int) list"
  tl_hung :: bool

definition step :: "act list \<Rightarrow> pyexn option \<Rightarrow> (act list, unit) proc" where
  "step cs res l = (case res of None \<Rightarrow> ret () (l @ cs) | Some e \<Rightarrow> raise e l)"

definition attempt_act :: "act \<Rightarrow> pyexn option \<Rightarrow> (act list, unit) proc" where
  "attempt_act c res l = (case res of None \<Rightarrow> ret () (l @ [c]) | Some e \<Rightarrow> raise e (l @ [c]))"

definition establish_call :: "trial \<Rightarrow> modem_ports \<Rightarrow> string \<Rightarrow> (act list, unit) proc" where
  "establish_call tr ports number =
     seqm (step [OpenedAt (mp_at ports)] (tl_open tr))
    (seqm (attempt_act (Dialled number) (tl_dial tr))
    (seqm (modify (\<lambda>l. l @ [TaskStarted]))
    (seqm (if tl_answered tr then ret ()
           else seqm (modify (\<lambda>l. l @ [TaskCancelled, AtClosed])) (raise (RuntimeError ''call never reached connected'')))
    (seqm (attempt_act PcmOn (tl_pcm tr))
          (step [CaptureOpened (mp_audio ports)] (tl_capture tr))))))"

definition teardown_acts :: "trial \<Rightarrow> act list" where
  "teardown_acts tr = [CaptureClosed, PcmOff] @ (if tl_hung tr then [] else [HungUp]) @ [TaskCancelled, AtClosed]"

definition teardown_call :: "trial \<Rightarrow> (act list, unit) proc" where
  "teardown_call tr = modify (\<lambda>l. l @ teardown_acts tr)"

definition lift_reading :: "pyexn + 'a \<Rightarrow> (act list, 'a) proc" where
  "lift_reading r = (case r of Inl e \<Rightarrow> raise e | Inr x \<Rightarrow> ret x)"

definition run_probe :: "(rat \<Rightarrow> rat) \<Rightarrow> int \<Rightarrow> trial \<Rightarrow> modem_ports \<Rightarrow> string \<Rightarrow> (act list, probe_result) proc" where
  "run_probe fsqrt start tr ports number = seqm (establish_call tr ports number)
     (finallym (lift_reading (measure_capture fsqrt start (tl_turns tr))) (teardown_call tr))"


section \<open>The resets\<close>

text \<open>The bus identifier among the parts of the resolved path of the port's device.\<close>

definition bus_id_part :: "string \<Rightarrow> bool" where
  "bus_id_part part \<longleftrightarrow> CHR ''-'' \<in> set part \<and> CHR '':'' \<notin> set part \<and> is_digit (hd part)"

definition busid_of_path :: "string \<Rightarrow> string option" where
  "busid_of_path path = find bus_id_part (split_on (CHR ''/'') path)"

fun linux_busid_for_port :: "string list \<Rightarrow> string option" where
  "linux_busid_for_port [] = None"
| "linux_busid_for_port (path # paths) = (case busid_of_path path of Some b \<Rightarrow> Some b | None \<Rightarrow> linux_busid_for_port paths)"

text \<open>The lines of \<open>pnputil /enum-devices\<close>, or \<open>None\<close> when the command fails.\<close>

definition device_needle :: "string \<Rightarrow> string \<Rightarrow> string" where
  "device_needle vid pid = ''VID_'' @ upper vid @ ''&PID_'' @ upper pid"

definition windows_instance_id :: "string \<Rightarrow> string \<Rightarrow> string list option \<Rightarrow> pyexn + string option" where
  "windows_instance_id vid pid out = (case out of
       None \<Rightarrow> Inr None
     | Some lines \<Rightarrow> (case find (\<lambda>l. contains_str ''Instance ID'' l \<and> contains_str (device_needle vid pid) (upper l)) lines of
           None \<Rightarrow> Inr None
         | Some l \<Rightarrow> (case split_once (CHR '':'') l of
               _ # v # _ \<Rightarrow> Inr (Some (strip v))
             | _ \<Rightarrow> Inl (OtherError ''IndexError''))))"

record reset_world =
  rw_open :: "pyexn option"
  rw_pcm_on :: "pyexn option"
  rw_cfun0 :: "pyexn option"
  rw_cfun1 :: "pyexn option"
  rw_creset :: "pyexn option"
  rw_system :: string
  rw_paths :: "string list"
  rw_devices :: "string list option"
  rw_scans :: "port_info list list"
  rw_trial :: trial

definition rung1_cpcmreg :: "reset_world \<Rightarrow> (act list, unit) proc" where
  "rung1_cpcmreg w = seqm (modify (\<lambda>l. l @ [PcmOff])) (attempt_act PcmOn (rw_pcm_on w))"

definition rung2_cfun :: "reset_world \<Rightarrow> modem_ports \<Rightarrow> (act list, unit) proc" where
  "rung2_cfun w ports = seqm (step [OpenedAt (mp_at ports)] (rw_open w))
     (finallym (seqm (attempt_act (SentAt ''AT+CFUN=0'') (rw_cfun0 w)) (attempt_act (SentAt ''AT+CFUN=1'') (rw_cfun1 w)))
        (modify (\<lambda>l. l @ [AtClosed])))"

definition rung3_creset :: "reset_world \<Rightarrow> modem_ports \<Rightarrow> (act list, unit) proc" where
  "rung3_creset w ports = seqm (step [OpenedAt (mp_at ports)] (rw_open w))
     (finallym (suppress (attempt_act (SentAt ''AT+CRESET'') (rw_creset w))) (modify (\<lambda>l. l @ [AtClosed])))"

definition linux_unbind_rebind :: "reset_world \<Rightarrow> (act list, unit) proc" where
  "linux_unbind_rebind w = (case linux_busid_for_port (rw_paths w) of
       None \<Rightarrow> modify (\<lambda>l. l @ [Prompted 4])
     | Some b \<Rightarrow> modify (\<lambda>l. l @ [RanCommand [''unbind'', b], RanCommand [''bind'', b]]))"

definition windows_restart_device :: "string \<Rightarrow> string \<Rightarrow> reset_world \<Rightarrow> (act list, unit) proc" where
  "windows_restart_device vid pid w = bindm (lift_reading (windows_instance_id vid pid (rw_devices w))) (\<lambda>i.
     case i of None \<Rightarrow> modify (\<lambda>l. l @ [Prompted 4])
       | Some instance_id \<Rightarrow> modify (\<lambda>l. l @ [RanCommand [''pnputil'', ''/restart-device'', instance_id]]))"

definition rung4_host_usb_reset :: "string \<Rightarrow> string \<Rightarrow> reset_world \<Rightarrow> (act list, unit) proc" where
  "rung4_host_usb_reset vid pid w = (if rw_system w = ''Linux'' then linux_unbind_rebind w
     else if rw_system w = ''Windows'' then windows_restart_device vid pid w
     else modify (\<lambda>l. l @ [Prompted 4]))"

definition rung5_replug :: "(act list, unit) proc" where
  "rung5_replug = modify (\<lambda>l. l @ [Prompted 5])"


section \<open>The ladder\<close>

record rung =
  rg_index :: nat
  rg_name :: string
  rg_in_call :: bool
  rg_reenumerate :: bool

definition rungs :: "rung list" where
  "rungs = [\<lparr>rg_index = 0, rg_name = ''baseline (no reset)'', rg_in_call = True, rg_reenumerate = False\<rparr>,
     \<lparr>rg_index = 1, rg_name = ''CPCMREG re-arm'', rg_in_call = True, rg_reenumerate = False\<rparr>,
     \<lparr>rg_index = 2, rg_name = ''CFUN=0'' @ map char_of [226, 134, 146 :: nat] @ ''1 baseband re-init'', rg_in_call = False, rg_reenumerate = False\<rparr>,
     \<lparr>rg_index = 3, rg_name = ''AT+CRESET module soft reset'', rg_in_call = False, rg_reenumerate = True\<rparr>,
     \<lparr>rg_index = 4, rg_name = ''host USB reset (unbind/rebind)'', rg_in_call = False, rg_reenumerate = True\<rparr>,
     \<lparr>rg_index = 5, rg_name = ''physical USB replug'', rg_in_call = False, rg_reenumerate = True\<rparr>]"

record run =
  rn_vid :: string
  rn_pid :: string
  rn_number :: string
  rn_start :: int
  rn_max_rung :: int
  rn_root :: "rat \<Rightarrow> rat"
  rn_world :: "nat \<Rightarrow> reset_world"

definition apply_in_call :: "run \<Rightarrow> nat \<Rightarrow> (act list, unit) proc" where
  "apply_in_call rn i = (if i = 1 then rung1_cpcmreg (rn_world rn 1) else ret ())"

definition apply_reset :: "run \<Rightarrow> nat \<Rightarrow> modem_ports \<Rightarrow> (act list, unit) proc" where
  "apply_reset rn i ports = (if i = 4 then rung4_host_usb_reset (rn_vid rn) (rn_pid rn) (rn_world rn 4)
     else if i = 2 then rung2_cfun (rn_world rn 2) ports
     else if i = 3 then rung3_creset (rn_world rn 3) ports
     else rung5_replug)"

text \<open>One rung: the ports for the next and what the measurement gave; \<open>None\<close> when the modem does not come back.\<close>

definition climb_rung :: "run \<Rightarrow> rung \<Rightarrow> modem_ports \<Rightarrow> (act list, (modem_ports \<times> probe_result) option) proc" where
  "climb_rung rn g ports =
     (let i = rg_index g; w = rn_world rn i; tr = rw_trial w in
      seqm (modify (\<lambda>l. l @ [RungStarted i]))
      (if rg_in_call g then
         seqm (establish_call tr ports (rn_number rn))
           (bindm (finallym (seqm (apply_in_call rn i) (lift_reading (measure_capture (rn_root rn) (rn_start rn) (tl_turns tr))))
              (teardown_call tr)) (\<lambda>r. ret (Some (ports, r))))
       else
         seqm (apply_reset rn i ports)
           (case (if rg_reenumerate g then wait_for_reenumeration (rn_vid rn) (rn_pid rn) (rw_scans w) else Some ports) of
              None \<Rightarrow> ret None
            | Some ports' \<Rightarrow> seqm (establish_call tr ports' (rn_number rn))
                (bindm (finallym (lift_reading (measure_capture (rn_root rn) (rn_start rn) (tl_turns tr))) (teardown_call tr))
                  (\<lambda>r. ret (Some (ports', r)))))))"

datatype ladder_end = LostModem | Climbed "rung option" "probe_result option"

fun climb :: "run \<Rightarrow> rung list \<Rightarrow> modem_ports \<Rightarrow> probe_result option \<Rightarrow> (act list, ladder_end) proc" where
  "climb rn [] ports final = ret (Climbed None final)"
| "climb rn (g # gs) ports final = (if rn_max_rung rn < int (rg_index g) then ret (Climbed None final)
     else bindm (climb_rung rn g ports) (\<lambda>x. case x of
         None \<Rightarrow> ret LostModem
       | Some (ports', r) \<Rightarrow> if pr_passed r then ret (Climbed (Some g) (Some r)) else climb rn gs ports' (Some r)))"

text \<open>The line \<open>_record_result\<close> appends, without its time stamp and host, and the verdict that is printed.\<close>

record ladder_record =
  lr_vid :: string
  lr_pid :: string
  lr_solved :: "(nat \<times> string) option"
  lr_max_rung :: int
  lr_final :: "probe_result option"

definition record_result :: "run \<Rightarrow> string option \<Rightarrow> bool \<Rightarrow> rung option \<Rightarrow> probe_result option \<Rightarrow> ladder_record list \<Rightarrow> ladder_record list" where
  "record_result rn results_file write_fails solved final file =
     (if nonempty results_file = None \<or> write_fails then file
      else file @ [\<lparr>lr_vid = rn_vid rn, lr_pid = rn_pid rn, lr_solved = map_option (\<lambda>g. (rg_index g, rg_name g)) solved,
        lr_max_rung = rn_max_rung rn, lr_final = final\<rparr>])"

datatype layer = HealthyAtBaseline | PcmGate | ModemFirmware | HostUsb

definition blamed :: "nat \<Rightarrow> layer" where
  "blamed i = (if 4 \<le> i then HostUsb else if i = 2 \<or> i = 3 then ModemFirmware else if i = 1 then PcmGate else HealthyAtBaseline)"

text \<open>\<open>run_ladder\<close>: the exit status, the verdict, the results file.\<close>

definition run_ladder :: "run \<Rightarrow> port_info list \<Rightarrow> string option \<Rightarrow> bool \<Rightarrow> ladder_record list
    \<Rightarrow> (act list, nat \<times> layer option \<times> ladder_record list) proc" where
  "run_ladder rn scan results_file write_fails file = (case discover_ports (rn_vid rn) (rn_pid rn) scan of
       None \<Rightarrow> ret (1, None, file)
     | Some ports \<Rightarrow> bindm (climb rn rungs ports None) (\<lambda>x. case x of
           LostModem \<Rightarrow> ret (2, None, file)
         | Climbed solved final \<Rightarrow>
             (let file' = record_result rn results_file write_fails solved final file in
              case solved of None \<Rightarrow> ret (3, None, file') | Some g \<Rightarrow> ret (0, Some (blamed (rg_index g)), file'))))"

definition probe_mode :: "run \<Rightarrow> port_info list \<Rightarrow> (act list, nat) proc" where
  "probe_mode rn scan = (case discover_ports (rn_vid rn) (rn_pid rn) scan of
       None \<Rightarrow> ret 1
     | Some ports \<Rightarrow> bindm (run_probe (rn_root rn) (rn_start rn) (rw_trial (rn_world rn 0)) ports (rn_number rn))
         (\<lambda>r. ret (if pr_passed r then 0 else 3)))"

text \<open>The exit status of the process.\<close>

definition exit_status :: "pyexn + nat \<Rightarrow> nat" where
  "exit_status r = (case r of Inr n \<Rightarrow> n
     | Inl (PcmEnableError _) \<Rightarrow> 4
     | Inl e \<Rightarrow> if e = OtherError ''KeyboardInterrupt'' then 130 else 1)"


section \<open>The measurement\<close>

definition heard :: "(bytes \<times> int) list \<Rightarrow> int list" where
  "heard xs = concat (map (\<lambda>x. amplitudes (fst x)) xs)"

definition peak_of :: "int list \<Rightarrow> nat" where
  "peak_of ss = foldl (\<lambda>peak s. max peak (nat \<bar>s\<bar>)) 0 ss"

definition power_of :: "int list \<Rightarrow> nat" where
  "power_of ss = foldl (\<lambda>acc s. acc + nat (s * s)) 0 ss"

definition highest :: "nat list \<Rightarrow> nat" where
  "highest ns = foldl max 0 ns"

lemma peak_append: "peak_of (ss @ ts) = max (peak_of ss) (peak_of ts)"
  using foldl_max [of "\<lambda>s. nat \<bar>s\<bar>" "peak_of ss" ts] by (simp add: peak_of_def)

lemma top_append: "highest (ms @ ns) = max (highest ms) (highest ns)"
  using foldl_max [of "\<lambda>n. n" "highest ms" ns] by (simp add: highest_def)

lemma top_single [simp]: "highest [n] = n" "highest [] = 0"
  by (simp_all add: highest_def)

lemma no_samples [simp]: "peak_of [] = 0" "power_of [] = 0" "amplitudes [] = []"
  by (simp_all add: peak_of_def power_of_def amplitudes_def)

lemma peak_ge: "n \<le> peak_of ss \<longleftrightarrow> n = 0 \<or> (\<exists>s \<in> set ss. int n \<le> \<bar>s\<bar>)"
proof (induction ss)
  case (Cons s ss)
  have "peak_of (s # ss) = max (nat \<bar>s\<bar>) (peak_of ss)"
    using peak_append [of "[s]" ss] by (simp add: peak_of_def)
  then show ?case using Cons by (auto simp: le_max_iff_disj nat_le_iff)
qed (simp add: peak_of_def)

lemma foldl_plus: "foldl (\<lambda>acc s. acc + f s) (a :: nat) ss = a + foldl (\<lambda>acc s. acc + f s) 0 ss"
proof (induction ss arbitrary: a)
  case (Cons s ss)
  from Cons.IH [of "a + f s"] Cons.IH [of "f s"] show ?case by simp
qed simp

lemma power_append: "power_of (ss @ ts) = power_of ss + power_of ts"
  using foldl_plus [of "\<lambda>s. nat (s * s)" "power_of ss" ts] by (simp add: power_of_def)

text \<open>The meter agrees with what was heard so far; the seconds closed and the open one have the same peak as the whole.\<close>

definition meter_ok :: "int list \<Rightarrow> meter \<Rightarrow> bool" where
  "meter_ok ss m \<longleftrightarrow> mt_max m = peak_of ss \<and> mt_count m = length ss \<and> mt_sumsq m = power_of ss
     \<and> max (highest (mt_seconds m)) (mt_sec_peak m) = mt_max m"

lemma meter_turn_ok:
  assumes "meter_ok ss m"
  shows "meter_ok (ss @ amplitudes (fst x)) (meter_turn x m)"
proof -
  obtain buf now where x: "x = (buf, now)" by (cases x)
  have "amplitudes [] = []" by (simp add: amplitudes_def)
  then show ?thesis using assms
    by (auto simp: x meter_ok_def meter_turn_def Let_def amp_stats_def peak_append power_append top_append peak_of_def [symmetric]
        power_of_def [symmetric] max.assoc max.commute max.left_commute)
qed

lemma meter_run_ok:
  "meter_ok ss m \<Longrightarrow> \<exists>m'. meter_run (map (\<lambda>x. (Inr (fst x), snd x)) xs) m = Inr m' \<and> meter_ok (ss @ heard xs) m'"
proof (induction xs arbitrary: ss m)
  case (Cons x xs)
  from Cons.IH [OF meter_turn_ok [OF Cons.prems, of x]] show ?case
    by (simp add: heard_def)
qed (simp add: heard_def)

text \<open>C37. A measurement in which every read succeeds counts each whole sample of each chunk once; its maximum is the
  largest amplitude heard, and also the largest of the peaks it lists by the second, so no second is lost; it
  passes exactly when some sample reached the threshold.\<close>

theorem measurement_exact:
  "\<exists>r. measure_capture fsqrt start (map (\<lambda>x. (Inr (fst x), snd x)) xs) = Inr r
     \<and> pr_samples r = length (heard xs) \<and> pr_max r = peak_of (heard xs) \<and> highest (pr_seconds r) = pr_max r
     \<and> (pr_passed r \<longleftrightarrow> (\<exists>s \<in> set (heard xs). int PASS_AMP_THRESHOLD \<le> \<bar>s\<bar>))"
proof -
  let ?m = "\<lparr>mt_sec_end = start + 1000, mt_sec_peak = 0, mt_max = 0, mt_sumsq = 0, mt_count = 0, mt_seconds = []\<rparr>"
  have "meter_ok [] ?m" by (simp add: meter_ok_def peak_of_def power_of_def)
  from meter_run_ok [OF this, of xs] obtain m where
    m: "meter_run (map (\<lambda>x. (Inr (fst x), snd x)) xs) ?m = Inr m" "meter_ok (heard xs) m" by auto
  have "PASS_AMP_THRESHOLD \<le> peak_of (heard xs) \<longleftrightarrow> (\<exists>s \<in> set (heard xs). int PASS_AMP_THRESHOLD \<le> \<bar>s\<bar>)"
    unfolding peak_ge by (simp add: PASS_AMP_THRESHOLD_def)
  then show ?thesis
    using m by (auto simp: measure_capture_def Let_def meter_ok_def top_append)
qed


section \<open>What a run holds\<close>

fun started :: "act list \<Rightarrow> nat list" where
  "started [] = []"
| "started (RungStarted i # l) = i # started l"
| "started (_ # l) = started l"

lemma started_append [simp]: "started (l @ l') = started l @ started l'"
  by (induction l rule: started.induct) auto

text \<open>AT clients, consumer tasks and audio ports that are open, by the log.\<close>

fun at_held :: "act list \<Rightarrow> int" where
  "at_held [] = 0"
| "at_held (OpenedAt _ # l) = 1 + at_held l"
| "at_held (AtClosed # l) = at_held l - 1"
| "at_held (_ # l) = at_held l"

fun tasks_held :: "act list \<Rightarrow> int" where
  "tasks_held [] = 0"
| "tasks_held (TaskStarted # l) = 1 + tasks_held l"
| "tasks_held (TaskCancelled # l) = tasks_held l - 1"
| "tasks_held (_ # l) = tasks_held l"

fun captures_held :: "act list \<Rightarrow> int" where
  "captures_held [] = 0"
| "captures_held (CaptureOpened _ # l) = 1 + captures_held l"
| "captures_held (CaptureClosed # l) = captures_held l - 1"
| "captures_held (_ # l) = captures_held l"

definition held :: "act list \<Rightarrow> int \<times> int \<times> int" where
  "held l = (at_held l, tasks_held l, captures_held l)"

lemma held_append [simp]:
  "at_held (l @ l') = at_held l + at_held l'" "tasks_held (l @ l') = tasks_held l + tasks_held l'"
  "captures_held (l @ l') = captures_held l + captures_held l'"
proof -
  show "at_held (l @ l') = at_held l + at_held l'" by (induction l rule: at_held.induct) auto
  show "tasks_held (l @ l') = tasks_held l + tasks_held l'" by (induction l rule: tasks_held.induct) auto
  show "captures_held (l @ l') = captures_held l + captures_held l'" by (induction l rule: captures_held.induct) auto
qed

definition nothing_held :: "int \<times> int \<times> int" where "nothing_held = (0, 0, 0)"

text \<open>An action of a reset: it starts no rung and leaves nothing open.\<close>

definition tidy :: "(act list, 'a) proc \<Rightarrow> bool" where
  "tidy f \<longleftrightarrow> (\<forall>l. \<exists>cs. snd (f l) = l @ cs \<and> started cs = [] \<and> held cs = nothing_held)"

lemmas log_defs = step_def attempt_act_def seqm_def bindm_def finallym_def modify_def ret_def raise_def suppress_def catchm_def
  tidy_def held_def nothing_held_def

lemma tidy_in_call: "tidy (apply_in_call rn i)"
  by (auto simp: apply_in_call_def rung1_cpcmreg_def log_defs split: option.splits)

lemma tidy_reset: "tidy (apply_reset rn i ports)"
proof -
  have "tidy (rung2_cfun w ports)" for w
    by (auto simp: rung2_cfun_def log_defs split: option.splits)
  moreover have "tidy (rung3_creset w ports)" for w
    by (auto simp: rung3_creset_def log_defs is_exception_def split: option.splits)
  moreover have "tidy (rung4_host_usb_reset vid pid w)" for vid pid w
    by (auto simp: rung4_host_usb_reset_def linux_unbind_rebind_def windows_restart_device_def lift_reading_def log_defs
        split: option.splits sum.splits)
  moreover have "tidy rung5_replug" by (auto simp: rung5_replug_def log_defs)
  ultimately show ?thesis by (simp add: apply_reset_def)
qed

lemma establish_log:
  assumes "establish_call tr ports number l = (r, l')"
  shows "\<exists>cs. l' = l @ cs \<and> started cs = []
    \<and> (case r of Inr _ \<Rightarrow> held cs = (1, 1, 1) | Inl _ \<Rightarrow> held cs \<in> {nothing_held, (1, 0, 0), (1, 1, 0)})"
  using assms by (auto simp: establish_call_def log_defs split: option.splits if_splits)

lemma teardown_log: "started (teardown_acts tr) = []" "held (teardown_acts tr) = (- 1, - 1, - 1)"
  by (simp_all add: teardown_acts_def held_def)

text \<open>A call that is measured, with or without a reset in it, and then taken down.\<close>

definition on_call :: "trial \<Rightarrow> modem_ports \<Rightarrow> string \<Rightarrow> (act list, 'a) proc \<Rightarrow> (act list, 'a) proc" where
  "on_call tr ports number f = seqm (establish_call tr ports number) (finallym f (teardown_call tr))"

lemma on_call_log:
  assumes "tidy f" and "on_call tr ports number f l = (r, l')"
  shows "\<exists>cs. l' = l @ cs \<and> started cs = [] \<and> (held cs = nothing_held \<or> (\<exists>e. r = Inl e) \<and> held cs \<in> {(1, 0, 0), (1, 1, 0)})"
proof -
  obtain r1 l1 where est: "establish_call tr ports number l = (r1, l1)" by (cases "establish_call tr ports number l")
  obtain cs where cs: "l1 = l @ cs" "started cs = []"
    "case r1 of Inr _ \<Rightarrow> held cs = (1, 1, 1) | Inl _ \<Rightarrow> held cs \<in> {nothing_held, (1, 0, 0), (1, 1, 0)}"
    using establish_log [OF est] by blast
  show ?thesis
  proof (cases r1)
    case (Inl e)
    with assms(2) est cs show ?thesis by (auto simp: on_call_def seqm_def bindm_def)
  next
    case (Inr u)
    obtain ds where ds: "snd (f l1) = l1 @ ds" "started ds = []" "held ds = nothing_held"
      using assms(1) unfolding tidy_def by blast
    have "l' = snd (f l1) @ teardown_acts tr"
      using assms(2) est Inr by (auto simp: on_call_def seqm_def bindm_def finallym_def teardown_call_def modify_def split: prod.splits)
    then show ?thesis
      using cs ds Inr teardown_log [of tr] by (intro exI [of _ "cs @ ds @ teardown_acts tr"]) (auto simp: held_def nothing_held_def)
  qed
qed

lemma tidy_reading: "tidy (lift_reading r)"
  by (cases r) (auto simp: lift_reading_def log_defs)

lemma tidy_seqm: "tidy f \<Longrightarrow> tidy g \<Longrightarrow> tidy (seqm f g)"
  unfolding tidy_def
proof (intro allI)
  fix l
  assume f: "\<forall>l. \<exists>cs. snd (f l) = l @ cs \<and> started cs = [] \<and> held cs = nothing_held"
    and g: "\<forall>l. \<exists>cs. snd (g l) = l @ cs \<and> started cs = [] \<and> held cs = nothing_held"
  obtain cs where cs: "snd (f l) = l @ cs" "started cs = []" "held cs = nothing_held" using f by blast
  obtain ds where ds: "snd (g (l @ cs)) = (l @ cs) @ ds" "started ds = []" "held ds = nothing_held" using g by blast
  obtain r l1 where fl: "f l = (r, l1)" by (cases "f l")
  show "\<exists>cs. snd (seqm f g l) = l @ cs \<and> started cs = [] \<and> held cs = nothing_held"
  proof (cases r)
    case (Inl e)
    with fl cs show ?thesis by (intro exI [of _ cs]) (simp add: seqm_def bindm_def)
  next
    case (Inr u)
    with fl cs ds show ?thesis
      by (intro exI [of _ "cs @ ds"]) (simp add: seqm_def bindm_def held_def nothing_held_def)
  qed
qed

definition reading :: "run \<Rightarrow> nat \<Rightarrow> pyexn + probe_result" where
  "reading rn i = measure_capture (rn_root rn) (rn_start rn) (tl_turns (rw_trial (rn_world rn i)))"

lemma climb_rung_eq:
  "climb_rung rn g ports l =
    (let i = rg_index g; tr = rw_trial (rn_world rn i); k = (\<lambda>p r. ret (Some (p, r))) in
     if rg_in_call g then bindm (on_call tr ports (rn_number rn) (seqm (apply_in_call rn i) (lift_reading (reading rn i)))) (k ports) (l @ [RungStarted i])
     else seqm (apply_reset rn i ports)
       (case (if rg_reenumerate g then wait_for_reenumeration (rn_vid rn) (rn_pid rn) (rw_scans (rn_world rn i)) else Some ports) of
          None \<Rightarrow> ret None
        | Some p \<Rightarrow> bindm (on_call tr p (rn_number rn) (lift_reading (reading rn i))) (k p)) (l @ [RungStarted i]))"
proof -
  have "seqm f (bindm g h) = bindm (seqm f g) h" for f :: "(act list, unit) proc" and g :: "(act list, probe_result) proc"
      and h :: "probe_result \<Rightarrow> (act list, (modem_ports \<times> probe_result) option) proc"
    by (rule ext) (simp add: seqm_def bindm_assoc)
  then show ?thesis by (simp add: climb_rung_def reading_def on_call_def Let_def cong: option.case_cong)
qed

definition leak_free :: "pyexn + 'a \<Rightarrow> act list \<Rightarrow> bool" where
  "leak_free r cs \<longleftrightarrow> held cs = nothing_held \<or> (\<exists>e. r = Inl e) \<and> held cs \<in> {(1, 0, 0), (1, 1, 0)}"

lemma climb_rung_log:
  assumes "climb_rung rn g ports l = (r, l')"
  shows "\<exists>cs. l' = l @ cs \<and> started cs = [rg_index g] \<and> leak_free r cs"
proof -
  let ?i = "rg_index g" and ?tr = "rw_trial (rn_world rn (rg_index g))"
  have call: "\<exists>cs. l2 = l1 @ cs \<and> started cs = [] \<and> leak_free r2 cs"
    if "tidy f" "bindm (on_call ?tr p (rn_number rn) f) (\<lambda>r. ret (Some (p, r))) l1 = (r2, l2)"
    for f :: "(act list, probe_result) proc" and p l1 l2 and r2 :: "pyexn + (modem_ports \<times> probe_result) option"
  proof -
    obtain r1 l3 where oc: "on_call ?tr p (rn_number rn) f l1 = (r1, l3)" by (cases "on_call ?tr p (rn_number rn) f l1")
    from on_call_log [OF that(1) oc] that(2) oc show ?thesis
      by (cases r1) (auto simp: bindm_def ret_def leak_free_def)
  qed
  show ?thesis
  proof (cases "rg_in_call g")
    case True
    from assms True have "bindm (on_call ?tr ports (rn_number rn) (seqm (apply_in_call rn ?i) (lift_reading (reading rn ?i))))
        (\<lambda>r. ret (Some (ports, r))) (l @ [RungStarted ?i]) = (r, l')" by (simp add: climb_rung_eq Let_def)
    from call [OF tidy_seqm [OF tidy_in_call tidy_reading] this] obtain cs where
      "l' = (l @ [RungStarted ?i]) @ cs" "started cs = []" "leak_free r cs" by blast
    then show ?thesis by (intro exI [of _ "RungStarted ?i # cs"]) (simp add: leak_free_def held_def)
  next
    case False
    let ?next = "if rg_reenumerate g then wait_for_reenumeration (rn_vid rn) (rn_pid rn) (rw_scans (rn_world rn ?i)) else Some ports"
    obtain r1 l1 where reset: "apply_reset rn ?i ports (l @ [RungStarted ?i]) = (r1, l1)" by (cases "apply_reset rn ?i ports (l @ [RungStarted ?i])")
    obtain ds where ds: "l1 = (l @ [RungStarted ?i]) @ ds" "started ds = []" "held ds = nothing_held"
      using tidy_reset [of rn ?i ports] reset unfolding tidy_def by (metis snd_conv)
    show ?thesis
    proof (cases r1)
      case (Inl e)
      with assms False reset have "r = Inl e" "l' = l1" by (auto simp: climb_rung_eq Let_def seqm_def bindm_def)
      with ds show ?thesis by (intro exI [of _ "RungStarted ?i # ds"]) (simp add: leak_free_def held_def)
    next
      case (Inr u)
      show ?thesis
      proof (cases ?next)
        case None
        with assms False reset Inr have "l' = l1" by (auto simp: climb_rung_eq Let_def seqm_def bindm_def ret_def split: if_splits)
        with ds show ?thesis by (intro exI [of _ "RungStarted ?i # ds"]) (simp add: leak_free_def held_def)
      next
        case (Some p)
        with assms False reset Inr
        have "bindm (on_call ?tr p (rn_number rn) (lift_reading (reading rn ?i))) (\<lambda>r. ret (Some (p, r))) l1 = (r, l')"
          by (simp add: climb_rung_eq Let_def seqm_def bindm_def)
        from call [OF tidy_reading this] obtain cs where "l' = l1 @ cs" "started cs = []" "leak_free r cs" by blast
        with ds show ?thesis
          by (intro exI [of _ "RungStarted ?i # ds @ cs"]) (simp add: leak_free_def held_def nothing_held_def)
      qed
    qed
  qed
qed

lemma on_call_result:
  assumes "on_call tr ports number f l = (Inr x, l')"
  shows "\<exists>l1 l2. f l1 = (Inr x, l2)"
  using assms by (auto simp: on_call_def seqm_def bindm_def finallym_def teardown_call_def modify_def split: prod.splits sum.splits)

lemma climb_rung_result:
  assumes "climb_rung rn g ports l = (Inr (Some (p, r)), l')"
  shows "reading rn (rg_index g) = Inr r"
proof -
  have lifted: "lift_reading x l1 = (Inr r, l2) \<Longrightarrow> x = Inr r" for x l1 l2
    by (cases x) (auto simp: lift_reading_def ret_def raise_def)
  have "\<exists>tr q f l1 l2. on_call tr q (rn_number rn) f l1 = (Inr r, l2) \<and> (f = lift_reading (reading rn (rg_index g))
      \<or> f = seqm (apply_in_call rn (rg_index g)) (lift_reading (reading rn (rg_index g))))"
    using assms by (auto simp: climb_rung_eq Let_def seqm_def bindm_def ret_def split: if_splits prod.splits sum.splits option.splits) blast+
  then obtain tr q f l1 l2 where oc: "on_call tr q (rn_number rn) f l1 = (Inr r, l2)"
    and f: "f = lift_reading (reading rn (rg_index g)) \<or> f = seqm (apply_in_call rn (rg_index g)) (lift_reading (reading rn (rg_index g)))"
    by blast
  obtain l3 l4 where "f l3 = (Inr r, l4)" using on_call_result [OF oc] by blast
  then show ?thesis using f by (auto simp: seqm_def bindm_def intro: lifted split: prod.splits sum.splits)
qed

text \<open>Rungs numbered from \<open>k\<close> on.\<close>

definition numbered :: "nat \<Rightarrow> rung list \<Rightarrow> bool" where
  "numbered k gs \<longleftrightarrow> map rg_index gs = [k..<k + length gs]"

lemma numbered_Cons: "numbered k (g # gs) \<longleftrightarrow> rg_index g = k \<and> numbered (Suc k) gs"
  by (auto simp: numbered_def upt_conv_Cons simp del: upt_Suc)

definition failed_at :: "run \<Rightarrow> nat \<Rightarrow> bool" where
  "failed_at rn j \<longleftrightarrow> (\<exists>r. reading rn j = Inr r \<and> \<not> pr_passed r)"

text \<open>How a climb from rung \<open>k\<close> ends, by the rungs it started.\<close>

definition climb_spec :: "run \<Rightarrow> nat \<Rightarrow> nat \<Rightarrow> ladder_end \<Rightarrow> nat list \<Rightarrow> bool" where
  "climb_spec rn k top_rung ended js \<longleftrightarrow> (case ended of
       Climbed (Some g) (Some r) \<Rightarrow> js = [k..<Suc (rg_index g)] \<and> reading rn (rg_index g) = Inr r \<and> pr_passed r
         \<and> k \<le> rg_index g \<and> rg_index g < top_rung \<and> int (rg_index g) \<le> rn_max_rung rn \<and> (\<forall>j. k \<le> j \<and> j < rg_index g \<longrightarrow> failed_at rn j)
     | Climbed (Some g) None \<Rightarrow> False
     | Climbed None _ \<Rightarrow> (\<exists>n. js = [k..<n] \<and> k \<le> n \<and> (n = top_rung \<or> rn_max_rung rn < int n) \<and> (\<forall>j. k \<le> j \<and> j < n \<longrightarrow> failed_at rn j))
     | LostModem \<Rightarrow> (\<exists>n. js = [k..<Suc n] \<and> k \<le> n \<and> (\<forall>j. k \<le> j \<and> j < n \<longrightarrow> failed_at rn j)))"

lemma climb_spec_step:
  assumes "failed_at rn k" and "climb_spec rn (Suc k) n ended js"
  shows "climb_spec rn k n ended (k # js)"
proof -
  have below: "(\<forall>j. k \<le> j \<and> j < m \<longrightarrow> failed_at rn j)" if "\<forall>j. Suc k \<le> j \<and> j < m \<longrightarrow> failed_at rn j" for m
    using that assms(1) by (metis le_eq_less_or_eq Suc_leI)
  show ?thesis
  proof (cases ended)
    case LostModem
    with assms(2) obtain m where m: "js = [Suc k..<Suc m]" "Suc k \<le> m" "\<forall>j. Suc k \<le> j \<and> j < m \<longrightarrow> failed_at rn j"
      by (auto simp: climb_spec_def)
    then have "k # js = [k..<Suc m]" by (simp add: upt_conv_Cons del: upt_Suc)
    with m below LostModem show ?thesis by (auto simp: climb_spec_def intro!: exI [of _ m])
  next
    case (Climbed solved final)
    show ?thesis
    proof (cases solved)
      case None
      with assms(2) Climbed obtain m where m: "js = [Suc k..<m]" "Suc k \<le> m" "m = n \<or> rn_max_rung rn < int m"
        "\<forall>j. Suc k \<le> j \<and> j < m \<longrightarrow> failed_at rn j"
        by (auto simp: climb_spec_def)
      then have "k # js = [k..<m]" by (simp add: upt_conv_Cons)
      with m below Climbed None show ?thesis by (auto simp: climb_spec_def intro!: exI [of _ m])
    next
      case (Some g)
      with assms(2) Climbed below show ?thesis by (auto simp: climb_spec_def upt_conv_Cons simp del: upt_Suc split: option.splits)
    qed
  qed
qed

lemma climb_run:
  assumes "numbered k gs" and "climb rn gs ports final l = (r, l')"
  shows "\<exists>cs. l' = l @ cs \<and> leak_free r cs \<and> (\<forall>ended. r = Inr ended \<longrightarrow> climb_spec rn k (k + length gs) ended (started cs))"
  using assms
proof (induction gs arbitrary: k ports final l)
  case Nil
  then show ?case by (auto simp: ret_def leak_free_def held_def nothing_held_def climb_spec_def intro!: exI [of _ k])
next
  case (Cons g gs)
  have idx: "rg_index g = k" and num: "numbered (Suc k) gs" using Cons.prems(1) by (simp_all add: numbered_Cons)
  show ?case
  proof (cases "rn_max_rung rn < int k")
    case True
    with Cons.prems(2) idx show ?thesis
      by (auto simp: ret_def leak_free_def held_def nothing_held_def climb_spec_def intro!: exI [of _ k])
  next
    case within: False
    obtain r1 l1 where rung: "climb_rung rn g ports l = (r1, l1)" by (cases "climb_rung rn g ports l")
    obtain cs where cs: "l1 = l @ cs" "started cs = [k]" "leak_free r1 cs" using climb_rung_log [OF rung] idx by blast
    show ?thesis
    proof (cases r1)
      case (Inl e)
      with Cons.prems(2) within idx rung have "r = Inl e" "l' = l1" by (auto simp: bindm_def)
      with cs Inl show ?thesis by (auto simp: leak_free_def)
    next
      case (Inr x)
      have held0: "held cs = nothing_held" using cs(3) Inr by (simp add: leak_free_def)
      show ?thesis
      proof (cases x)
        case None
        with Cons.prems(2) within idx rung Inr have "r = Inr LostModem" "l' = l1" by (auto simp: bindm_def ret_def)
        with cs held0 show ?thesis by (auto simp: leak_free_def climb_spec_def intro!: exI [of _ k])
      next
        case (Some y)
        obtain p q where y: "y = (p, q)" by (cases y)
        have got: "reading rn k = Inr q" using climb_rung_result [of rn g ports l p q l1] rung Inr Some y idx by simp
        show ?thesis
        proof (cases "pr_passed q")
          case True
          with Cons.prems(2) within idx rung Inr Some y have "r = Inr (Climbed (Some g) (Some q))" "l' = l1" by (auto simp: bindm_def ret_def)
          with cs held0 got True idx within show ?thesis by (auto simp: leak_free_def climb_spec_def)
        next
          case False
          with Cons.prems(2) within idx rung Inr Some y have rest: "climb rn gs p (Some q) l1 = (r, l')" by (auto simp: bindm_def)
          obtain ds where ds: "l' = l1 @ ds" "leak_free r ds"
            "\<forall>ended. r = Inr ended \<longrightarrow> climb_spec rn (Suc k) (Suc k + length gs) ended (started ds)"
            using Cons.IH [OF num rest] by blast
          have "failed_at rn k" using got False by (simp add: failed_at_def)
          then have step: "climb_spec rn (Suc k) n ended js \<Longrightarrow> climb_spec rn k n ended (k # js)" for n ended js
            by (rule climb_spec_step)
          have "leak_free r (cs @ ds)" using ds(2) held0 by (auto simp: leak_free_def held_def nothing_held_def)
          then show ?thesis using cs(1,2) ds step by (intro exI [of _ "cs @ ds"]) auto
        qed
      qed
    qed
  qed
qed

lemma rungs_numbered: "numbered 0 rungs"
  by (simp add: numbered_def rungs_def upt_rec)

text \<open>C36. A ladder that returns has tried the rungs in order from the first, each once, and holds nothing it opened: with
  status 0 it stopped at the first rung after which the uplink was heard, every cheaper one having been measured and
  found silent, and blames the layer of that rung; with status 3 every rung allowed was measured and found silent.\<close>

theorem ladder_finds_cheapest_cure:
  assumes "run_ladder rn scan rf wfail file [] = (Inr (code, verdict, file'), l)"
  shows "held l = nothing_held \<and> code \<le> 3
    \<and> (code = 0 \<longrightarrow> (\<exists>i r. started l = [0..<Suc i] \<and> i < 6 \<and> reading rn i = Inr r \<and> pr_passed r \<and> (\<forall>j < i. failed_at rn j)
         \<and> verdict = Some (blamed i)))
    \<and> (code = 3 \<longrightarrow> (\<exists>n. started l = [0..<n] \<and> (n = 6 \<or> rn_max_rung rn < int n) \<and> (\<forall>j < n. failed_at rn j)))"
proof (cases "discover_ports (rn_vid rn) (rn_pid rn) scan")
  case None
  with assms show ?thesis by (auto simp: run_ladder_def ret_def held_def nothing_held_def)
next
  case (Some ports)
  obtain r l1 where climb: "climb rn rungs ports None [] = (r, l1)" by (cases "climb rn rungs ports None []")
  have six: "length rungs = 6" by (simp add: rungs_def)
  obtain cs where cs: "l1 = cs" "leak_free r cs" "\<forall>ended. r = Inr ended \<longrightarrow> climb_spec rn 0 6 ended (started cs)"
    using climb_run [OF rungs_numbered climb] by (auto simp: six)
  from assms Some climb obtain ended where r: "r = Inr ended" by (cases r) (auto simp: run_ladder_def bindm_def)
  have spec: "climb_spec rn 0 6 ended (started cs)" and held: "held cs = nothing_held" using cs r by (auto simp: leak_free_def)
  show ?thesis
  proof (cases ended)
    case LostModem
    with assms Some climb r held cs(1) show ?thesis by (auto simp: run_ladder_def bindm_def ret_def)
  next
    case (Climbed solved final)
    show ?thesis
    proof (cases solved)
      case None
      with assms Some climb r Climbed have code: "code = 3" "l = cs" by (auto simp: run_ladder_def bindm_def ret_def Let_def cs(1))
      with spec Climbed None held show ?thesis by (auto simp: climb_spec_def)
    next
      case (Some g)
      with assms \<open>discover_ports _ _ scan = _\<close> climb r Climbed
      have code: "code = 0" "l = cs" "verdict = Some (blamed (rg_index g))" by (auto simp: run_ladder_def bindm_def ret_def Let_def cs(1))
      with spec Climbed Some held show ?thesis by (auto simp: climb_spec_def split: option.splits)
    qed
  qed
qed

definition silent_trial :: trial where
  "silent_trial = \<lparr>tl_open = None, tl_dial = None, tl_answered = True, tl_pcm = None, tl_capture = None,
     tl_turns = [(Inr [0, 0, 1, 0], 500)], tl_hung = False\<rparr>"

definition cured_by_cfun :: "nat \<Rightarrow> reset_world" where
  "cured_by_cfun i = \<lparr>rw_open = None, rw_pcm_on = None, rw_cfun0 = None, rw_cfun1 = None, rw_creset = None, rw_system = ''Windows'',
     rw_paths = [], rw_devices = None, rw_scans = [],
     rw_trial = (if i = 2 then silent_trial\<lparr>tl_turns := [(Inr [0, 8], 500)]\<rparr> else silent_trial)\<rparr>"

definition run_ex :: run where
  "run_ex = \<lparr>rn_vid = ''0001'', rn_pid = ''0002'', rn_number = ''10086'', rn_start = 0, rn_max_rung = 5, rn_root = (\<lambda>x. x),
     rn_world = cured_by_cfun\<rparr>"

definition scan_ex :: "port_info list" where
  "scan_ex = [\<lparr>pi_device = ''COM9'', pi_vid = Some 1, pi_pid = Some 2, pi_serial = Some ''sn'', pi_description = Some ''AT PORT''\<rparr>,
     \<lparr>pi_device = ''COM11'', pi_vid = Some 1, pi_pid = Some 2, pi_serial = Some ''sn'', pi_description = Some ''Audio''\<rparr>]"

lemma ladder_finds_cheapest_cure_witness:
  "\<exists>file l. run_ladder run_ex scan_ex None False [] [] = (Inr (0, Some ModemFirmware, file), l) \<and> held l = nothing_held"
proof -
  have ports: "discover_ports ''0001'' ''0002'' scan_ex = Some \<lparr>mp_at = ''COM9'', mp_audio = ''COM11'', mp_serial = Some ''sn''\<rparr>"
    by code_simp
  have amps: "amplitudes [0, 0, 1, 0] = [0, 1]" "amplitudes [0, 8] = [2048]" by code_simp+
  define bad where "bad = measure_capture (\<lambda>x. x) 0 [(Inr [0, 0, 1, 0], 500)]"
  define good where "good = measure_capture (\<lambda>x. x) 0 [(Inr [0, 8], 500)]"
  have bad: "\<exists>r. bad = Inr r \<and> \<not> pr_passed r"
    by (simp add: bad_def measure_capture_def meter_turn_def amp_stats_def amps PASS_AMP_THRESHOLD_def Let_def)
  have good: "\<exists>r. good = Inr r \<and> pr_passed r"
    by (simp add: good_def measure_capture_def meter_turn_def amp_stats_def amps PASS_AMP_THRESHOLD_def Let_def)
  obtain r r' where rs: "bad = Inr r" "\<not> pr_passed r" "good = Inr r'" "pr_passed r'" using bad good by blast
  obtain l where run: "run_ladder run_ex scan_ex None False [] [] = (Inr (0, Some ModemFirmware, []), l)"
    using rs
    by (simp add: run_ladder_def run_ex_def ports rungs_def climb_rung_def cured_by_cfun_def silent_trial_def
        bad_def [symmetric] good_def [symmetric] establish_call_def teardown_call_def apply_in_call_def apply_reset_def
        rung1_cpcmreg_def rung2_cfun_def lift_reading_def log_defs record_result_def nonempty_def blamed_def Let_def)
  from ladder_finds_cheapest_cure [OF run] run show ?thesis by blast
qed

text \<open>A rejected \<open>AT+CPCMREG=1\<close> in the very first call ends the ladder before any reset, with the AT client and the consumer
  of the call left open and nothing recorded.\<close>

lemma rejected_pcm_ends_ladder:
  assumes "discover_ports (rn_vid rn) (rn_pid rn) scan = Some ports" and "0 \<le> rn_max_rung rn"
    and "rw_trial (rn_world rn 0) = silent_trial\<lparr>tl_pcm := Some (PcmEnableError d)\<rparr>"
  shows "\<exists>l. run_ladder rn scan rf wfail file [] = (Inl (PcmEnableError d), l) \<and> held l = (1, 1, 0) \<and> started l = [0]"
  using assms by (simp add: run_ladder_def rungs_def climb_rung_def establish_call_def silent_trial_def log_defs Let_def)

text \<open>A replug, which resets the host and the firmware at once, is blamed on the host alone.\<close>

lemma replug_blamed_on_host: "blamed 5 = HostUsb"
  by (simp add: blamed_def)

end
