(* ===== verification/Call_Verdict.thy ===== *)
theory Call_Verdict imports Complex_Main Prelude begin

text \<open>
  The verdict on a test call (\<open>scripts/mac_dev_auto_analyze.py\<close>): cutting the lines of one call out of the
  logs of the engine and of the edge, reading the events off them, the nine checks with their thresholds, the
  overall verdict and the exit status. The lines are an input, as \<open>ssh\<close> and the edge's log file give them;
  the sentences of the report are a constructor with the values they print.
\<close>

section \<open>Patterns\<close>

text \<open>The regular expressions of the script, as sequences of: literal text, \<open>(\d+)\<close>, \<open>(\S+)\<close>, \<open>[\d.]+\<close>, \<open>.*?\<close>, \<open>\b\<close> after a
  letter, and a text in quotes. A repeat always stands before text that it cannot itself contain or at the end of
  the pattern, so taking all it can loses no match.\<close>

datatype pat = Lit string | Num | Word | Decimal | Gap | Boundary | Quoted

definition word_char :: "char \<Rightarrow> bool" where
  "word_char c \<longleftrightarrow> is_digit c \<or> c = CHR ''_'' \<or> (let n = (of_char c :: nat) in (65 \<le> n \<and> n \<le> 90) \<or> (97 \<le> n \<and> n \<le> 122))"

definition quote_char :: "char \<Rightarrow> bool" where
  "quote_char c \<longleftrightarrow> c = CHR 39 \<or> c = CHR 34"

fun match_here :: "pat list \<Rightarrow> string \<Rightarrow> string list option" where
  "match_here [] s = Some []"
| "match_here (Lit t # ps) s = (if startswith t s then match_here ps (drop (length t) s) else None)"
| "match_here (Num # ps) s = (if takeWhile is_digit s = [] then None
     else map_option (Cons (takeWhile is_digit s)) (match_here ps (dropWhile is_digit s)))"
| "match_here (Word # ps) s = (if takeWhile (\<lambda>c. \<not> is_space c) s = [] then None
     else map_option (Cons (takeWhile (\<lambda>c. \<not> is_space c) s)) (match_here ps (dropWhile (\<lambda>c. \<not> is_space c) s)))"
| "match_here (Decimal # ps) s = (if takeWhile (\<lambda>c. is_digit c \<or> c = CHR ''.'') s = [] then None
     else map_option (Cons (takeWhile (\<lambda>c. is_digit c \<or> c = CHR ''.'') s)) (match_here ps (dropWhile (\<lambda>c. is_digit c \<or> c = CHR ''.'') s)))"
| "match_here (Gap # ps) s = (case match_here ps s of Some r \<Rightarrow> Some r
     | None \<Rightarrow> (case s of [] \<Rightarrow> None | _ # s' \<Rightarrow> match_here (Gap # ps) s'))"
| "match_here (Boundary # ps) s = (if s = [] \<or> \<not> word_char (hd s) then match_here ps s else None)"
| "match_here (Quoted # ps) s = (case s of [] \<Rightarrow> None
     | q # t \<Rightarrow> if quote_char q \<and> q \<in> set t
         then map_option (Cons (takeWhile (\<lambda>c. c \<noteq> q) t)) (match_here ps (tl (dropWhile (\<lambda>c. c \<noteq> q) t))) else None)"

text \<open>\<open>pattern.search(line)\<close>: the groups of the first match.\<close>

definition search :: "pat list \<Rightarrow> string \<Rightarrow> string list option" where
  "search ps s = match_here (Gap # ps) s"

definition RE_DIAL :: "pat list" where "RE_DIAL = [Lit ''dial_received call_record_id='', Num]"

definition RE_JOIN :: "pat list" where
  "RE_JOIN = [Lit ''DingRTC join result: rc='', Num, Gap, Lit ''channel='', Num, Gap, Lit ''elapsed_ms='', Num]"

definition RE_TTS :: "pat list" where
  "RE_TTS = [Lit ''volcengine_tts_first_byte latency_ms='', Num, Lit '' text_len='', Num]"

definition RE_INBOUND :: "pat list" where
  "RE_INBOUND = [Lit ''rtc_inbound_1s sid='', Num, Lit '' recv='', Num, Lit '' delta='', Num, Lit '' raw_max_rms='', Num,
     Lit '' post_downmix_rms='', Num, Lit '' final_rms='', Num]"

definition RE_GATE :: "pat list" where
  "RE_GATE = [Lit ''asr_noise_gate sid='', Num, Lit '' state='', Word, Lit '' final_rms='', Num, Lit '' silence_ms='', Decimal,
     Lit '' gate_rms='', Num]"

definition RE_ASR_FINAL :: "pat list" where
  "RE_ASR_FINAL = [Lit ''volcengine_asr_FINAL'', Boundary, Gap, Lit ''text='', Quoted]"

definition RE_ASR_FINAL_LOOSE :: "pat list" where
  "RE_ASR_FINAL_LOOSE = [Lit ''volcengine_asr_FINAL'', Boundary]"

definition RE_FINALIZE :: "pat list" where
  "RE_FINALIZE = [Lit ''session_finalized call_record_id='', Num, Lit '' hangup_cause='', Word, Lit '' persisted='', Word]"

definition RE_PLAYBACK :: "pat list" where
  "RE_PLAYBACK = [Lit ''dev_playback_recv_1s frames='', Num, Lit '' peak='', Num]"

definition RE_MIC :: "pat list" where
  "RE_MIC = [Lit ''dev_no_modem_mic_push_1s call_id='', Num, Gap, Lit ''max_rms='', Num]"

definition ats_line :: "string \<Rightarrow> bool" where
  "ats_line l \<longleftrightarrow> contains_str ''-1022'' l \<or> contains_str ''App Transport Security'' l \<or> contains_str ''HttpRequest error'' l"

definition number :: "string \<Rightarrow> nat" where
  "number d = (case digits_val 0 d of None \<Rightarrow> 0 | Some n \<Rightarrow> nat n)"


section \<open>The log of the engine\<close>

record engine_log =
  en_dial :: bool
  en_join :: "(nat \<times> nat) option"
  en_tts :: "nat list"
  en_inbound :: "(nat \<times> nat \<times> nat) list"
  en_gates :: nat
  en_finals :: "string list"
  en_finalize :: "(string \<times> string) option"
  en_silence :: bool

definition engine_empty :: engine_log where
  "engine_empty = \<lparr>en_dial = False, en_join = None, en_tts = [], en_inbound = [], en_gates = 0, en_finals = [],
     en_finalize = None, en_silence = False\<rparr>"

definition dial_line :: "string \<Rightarrow> bool" where
  "dial_line l \<longleftrightarrow> search RE_DIAL l \<noteq> None"

definition mentions_call :: "string \<Rightarrow> string \<Rightarrow> bool" where
  "mentions_call cid l \<longleftrightarrow> contains_str (''call_record_id='' @ cid) l"

definition own_finalize :: "string \<Rightarrow> string \<Rightarrow> bool" where
  "own_finalize cid l \<longleftrightarrow> (case search RE_FINALIZE l of Some (c # _) \<Rightarrow> c = cid | _ \<Rightarrow> False)"

text \<open>The lines after the dial up to the next call's dial, or up to and with the call's own \<open>session_finalized\<close>.\<close>

fun cut_call :: "string \<Rightarrow> string list \<Rightarrow> string list" where
  "cut_call cid [] = []"
| "cut_call cid (l # ls) = (if dial_line l \<and> \<not> mentions_call cid l then []
     else if own_finalize cid l then [l] else l # cut_call cid ls)"

definition engine_segment :: "string \<Rightarrow> string list \<Rightarrow> string list" where
  "engine_segment cid ls = (case dropWhile (\<lambda>l. \<not> (dial_line l \<and> mentions_call cid l)) ls of
       [] \<Rightarrow> [] | d # rest \<Rightarrow> d # cut_call cid rest)"

definition read_join :: "string \<Rightarrow> string \<Rightarrow> engine_log \<Rightarrow> engine_log" where
  "read_join cid l e = (case search RE_JOIN l of Some [rc, ch, ms] \<Rightarrow> if ch = cid then e\<lparr>en_join := Some (number rc, number ms)\<rparr> else e | _ \<Rightarrow> e)"

definition read_tts :: "string \<Rightarrow> engine_log \<Rightarrow> engine_log" where
  "read_tts l e = (case search RE_TTS l of Some [_, n] \<Rightarrow> e\<lparr>en_tts := en_tts e @ [number n]\<rparr> | _ \<Rightarrow> e)"

definition read_inbound :: "string \<Rightarrow> string \<Rightarrow> engine_log \<Rightarrow> engine_log" where
  "read_inbound cid l e = (case search RE_INBOUND l of
       Some [sid, _, _, raw, post, final] \<Rightarrow>
         if sid = cid then e\<lparr>en_inbound := en_inbound e @ [(number raw, number post, number final)]\<rparr> else e
     | _ \<Rightarrow> e)"

definition read_gate :: "string \<Rightarrow> string \<Rightarrow> engine_log \<Rightarrow> engine_log" where
  "read_gate cid l e = (case search RE_GATE l of Some (sid # _) \<Rightarrow> if sid = cid then e\<lparr>en_gates := en_gates e + 1\<rparr> else e | _ \<Rightarrow> e)"

definition read_asr :: "string \<Rightarrow> engine_log \<Rightarrow> engine_log" where
  "read_asr l e = (if search RE_ASR_FINAL_LOOSE l = None then e
     else e\<lparr>en_finals := en_finals e @ [case search RE_ASR_FINAL l of Some [t] \<Rightarrow> t | _ \<Rightarrow> []]\<rparr>)"

definition read_finalize :: "string \<Rightarrow> string \<Rightarrow> engine_log \<Rightarrow> engine_log" where
  "read_finalize cid l e = (case search RE_FINALIZE l of
       Some [c, cause, persisted] \<Rightarrow> if c = cid then e\<lparr>en_finalize := Some (cause, persisted)\<rparr> else e
     | _ \<Rightarrow> e)"

definition read_engine_line :: "string \<Rightarrow> string \<Rightarrow> engine_log \<Rightarrow> engine_log" where
  "read_engine_line cid l e =
     (let e1 = read_finalize cid l (read_asr l (read_gate cid l (read_inbound cid l (read_tts l (read_join cid l e)))))
      in if contains_str ''silence_max_reached'' l then e1\<lparr>en_silence := True\<rparr> else e1)"

definition pull_engine :: "string \<Rightarrow> string list \<Rightarrow> engine_log" where
  "pull_engine cid ls = (let seg = engine_segment cid ls in
     if seg = [] then engine_empty else fold (read_engine_line cid) seg (engine_empty\<lparr>en_dial := True\<rparr>))"


section \<open>The log of the edge\<close>

record edge_log =
  ed_present :: bool
  ed_peaks :: "nat list"
  ed_mic :: "nat list"
  ed_rtc_error :: "string option"
  ed_join_failed :: bool
  ed_ats :: nat

definition edge_empty :: "bool \<Rightarrow> edge_log" where
  "edge_empty present = \<lparr>ed_present = present, ed_peaks = [], ed_mic = [], ed_rtc_error = None, ed_join_failed = False, ed_ats = 0\<rparr>"

definition accept_line :: "string \<Rightarrow> bool" where
  "accept_line l \<longleftrightarrow> contains_str ''dev_no_modem_dial_accepted'' l"

definition mentions_edge_call :: "string \<Rightarrow> string \<Rightarrow> bool" where
  "mentions_edge_call cid l \<longleftrightarrow> contains_str (''call_id='' @ cid) l"

definition edge_segment :: "string \<Rightarrow> string list \<Rightarrow> string list" where
  "edge_segment cid ls = (case dropWhile (\<lambda>l. \<not> (accept_line l \<and> mentions_edge_call cid l)) ls of
       [] \<Rightarrow> ls | d # rest \<Rightarrow> d # takeWhile (\<lambda>l. \<not> (accept_line l \<and> \<not> mentions_edge_call cid l)) rest)"

definition read_edge_line :: "string \<Rightarrow> string \<Rightarrow> edge_log \<Rightarrow> edge_log" where
  "read_edge_line cid l e =
     (let e1 = (case search RE_PLAYBACK l of Some [_, pk] \<Rightarrow> e\<lparr>ed_peaks := ed_peaks e @ [number pk]\<rparr> | _ \<Rightarrow> e);
          e2 = (case search RE_MIC l of Some [c, rms] \<Rightarrow> if c = cid then e1\<lparr>ed_mic := ed_mic e1 @ [number rms]\<rparr> else e1 | _ \<Rightarrow> e1);
          e3 = (if contains_str ''RtcError'' l \<and> ed_rtc_error e2 = None then e2\<lparr>ed_rtc_error := Some (take 160 (strip l))\<rparr> else e2);
          e4 = (if contains_str ''dev_no_modem_rtc_join_failed'' l then e3\<lparr>ed_join_failed := True\<rparr> else e3)
      in if ats_line l then e4\<lparr>ed_ats := ed_ats e4 + 1\<rparr> else e4)"

text \<open>\<open>None\<close> is a log file that does not exist.\<close>

definition pull_edge :: "string \<Rightarrow> string list option \<Rightarrow> edge_log" where
  "pull_edge cid file = (case file of None \<Rightarrow> edge_empty False
     | Some ls \<Rightarrow> fold (read_edge_line cid) (edge_segment cid ls) (edge_empty True))"


section \<open>The nine checks\<close>

definition NOISE_GATE_RMS :: nat where "NOISE_GATE_RMS = 1500"
definition UPLINK_RAW_VOICE :: nat where "UPLINK_RAW_VOICE = 2000"
definition UPLINK_RAW_FLOOR :: nat where "UPLINK_RAW_FLOOR = 500"
definition DOWNMIX_ATTEN_SUSPECT :: rat where "DOWNMIX_ATTEN_SUSPECT = 4"
definition DOWNLINK_AUDIBLE_PEAK :: nat where "DOWNLINK_AUDIBLE_PEAK = 300"
definition DOWNLINK_SILENT_PEAK :: nat where "DOWNLINK_SILENT_PEAK = 10"
definition MIC_VOICE_RMS :: nat where "MIC_VOICE_RMS = 2000"
definition MIC_FLOOR :: nat where "MIC_FLOOR = 100"

datatype status = PASS | WARN | FAIL

fun rank :: "status \<Rightarrow> nat" where
  "rank PASS = 0" | "rank WARN = 1" | "rank FAIL = 2"

datatype step =
    EngineHealth | EngineRtcJoin | EdgeRtcJoin | GreetingTts | UplinkAudio | DownlinkAudio | MicCapture | AsrRecognition | HangupFinalize

datatype detail =
    DialConsumed | DialNotConsumed
  | EngineJoined nat | NoJoinLog | EngineJoinFailed nat
  | NoEdgeLog | EdgeRtcError bool string | EdgeJoinFailed | EdgeJoined | NoPump
  | Greeting nat nat | NoGreeting
  | NoInbound | NoSignal nat | WeakSignal nat | UplinkPassed nat nat | UplinkFiltered nat nat "rat option"
  | NoPlayback | Audible nat nat | SilentDownlink nat nat | QuietDownlink nat nat
  | NoMic | MicVoice nat | MicWeak nat | MicSilent nat
  | Recognised nat string | Unparsed nat | NothingRecognised
  | Finalized string string | SilenceHangup nat | NotPersisted string | SilenceUnfinalized | Zombie

record check =
  ck_step :: step
  ck_status :: status
  ck_detail :: detail

definition mk_check :: "step \<Rightarrow> status \<Rightarrow> detail \<Rightarrow> check" where
  "mk_check s st d = \<lparr>ck_step = s, ck_status = st, ck_detail = d\<rparr>"

definition judge_engine_health :: "engine_log \<Rightarrow> check" where
  "judge_engine_health e = (if en_dial e then mk_check EngineHealth PASS DialConsumed else mk_check EngineHealth FAIL DialNotConsumed)"

definition judge_engine_join :: "engine_log \<Rightarrow> check" where
  "judge_engine_join e = (case en_join e of
       None \<Rightarrow> mk_check EngineRtcJoin FAIL NoJoinLog
     | Some (rc, ms) \<Rightarrow> if rc = 0 then mk_check EngineRtcJoin PASS (EngineJoined ms) else mk_check EngineRtcJoin FAIL (EngineJoinFailed rc))"

definition judge_edge_join :: "edge_log \<Rightarrow> check" where
  "judge_edge_join d = (if \<not> ed_present d then mk_check EdgeRtcJoin WARN NoEdgeLog
     else case ed_rtc_error d of
         Some m \<Rightarrow> if m \<noteq> [] then mk_check EdgeRtcJoin FAIL (EdgeRtcError (contains_str ''APP_ID'' m) m)
           else if ed_join_failed d then mk_check EdgeRtcJoin FAIL EdgeJoinFailed
           else if ed_peaks d \<noteq> [] \<or> ed_mic d \<noteq> [] then mk_check EdgeRtcJoin PASS EdgeJoined else mk_check EdgeRtcJoin WARN NoPump
       | None \<Rightarrow> if ed_join_failed d then mk_check EdgeRtcJoin FAIL EdgeJoinFailed
           else if ed_peaks d \<noteq> [] \<or> ed_mic d \<noteq> [] then mk_check EdgeRtcJoin PASS EdgeJoined else mk_check EdgeRtcJoin WARN NoPump)"

definition judge_greeting :: "engine_log \<Rightarrow> check" where
  "judge_greeting e = (case filter (\<lambda>t. 0 < t) (en_tts e) of
       [] \<Rightarrow> mk_check GreetingTts WARN NoGreeting
     | t # ts \<Rightarrow> mk_check GreetingTts PASS (Greeting (length (t # ts)) t))"

definition peak :: "nat list \<Rightarrow> nat" where
  "peak ns = foldl max 0 ns"

definition raw_peak :: "engine_log \<Rightarrow> nat" where
  "raw_peak e = peak (map (\<lambda>(r, _, _). r) (en_inbound e))"

definition final_peak :: "engine_log \<Rightarrow> nat" where
  "final_peak e = peak (map (\<lambda>(_, _, f). f) (en_inbound e))"

definition judge_uplink :: "nat \<Rightarrow> engine_log \<Rightarrow> check" where
  "judge_uplink gate_rms e = (let raw = raw_peak e; final = final_peak e;
       final_at_raw_peak = peak (map (\<lambda>(_, _, f). f) (filter (\<lambda>(r, _, _). r = raw) (en_inbound e)));
       atten = (if final_at_raw_peak \<noteq> 0 then of_nat raw / of_nat final_at_raw_peak else 999) in
     if en_inbound e = [] then mk_check UplinkAudio FAIL NoInbound
     else if raw < UPLINK_RAW_FLOOR then mk_check UplinkAudio FAIL (NoSignal raw)
     else if raw < UPLINK_RAW_VOICE then mk_check UplinkAudio WARN (WeakSignal raw)
     else if gate_rms \<le> final then mk_check UplinkAudio PASS (UplinkPassed raw final)
     else mk_check UplinkAudio FAIL (UplinkFiltered raw final (if DOWNMIX_ATTEN_SUSPECT \<le> atten then Some atten else None)))"

definition judge_downlink :: "edge_log \<Rightarrow> check" where
  "judge_downlink d = (let pk = peak (ed_peaks d) in
     if \<not> ed_present d then mk_check DownlinkAudio WARN NoEdgeLog
     else if ed_peaks d = [] then mk_check DownlinkAudio FAIL NoPlayback
     else if DOWNLINK_AUDIBLE_PEAK \<le> pk then mk_check DownlinkAudio PASS (Audible pk (ed_ats d))
     else if pk < DOWNLINK_SILENT_PEAK then mk_check DownlinkAudio FAIL (SilentDownlink pk (ed_ats d))
     else mk_check DownlinkAudio WARN (QuietDownlink pk (ed_ats d)))"

definition judge_mic :: "edge_log \<Rightarrow> check" where
  "judge_mic d = (let mp = peak (ed_mic d) in
     if \<not> ed_present d then mk_check MicCapture WARN NoEdgeLog
     else if ed_mic d = [] then mk_check MicCapture FAIL NoMic
     else if MIC_VOICE_RMS < mp then mk_check MicCapture PASS (MicVoice mp)
     else if MIC_FLOOR < mp then mk_check MicCapture WARN (MicWeak mp)
     else mk_check MicCapture FAIL (MicSilent mp))"

definition texts :: "engine_log \<Rightarrow> string list" where
  "texts e = filter (\<lambda>t. t \<noteq> []) (en_finals e)"

definition judge_asr :: "engine_log \<Rightarrow> check" where
  "judge_asr e = (case texts e of
       t # ts \<Rightarrow> mk_check AsrRecognition PASS (Recognised (length (t # ts)) t)
     | [] \<Rightarrow> if en_finals e \<noteq> [] then mk_check AsrRecognition WARN (Unparsed (length (en_finals e)))
         else mk_check AsrRecognition FAIL NothingRecognised)"

definition silence_cause :: "string \<Rightarrow> bool" where
  "silence_cause c \<longleftrightarrow> c = ''silence_max_reached'' \<or> c = ''SILENCE_MAX_REACHED''"

definition judge_hangup :: "engine_log \<Rightarrow> check" where
  "judge_hangup e = (case en_finalize e of
       Some (cause, persisted) \<Rightarrow>
         if startswith ''t'' (lower persisted) \<and> \<not> silence_cause cause then mk_check HangupFinalize PASS (Finalized cause persisted)
         else if silence_cause cause then mk_check HangupFinalize WARN (SilenceHangup (length (texts e)))
         else mk_check HangupFinalize WARN (NotPersisted persisted)
     | None \<Rightarrow> if en_silence e then mk_check HangupFinalize WARN SilenceUnfinalized else mk_check HangupFinalize FAIL Zombie)"

definition judge :: "engine_log \<Rightarrow> edge_log \<Rightarrow> nat \<Rightarrow> check list" where
  "judge e d gate_rms = [judge_engine_health e, judge_engine_join e, judge_edge_join d, judge_greeting e, judge_uplink gate_rms e,
     judge_downlink d, judge_mic d, judge_asr e, judge_hangup e]"

text \<open>\<open>max(..., key=rank)\<close>: the first status of the highest rank.\<close>

fun worst :: "status list \<Rightarrow> status" where
  "worst [] = PASS"
| "worst [s] = s"
| "worst (s # t # ss) = worst ((if rank s < rank t then t else s) # ss)"

record report =
  rp_call :: nat
  rp_overall :: status
  rp_checks :: "check list"
  rp_first_text :: "string option"
  rp_cause :: "string option"
  rp_stats :: "nat list"

definition analyze :: "nat \<Rightarrow> string list \<Rightarrow> string list option \<Rightarrow> nat \<Rightarrow> report" where
  "analyze call engine_lines edge_file gate_rms =
     (let cid = nat_str call; e = pull_engine cid engine_lines; d = pull_edge cid edge_file; checks = judge e d gate_rms in
      \<lparr>rp_call = call, rp_overall = worst (map ck_status checks), rp_checks = checks,
       rp_first_text = (case texts e of [] \<Rightarrow> None | t # _ \<Rightarrow> Some t), rp_cause = map_option fst (en_finalize e),
       rp_stats = [length (en_inbound e), raw_peak e, final_peak e, peak (ed_peaks d), peak (ed_mic d), ed_ats d]\<rparr>)"


section \<open>The process\<close>

text \<open>The answer to the empty stream of \<open>_probe\<close>: anything but silence shows a living engine.\<close>

datatype probe_answer = InitialMetadata | NoAnswer | Refused string

definition engine_alive :: "probe_answer \<Rightarrow> bool" where
  "engine_alive a \<longleftrightarrow> a \<noteq> NoAnswer"

text \<open>\<open>main\<close>: \<open>None\<close> for \<open>ssh\<close> is a command that failed, which exits with status 1 as the missing arguments do.\<close>

definition verdict_main :: "bool \<Rightarrow> string \<Rightarrow> probe_answer \<Rightarrow> nat \<Rightarrow> string list option \<Rightarrow> string list option \<Rightarrow> nat \<Rightarrow> nat" where
  "verdict_main probing token_file answer call ssh edge_file gate_rms =
     (if probing then (if token_file = [] then 1 else if engine_alive answer then 0 else 3)
      else if call = 0 then 1
      else case ssh of None \<Rightarrow> 1
        | Some ls \<Rightarrow> if rp_overall (analyze call ls edge_file gate_rms) \<noteq> FAIL then 0 else 1)"


section \<open>What the verdict means\<close>

lemma peak_at_least: "n \<le> peak ns \<longleftrightarrow> n = 0 \<or> (\<exists>x \<in> set ns. n \<le> x)"
proof (induction ns)
  case (Cons m ns)
  have "peak (m # ns) = max m (peak ns)" using foldl_max [of "\<lambda>n. n" m ns] by (simp add: peak_def)
  with Cons show ?case by (auto simp: le_max_iff_disj)
qed (simp add: peak_def)

lemma peak_gt: "n < peak ns \<longleftrightarrow> (\<exists>x \<in> set ns. n < x)"
  using peak_at_least [of "Suc n" ns] by (simp add: Suc_le_eq)

text \<open>The order of the ranks is a linear order of the three, so the overall status is the maximum.\<close>

lemma rank_inject: "rank s = rank t \<longleftrightarrow> s = t"
  by (cases s; cases t) simp_all

instantiation status :: linorder
begin

definition less_eq_status :: "status \<Rightarrow> status \<Rightarrow> bool" where "less_eq_status s t \<longleftrightarrow> rank s \<le> rank t"
definition less_status :: "status \<Rightarrow> status \<Rightarrow> bool" where "less_status s t \<longleftrightarrow> rank s < rank t"

instance
  by standard (auto simp: less_eq_status_def less_status_def rank_inject)

end

lemma status_extremes [simp]: "PASS \<le> s" "s \<le> FAIL" "s \<le> PASS \<longleftrightarrow> s = PASS" "FAIL \<le> s \<longleftrightarrow> s = FAIL" for s :: status
  by (cases s; simp add: less_eq_status_def)+

lemma worst_Max: "ss \<noteq> [] \<Longrightarrow> worst ss = Max (set ss)"
proof (induction ss rule: worst.induct)
  case (3 s t ss)
  have "(if rank s < rank t then t else s) = max s t" by (simp add: max_def less_eq_status_def not_less rank_inject [symmetric])
  with 3 show ?case by (cases "ss = []") (simp_all add: max.assoc)
qed simp_all

lemma worst_PASS: "ss \<noteq> [] \<Longrightarrow> worst ss = PASS \<longleftrightarrow> (\<forall>s \<in> set ss. s = PASS)"
  using Max_le_iff [of "set ss" PASS] by (simp add: worst_Max)

lemma worst_FAIL: "ss \<noteq> [] \<Longrightarrow> worst ss = FAIL \<longleftrightarrow> FAIL \<in> set ss"
  using Max_ge_iff [of "set ss" FAIL] by (auto simp: worst_Max)

text \<open>What the logs of a call that worked show.\<close>

definition worked :: "nat \<Rightarrow> engine_log \<Rightarrow> edge_log \<Rightarrow> bool" where
  "worked gate_rms e d \<longleftrightarrow> en_dial e \<and> (\<exists>ms. en_join e = Some (0, ms))
     \<and> ed_present d \<and> (ed_rtc_error d = None \<or> ed_rtc_error d = Some []) \<and> \<not> ed_join_failed d
     \<and> (\<exists>t \<in> set (en_tts e). 0 < t)
     \<and> (\<exists>(r, p, f) \<in> set (en_inbound e). UPLINK_RAW_VOICE \<le> r) \<and> (\<exists>(r, p, f) \<in> set (en_inbound e). gate_rms \<le> f)
     \<and> (\<exists>pk \<in> set (ed_peaks d). DOWNLINK_AUDIBLE_PEAK \<le> pk) \<and> (\<exists>m \<in> set (ed_mic d). MIC_VOICE_RMS < m)
     \<and> (\<exists>t \<in> set (en_finals e). t \<noteq> [])
     \<and> (\<exists>cause persisted. en_finalize e = Some (cause, persisted) \<and> startswith ''t'' (lower persisted) \<and> \<not> silence_cause cause)"

lemma check_simps [simp]: "ck_status (mk_check s st d) = st" "ck_step (mk_check s st d) = s"
  by (simp_all add: mk_check_def)

lemma uplink_pass:
  "ck_status (judge_uplink g e) = PASS \<longleftrightarrow>
     (\<exists>(r, p, f) \<in> set (en_inbound e). UPLINK_RAW_VOICE \<le> r) \<and> (\<exists>(r, p, f) \<in> set (en_inbound e). g \<le> f)"
proof -
  have raw: "UPLINK_RAW_VOICE \<le> raw_peak e \<longleftrightarrow> (\<exists>(r, p, f) \<in> set (en_inbound e). UPLINK_RAW_VOICE \<le> r)"
    unfolding raw_peak_def peak_at_least by (force simp: UPLINK_RAW_VOICE_def)
  have final: "g \<le> final_peak e \<longleftrightarrow> g = 0 \<or> (\<exists>(r, p, f) \<in> set (en_inbound e). g \<le> f)"
    unfolding final_peak_def peak_at_least by force
  have floor: "UPLINK_RAW_VOICE \<le> n \<Longrightarrow> \<not> n < UPLINK_RAW_FLOOR" for n
    by (simp add: UPLINK_RAW_VOICE_def UPLINK_RAW_FLOOR_def)
  have nonempty: "UPLINK_RAW_VOICE \<le> raw_peak e \<Longrightarrow> en_inbound e \<noteq> []" using raw by auto
  have "ck_status (judge_uplink g e) = PASS \<longleftrightarrow> UPLINK_RAW_VOICE \<le> raw_peak e \<and> g \<le> final_peak e"
    using nonempty floor [of "raw_peak e"] by (auto simp: judge_uplink_def Let_def not_less)
  also have "\<dots> \<longleftrightarrow> UPLINK_RAW_VOICE \<le> raw_peak e \<and> (\<exists>(r, p, f) \<in> set (en_inbound e). g \<le> f)"
    using nonempty unfolding final by (cases "en_inbound e") auto
  finally show ?thesis unfolding raw .
qed

lemma judge_pass: "(\<forall>c \<in> set (judge e d g). ck_status c = PASS) \<longleftrightarrow> worked g e d"
proof -
  have a: "ck_status (judge_engine_health e) = PASS \<longleftrightarrow> en_dial e" by (simp add: judge_engine_health_def)
  have b: "ck_status (judge_engine_join e) = PASS \<longleftrightarrow> (\<exists>ms. en_join e = Some (0, ms))"
    by (auto simp: judge_engine_join_def split: option.splits)
  have c: "ck_status (judge_edge_join d) = PASS \<longleftrightarrow> ed_present d \<and> (ed_rtc_error d = None \<or> ed_rtc_error d = Some [])
      \<and> \<not> ed_join_failed d \<and> (ed_peaks d \<noteq> [] \<or> ed_mic d \<noteq> [])"
    by (auto simp: judge_edge_join_def split: option.splits)
  have f: "ck_status (judge_greeting e) = PASS \<longleftrightarrow> (\<exists>t \<in> set (en_tts e). 0 < t)"
  proof -
    have "ck_status (judge_greeting e) = PASS \<longleftrightarrow> filter (\<lambda>t. 0 < t) (en_tts e) \<noteq> []"
      by (simp add: judge_greeting_def split: list.split)
    then show ?thesis by (simp add: filter_empty_conv)
  qed
  have h: "ck_status (judge_downlink d) = PASS \<longleftrightarrow> ed_present d \<and> (\<exists>pk \<in> set (ed_peaks d). DOWNLINK_AUDIBLE_PEAK \<le> pk)"
    using peak_at_least [of DOWNLINK_AUDIBLE_PEAK "ed_peaks d"] by (auto simp: judge_downlink_def Let_def DOWNLINK_AUDIBLE_PEAK_def)
  have i: "ck_status (judge_mic d) = PASS \<longleftrightarrow> ed_present d \<and> (\<exists>m \<in> set (ed_mic d). MIC_VOICE_RMS < m)"
    using peak_gt [of MIC_VOICE_RMS "ed_mic d"] by (auto simp: judge_mic_def Let_def)
  have j: "ck_status (judge_asr e) = PASS \<longleftrightarrow> (\<exists>t \<in> set (en_finals e). t \<noteq> [])"
  proof -
    have "ck_status (judge_asr e) = PASS \<longleftrightarrow> texts e \<noteq> []"
      by (simp add: judge_asr_def split: list.split)
    then show ?thesis by (simp add: texts_def filter_empty_conv)
  qed
  have k: "ck_status (judge_hangup e) = PASS \<longleftrightarrow> (\<exists>cause persisted. en_finalize e = Some (cause, persisted)
      \<and> startswith ''t'' (lower persisted) \<and> \<not> silence_cause cause)"
    by (auto simp: judge_hangup_def split: option.splits)
  show ?thesis by (auto simp: judge_def worked_def a b c f h i j k uplink_pass)
qed

text \<open>C39. The verdict on a call is exact: it is PASS if and only if the logs show the call from the dial to a persisted end,
  with speech above the thresholds in both directions and a text recognised; and the process exits with status 1 for a
  log it could read exactly when one of the nine checks fails.\<close>

theorem verdict_exact:
  "let e = pull_engine (nat_str call) ls; d = pull_edge (nat_str call) file; r = analyze call ls file gate_rms in
     (rp_overall r = PASS \<longleftrightarrow> worked gate_rms e d)
     \<and> (call \<noteq> 0 \<longrightarrow> verdict_main False tf answer call (Some ls) file gate_rms
           = (if \<exists>c \<in> set (rp_checks r). ck_status c = FAIL then 1 else 0))"
proof -
  let ?cs = "judge (pull_engine (nat_str call) ls) (pull_edge (nat_str call) file) gate_rms"
  have ne: "map ck_status ?cs \<noteq> []" by (simp add: judge_def)
  have "worst (map ck_status ?cs) = PASS \<longleftrightarrow> (\<forall>c \<in> set ?cs. ck_status c = PASS)"
    using worst_PASS [OF ne] by auto
  moreover have "worst (map ck_status ?cs) = FAIL \<longleftrightarrow> (\<exists>c \<in> set ?cs. ck_status c = FAIL)"
    unfolding worst_FAIL [OF ne] by force
  ultimately show ?thesis
    using judge_pass by (simp add: analyze_def verdict_main_def Let_def)
qed

lemma verdict_exact_witness:
  "verdict_main False [] NoAnswer 7 (Some []) None 1500 = 1"
proof -
  have "\<exists>c \<in> set (rp_checks (analyze 7 [] None 1500)). ck_status c = FAIL"
    by (simp add: analyze_def Let_def judge_def judge_engine_health_def pull_engine_def engine_segment_def engine_empty_def)
  then show ?thesis
    using verdict_exact [of 7 "[]" None 1500 "[]" NoAnswer] by (simp add: Let_def)
qed


section \<open>Which lines count\<close>

text \<open>A line that neither dials another call nor ends this one.\<close>

definition inner_line :: "string \<Rightarrow> string \<Rightarrow> bool" where
  "inner_line cid l \<longleftrightarrow> (dial_line l \<longrightarrow> mentions_call cid l) \<and> \<not> own_finalize cid l"

lemma cut_call_inner:
  "\<forall>l \<in> set mid. inner_line cid l \<Longrightarrow> cut_call cid (mid @ rest) = mid @ cut_call cid rest"
  by (induction mid) (auto simp: inner_line_def)



lemma read_dial [simp]:
  "en_dial (read_join cid l e) = en_dial e" "en_dial (read_tts l e) = en_dial e" "en_dial (read_inbound cid l e) = en_dial e"
  "en_dial (read_gate cid l e) = en_dial e" "en_dial (read_asr l e) = en_dial e" "en_dial (read_finalize cid l e) = en_dial e"
  unfolding read_join_def read_tts_def read_inbound_def read_gate_def read_asr_def read_finalize_def
  by (simp_all split: option.split list.split)

text \<open>The identifier is looked for as a substring: a call whose number begins with the digits of another is taken for it.
  A call 16 that the engine never dialled passes the first check on the dial of call 168.\<close>

lemma prefix_of_call_taken:
  assumes "dial_line l" and "mentions_call cid' l" and "cid' = cid @ t"
  shows "en_dial (pull_engine cid [l]) \<and> ck_status (judge_engine_health (pull_engine cid [l])) = PASS"
proof -
  have own: "mentions_call cid l"
    using assms(2,3) by (auto simp: mentions_call_def contains_str_iff)
  have seg: "engine_segment cid [l] = [l]" using assms(1) own by (simp add: engine_segment_def)
  have keep: "en_dial (read_engine_line cid l e) = en_dial e" for e
    by (simp add: read_engine_line_def Let_def)
  show ?thesis by (simp add: pull_engine_def seg keep judge_engine_health_def)
qed

end
