(* ===== verification/Call_Timeline.thy ===== *)
theory Call_Timeline imports Call_Verdict begin

text \<open>
  The timeline of a test call (\<open>scripts/call_timeline.py\<close>): reading the events of the engine and of the edge
  off their logs, merging them by time, folding the streams of one event a second, and deriving the turns and
  the gaps in which the user spoke and no turn came. Times are milliseconds from the first day of the calendar;
  the lines of the logs are inputs.
\<close>

section \<open>Time stamps\<close>

definition leap :: "int \<Rightarrow> bool" where
  "leap y \<longleftrightarrow> y mod 4 = 0 \<and> (y mod 100 \<noteq> 0 \<or> y mod 400 = 0)"

definition month_days :: "int \<Rightarrow> int list" where
  "month_days y = [31, if leap y then 29 else 28, 31, 30, 31, 30, 31, 31, 30, 31, 30, 31]"

text \<open>\<open>strptime\<close> of a date \<open>YYYY-MM-DD\<close> and of a time \<open>HH:MM:SS\<close>; \<open>None\<close> is \<open>ValueError\<close>.\<close>

definition field :: "nat \<Rightarrow> nat \<Rightarrow> string \<Rightarrow> int" where
  "field i n s = int (number (take n (drop i s)))"

definition parse_date :: "string \<Rightarrow> int option" where
  "parse_date s = (let y = field 0 4 s; m = field 5 2 s; d = field 8 2 s in
     if y < 1 \<or> m < 1 \<or> 12 < m \<or> d < 1 \<or> month_days y ! nat (m - 1) < d then None
     else Some (365 * (y - 1) + (y - 1) div 4 - (y - 1) div 100 + (y - 1) div 400
        + sum_list (take (nat (m - 1)) (month_days y)) + d))"

definition parse_time :: "string \<Rightarrow> int option" where
  "parse_time s = (let h = field 0 2 s; m = field 3 2 s; sec = field 6 2 s in
     if 23 < h \<or> 59 < m \<or> 59 < sec then None else Some (((h * 60 + m) * 60 + sec) * 1000))"

definition DAY_MS :: int where "DAY_MS = 86400000"

text \<open>A fixed-width pattern: \<open>#\<close> is a digit, any other character itself.\<close>

fun fits :: "string \<Rightarrow> string \<Rightarrow> bool" where
  "fits [] s = True"
| "fits (p # ps) [] = False"
| "fits (p # ps) (c # s) = ((if p = CHR ''#'' then is_digit c else c = p) \<and> fits ps s)"

definition RE_ENG :: string where "RE_ENG = ''####-##-## ##:##:##,### ''"
definition RE_EDGE :: string where "RE_EDGE = ''##:##:##.### ''"

definition engine_stamp :: "string \<Rightarrow> int option" where
  "engine_stamp l = (case (parse_date (take 10 l), parse_time (take 8 (drop 11 l))) of
       (Some d, Some t) \<Rightarrow> Some (d * DAY_MS + t + field 20 3 l) | _ \<Rightarrow> None)"

definition edge_stamp :: "int \<Rightarrow> string \<Rightarrow> int option" where
  "edge_stamp day l = map_option (\<lambda>t. day * DAY_MS + t + field 9 3 l) (parse_time (take 8 l))"


section \<open>Events\<close>

definition MIC_VOICE_LEVEL :: nat where "MIC_VOICE_LEVEL = 2000"
definition SPK_AUDIBLE_PEAK :: nat where "SPK_AUDIBLE_PEAK = 800"
definition INBOUND_VOICE_RMS :: nat where "INBOUND_VOICE_RMS = 2000"

datatype sys_event = DialReceived | JoinedIn string | FinalizedBy string

record turn =
  tn_user :: string
  tn_reply :: string
  tn_times :: "string list"

datatype payload = Sys sys_event | Mic nat | Rx nat nat | Turn turn | Spk nat

record event =
  ev_t :: int
  ev_what :: payload

definition mk_event :: "int \<Rightarrow> payload \<Rightarrow> event" where
  "mk_event t p = \<lparr>ev_t = t, ev_what = p\<rparr>"

definition backslash :: char where "backslash = CHR 92"

text \<open>\<open>body.replace(old, new)\<close> for an \<open>old\<close> of two characters and a \<open>new\<close> of one.\<close>

fun replace2 :: "char \<Rightarrow> char \<Rightarrow> char \<Rightarrow> string \<Rightarrow> string" where
  "replace2 a b n (x # y # s) = (if x = a \<and> y = b then n # replace2 a b n s else x # replace2 a b n (y # s))"
| "replace2 a b n s = s"

definition unquote :: "string \<Rightarrow> string" where
  "unquote s = (if length s < 2 then s
     else replace2 backslash backslash backslash (replace2 backslash (hd s) (hd s) (butlast (tl s))))"

text \<open>The part of \<open>RE_TURN\<close> between quotes: the text with its quotes, and the rest.\<close>

fun quoted_body :: "char \<Rightarrow> string \<Rightarrow> (string \<times> string) option" where
  "quoted_body q [] = None"
| "quoted_body q (c # s) = (if c = q then Some ([q], s)
     else if c = backslash then (case s of [] \<Rightarrow> None
       | d # s' \<Rightarrow> map_option (\<lambda>(t, r). (c # d # t, r)) (quoted_body q s'))
     else map_option (\<lambda>(t, r). (c # t, r)) (quoted_body q s))"

definition quoted :: "string \<Rightarrow> (string \<times> string) option" where
  "quoted s = (case s of [] \<Rightarrow> None
     | q # t \<Rightarrow> if quote_char q then map_option (\<lambda>(b, r). (q # b, r)) (quoted_body q t) else None)"

definition TURN_FIELDS :: "pat list" where
  "TURN_FIELDS = [Lit '' recv_to_proc_ms='', Word, Lit '' llm_first_token_ms='', Word, Lit '' llm_first_sentence_ms='', Word,
     Lit '' first_audio_ms='', Word, Lit '' recv_to_audio_ms='', Word, Lit '' main_dur_ms='', Word]"

definition turn_here :: "string \<Rightarrow> turn option" where
  "turn_here s = (if \<not> startswith ''turn_timing user='' s then None
     else case quoted (drop 17 s) of None \<Rightarrow> None
       | Some (u, r) \<Rightarrow> if \<not> startswith '' reply='' r then None
           else (case quoted (drop 7 r) of None \<Rightarrow> None
             | Some (v, r2) \<Rightarrow> map_option (\<lambda>times. \<lparr>tn_user = unquote u, tn_reply = unquote v, tn_times = times\<rparr>)
                 (match_here TURN_FIELDS r2)))"

fun search_turn :: "string \<Rightarrow> turn option" where
  "search_turn [] = None"
| "search_turn (c # s) = (case turn_here (c # s) of Some t \<Rightarrow> Some t | None \<Rightarrow> search_turn s)"

definition RE_UPLINK :: "pat list" where
  "RE_UPLINK = [Lit ''rtc_inbound_1s sid='', Num, Gap, Lit ''raw_max_rms='', Num, Lit '' post_downmix_rms='', Num]"

definition RE_SPK :: "pat list" where
  "RE_SPK = [Lit ''dev_playback_recv_1s '', Gap, Lit ''peak='', Num]"

definition first_group :: "pat list \<Rightarrow> string \<Rightarrow> string" where
  "first_group ps l = (case search ps l of Some (g # _) \<Rightarrow> g | _ \<Rightarrow> ''?'')"

definition uplink_event :: "string \<Rightarrow> int \<Rightarrow> string \<Rightarrow> event list" where
  "uplink_event cid t l = (case search RE_UPLINK l of
       Some [sid, raw, post] \<Rightarrow> if sid = cid \<and> INBOUND_VOICE_RMS \<le> number raw then [mk_event t (Rx (number raw) (number post))] else []
     | _ \<Rightarrow> [])"

definition engine_line :: "string \<Rightarrow> int \<Rightarrow> string \<Rightarrow> event list" where
  "engine_line cid t l =
     (if mentions_call cid l \<and> contains_str ''dial_received'' l then [mk_event t (Sys DialReceived)]
      else if contains_str (''channel='' @ cid) l \<and> contains_str ''DingRTC join'' l
        then [mk_event t (Sys (JoinedIn (first_group [Lit ''elapsed_ms='', Num] l)))]
      else if mentions_call cid l \<and> contains_str ''session_finalized'' l
        then [mk_event t (Sys (FinalizedBy (first_group [Lit ''hangup_cause='', Word] l)))]
      else case search_turn l of Some tn \<Rightarrow> [mk_event t (Turn tn)] | None \<Rightarrow> uplink_event cid t l)"

fun timeline_engine :: "string \<Rightarrow> int \<Rightarrow> string list \<Rightarrow> event list option" where
  "timeline_engine cid skew [] = Some []"
| "timeline_engine cid skew (l # ls) = (if \<not> fits RE_ENG l then timeline_engine cid skew ls
     else case engine_stamp l of None \<Rightarrow> None
       | Some t \<Rightarrow> map_option (\<lambda>es. engine_line cid (t - skew) l @ es) (timeline_engine cid skew ls))"

definition edge_line :: "string \<Rightarrow> int \<Rightarrow> string \<Rightarrow> event list" where
  "edge_line cid t l = (let spk = (case search RE_SPK l of
         Some [pk] \<Rightarrow> if SPK_AUDIBLE_PEAK \<le> number pk then [mk_event t (Spk (number pk))] else [] | _ \<Rightarrow> [])
     in case search RE_MIC l of
         Some [c, rms] \<Rightarrow> if c = cid then (if MIC_VOICE_LEVEL \<le> number rms then [mk_event t (Mic (number rms))] else []) else spk
       | _ \<Rightarrow> spk)"

fun timeline_edge_lines :: "string \<Rightarrow> int \<Rightarrow> string list \<Rightarrow> event list option" where
  "timeline_edge_lines cid day [] = Some []"
| "timeline_edge_lines cid day (l # ls) = (if \<not> fits RE_EDGE l then timeline_edge_lines cid day ls
     else case edge_stamp day l of None \<Rightarrow> None
       | Some t \<Rightarrow> map_option (\<lambda>es. edge_line cid t l @ es) (timeline_edge_lines cid day ls))"

definition timeline_edge :: "string \<Rightarrow> int \<Rightarrow> string list option \<Rightarrow> event list option" where
  "timeline_edge cid day file = (case file of None \<Rightarrow> Some [] | Some ls \<Rightarrow> timeline_edge_lines cid day ls)"


section \<open>Metrics\<close>

definition is_turn :: "event \<Rightarrow> bool" where "is_turn e \<longleftrightarrow> (case ev_what e of Turn _ \<Rightarrow> True | _ \<Rightarrow> False)"
definition is_spk :: "event \<Rightarrow> bool" where "is_spk e \<longleftrightarrow> (case ev_what e of Spk _ \<Rightarrow> True | _ \<Rightarrow> False)"
definition is_mic :: "event \<Rightarrow> bool" where "is_mic e \<longleftrightarrow> (case ev_what e of Mic _ \<Rightarrow> True | _ \<Rightarrow> False)"
definition is_rx :: "event \<Rightarrow> bool" where "is_rx e \<longleftrightarrow> (case ev_what e of Rx _ _ \<Rightarrow> True | _ \<Rightarrow> False)"

text \<open>Each turn with the first second in which the loudspeaker was heard from one second before it on.\<close>

definition turn_onsets :: "event list \<Rightarrow> (event \<times> int option) list" where
  "turn_onsets es = map (\<lambda>tn. (tn, map_option ev_t (find (\<lambda>s. ev_t tn - 1000 \<le> ev_t s) (filter is_spk es)))) (filter is_turn es)"

definition second_of :: "int \<Rightarrow> int" where "second_of t = (t div 1000) * 1000"

definition voiced_secs :: "event list \<Rightarrow> int list" where
  "voiced_secs es = remdups (sort (map (\<lambda>m. second_of (ev_t m)) (filter is_mic es)))"

definition unanswered :: "event list \<Rightarrow> int \<times> int \<Rightarrow> bool" where
  "unanswered es p \<longleftrightarrow> (case p of (a, b) \<Rightarrow> 10000 \<le> b - a
     \<and> \<not> list_ex (\<lambda>t. a \<le> ev_t t \<and> ev_t t \<le> b) (filter is_turn es) \<and> list_ex (\<lambda>r. a \<le> ev_t r \<and> ev_t r \<le> b) (filter is_rx es))"

definition silence_gaps :: "event list \<Rightarrow> (int \<times> int) list" where
  "silence_gaps es = (let vs = voiced_secs es in filter (unanswered es) (zip vs (tl vs)))"


section \<open>Printing\<close>

definition noisy :: "event \<Rightarrow> bool" where
  "noisy e \<longleftrightarrow> is_mic e \<or> is_spk e \<or> is_rx e"

definition same_lane :: "event \<Rightarrow> event \<Rightarrow> bool" where
  "same_lane e f \<longleftrightarrow> is_mic e \<and> is_mic f \<or> is_spk e \<and> is_spk f \<or> is_rx e \<and> is_rx f"

datatype printed = Silence int | Line event | Span "event list"

definition flush :: "event list \<Rightarrow> printed list" where
  "flush run = (case run of [] \<Rightarrow> [] | [e] \<Rightarrow> [Line e] | _ \<Rightarrow> [Span run])"

fun print_events :: "int option \<Rightarrow> event list \<Rightarrow> event list \<Rightarrow> printed list" where
  "print_events prev run [] = flush run"
| "print_events prev run (e # es) =
     (case prev of Some t \<Rightarrow> if 5000 \<le> ev_t e - t \<and> run = [] then [Silence (ev_t e - t)] else [] | None \<Rightarrow> [])
     @ (if noisy e \<and> run \<noteq> [] \<and> same_lane (last run) e \<and> ev_t e - ev_t (last run) \<le> 2500
        then print_events (Some (ev_t e)) (run @ [e]) es
        else flush run @ (if noisy e then print_events (Some (ev_t e)) [e] es else Line e # print_events (Some (ev_t e)) [] es))"

text \<open>\<open>main\<close>: what is printed with the metrics; \<open>None\<close> when a log has an impossible time stamp or no event of the call.\<close>

definition timeline_main :: "string \<Rightarrow> int \<Rightarrow> string list \<Rightarrow> string list option
    \<Rightarrow> (printed list \<times> (event \<times> int option) list \<times> (int \<times> int) list) option" where
  "timeline_main cid skew engine_log edge_file = (case timeline_engine cid skew engine_log of
       Some (e # es) \<Rightarrow> (case timeline_edge cid (ev_t e div DAY_MS) edge_file of
           Some fs \<Rightarrow> let events = sort_key ev_t (e # es @ fs) in Some (print_events None [] events, turn_onsets events, silence_gaps events)
         | None \<Rightarrow> None)
     | _ \<Rightarrow> None)"


section \<open>Reading a quoted text back\<close>

text \<open>How \<open>%r\<close> prints a text without control characters, between quotes \<open>q\<close>.\<close>

definition escape :: "char \<Rightarrow> string \<Rightarrow> string" where
  "escape q t = concat (map (\<lambda>c. if c = backslash \<or> c = q then [backslash, c] else [c]) t)"

definition escape_backslashes :: "string \<Rightarrow> string" where
  "escape_backslashes t = concat (map (\<lambda>c. if c = backslash then [backslash, c] else [c]) t)"

lemma replace_skip: "x \<noteq> a \<Longrightarrow> replace2 a b n (x # s) = x # replace2 a b n s"
  by (cases s) auto

lemma escape_simps [simp]:
  "escape q [] = []" "escape q (c # t) = (if c = backslash \<or> c = q then [backslash, c] else [c]) @ escape q t"
  "escape_backslashes [] = []" "escape_backslashes (c # t) = (if c = backslash then [backslash, c] else [c]) @ escape_backslashes t"
  by (simp_all add: escape_def escape_backslashes_def)

lemma escape_no_quote: "q \<noteq> backslash \<Longrightarrow> escape q t = [] \<or> hd (escape q t) \<noteq> q"
  by (cases t) auto

lemma first_pass:
  assumes "q \<noteq> backslash"
  shows "replace2 backslash q q (escape q t) = escape_backslashes t"
proof (induction t)
  case (Cons c t)
  have plain: "replace2 backslash q q (backslash # escape q t) = backslash # replace2 backslash q q (escape q t)"
    using escape_no_quote [OF assms, of t] by (cases "escape q t") auto
  show ?case
  proof (cases "c = backslash")
    case True
    with plain Cons assms show ?thesis by simp
  next
    case False
    with Cons show ?thesis by (auto simp: replace_skip)
  qed
qed simp

lemma second_pass: "replace2 backslash backslash backslash (escape_backslashes t) = t"
  by (induction t) (auto simp: replace_skip)

lemma quoted_body_escape:
  "q \<noteq> backslash \<Longrightarrow> quoted_body q (escape q t @ q # r) = Some (escape q t @ [q], r)"
  by (induction t) auto

text \<open>A text that the engine printed with \<open>%r\<close> is found between its quotes, whatever quotes and backslashes it contains,
  and read back as it was.\<close>

theorem quoted_text_read_back:
  assumes "quote_char q"
  shows "quoted (q # escape q t @ q # r) = Some (q # escape q t @ [q], r) \<and> unquote (q # escape q t @ [q]) = t"
proof -
  have q: "q \<noteq> backslash" using assms by (auto simp: quote_char_def backslash_def)
  show ?thesis
    using assms by (simp add: quoted_def quoted_body_escape [OF q] unquote_def first_pass [OF q] second_pass)
qed

lemma quoted_text_read_back_witness:
  "unquote [CHR 39, CHR ''a'', CHR 92, CHR 92, CHR 92, CHR 39, CHR 39] = [CHR ''a'', CHR 92, CHR 39]"
  using quoted_text_read_back [of "CHR 39" "[CHR ''a'', CHR 92, CHR 39]" "[]"]
  by (simp add: quote_char_def backslash_def)


section \<open>The gaps and the printed lines\<close>

lemma sorted_pairs:
  fixes vs :: "'a :: linorder list"
  assumes "sorted vs" and "distinct vs"
  shows "(a, b) \<in> set (zip vs (tl vs)) \<longleftrightarrow> a \<in> set vs \<and> b \<in> set vs \<and> a < b \<and> (\<forall>c \<in> set vs. \<not> (a < c \<and> c < b))"
  using assms
proof (induction vs rule: induct_list012)
  case (3 x y zs)
  have ord: "x < y" "\<And>z. z \<in> set zs \<Longrightarrow> y < z" "\<And>z. z \<in> set (y # zs) \<Longrightarrow> x < z"
    using 3(3,4) by (auto simp: less_le)
  have ih: "(a, b) \<in> set (zip (y # zs) zs) \<longleftrightarrow> a \<in> set (y # zs) \<and> b \<in> set (y # zs) \<and> a < b \<and> (\<forall>c \<in> set (y # zs). \<not> (a < c \<and> c < b))"
    using 3 by simp
  have step: "(a, b) \<in> set (zip (x # y # zs) (tl (x # y # zs))) \<longleftrightarrow> (a = x \<and> b = y) \<or> (a, b) \<in> set (zip (y # zs) zs)" by auto
  have x_out: "x \<notin> set (y # zs)" using ord(3) by blast
  show ?case
  proof (cases "a = x")
    case True
    have "(a, b) \<notin> set (zip (y # zs) zs)" using x_out True by (auto dest: set_zip_leftD)
    moreover have "b = y \<longleftrightarrow> b \<in> set (x # y # zs) \<and> x < b \<and> (\<forall>c \<in> set (x # y # zs). \<not> (x < c \<and> c < b))"
    proof
      assume "b = y"
      then show "b \<in> set (x # y # zs) \<and> x < b \<and> (\<forall>c \<in> set (x # y # zs). \<not> (x < c \<and> c < b))" using ord by (auto dest: less_asym)
    next
      assume b: "b \<in> set (x # y # zs) \<and> x < b \<and> (\<forall>c \<in> set (x # y # zs). \<not> (x < c \<and> c < b))"
      then have "\<not> y < b" using ord(1) by simp
      then show "b = y" using b ord(2) by auto
    qed
    ultimately show ?thesis unfolding step using True by simp
  next
    case False
    define S where "S = set (y # zs)"
    have "\<not> a < x" if "a \<in> S" using ord(3) [of a] that by (simp add: S_def)
    then have "a \<in> insert x S \<and> b \<in> insert x S \<and> a < b \<and> (\<forall>c \<in> insert x S. \<not> (a < c \<and> c < b))
      \<longleftrightarrow> a \<in> S \<and> b \<in> S \<and> a < b \<and> (\<forall>c \<in> S. \<not> (a < c \<and> c < b))" using False by auto
    then show ?thesis unfolding step ih using False by (simp add: S_def)
  qed
qed auto

text \<open>The gaps reported are exactly the pairs of neighbouring seconds in which the user spoke that lie at least ten seconds
  apart with no turn between them although speech reached the engine between them.\<close>

theorem gaps_exact:
  "(a, b) \<in> set (silence_gaps es) \<longleftrightarrow>
     (let secs = {second_of (ev_t m) | m. m \<in> set es \<and> is_mic m} in
      a \<in> secs \<and> b \<in> secs \<and> a < b \<and> (\<forall>c \<in> secs. \<not> (a < c \<and> c < b)) \<and> 10000 \<le> b - a
      \<and> (\<forall>t \<in> set es. is_turn t \<longrightarrow> \<not> (a \<le> ev_t t \<and> ev_t t \<le> b)) \<and> (\<exists>r \<in> set es. is_rx r \<and> a \<le> ev_t r \<and> ev_t r \<le> b))"
proof -
  have secs: "set (voiced_secs es) = {second_of (ev_t m) | m. m \<in> set es \<and> is_mic m}"
    by (auto simp: voiced_secs_def)
  have "sorted (voiced_secs es)" "distinct (voiced_secs es)" by (simp_all add: voiced_secs_def sorted_remdups)
  from sorted_pairs [OF this, of a b] show ?thesis
    unfolding secs by (auto simp: silence_gaps_def Let_def unanswered_def list_ex_iff)
qed

definition shown :: "printed list \<Rightarrow> event list" where
  "shown ps = concat (map (\<lambda>p. case p of Silence _ \<Rightarrow> [] | Line e \<Rightarrow> [e] | Span es \<Rightarrow> es) ps)"

lemma shown_simps [simp]:
  "shown [] = []" "shown (ps @ qs) = shown ps @ shown qs" "shown (Silence n # ps) = shown ps"
  "shown (Line e # ps) = e # shown ps" "shown (Span es # ps) = es @ shown ps" "shown (flush run) = run"
  by (auto simp: shown_def flush_def split: list.splits)

lemma print_events_shown: "shown (print_events prev run es) = run @ es"
  by (induction prev run es rule: print_events.induct) (auto split: option.splits)

text \<open>Every event of the two logs is printed once, in the order of time.\<close>

lemma every_event_printed:
  assumes "timeline_main cid skew ls file = Some (printed, m)" and "timeline_engine cid skew ls = Some (e # es)"
    and "timeline_edge cid (ev_t e div DAY_MS) file = Some fs"
  shows "shown printed = sort_key ev_t (e # es @ fs)"
  using assms by (auto simp: timeline_main_def Let_def print_events_shown)

text \<open>A pause after a stream of one event a second is not printed as such.\<close>

lemma pause_after_stream_not_printed:
  "print_events None [] [mk_event 0 (Mic 3000), mk_event 60000 (Sys DialReceived)]
    = [Line (mk_event 0 (Mic 3000)), Line (mk_event 60000 (Sys DialReceived))]"
  by (simp add: noisy_def is_mic_def is_spk_def is_rx_def mk_event_def flush_def)

end
