(* ===== verification/Smoke_Scripts.thy ===== *)
theory Smoke_Scripts imports Call_Verdict begin

text \<open>
  The two end-to-end scripts: the development call without a modem (\<open>scripts/mac_dev_no_modem_smoke.py\<close>) and the
  joint dial with a real modem (\<open>scripts/joint_mvp_dial.py\<close>). Their phases in order with the conditions under
  which each gives up, the polling of the database, the wait for the daemon, the exit status and the cleanup.
  What the remote commands, the files and the operator answer is an input; a log names the effects.
\<close>

section \<open>Scripts and remote commands\<close>

datatype effect = EdgeSpawned | EdgeTerminated | EdgeKilled | DialInjected | CampaignStarted | Analysed | OperatorAsked

definition quit :: "(effect list, 'a) proc" where
  "quit = raise (OtherError ''SystemExit'')"

definition effect :: "effect \<Rightarrow> (effect list, unit) proc" where
  "effect x = modify (\<lambda>l. l @ [x])"

text \<open>A remote command: its output, an exit status other than 0, or no answer in time.\<close>

datatype remote = Output string | BadStatus | NoReply

definition line_feed :: char where "line_feed = CHR 10"

definition ssh_cmd :: "remote \<Rightarrow> (effect list, string) proc" where
  "ssh_cmd r = (case r of Output s \<Rightarrow> ret (rstrip_by (\<lambda>c. c = line_feed) s) | BadStatus \<Rightarrow> quit | NoReply \<Rightarrow> raise (OtherError ''TimeoutExpired''))"

definition demand :: "bool \<Rightarrow> (effect list, unit) proc" where
  "demand ok = (if ok then ret () else quit)"


section \<open>The call without a modem\<close>

record smoke_args =
  sa_dry_run :: bool
  sa_preflight_only :: bool
  sa_skip_freeze_probe :: bool
  sa_skip_edge_start :: bool
  sa_no_listen :: bool

text \<open>What the phases meet. \<open>sw_rows\<close> are the rows the polls read before the deadline, \<open>sw_transcript\<close> the answer of the
  transcript query, \<open>sw_json_length\<close> the length of the list a text is as JSON, if it is one; \<open>sw_traces\<close> is the answer of the
  query for the turns' traces and \<open>sw_traces_shown\<close> whether they can be printed.\<close>

datatype edge_poll = EdgeExited int | EdgeLog string

record smoke_world =
  sw_services :: remote
  sw_framework :: bool
  sw_binary :: bool
  sw_lead :: remote
  sw_campaign :: remote
  sw_credentials :: remote
  sw_jwt :: remote
  sw_probe :: probe_answer
  sw_edge :: "edge_poll list"
  sw_copied :: bool
  sw_inject :: remote
  sw_injected_ok :: "string \<Rightarrow> bool option"
  sw_rows :: "remote list"
  sw_transcript :: remote
  sw_traces :: remote
  sw_traces_shown :: "string \<Rightarrow> bool"
  sw_json_length :: "string \<Rightarrow> nat option"
  sw_engine_log :: "string list option"
  sw_edge_log :: "string list option"
  sw_answer :: string

definition services_active :: "string \<Rightarrow> bool" where
  "services_active out \<longleftrightarrow> list_all (\<lambda>s. strip s = ''active'') (split_on line_feed out)"

definition row_present :: "string \<Rightarrow> bool" where
  "row_present out \<longleftrightarrow> out \<noteq> [] \<and> CHR ''|'' \<in> set out"

definition phase_preflight :: "smoke_world \<Rightarrow> (effect list, unit) proc" where
  "phase_preflight w =
     bindm (ssh_cmd (sw_services w)) (\<lambda>out. seqm (demand (services_active out))
     (seqm (demand (sw_framework w)) (seqm (demand (sw_binary w))
     (bindm (ssh_cmd (sw_lead w)) (\<lambda>lead. seqm (demand (row_present lead))
     (bindm (ssh_cmd (sw_campaign w)) (\<lambda>campaign. seqm (demand (row_present campaign))
     (bindm (ssh_cmd (sw_credentials w)) (\<lambda>_. ret ())))))))))"

definition jwt_ok :: "string \<Rightarrow> bool" where
  "jwt_ok jwt \<longleftrightarrow> 50 \<le> length jwt \<and> length (filter (\<lambda>c. c = CHR ''.'') jwt) = 2"

definition phase_mint_jwt :: "smoke_world \<Rightarrow> (effect list, string) proc" where
  "phase_mint_jwt w = bindm (ssh_cmd (sw_jwt w)) (\<lambda>jwt. seqm (demand (jwt_ok jwt)) (ret jwt))"

text \<open>The settings taken over from the engine's environment file, in the order of its lines.\<close>

definition override_of :: "string \<Rightarrow> (string \<times> string) option" where
  "override_of l0 = (let l = strip l0 in
     if l = [] \<or> startswith ''#'' l \<or> CHR ''='' \<notin> set l then None
     else let k = takeWhile (\<lambda>c. c \<noteq> CHR ''='') l; v = tl (dropWhile (\<lambda>c. c \<noteq> CHR ''='') l) in
       if startswith ''ISALES_RTC_'' k \<or> k = ''ISALES_JWT_SECRET'' then Some (k, v) else None)"

definition edge_env :: "(string \<rightharpoonup> string) \<Rightarrow> string \<Rightarrow> string \<Rightarrow> string \<Rightarrow> string list \<Rightarrow> string option \<Rightarrow> (string \<rightharpoonup> string)" where
  "edge_env env endpoint jwt framework engine_env record_dir =
     (let base = env(''ISALES_CLOUD_EDGE_ENDPOINT'' \<mapsto> endpoint, ''ISALES_EDGE_DEVICE_TOKEN'' \<mapsto> jwt,
            ''ISALES_MACOS_DINGRTC_FRAMEWORK_PATH'' \<mapsto> framework, ''ISALES_LOG_LEVEL'' \<mapsto> ''INFO'');
          full = foldl (\<lambda>m l. case override_of l of None \<Rightarrow> m | Some (k, v) \<Rightarrow> m(k \<mapsto> v)) base engine_env
      in case record_dir of None \<Rightarrow> full | Some d \<Rightarrow> if d = [] then full else full(''ISALES_EDGE_RECORDINGS_DIR'' \<mapsto> d))"

text \<open>The wait of \<open>phase_start_edge\<close> over its polls before the deadline: both marks, in whichever poll each is first seen.\<close>

fun edge_ready :: "bool \<Rightarrow> bool \<Rightarrow> edge_poll list \<Rightarrow> bool" where
  "edge_ready ready grpc [] = False"
| "edge_ready ready grpc (EdgeExited rc # polls) = False"
| "edge_ready ready grpc (EdgeLog l # polls) =
     (let ready' = (ready \<or> contains_str ''edge_daemon_started_dev_no_modem'' l);
          grpc' = (grpc \<or> contains_str ''cloud_edge_stream_opened'' l \<or> contains_str ''cloud_edge_stream_connected'' l)
      in (ready' \<and> grpc') \<or> edge_ready ready' grpc' polls)"

definition phase_start_edge :: "smoke_world \<Rightarrow> (effect list, unit) proc" where
  "phase_start_edge w = seqm (effect EdgeSpawned) (demand (edge_ready False False (sw_edge w)))"

definition phase_inject_dial :: "smoke_world \<Rightarrow> (effect list, unit) proc" where
  "phase_inject_dial w = seqm (demand (sw_copied w)) (bindm (ssh_cmd (sw_inject w)) (\<lambda>out.
     seqm (effect DialInjected) (demand (sw_injected_ok w out = Some True))))"

record call_row =
  cr_call :: int
  cr_status :: string
  cr_length :: "nat option"

definition transcript_length :: "smoke_world \<Rightarrow> string \<Rightarrow> nat option" where
  "transcript_length w t = (if t = [] then Some 0 else sw_json_length w t)"

definition terminal_status :: "string \<Rightarrow> bool" where
  "terminal_status s \<longleftrightarrow> s \<in> {''end'', ''ended'', ''failed'', ''abandoned''}"

fun poll_call_record :: "smoke_world \<Rightarrow> (int \<times> string) option \<Rightarrow> remote list \<Rightarrow> (effect list, call_row) proc" where
  "poll_call_record w seen [] = (case seen of
       None \<Rightarrow> quit
     | Some (call, status) \<Rightarrow> bindm (ssh_cmd (sw_transcript w)) (\<lambda>t.
         ret \<lparr>cr_call = call, cr_status = (if status = [] then ''timeout'' else status), cr_length = transcript_length w t\<rparr>))"
| "poll_call_record w seen (r # rows) = bindm (ssh_cmd r) (\<lambda>row.
     if \<not> row_present row then poll_call_record w seen rows
     else (let parts = map strip (split_on (CHR ''|'') row) in
       case py_int (parts ! 0) of
         None \<Rightarrow> raise (ValueError ''invalid literal for int()'')
       | Some call \<Rightarrow> if terminal_status (parts ! 1)
           then bindm (ssh_cmd (sw_transcript w)) (\<lambda>t. ret \<lparr>cr_call = call, cr_status = parts ! 1, cr_length = transcript_length w t\<rparr>)
           else poll_call_record w (Some (call, parts ! 1)) rows))"

text \<open>\<open>phase_dialog_timeline\<close>: nothing without a transcript; a trace without its \<open>turn_id\<close>, or with a text where a number is
  expected, is an exception.\<close>

definition phase_dialog_timeline :: "smoke_world \<Rightarrow> call_row \<Rightarrow> (effect list, unit) proc" where
  "phase_dialog_timeline w row = (if cr_length row \<in> {None, Some 0} then ret ()
     else bindm (ssh_cmd (sw_traces w)) (\<lambda>t. if sw_traces_shown w t then ret () else raise (OtherError ''KeyError'')))"

definition phase_listen_check :: "smoke_world \<Rightarrow> (effect list, bool) proc" where
  "phase_listen_check w = seqm (effect OperatorAsked) (ret (lower (strip (sw_answer w)) \<in> {''y'', ''yes'', ''1'', ''true''}))"

definition smoke_ok :: "status \<Rightarrow> bool option \<Rightarrow> bool" where
  "smoke_ok overall listened \<longleftrightarrow> overall \<noteq> FAIL \<and> listened \<noteq> Some False"

definition judge_call :: "smoke_world \<Rightarrow> int \<Rightarrow> (effect list, status) proc" where
  "judge_call w call = (case sw_engine_log w of None \<Rightarrow> quit
     | Some ls \<Rightarrow> seqm (effect Analysed) (ret (rp_overall (analyze (nat call) ls (sw_edge_log w) NOISE_GATE_RMS))))"

definition smoke_body :: "smoke_args \<Rightarrow> smoke_world \<Rightarrow> (effect list, nat) proc" where
  "smoke_body a w = seqm (phase_inject_dial w) (bindm (poll_call_record w None (sw_rows w)) (\<lambda>row.
     bindm (judge_call w (cr_call row)) (\<lambda>overall. seqm (phase_dialog_timeline w row)
     (bindm (if sa_no_listen a then ret None else bindm (phase_listen_check w) (\<lambda>b. ret (Some b))) (\<lambda>listened.
       ret (if smoke_ok overall listened then 0 else 1))))))"

definition smoke_main :: "smoke_args \<Rightarrow> smoke_world \<Rightarrow> (effect list, nat) proc" where
  "smoke_main a w = (if sa_dry_run a then ret 0
     else seqm (phase_preflight w) (if sa_preflight_only a then ret 0
       else bindm (phase_mint_jwt w) (\<lambda>jwt.
         seqm (demand (sa_skip_freeze_probe a \<or> engine_alive (sw_probe w)))
         (seqm (if sa_skip_edge_start a then ret () else phase_start_edge w)
           (finallym (smoke_body a w) (if sa_skip_edge_start a then ret () else effect EdgeTerminated))))))"


section \<open>The joint dial\<close>

text \<open>\<open>run_ssh\<close> with its retries.\<close>

fun run_ssh :: "nat \<Rightarrow> remote list \<Rightarrow> (effect list, string) proc" where
  "run_ssh retries [] = quit"
| "run_ssh retries (r # rs) = (case r of Output s \<Rightarrow> ret s
     | _ \<Rightarrow> (case retries of 0 \<Rightarrow> quit | Suc n \<Rightarrow> run_ssh n rs))"

record joint_world =
  jw_dry_run :: bool
  jw_binding :: bool
  jw_smoke_exists :: bool
  jw_services :: remote
  jw_lead :: remote
  jw_campaign :: remote
  jw_device :: remote
  jw_devices :: remote
  jw_counter :: remote
  jw_scans :: "string list option list"
  jw_token :: string
  jw_start :: remote
  jw_polls :: "remote list list"
  jw_diagnostics :: "remote list list"
  jw_json_length :: "string \<Rightarrow> nat option"
  jw_answer :: string
  jw_stops :: bool

definition nonblank_lines :: "string \<Rightarrow> string list" where
  "nonblank_lines out = filter (\<lambda>l. l \<noteq> []) (map strip (split_on line_feed (strip out)))"

definition step_preflight :: "joint_world \<Rightarrow> (effect list, unit) proc" where
  "step_preflight w = seqm (demand (jw_binding w)) (seqm (demand (jw_smoke_exists w))
     (bindm (run_ssh 0 [jw_services w]) (\<lambda>out.
       demand (length (nonblank_lines out) = 4 \<and> list_all (\<lambda>s. s = ''active'') (nonblank_lines out)))))"

definition lead_ready :: "string \<Rightarrow> bool" where
  "lead_ready row \<longleftrightarrow> (let parts = split_on (CHR ''|'') row; s = (if 1 < length parts then parts ! 1 else ''unknown'')
     in s \<in> {''new'', ''retrying'', ''following_up''})"

definition step_verify_prerequisites :: "joint_world \<Rightarrow> (effect list, unit) proc" where
  "step_verify_prerequisites w =
     bindm (run_ssh 0 [jw_lead w]) (\<lambda>lead. seqm (demand (strip lead \<noteq> [] \<and> lead_ready (strip lead)))
     (bindm (run_ssh 0 [jw_campaign w]) (\<lambda>campaign. seqm (demand (strip campaign \<noteq> []))
     (bindm (run_ssh 0 [jw_device w]) (\<lambda>device.
       seqm (if strip device = [] then bindm (run_ssh 0 [jw_devices w]) (\<lambda>_. quit)
         else if length (split_on (CHR ''|'') (strip device)) < 3 then raise (OtherError ''IndexError'') else ret ())
     (bindm (run_ssh 0 [jw_counter w]) (\<lambda>counter. let v = strip counter in
       if v = [] \<or> v = ''(nil)'' \<or> py_int v \<noteq> None then ret () else raise (ValueError ''invalid literal for int()''))))))))"

definition needles :: "string list" where
  "needles = [''READY:modem_registered'', ''READY:grpc_connected'', ''READY:dingrtc_loaded'']"

text \<open>\<open>step_wait_daemon_ready\<close>: each poll reads the lines that were appended since the last one, the first everything that
  the file holds; \<open>None\<close> is a file that does not exist yet.\<close>

fun daemon_ready :: "string set \<Rightarrow> string list option list \<Rightarrow> bool" where
  "daemon_ready seen [] = False"
| "daemon_ready seen (None # scans) = daemon_ready seen scans"
| "daemon_ready seen (Some ls # scans) = (let seen' = seen \<union> {n \<in> set needles. \<exists>l \<in> set ls. contains_str n l}
     in seen' = set needles \<or> daemon_ready seen' scans)"

definition step_trigger_campaign :: "joint_world \<Rightarrow> (effect list, unit) proc" where
  "step_trigger_campaign w = (if jw_dry_run w then ret ()
     else seqm (demand (jw_token w \<noteq> [])) (bindm (run_ssh 0 [jw_start w]) (\<lambda>out.
       seqm (demand (contains_str ''200'' out \<or> contains_str ''201'' out \<or> contains_str ''202'' out)) (effect CampaignStarted))))"

record dial_record =
  dr_call :: int
  dr_status :: string
  dr_seconds :: "nat option"
  dr_transcript :: nat

definition joint_terminal :: "string \<Rightarrow> bool" where
  "joint_terminal s \<longleftrightarrow> s \<in> {''end'', ''completed'', ''failed''}"

fun poll_joint :: "joint_world \<Rightarrow> remote list list \<Rightarrow> (effect list, dial_record) proc" where
  "poll_joint w [] = foldr (\<lambda>rs k. bindm (run_ssh 2 rs) (\<lambda>_. k)) (jw_diagnostics w) quit"
| "poll_joint w (rs # polls) = bindm (run_ssh 2 rs) (\<lambda>out.
     let line = (if strip out = [] then [] else hd (split_on line_feed (strip out))); parts = split_on (CHR ''|'') line in
     if line = [] \<or> length parts < 6 \<or> \<not> joint_terminal (parts ! 1) then poll_joint w polls
     else (case py_int (parts ! 0) of
         None \<Rightarrow> raise (ValueError ''invalid literal for int()'')
       | Some call \<Rightarrow> ret \<lparr>dr_call = call, dr_status = parts ! 1,
           dr_seconds = (if parts ! 4 \<noteq> [] \<and> list_all is_digit (parts ! 4) then Some (number (parts ! 4)) else None),
           dr_transcript = (case jw_json_length w (parts ! 5) of None \<Rightarrow> 0 | Some n \<Rightarrow> n)\<rparr>))"

definition step_listen_confirm :: "joint_world \<Rightarrow> (effect list, bool) proc" where
  "step_listen_confirm w = seqm (effect OperatorAsked) (ret (lower (strip (jw_answer w)) \<in> {''yes'', ''y''}))"

definition stop_daemon :: "joint_world \<Rightarrow> (effect list, unit) proc" where
  "stop_daemon w = (if jw_dry_run w then ret () else seqm (effect EdgeTerminated) (if jw_stops w then ret () else effect EdgeKilled))"

definition joint_body :: "joint_world \<Rightarrow> (effect list, nat) proc" where
  "joint_body w = seqm (demand (jw_dry_run w \<or> daemon_ready {} (jw_scans w))) (seqm (step_trigger_campaign w)
     (if jw_dry_run w then ret 0
      else bindm (poll_joint w (jw_polls w)) (\<lambda>_. bindm (step_listen_confirm w) (\<lambda>heard. ret (if heard then 0 else 1)))))"

definition joint_main :: "joint_world \<Rightarrow> (effect list, nat) proc" where
  "joint_main w = seqm (step_preflight w) (seqm (step_verify_prerequisites w)
     (seqm (if jw_dry_run w then ret () else effect EdgeSpawned) (finallym (joint_body w) (stop_daemon w))))"


section \<open>What the scripts leave behind\<close>

definition spawned :: "effect list \<Rightarrow> nat" where "spawned l = length (filter (\<lambda>x. x = EdgeSpawned) l)"
definition terminated :: "effect list \<Rightarrow> nat" where "terminated l = length (filter (\<lambda>x. x = EdgeTerminated) l)"

lemma process_counts [simp]:
  "spawned [] = 0" "spawned (l @ l') = spawned l + spawned l'" "spawned (x # l) = (if x = EdgeSpawned then 1 else 0) + spawned l"
  "terminated [] = 0" "terminated (l @ l') = terminated l + terminated l'"
  "terminated (x # l) = (if x = EdgeTerminated then 1 else 0) + terminated l"
  by (simp_all add: spawned_def terminated_def)

text \<open>A step that starts and stops no process.\<close>

definition bystander :: "(effect list, 'a) proc \<Rightarrow> bool" where
  "bystander f \<longleftrightarrow> (\<forall>l. spawned (snd (f l)) = spawned l \<and> terminated (snd (f l)) = terminated l)"

named_theorems bystander_rules \<open>steps that start and stop no process\<close>

lemma bystander_basic [bystander_rules]:
  "bystander (ret x)" "bystander (raise e)" "bystander quit" "bystander (demand b)" "bystander (ssh_cmd r)"
  by (auto simp: bystander_def ret_def raise_def quit_def demand_def ssh_cmd_def split: remote.splits)

lemma bystander_effect [bystander_rules]: "x \<noteq> EdgeSpawned \<Longrightarrow> x \<noteq> EdgeTerminated \<Longrightarrow> bystander (effect x)"
  by (simp add: bystander_def effect_def modify_def)

lemma bystander_bindm [bystander_rules]:
  assumes "bystander f" and "\<And>x. bystander (k x)"
  shows "bystander (bindm f k)"
  unfolding bystander_def
proof (intro allI)
  fix l
  obtain r l1 where f: "f l = (r, l1)" by (cases "f l")
  have one: "spawned l1 = spawned l" "terminated l1 = terminated l" using assms(1) f unfolding bystander_def by (metis snd_conv)+
  show "spawned (snd (bindm f k l)) = spawned l \<and> terminated (snd (bindm f k l)) = terminated l"
  proof (cases r)
    case (Inl e)
    with f one show ?thesis by (simp add: bindm_def)
  next
    case (Inr x)
    with f one assms(2) [of x] show ?thesis by (simp add: bindm_def bystander_def)
  qed
qed

lemma bystander_seqm [bystander_rules]: "bystander f \<Longrightarrow> bystander k \<Longrightarrow> bystander (seqm f k)"
  unfolding seqm_def by (rule bystander_bindm)

lemma bystander_run_ssh [bystander_rules]: "bystander (run_ssh n rs)"
  by (induction n rs rule: run_ssh.induct) (auto intro: bystander_rules split: remote.splits nat.splits)

lemma bystander_joint [bystander_rules]:
  "bystander (step_preflight w)" "bystander (step_verify_prerequisites w)" "bystander (step_trigger_campaign w)"
  "bystander (step_listen_confirm w)"
  by (auto simp del: run_ssh.simps simp: step_preflight_def step_verify_prerequisites_def step_trigger_campaign_def
      step_listen_confirm_def Let_def intro!: bystander_rules)

lemma bystander_poll_joint [bystander_rules]: "bystander (poll_joint w polls)"
proof (induction polls)
  case Nil
  have "bystander (foldr (\<lambda>rs k. bindm (run_ssh 2 rs) (\<lambda>_. k)) ds (quit :: (effect list, dial_record) proc))" for ds
    by (induction ds) (auto intro!: bystander_rules)
  then show ?case by simp
next
  case (Cons rs polls)
  then show ?case by (auto simp: Let_def intro!: bystander_rules split: option.splits)
qed

lemma bystander_smoke [bystander_rules]:
  "bystander (phase_preflight w)" "bystander (phase_mint_jwt w)" "bystander (phase_inject_dial w)"
  "bystander (phase_dialog_timeline w row)" "bystander (phase_listen_check w)" "bystander (judge_call w n)"
  by (auto simp: phase_preflight_def phase_mint_jwt_def phase_inject_dial_def phase_dialog_timeline_def phase_listen_check_def
      judge_call_def intro!: bystander_rules split: option.splits)

lemma bystander_poll_call_record [bystander_rules]: "bystander (poll_call_record w seen rows)"
  by (induction w seen rows rule: poll_call_record.induct)
    (auto simp: Let_def intro!: bystander_rules split: option.splits)

lemma bystander_smoke_body: "bystander (smoke_body a w)"
  by (auto simp: smoke_body_def intro!: bystander_rules)

text \<open>C38. However the joint dial ends, by its exit status, by giving up or by an exception, the daemon it has started has been
  told to stop exactly once; it starts one exactly when it is no dry run and its checks pass.\<close>

theorem joint_daemon_always_stopped:
  "spawned (snd (joint_main w [])) = (if \<not> jw_dry_run w \<and> fst (seqm (step_preflight w) (step_verify_prerequisites w) []) = Inr () then 1 else 0)
    \<and> terminated (snd (joint_main w [])) = spawned (snd (joint_main w []))"
proof -
  have body: "bystander (joint_body w)"
    by (auto simp: joint_body_def intro!: bystander_rules)
  let ?pre = "seqm (step_preflight w) (step_verify_prerequisites w)"
  obtain r l2 where pre: "?pre [] = (r, l2)" by (cases "?pre []")
  have none: "spawned l2 = 0" "terminated l2 = 0"
    using bystander_seqm [OF bystander_joint(1,2), of w w] pre unfolding bystander_def by (metis snd_conv process_counts(1,4))+
  let ?rest = "seqm (if jw_dry_run w then ret () else effect EdgeSpawned) (finallym (joint_body w) (stop_daemon w))"
  have main: "joint_main w [] = (case r of Inl e \<Rightarrow> (Inl e, l2) | Inr u \<Rightarrow> ?rest l2)"
    using pre by (auto simp: joint_main_def seqm_def bindm_def split: prod.splits sum.splits)
  show ?thesis
  proof (cases r)
    case (Inl e)
    with main pre none show ?thesis by simp
  next
    case (Inr u)
    let ?l = "if jw_dry_run w then l2 else l2 @ [EdgeSpawned]"
    obtain r3 l3 where b: "joint_body w ?l = (r3, l3)" by (cases "joint_body w ?l")
    have "spawned l3 = spawned ?l" "terminated l3 = terminated ?l" using body b unfolding bystander_def by (metis snd_conv)+
    moreover have "joint_main w [] = finallym (joint_body w) (stop_daemon w) ?l"
      using Inr main by (auto simp: seqm_def bindm_def effect_def modify_def ret_def)
    ultimately show ?thesis
      using b none pre Inr by (auto simp: finallym_def stop_daemon_def seqm_def bindm_def effect_def modify_def ret_def split: sum.splits)
  qed
qed

text \<open>The script waits until every mark has been seen in some line it has read, in whatever order and whichever poll.\<close>

lemma daemon_ready_iff:
  assumes "seen \<subset> set needles"
  shows "daemon_ready seen scans \<longleftrightarrow> (\<forall>n \<in> set needles. n \<in> seen \<or> (\<exists>ls \<in> set scans. \<exists>l \<in> set (case ls of None \<Rightarrow> [] | Some x \<Rightarrow> x). contains_str n l))"
  using assms
proof (induction seen scans rule: daemon_ready.induct)
  case (1 seen)
  then show ?case by auto
next
  case (2 seen scans)
  then show ?case by simp
next
  case (3 seen ls scans)
  let ?new = "seen \<union> {n \<in> set needles. \<exists>l \<in> set ls. contains_str n l}"
  show ?case
  proof (cases "?new = set needles")
    case True
    then have "\<forall>n \<in> set needles. n \<in> seen \<or> (\<exists>l \<in> set ls. contains_str n l)" by blast
    with True show ?thesis by (auto simp: Let_def)
  next
    case False
    with 3(2) have "?new \<subset> set needles" by blast
    from 3(1) [OF refl this] False show ?thesis by (auto simp: Let_def)
  qed
qed

text \<open>The log is appended to from run to run and read from its beginning: the marks of an earlier run make the daemon ready
  before it has written a line.\<close>

lemma earlier_run_counts_as_ready:
  assumes "\<forall>n \<in> set needles. \<exists>l \<in> set before. contains_str n l"
  shows "daemon_ready {} (Some (before @ fresh) # scans)"
proof -
  have "{} \<subset> set needles" by (simp add: needles_def psubset_eq)
  from daemon_ready_iff [OF this, of "Some (before @ fresh) # scans"] assms show ?thesis by auto
qed

text \<open>Any answer that contains the digits of a success counts as one.\<close>

lemma digits_count_as_success:
  "step_trigger_campaign (w\<lparr>jw_dry_run := False, jw_token := ''t'', jw_start := Output ''campaign 1200 not found 404''\<rparr>) l
     = (Inr (), l @ [CampaignStarted])"
proof -
  have "contains_str ''200'' ''campaign 1200 not found 404''" by code_simp
  then show ?thesis by (simp add: step_trigger_campaign_def seqm_def bindm_def demand_def ret_def effect_def modify_def)
qed

text \<open>The development script stops its edge only if the edge had become ready.\<close>

lemma unready_edge_left_running:
  assumes "\<not> sa_dry_run a" and "\<not> sa_preflight_only a" and "\<not> sa_skip_edge_start a" and "\<not> edge_ready False False (sw_edge w)"
    and "phase_preflight w l = (Inr (), l1)" and "phase_mint_jwt w l1 = (Inr jwt, l2)" and "sa_skip_freeze_probe a \<or> engine_alive (sw_probe w)"
  shows "smoke_main a w l = (Inl (OtherError ''SystemExit''), l2 @ [EdgeSpawned])"
  using assms by (simp add: smoke_main_def seqm_def bindm_def phase_start_edge_def demand_def quit_def raise_def ret_def effect_def modify_def)

text \<open>The first row read is taken whatever call it belongs to: an ended call of the same lead ends the poll at once.\<close>

lemma earlier_call_taken:
  assumes "rstrip_by (\<lambda>c. c = line_feed) row = cid @ ''|end|x|y''" and "py_int (strip cid) = Some n" and "CHR ''|'' \<notin> set cid"
    and "sw_transcript w = Output t"
  shows "\<exists>r. poll_call_record w None (Output row # rows) l = (Inr r, l) \<and> cr_call r = n \<and> cr_status r = ''end''"
proof -
  have split: "split_on (CHR ''|'') (cid @ ''|end|x|y'') = [cid, ''end'', ''x'', ''y'']"
    using assms(3) by (induction cid) (auto)
  have "strip ''end'' = ''end''" by code_simp
  then show ?thesis
    using assms split by (simp add: ssh_cmd_def row_present_def bindm_def ret_def terminal_status_def Let_def)
qed


section \<open>What a success means\<close>

lemma demand_Inr: "demand b l = (Inr u, l') \<longleftrightarrow> b \<and> l' = l"
  by (auto simp: demand_def quit_def ret_def raise_def)

lemma seqm_Inr: "seqm f g l = (Inr x, l') \<longleftrightarrow> (\<exists>u l1. f l = (Inr u, l1) \<and> g l1 = (Inr x, l'))"
  by (auto simp: seqm_def bindm_eq_Inr)

lemma finallym_Inr: "finallym f g l = (Inr x, l') \<Longrightarrow> \<exists>l1 u. f l = (Inr x, l1) \<and> g l1 = (Inr u, l')"
  by (auto simp: finallym_def split: prod.splits sum.splits)

text \<open>A development call that exits with status 0, and is neither a dry run nor only a check of the surroundings, has
  judged the logs of the call it read from the database and found no check failed, and heard a yes from the operator if it
  asked; the edge it started has been told to stop, as its last effect.\<close>

theorem smoke_success:
  assumes "smoke_main a w [] = (Inr 0, l)" and "\<not> sa_dry_run a" and "\<not> sa_preflight_only a"
  shows "\<exists>row ls. sw_engine_log w = Some ls \<and> rp_overall (analyze (nat (cr_call row)) ls (sw_edge_log w) NOISE_GATE_RMS) \<noteq> FAIL
      \<and> (\<exists>l1 l2. poll_call_record w None (sw_rows w) l1 = (Inr row, l2))
      \<and> (sa_no_listen a \<or> lower (strip (sw_answer w)) \<in> {''y'', ''yes'', ''1'', ''true''})
      \<and> spawned l = terminated l \<and> (if sa_skip_edge_start a then spawned l = 0 else spawned l = 1 \<and> last l = EdgeTerminated)"
proof -
  from assms obtain l1 l2 l3 jwt where
    pre: "phase_preflight w [] = (Inr (), l1)" and mint: "phase_mint_jwt w l1 = (Inr jwt, l2)"
    and start: "(if sa_skip_edge_start a then ret () else phase_start_edge w) l2 = (Inr (), l3)"
    and run: "finallym (smoke_body a w) (if sa_skip_edge_start a then ret () else effect EdgeTerminated) l3 = (Inr 0, l)"
    by (auto simp: smoke_main_def seqm_Inr bindm_eq_Inr demand_Inr)
  obtain l5 u where body: "smoke_body a w l3 = (Inr 0, l5)"
    and stop: "(if sa_skip_edge_start a then ret () else effect EdgeTerminated) l5 = (Inr u, l)"
    using finallym_Inr [OF run] by blast
  from body obtain row overall listened l6 l7 l8 la l9 where
    poll: "poll_call_record w None (sw_rows w) l6 = (Inr row, l7)"
    and judged: "judge_call w (cr_call row) l7 = (Inr overall, l8)"
    and asked: "(if sa_no_listen a then ret None else bindm (phase_listen_check w) (\<lambda>b. ret (Some b))) la = (Inr listened, l9)"
    and ended: "(ret (if smoke_ok overall listened then 0 else 1) :: (effect list, nat) proc) l9 = (Inr 0, l5)"
    unfolding smoke_body_def seqm_Inr bindm_eq_Inr by blast
  have ok: "smoke_ok overall listened" using ended by (simp add: ret_def split: if_splits)
  from judged obtain ls where ls: "sw_engine_log w = Some ls" "overall = rp_overall (analyze (nat (cr_call row)) ls (sw_edge_log w) NOISE_GATE_RMS)"
    by (auto simp: judge_call_def quit_def raise_def seqm_Inr ret_def split: option.splits)
  have answer: "sa_no_listen a \<or> lower (strip (sw_answer w)) \<in> {''y'', ''yes'', ''1'', ''true''}"
    using asked ok by (auto simp: phase_listen_check_def seqm_Inr bindm_eq_Inr ret_def smoke_ok_def split: if_splits)
  have "spawned l2 = 0 \<and> terminated l2 = 0"
    using pre mint bystander_smoke(1,2) [of w] unfolding bystander_def by (metis snd_conv process_counts(1,4))
  then have "terminated l3 = 0" "spawned l3 = (if sa_skip_edge_start a then 0 else 1)"
    using start by (auto simp: phase_start_edge_def seqm_Inr demand_Inr effect_def modify_def ret_def split: if_splits)
  moreover have "spawned l5 = spawned l3 \<and> terminated l5 = terminated l3"
    using body bystander_smoke_body [of a w] unfolding bystander_def by (metis snd_conv)
  ultimately have "spawned l = terminated l \<and> (if sa_skip_edge_start a then spawned l = 0 else spawned l = 1 \<and> last l = EdgeTerminated)"
    using stop by (auto simp: effect_def modify_def ret_def split: if_splits)
  moreover have "rp_overall (analyze (nat (cr_call row)) ls (sw_edge_log w) NOISE_GATE_RMS) \<noteq> FAIL" using ok ls by (simp add: smoke_ok_def)
  ultimately show ?thesis using ls(1) answer poll by blast
qed

end
