(* ===== verification/Link_Smoke.thy ===== *)
theory Link_Smoke imports Complex_Main At_Client begin

text \<open>
  The two smoke tests of a single link: the cloud stream (\<open>scripts/cloud_edge_smoke.py\<close>, a single connection or a
  soak that measures how long streams last) and the modem (\<open>scripts/at_smoke.py\<close>, one dialled call). The link
  and the modem are inputs; a tick of the soak reads the clock once.
\<close>

section \<open>A single connection\<close>

text \<open>The polls of the link once \<open>start\<close> has returned, with the time each is made; \<open>start\<close> itself returns only when a stream
  is up, so with no stream at all the test does not return: \<open>None\<close>. \<open>Inl\<close> is the exception of sending.\<close>

fun await_link :: "real \<Rightarrow> (real \<times> bool) list \<Rightarrow> bool option" where
  "await_link deadline [] = None"
| "await_link deadline ((now, up) # polls) =
     (if up then Some True else if deadline < now then Some False else await_link deadline polls)"

definition one_shot :: "(real \<times> bool) list option \<Rightarrow> real \<Rightarrow> pyexn option \<Rightarrow> (pyexn + nat) option" where
  "one_shot started timeout sent = (case started of None \<Rightarrow> None
     | Some [] \<Rightarrow> None
     | Some ((now, up) # polls) \<Rightarrow> (case await_link (now + timeout) ((now, up) # polls) of
           None \<Rightarrow> None
         | Some False \<Rightarrow> Some (Inr 2)
         | Some True \<Rightarrow> (case sent of Some e \<Rightarrow> Some (Inl e) | None \<Rightarrow> Some (Inr 0))))"


section \<open>The soak\<close>

definition SOAK_HEARTBEAT_PERIOD_S :: real where "SOAK_HEARTBEAT_PERIOD_S = 30"
definition SOAK_P95_TARGET_S :: real where "SOAK_P95_TARGET_S = 300"

record tick =
  tk_now :: real
  tk_up :: bool
  tk_sent :: bool

record soak =
  sk_since :: "real option"
  sk_lifetimes :: "(real \<times> real) list"
  sk_sends :: nat
  sk_failures :: nat

definition soak_init :: soak where
  "soak_init = \<lparr>sk_since = None, sk_lifetimes = [], sk_sends = 0, sk_failures = 0\<rparr>"

definition watch_link :: "tick \<Rightarrow> soak \<Rightarrow> soak" where
  "watch_link t s = (case sk_since s of
       None \<Rightarrow> if tk_up t then s\<lparr>sk_since := Some (tk_now t)\<rparr> else s
     | Some c \<Rightarrow> if tk_up t then s else s\<lparr>sk_lifetimes := sk_lifetimes s @ [(c, tk_now t)], sk_since := None\<rparr>)"

definition beat :: "real \<Rightarrow> tick \<Rightarrow> soak \<Rightarrow> soak" where
  "beat started t s = (if tk_up t \<and> real (sk_sends s) * SOAK_HEARTBEAT_PERIOD_S \<le> tk_now t - started
     then if tk_sent t then s\<lparr>sk_sends := sk_sends s + 1\<rparr> else s\<lparr>sk_failures := sk_failures s + 1\<rparr>
     else s)"

definition soak_tick :: "real \<Rightarrow> soak \<Rightarrow> tick \<Rightarrow> soak" where
  "soak_tick started s t = beat started t (watch_link t s)"

definition soak_close :: "real \<Rightarrow> soak \<Rightarrow> soak" where
  "soak_close now s = (case sk_since s of None \<Rightarrow> s | Some c \<Rightarrow> s\<lparr>sk_lifetimes := sk_lifetimes s @ [(c, now)]\<rparr>)"

text \<open>The ticks before the deadline; the link is left at the time \<open>ended\<close>.\<close>

definition soak_run :: "real \<Rightarrow> real \<Rightarrow> real \<Rightarrow> tick list \<Rightarrow> soak" where
  "soak_run started duration ended ticks =
     soak_close ended (foldl (soak_tick started) soak_init (takeWhile (\<lambda>t. tk_now t < started + duration) ticks))"

definition durations :: "soak \<Rightarrow> real list" where
  "durations s = map (\<lambda>(c, d). d - c) (sk_lifetimes s)"

definition p95_index :: "nat \<Rightarrow> nat" where
  "p95_index n = 19 * n div 20 - 1"

definition median :: "real list \<Rightarrow> real" where
  "median xs = (let n = length xs in if odd n then xs ! (n div 2) else (xs ! (n div 2 - 1) + xs ! (n div 2)) / 2)"

record soak_report =
  sr_streams :: nat
  sr_p50 :: real
  sr_p95 :: real
  sr_longest :: real
  sr_shortest :: real
  sr_pass :: bool

definition report_of :: "real list \<Rightarrow> soak_report" where
  "report_of ds = (if ds = [] then \<lparr>sr_streams = 0, sr_p50 = 0, sr_p95 = 0, sr_longest = 0, sr_shortest = 0, sr_pass = False\<rparr>
     else let xs = sort ds; p95 = xs ! p95_index (length xs) in
       \<lparr>sr_streams = length ds, sr_p50 = median xs, sr_p95 = p95, sr_longest = last xs, sr_shortest = hd xs,
        sr_pass = (SOAK_P95_TARGET_S \<le> p95)\<rparr>)"

definition soak_status :: "soak_report \<Rightarrow> nat" where
  "soak_status r = (if sr_pass r then 0 else 3)"

definition soak_link :: "tick list option \<Rightarrow> real \<Rightarrow> real \<Rightarrow> real \<Rightarrow> nat option" where
  "soak_link start_returns started duration ended =
     map_option (\<lambda>ticks. soak_status (report_of (durations (soak_run started duration ended ticks)))) start_returns"


section \<open>What the soak measures\<close>

text \<open>The maximal runs of ticks in which the link is up, each with the time of its first tick and of the tick that ends it.\<close>

definition run_end :: "real \<Rightarrow> tick list \<Rightarrow> real" where
  "run_end ended ts = (case dropWhile tk_up ts of [] \<Rightarrow> ended | t # _ \<Rightarrow> tk_now t)"

function up_runs :: "real \<Rightarrow> tick list \<Rightarrow> (real \<times> real) list" where
  "up_runs ended [] = []"
| "up_runs ended (t # ts) = (if tk_up t then (tk_now t, run_end ended ts) # up_runs ended (dropWhile tk_up ts) else up_runs ended ts)"
  by pat_completeness auto
termination by (relation "measure (\<lambda>(_, ts). length ts)") (auto simp: le_imp_less_Suc length_dropWhile_le)

lemma run_end_simps [simp]:
  "run_end ended [] = ended" "run_end ended (t # ts) = (if tk_up t then run_end ended ts else tk_now t)"
  by (simp_all add: run_end_def)

lemma beat_keeps [simp]: "sk_since (beat started t s) = sk_since s" "sk_lifetimes (beat started t s) = sk_lifetimes s"
  by (simp_all add: beat_def)

lemma soak_tick_links:
  "sk_since (soak_tick started s t) = (if tk_up t then Some (case sk_since s of None \<Rightarrow> tk_now t | Some c \<Rightarrow> c) else None)"
  "sk_lifetimes (soak_tick started s t) = sk_lifetimes s
    @ (case sk_since s of Some c \<Rightarrow> if tk_up t then [] else [(c, tk_now t)] | None \<Rightarrow> [])"
  by (auto simp: soak_tick_def watch_link_def split: option.splits)

lemma soak_folds_runs:
  "sk_lifetimes (soak_close ended (foldl (soak_tick started) s ts)) = sk_lifetimes s
    @ (case sk_since s of None \<Rightarrow> up_runs ended ts | Some c \<Rightarrow> (c, run_end ended ts) # up_runs ended (dropWhile tk_up ts))"
proof (induction ts arbitrary: s)
  case Nil
  then show ?case by (simp add: soak_close_def split: option.splits)
next
  case (Cons t ts)
  show ?case
    using Cons.IH [of "soak_tick started s t"] by (auto simp: soak_tick_links split: option.splits)
qed

text \<open>The lifetimes recorded are exactly the maximal runs of ticks with the link up; a stream that is lost and back between
  two ticks is not told from one that lasted.\<close>

theorem lifetimes_are_up_runs:
  "sk_lifetimes (soak_run started duration ended ticks) = up_runs ended (takeWhile (\<lambda>t. tk_now t < started + duration) ticks)"
  by (simp add: soak_run_def soak_folds_runs soak_init_def)

lemma sorted_rank:
  fixes xs :: "'a :: linorder list"
  assumes "sorted xs" and "k < length xs"
  shows "x \<le> xs ! k \<longleftrightarrow> length xs - k \<le> length (filter (\<lambda>d. x \<le> d) xs)"
  using assms
proof (induction xs arbitrary: k)
  case (Cons y ys)
  show ?case
  proof (cases "x \<le> y")
    case True
    then have "\<forall>d \<in> set (y # ys). x \<le> d" using Cons.prems(1) by auto
    then have "filter (\<lambda>d. x \<le> d) (y # ys) = y # ys" by (simp add: filter_id_conv)
    moreover have "x \<le> (y # ys) ! k" using \<open>\<forall>d \<in> set (y # ys). x \<le> d\<close> Cons.prems(2) nth_mem by blast
    ultimately show ?thesis by simp
  next
    case False
    show ?thesis
    proof (cases k)
      case 0
      have "\<not> Suc (length ys) \<le> length (filter (\<lambda>d. x \<le> d) ys)" by (simp only: not_le less_Suc_eq_le length_filter_le)
      with 0 False show ?thesis by simp
    next
      case (Suc j)
      with False Cons show ?thesis by simp
    qed
  qed
qed simp

lemma p95_index_less: "ds \<noteq> [] \<Longrightarrow> p95_index (length ds) < length ds"
  by (cases ds) (auto simp: p95_index_def)

text \<open>The gate counts long streams: it passes exactly when at most one less than nineteen twentieths of the streams, rounded
  down, have ended before the target.\<close>

theorem soak_gate_counts:
  "sr_pass (report_of ds) \<longleftrightarrow> ds \<noteq> []
    \<and> length ds - p95_index (length ds) \<le> length (filter (\<lambda>d. SOAK_P95_TARGET_S \<le> d) ds)"
proof (cases "ds = []")
  case False
  have "length (filter (\<lambda>d. SOAK_P95_TARGET_S \<le> d) (sort ds)) = length (filter (\<lambda>d. SOAK_P95_TARGET_S \<le> d) ds)"
    by (simp add: filter_sort)
  with sorted_rank [of "sort ds" "p95_index (length ds)" SOAK_P95_TARGET_S] False p95_index_less [OF False]
  show ?thesis by (simp add: report_of_def Let_def)
qed (simp add: report_of_def)

text \<open>Ninety-four short streams out of a hundred pass.\<close>

lemma gate_passes_mostly_short:
  "sr_pass (report_of (replicate 94 30 @ replicate 6 300))"
  by (simp add: soak_gate_counts p95_index_def SOAK_P95_TARGET_S_def)

text \<open>With no stream the single connection never reports: its time-out starts after \<open>start\<close> has returned.\<close>

lemma unreachable_cloud_not_reported: "one_shot None timeout sent = None"
  by (simp add: one_shot_def)


section \<open>One dialled call\<close>

datatype dial_call = ClientOpened | Dialled | HangupScheduled | ClientClosed

text \<open>The modem: how opening, dialling and closing fail, the events of the stream, and what it raises after them.\<close>

record dial_world =
  dw_open :: "pyexn option"
  dw_dial :: "pyexn option"
  dw_events :: "at_event list"
  dw_stream :: "pyexn option"
  dw_close :: "pyexn option"

definition attempt_call :: "dial_call \<Rightarrow> pyexn option \<Rightarrow> (dial_call list, unit) proc" where
  "attempt_call c res = (case res of None \<Rightarrow> modify (\<lambda>l. l @ [c]) | Some e \<Rightarrow> raise e)"

fun follow :: "bool \<Rightarrow> at_event list \<Rightarrow> pyexn option \<Rightarrow> (dial_call list, at_event option) proc" where
  "follow scheduled [] res = (case res of None \<Rightarrow> ret None | Some e \<Rightarrow> raise e)"
| "follow scheduled (e # es) res = (case ae_event e of
       CONNECTED \<Rightarrow> seqm (if scheduled then ret () else modify (\<lambda>l. l @ [HangupScheduled])) (follow True es res)
     | REMOTE_HANGUP \<Rightarrow> ret (Some e))"

definition dial_run :: "dial_world \<Rightarrow> (dial_call list, nat) proc" where
  "dial_run w l = (case attempt_call ClientOpened (dw_open w) l of
       (Inl BusyDeviceError, l1) \<Rightarrow> (Inr 2, l1)
     | (Inl e, l1) \<Rightarrow> (Inl e, l1)
     | (Inr _, l1) \<Rightarrow> bindm (finallym (seqm (attempt_call Dialled (dw_dial w)) (follow False (dw_events w) (dw_stream w)))
           (seqm (modify (\<lambda>l. l @ [ClientClosed])) (case dw_close w of None \<Rightarrow> ret () | Some e \<Rightarrow> raise e)))
         (\<lambda>hangup. ret (if hangup = None then 3 else 0)) l1)"

definition dial_main :: "dial_world \<Rightarrow> (dial_call list, nat) proc" where
  "dial_main w = catchm (dial_run w) (\<lambda>e. if is_exception e then Some (ret 1) else None)"

lemma follow_result:
  "fst (follow b es res l) = (case find (\<lambda>e. ae_event e = REMOTE_HANGUP) es of Some e \<Rightarrow> Inr (Some e)
     | None \<Rightarrow> (case res of None \<Rightarrow> Inr None | Some e \<Rightarrow> Inl e))"
  by (induction b es res arbitrary: l rule: follow.induct)
    (auto simp: method_defs split: option.splits event_kind.splits)

lemma dial_run_unopened:
  "dw_open w = Some e \<Longrightarrow> dial_run w l = (if e = BusyDeviceError then Inr 2 else Inl e, l)"
  by (cases e) (simp_all add: dial_run_def attempt_call_def raise_def)

lemma dial_run_opened:
  assumes "dw_open w = None"
  shows "fst (dial_run w l) = (case dw_close w of Some e \<Rightarrow> Inl e
     | None \<Rightarrow> (case dw_dial w of Some e \<Rightarrow> Inl e
       | None \<Rightarrow> (case find (\<lambda>e. ae_event e = REMOTE_HANGUP) (dw_events w) of Some _ \<Rightarrow> Inr 0
           | None \<Rightarrow> (case dw_stream w of None \<Rightarrow> Inr 3 | Some e \<Rightarrow> Inl e))))"
proof (cases "dw_dial w")
  case (Some e)
  with assms show ?thesis by (cases "dw_close w") (simp_all add: dial_run_def attempt_call_def method_defs)
next
  case None
  let ?f = "follow False (dw_events w) (dw_stream w)"
  obtain r l2 where f: "?f ((l @ [ClientOpened]) @ [Dialled]) = (r, l2)" by (cases "?f ((l @ [ClientOpened]) @ [Dialled])")
  with follow_result [of False "dw_events w" "dw_stream w" "(l @ [ClientOpened]) @ [Dialled]"]
  have r: "r = (case find (\<lambda>e. ae_event e = REMOTE_HANGUP) (dw_events w) of Some e \<Rightarrow> Inr (Some e)
     | None \<Rightarrow> (case dw_stream w of None \<Rightarrow> Inr None | Some e \<Rightarrow> Inl e))" by simp
  from f None assms show ?thesis
    unfolding r by (cases "dw_close w") (auto simp: dial_run_def attempt_call_def method_defs split: option.splits)
qed

text \<open>The exit status is 0 exactly when a hang-up was reported and nothing raised: an answer is not asked for.\<close>

theorem dial_smoke_status:
  "fst (dial_main w l) = Inr 0 \<longleftrightarrow> dw_open w = None \<and> dw_dial w = None \<and> dw_close w = None
    \<and> (\<exists>e \<in> set (dw_events w). ae_event e = REMOTE_HANGUP)"
proof -
  have main: "fst (dial_main w l) = Inr 0 \<longleftrightarrow> fst (dial_run w l) = Inr 0"
    by (auto simp: dial_main_def catchm_def ret_def split: prod.splits sum.splits)
  have found: "(\<exists>e \<in> set (dw_events w). ae_event e = REMOTE_HANGUP) \<longleftrightarrow> find (\<lambda>e. ae_event e = REMOTE_HANGUP) (dw_events w) \<noteq> None"
    by (auto simp: find_None_iff)
  show ?thesis
  proof (cases "dw_open w")
    case None
    show ?thesis unfolding main found dial_run_opened [OF None] using None by (simp split: option.splits)
  next
    case (Some e)
    with dial_run_unopened [OF Some, of l] main show ?thesis by simp
  qed
qed

text \<open>A busy line passes the test that promises a call that was connected and hung up.\<close>

lemma unanswered_call_passes:
  "dial_main \<lparr>dw_open = None, dw_dial = None, dw_events = [hangup_event 0 ''busy''], dw_stream = None, dw_close = None\<rparr> []
    = (Inr 0, [ClientOpened, Dialled, ClientClosed])"
  by (simp add: dial_main_def dial_run_def attempt_call_def method_defs hangup_event_def)

text \<open>A client that was opened is closed, however the call goes.\<close>

lemma opened_client_closed:
  assumes "dw_open w = None"
  shows "last (snd (dial_main w l)) = ClientClosed"
  using assms by (auto simp: dial_main_def dial_run_def attempt_call_def method_defs split: option.splits prod.splits sum.splits)

end
