(* ===== verification/Modem_Diag.thy ===== *)
theory Modem_Diag imports Capture_Recover begin

text \<open>
  The one-off diagnostics of the modem's audio port: \<open>read_farend_amp.py\<close>, \<open>capture_downlink.py\<close>, \<open>read_amp_echo.py\<close>,
  \<open>diag_duplex_collapse.py\<close>, \<open>retest_audio_write.py\<close> and \<open>diag_com11_audio.py\<close> in the root of the repository. Each dials one
  call over a serial port, measures, and cleans up in a \<open>finally\<close>. What the ports answer, and when, is an input; a
  log names what is done to them. Times are milliseconds.
\<close>

section \<open>Ports and commands\<close>

datatype diag_act =
    PortOpen string
  | PortClosed string
  | Cmd string
  | CallUp
  | AudioRead bytes
  | AudioWrote bytes
  | WavSaved nat bytes

record diag_world =
  dx_open :: "string \<Rightarrow> pyexn option"
  dx_cmd :: "string \<Rightarrow> pyexn + string list"
  dx_urcs :: "pyexn + string list"

definition note_act :: "diag_act \<Rightarrow> (diag_act list, unit) proc" where
  "note_act a = modify (\<lambda>l. l @ [a])"

definition open_serial :: "diag_world \<Rightarrow> string \<Rightarrow> (diag_act list, unit) proc" where
  "open_serial w p = (case dx_open w p of None \<Rightarrow> note_act (PortOpen p) | Some e \<Rightarrow> raise e)"

text \<open>Most scripts end a reply at \<open>+CME\<close>, \<open>diag_com11_audio.py\<close> at \<open>+CME ERROR\<close>.\<close>

definition final_line :: "string \<Rightarrow> string \<Rightarrow> bool" where
  "final_line err l \<longleftrightarrow> l = ''OK'' \<or> l = ''ERROR'' \<or> startswith err l"

text \<open>The lines read before the time-out, up to the first final one.\<close>

fun reply_lines :: "string \<Rightarrow> string list \<Rightarrow> string list" where
  "reply_lines err [] = []"
| "reply_lines err (l # ls) = (if strip l = [] then reply_lines err ls
     else if final_line err (strip l) then [strip l] else strip l # reply_lines err ls)"

text \<open>A command that raises may have been written before.\<close>

definition send_until :: "string \<Rightarrow> diag_world \<Rightarrow> string \<Rightarrow> (diag_act list, string list) proc" where
  "send_until err w cmd = seqm (note_act (Cmd cmd)) (case dx_cmd w cmd of Inl e \<Rightarrow> raise e | Inr ls \<Rightarrow> ret (reply_lines err ls))"

definition send_at :: "diag_world \<Rightarrow> string \<Rightarrow> (diag_act list, string list) proc" where
  "send_at = send_until ''+CME''"

definition send_only :: "diag_world \<Rightarrow> string \<Rightarrow> (diag_act list, unit) proc" where
  "send_only w cmd = bindm (send_at w cmd) (\<lambda>_. ret ())"

definition wait_urc :: "diag_world \<Rightarrow> string \<Rightarrow> (diag_act list, bool) proc" where
  "wait_urc w target = (case dx_urcs w of Inl e \<Rightarrow> raise e | Inr ls \<Rightarrow> ret (\<exists>l \<in> set ls. contains_str target (strip l)))"


section \<open>Measuring\<close>

definition peak_amp :: "bytes \<Rightarrow> nat" where
  "peak_amp buf = fst (amp_stats buf)"

datatype loudness = Heard | Silent | Faint

definition tag_of :: "nat \<Rightarrow> loudness" where
  "tag_of amp = (if 600 < amp then Heard else if amp < 200 then Silent else Faint)"

text \<open>The loop that reads, perhaps writes, and reports bytes and amplitude once a second. A tick is the time of the
  check with what the read gave; \<open>wr\<close> is what is written, given the samples written so far and the bytes read.\<close>

type_synonym audio_tick = "int \<times> (pyexn + bytes)"

fun listen :: "(nat \<Rightarrow> bytes \<Rightarrow> bytes option) \<Rightarrow> nat \<Rightarrow> int \<Rightarrow> bytes \<Rightarrow> audio_tick list \<Rightarrow> (diag_act list, (nat \<times> nat) list) proc" where
  "listen wr ph sec_end buf [] = ret []"
| "listen wr ph sec_end buf ((now, r) # ts) = (case r of Inl e \<Rightarrow> raise e
     | Inr chunk \<Rightarrow> seqm (note_act (AudioRead chunk))
         (seqm (case wr ph chunk of None \<Rightarrow> ret () | Some b \<Rightarrow> note_act (AudioWrote b))
           (if sec_end \<le> now
            then bindm (listen wr (ph + length chunk div 2) (sec_end + 1000) [] ts)
                   (\<lambda>rs. ret ((length (buf @ chunk), peak_amp (buf @ chunk)) # rs))
            else listen wr (ph + length chunk div 2) sec_end (buf @ chunk) ts)))"

definition read_only :: "nat \<Rightarrow> bytes \<Rightarrow> bytes option" where
  "read_only ph chunk = None"

definition SILENCE :: bytes where "SILENCE = replicate 320 0"

definition with_silence :: "nat \<Rightarrow> bytes \<Rightarrow> bytes option" where
  "with_silence ph chunk = Some SILENCE"

text \<open>\<open>tone\<close> gives the samples of the tone from a phase on.\<close>

definition answer_bytes :: "bool \<Rightarrow> (nat \<Rightarrow> nat \<Rightarrow> sample list) \<Rightarrow> nat \<Rightarrow> bytes \<Rightarrow> bytes option" where
  "answer_bytes echo tone ph chunk = (if chunk = [] then None
     else if echo then Some chunk else Some (to_bytes (tone ph (length chunk div 2))))"

text \<open>One inner loop a second, with one report after each; a time of \<open>-1\<close> lies before its end.\<close>

fun listen_seconds :: "(pyexn + bytes) list list \<Rightarrow> (diag_act list, (nat \<times> nat) list) proc" where
  "listen_seconds [] = ret []"
| "listen_seconds (rs # secs) = bindm (listen read_only 0 0 [] (map (\<lambda>r. (-1, r)) rs)) (\<lambda>_.
     let buf = concat (map (\<lambda>r. case r of Inl _ \<Rightarrow> [] | Inr b \<Rightarrow> b) rs) in
     bindm (listen_seconds secs) (\<lambda>reports. ret ((length buf, peak_amp buf) # reports)))"

datatype write_end = Accepted | WriteTimeout | WriteFails pyexn

datatype write_verdict = Accepts | Blocked | Unclear

fun count_writes :: "nat \<Rightarrow> nat \<Rightarrow> write_end list \<Rightarrow> (diag_act list, nat \<times> nat) proc" where
  "count_writes ok_n to_n [] = ret (ok_n, to_n)"
| "count_writes ok_n to_n (x # xs) = (case x of Accepted \<Rightarrow> count_writes (ok_n + 1) to_n xs
     | WriteTimeout \<Rightarrow> count_writes ok_n (to_n + 1) xs | WriteFails e \<Rightarrow> raise e)"

definition verdict_of :: "nat \<times> nat \<Rightarrow> write_verdict" where
  "verdict_of p = (if 0 < fst p \<and> snd p = 0 then Accepts else if 0 < snd p then Blocked else Unclear)"

text \<open>\<open>variation\<close>: \<open>None\<close> when the port does not open. A write that fails with anything but a time-out leaves the port open.\<close>

definition variation :: "diag_world \<Rightarrow> string \<Rightarrow> write_end list \<Rightarrow> (diag_act list, write_verdict option) proc" where
  "variation w port writes =
     bindm (catchm (bindm (open_serial w port) (\<lambda>_. ret True)) (\<lambda>e. if is_exception e then Some (ret False) else None))
       (\<lambda>opened. if \<not> opened then ret None
         else bindm (count_writes 0 0 writes) (\<lambda>p. seqm (note_act (PortClosed port)) (ret (Some (verdict_of p)))))"


section \<open>The session around a measurement\<close>

definition AT_PORT :: string where "AT_PORT = ''at''"
definition AUDIO_PORT :: string where "AUDIO_PORT = ''audio''"

definition clean_start :: "diag_world \<Rightarrow> (diag_act list, unit) proc" where
  "clean_start w = seqm (send_only w ''AT'') (suppress (send_only w ''AT+CPCMREG=0''))"

definition diag_body :: "diag_world \<Rightarrow> string \<Rightarrow> (diag_act list, unit) proc \<Rightarrow> (diag_act list, bool) proc
    \<Rightarrow> (diag_act list, unit) proc \<Rightarrow> (diag_act list, unit) proc" where
  "diag_body w phone prep answered probing =
     seqm prep (seqm (send_only w (''ATD'' @ phone @ '';'')) (seqm (note_act CallUp)
       (bindm answered (\<lambda>up. if \<not> up then ret ()
          else seqm (send_only w ''AT+CPCMREG=1'') (seqm probing (send_only w ''AT+CPCMREG=0''))))))"

fun close_ports :: "string list \<Rightarrow> (diag_act list, unit) proc" where
  "close_ports [] = ret ()"
| "close_ports (p # ps) = seqm (note_act (PortClosed p)) (close_ports ps)"

definition diag_finally :: "diag_world \<Rightarrow> string list \<Rightarrow> (diag_act list, unit) proc" where
  "diag_finally w ports l =
     seqm (if CallUp \<in> set l then suppress (send_only w ''ATH'') else ret ()) (close_ports ports) l"

fun open_ports :: "diag_world \<Rightarrow> string list \<Rightarrow> (diag_act list, unit) proc" where
  "open_ports w [] = ret ()"
| "open_ports w (p # ps) = seqm (open_serial w p) (open_ports w ps)"

definition diag_session :: "diag_world \<Rightarrow> string list \<Rightarrow> string \<Rightarrow> (diag_act list, unit) proc \<Rightarrow> (diag_act list, bool) proc
    \<Rightarrow> (diag_act list, unit) proc \<Rightarrow> (diag_act list, unit) proc" where
  "diag_session w ports phone prep answered probing =
     seqm (open_ports w ports) (finallym (diag_body w phone prep answered probing) (diag_finally w (rev ports)))"

definition voice_begun :: "diag_world \<Rightarrow> (diag_act list, bool) proc" where
  "voice_begun w = wait_urc w ''VOICE CALL: BEGIN''"

definition ignoring :: "('s, 'a) proc \<Rightarrow> ('s, unit) proc" where
  "ignoring m = bindm m (\<lambda>_. ret ())"


section \<open>The scripts\<close>

definition read_farend_main :: "diag_world \<Rightarrow> string \<Rightarrow> (pyexn + bytes) list list \<Rightarrow> (diag_act list, unit) proc" where
  "read_farend_main w phone secs =
     diag_session w [AT_PORT, AUDIO_PORT] phone (clean_start w) (voice_begun w) (ignoring (listen_seconds secs))"

definition audio_read :: "diag_act list \<Rightarrow> bytes" where
  "audio_read l = concat (map (\<lambda>a. case a of AudioRead b \<Rightarrow> b | _ \<Rightarrow> []) l)"

definition save_wavs :: "(diag_act list, unit) proc" where
  "save_wavs l = (if audio_read l = [] then ret () l
     else seqm (note_act (WavSaved 8000 (audio_read l))) (note_act (WavSaved 16000 (audio_read l))) l)"

definition capture_downlink_main :: "diag_world \<Rightarrow> string \<Rightarrow> int \<Rightarrow> audio_tick list \<Rightarrow> (diag_act list, unit) proc" where
  "capture_downlink_main w phone t0 ticks =
     seqm (open_ports w [AT_PORT, AUDIO_PORT])
       (finallym (diag_body w phone (clean_start w) (voice_begun w) (ignoring (listen read_only 0 (t0 + 1000) [] ticks)))
         (seqm (diag_finally w [AUDIO_PORT, AT_PORT]) save_wavs))"

definition read_amp_echo_main :: "diag_world \<Rightarrow> string \<Rightarrow> bool \<Rightarrow> (nat \<Rightarrow> nat \<Rightarrow> sample list) \<Rightarrow> int \<Rightarrow> audio_tick list \<Rightarrow> (diag_act list, unit) proc" where
  "read_amp_echo_main w phone echo tone t0 ticks =
     diag_session w [AT_PORT, AUDIO_PORT] phone (clean_start w) (voice_begun w)
       (ignoring (listen (answer_bytes echo tone) 0 (t0 + 1000) [] ticks))"

text \<open>\<open>run_phase\<close>: read frames, each answered with silence if so asked; failing writes are ignored.\<close>

definition run_phase :: "bool \<Rightarrow> int \<Rightarrow> audio_tick list \<Rightarrow> (diag_act list, (nat \<times> nat) list) proc" where
  "run_phase write_silence t0 ticks = listen (if write_silence then with_silence else read_only) 0 (t0 + 1000) [] ticks"

definition duplex_collapse_main :: "diag_world \<Rightarrow> string \<Rightarrow> int \<Rightarrow> audio_tick list \<Rightarrow> int \<Rightarrow> audio_tick list \<Rightarrow> (diag_act list, unit) proc" where
  "duplex_collapse_main w phone t1 first t2 second =
     diag_session w [AT_PORT, AUDIO_PORT] phone (clean_start w) (voice_begun w)
       (seqm (ignoring (run_phase False t1 first)) (ignoring (run_phase True t2 second)))"

fun variations :: "diag_world \<Rightarrow> write_end list list \<Rightarrow> (diag_act list, unit) proc" where
  "variations w [] = ret ()"
| "variations w (ws # wss) = seqm (ignoring (variation w AUDIO_PORT ws)) (variations w wss)"

definition retest_write_main :: "diag_world \<Rightarrow> string \<Rightarrow> write_end list list \<Rightarrow> (diag_act list, unit) proc" where
  "retest_write_main w phone writes =
     diag_session w [AT_PORT] phone (send_only w ''AT'') (voice_begun w) (variations w writes)"

text \<open>\<open>diag_com11_audio.py\<close>: without the unsolicited line an active call in the list of calls counts as answered.\<close>

definition answered_or_listed :: "diag_world \<Rightarrow> (diag_act list, bool) proc" where
  "answered_or_listed w = bindm (voice_begun w) (\<lambda>up. if up then ret True
     else bindm (send_until ''+CME ERROR'' w ''AT+CLCC'') (\<lambda>r. ret (\<exists>x \<in> set r. contains_str '',0,'' x)))"


fun read_phase :: "nat \<Rightarrow> (pyexn + bytes) list \<Rightarrow> (diag_act list, nat) proc" where
  "read_phase total_n [] = ret total_n"
| "read_phase total_n (r # rs) = (case r of Inl e \<Rightarrow> raise e
     | Inr b \<Rightarrow> seqm (note_act (AudioRead b)) (read_phase (total_n + length b) rs))"

definition write_phase :: "write_end list \<Rightarrow> (diag_act list, write_verdict) proc" where
  "write_phase writes = bindm (count_writes 0 0 writes) (\<lambda>p. ret (verdict_of p))"

definition DIAG_PORT :: string where "DIAG_PORT = ''diag''"

record com11_phases =
  ph_a :: "(pyexn + bytes) list"
  ph_b :: "write_end list"
  ph_c :: "(pyexn + bytes) list"
  ph_d :: "write_end list"

definition com11_measure :: "com11_phases \<Rightarrow> bool \<Rightarrow> (diag_act list, unit) proc" where
  "com11_measure p with_diag =
     seqm (ignoring (read_phase 0 (ph_a p))) (seqm (ignoring (write_phase (ph_b p)))
     (seqm (if with_diag then ignoring (read_phase 0 (ph_c p)) else ret ()) (ignoring (write_phase (ph_d p)))))"

definition com11_main :: "diag_world \<Rightarrow> string \<Rightarrow> com11_phases \<Rightarrow> (diag_act list, unit) proc" where
  "com11_main w phone p = seqm (open_ports w [AT_PORT, AUDIO_PORT])
     (bindm (catchm (bindm (open_serial w DIAG_PORT) (\<lambda>_. ret True)) (\<lambda>e. if is_exception e then Some (ret False) else None))
       (\<lambda>with_diag. finallym (diag_body w phone (ret ()) (answered_or_listed w) (com11_measure p with_diag))
         (diag_finally w (if with_diag then [AUDIO_PORT, DIAG_PORT, AT_PORT] else [AUDIO_PORT, AT_PORT]))))"

text \<open>\<open>_probe_audio_cfg.py\<close>: the settings of the audio path are queried, none is changed.\<close>

definition AUDIO_QUERIES :: "string list" where
  "AUDIO_QUERIES = [''AT+CPCMREG?'', ''AT+CPCMFRM?'', ''AT+CPCMFRM=?'', ''AT+CSDVC?'', ''AT+CSDVC=?'', ''AT+CRXVOL?'', ''AT+CTXVOL?'',
     ''AT+CRXGAIN?'', ''AT+CTXGAIN?'', ''AT+CMICGAIN?'', ''AT+CLVL?'', ''AT+COUTGAIN?'', ''AT+CPCMBANDWIDTH?'', ''AT+CPCMBANDWIDTH=?'',
     ''AT+CGMR'']"

fun send_each :: "diag_world \<Rightarrow> string list \<Rightarrow> (diag_act list, unit) proc" where
  "send_each w [] = ret ()"
| "send_each w (c # cs) = seqm (send_only w c) (send_each w cs)"

definition probe_audio_cfg_main :: "diag_world \<Rightarrow> (diag_act list, unit) proc" where
  "probe_audio_cfg_main w = seqm (open_serial w AT_PORT) (finallym (send_each w AUDIO_QUERIES) (note_act (PortClosed AT_PORT)))"


section \<open>Cleaning up\<close>

definition appends :: "(diag_act list, 'a) proc \<Rightarrow> bool" where
  "appends f \<longleftrightarrow> (\<forall>l. \<exists>k. snd (f l) = l @ k)"

named_theorems appends_rules \<open>steps that only add to the log\<close>

lemma appends_basic [appends_rules]: "appends (ret x)" "appends (raise e)" "appends (note_act a)"
  by (auto simp: appends_def ret_def raise_def note_act_def modify_def)

lemma appends_bindm [appends_rules]:
  assumes "appends f" and "\<And>x. appends (k x)"
  shows "appends (bindm f k)"
  unfolding appends_def
proof
  fix l
  obtain r l1 where f: "f l = (r, l1)" by (cases "f l")
  obtain a where a: "l1 = l @ a" using assms(1) f unfolding appends_def by (metis snd_conv)
  show "\<exists>k'. snd (bindm f k l) = l @ k'"
  proof (cases r)
    case (Inl e)
    with f a show ?thesis by (simp add: bindm_def)
  next
    case (Inr x)
    obtain b where "snd (k x l1) = l1 @ b" using assms(2) unfolding appends_def by blast
    with f a Inr show ?thesis by (simp add: bindm_def)
  qed
qed

lemma appends_seqm [appends_rules]: "appends f \<Longrightarrow> appends k \<Longrightarrow> appends (seqm f k)"
  unfolding seqm_def by (rule appends_bindm)

lemma appends_suppress [appends_rules]: "appends f \<Longrightarrow> appends (suppress f)"
  by (auto simp: appends_def suppress_def catchm_def ret_def split: prod.splits sum.splits) (metis snd_conv)+

lemma appends_steps [appends_rules]:
  "appends (send_until err w c)" "appends (send_at w c)" "appends (send_only w c)" "appends (wait_urc w t)" "appends (open_serial w p)"
  "appends (voice_begun w)" "appends (answered_or_listed w)" "appends (clean_start w)"
  by (auto simp: send_at_def send_until_def send_only_def wait_urc_def open_serial_def voice_begun_def answered_or_listed_def clean_start_def
      intro!: appends_rules split: sum.splits option.splits)

lemma appends_ignoring [appends_rules]: "appends f \<Longrightarrow> appends (ignoring f)"
  by (auto simp: ignoring_def intro!: appends_rules)

lemma appends_listen [appends_rules]: "appends (listen wr ph se buf ts)"
  by (induction wr ph se buf ts rule: listen.induct) (auto intro!: appends_rules split: sum.splits option.splits)

lemma appends_listen_seconds [appends_rules]: "appends (listen_seconds secs)"
  by (induction secs) (auto simp: Let_def intro!: appends_rules)

lemma appends_body [appends_rules]:
  "appends prep \<Longrightarrow> appends answered \<Longrightarrow> appends probing \<Longrightarrow> appends (diag_body w phone prep answered probing)"
  unfolding diag_body_def by (intro appends_rules) (auto intro!: appends_rules)

lemma close_ports_run: "close_ports ps l = (Inr (), l @ map PortClosed ps)"
  by (induction ps arbitrary: l) (simp_all add: ret_def note_act_def seqm_def bindm_def modify_def)

lemma diag_finally_log:
  assumes "dx_cmd w ''ATH'' \<noteq> Inl Cancelled"
  shows "diag_finally w ports l = (Inr (), l @ (if CallUp \<in> set l then [Cmd ''ATH''] else []) @ map PortClosed ports)"
  using assms by (auto simp: diag_finally_def close_ports_run send_only_def send_at_def send_until_def note_act_def method_defs is_exception_def
      split: sum.splits)

text \<open>However the measurement ends, a call whose dial command was answered is hung up, and every port that was opened is
  closed, in this order and last.\<close>

theorem diag_session_cleans_up:
  assumes "open_ports w ports [] = (Inr (), l0)" and "appends prep" and "appends answered" and "appends probing"
    and "dx_cmd w ''ATH'' \<noteq> Inl Cancelled"
  shows "\<exists>k. snd (diag_session w ports phone prep answered probing [])
    = l0 @ k @ (if CallUp \<in> set (l0 @ k) then [Cmd ''ATH''] else []) @ map PortClosed (rev ports)"
proof -
  let ?body = "diag_body w phone prep answered probing"
  obtain r l1 where b: "?body l0 = (r, l1)" by (cases "?body l0")
  have "appends ?body" using assms(2-4) by (intro appends_rules)
  then obtain k where k: "l1 = l0 @ k" using b unfolding appends_def by (metis snd_conv)
  then show ?thesis
    using assms(1) b by (intro exI [of _ k]) (simp add: diag_session_def seqm_def bindm_def finallym_def diag_finally_log [OF assms(5)])
qed

lemma appends_variations [appends_rules]: "appends (variations w wss)"
proof -
  have counts: "appends (count_writes a b ws)" for a b ws
    by (induction a b ws rule: count_writes.induct) (auto intro!: appends_rules split: write_end.splits)
  have opened: "appends (catchm (bindm (open_serial w AUDIO_PORT) (\<lambda>_. ret True)) (\<lambda>e. if is_exception e then Some (ret False) else None))"
    by (simp add: appends_def open_serial_def note_act_def method_defs split: option.splits)
  show ?thesis
    by (induction wss) (auto simp: variation_def intro!: appends_rules counts opened)
qed

lemma opened_ports:
  "dx_open w AT_PORT = None \<Longrightarrow> open_ports w [AT_PORT] [] = (Inr (), [PortOpen AT_PORT])"
  "dx_open w AT_PORT = None \<Longrightarrow> dx_open w AUDIO_PORT = None \<Longrightarrow>
    open_ports w [AT_PORT, AUDIO_PORT] [] = (Inr (), [PortOpen AT_PORT, PortOpen AUDIO_PORT])"
  by (simp_all add: open_serial_def note_act_def method_defs)

text \<open>So do the diagnostics that have both ports open.\<close>

theorem diagnostics_hang_up:
  assumes "dx_open w AT_PORT = None" and "dx_open w AUDIO_PORT = None" and "dx_cmd w ''ATH'' \<noteq> Inl Cancelled"
    and "main \<in> {read_farend_main w phone secs, read_amp_echo_main w phone echo tone t0 ticks, duplex_collapse_main w phone t0 ticks t1 ticks1}"
  shows "\<exists>k. snd (main []) = [PortOpen AT_PORT, PortOpen AUDIO_PORT] @ k @ (if CallUp \<in> set k then [Cmd ''ATH''] else [])
    @ [PortClosed AUDIO_PORT, PortClosed AT_PORT]"
proof -
  have "appends (ignoring (listen_seconds secs))" "appends (ignoring (listen (answer_bytes echo tone) 0 (t0 + 1000) [] ticks))"
    "appends (seqm (ignoring (run_phase False t0 ticks)) (ignoring (run_phase True t1 ticks1)))"
    unfolding run_phase_def by (intro appends_rules)+
  then obtain probing where probing: "appends probing" "main = diag_session w [AT_PORT, AUDIO_PORT] phone (clean_start w) (voice_begun w) probing"
    using assms(4) unfolding read_farend_main_def read_amp_echo_main_def duplex_collapse_main_def by blast
  have "appends (clean_start w)" "appends (voice_begun w)" by (intro appends_rules)+
  from diag_session_cleans_up [OF opened_ports(2) [OF assms(1,2)] this probing(1) assms(3), of phone] show ?thesis
    by (auto simp: probing(2))
qed

lemma diagnostics_hang_up_witness:
  "\<exists>k. snd (duplex_collapse_main \<lparr>dx_open = (\<lambda>_. None), dx_cmd = (\<lambda>_. Inr [''OK'']), dx_urcs = Inr [''VOICE CALL: BEGIN'']\<rparr> ''10086''
      0 [(500, Inr [1, 2]), (1000, Inl (OSError ''gone''))] 2000 [] []) = [PortOpen AT_PORT, PortOpen AUDIO_PORT] @ k
    @ (if CallUp \<in> set k then [Cmd ''ATH''] else []) @ [PortClosed AUDIO_PORT, PortClosed AT_PORT]"
  by (rule diagnostics_hang_up) auto

text \<open>The probe of the configuration sends only queries, whatever the modem answers, and closes its port.\<close>

lemma probe_sends_queries:
  assumes "dx_open w AT_PORT = None"
  shows "\<exists>n. snd (probe_audio_cfg_main w []) = [PortOpen AT_PORT] @ map Cmd (take n AUDIO_QUERIES) @ [PortClosed AT_PORT]"
proof -
  have "\<exists>n. snd (send_each w cs l) = l @ map Cmd (take n cs)" for cs l
  proof (induction cs arbitrary: l)
    case (Cons c cs)
    show ?case
    proof (cases "dx_cmd w c")
      case (Inl e)
      then show ?thesis by (intro exI [of _ 1]) (simp add: send_only_def send_at_def send_until_def note_act_def method_defs)
    next
      case (Inr ls)
      obtain n where "snd (send_each w cs (l @ [Cmd c])) = (l @ [Cmd c]) @ map Cmd (take n cs)" using Cons by blast
      with Inr show ?thesis by (intro exI [of _ "Suc n"]) (simp add: send_only_def send_at_def send_until_def note_act_def method_defs)
    qed
  qed (simp add: ret_def)
  then obtain n where n: "snd (send_each w AUDIO_QUERIES [PortOpen AT_PORT]) = [PortOpen AT_PORT] @ map Cmd (take n AUDIO_QUERIES)" by blast
  obtain r l where run: "send_each w AUDIO_QUERIES [PortOpen AT_PORT] = (r, l)" by (cases "send_each w AUDIO_QUERIES [PortOpen AT_PORT]")
  with n assms show ?thesis
    by (intro exI [of _ n]) (simp add: probe_audio_cfg_main_def open_serial_def note_act_def seqm_def bindm_def modify_def finallym_def)
qed

text \<open>A dial command that was sent but whose answer could not be read leaves the call up: it counts as dialled only after the
  answer.\<close>

lemma failed_dial_not_hung_up:
  assumes "dx_open w AT_PORT = None" and "dx_cmd w ''AT'' = Inr []" and "dx_cmd w (''ATD'' @ phone @ '';'') = Inl e"
  shows "snd (retest_write_main w phone writes []) = [PortOpen AT_PORT, Cmd ''AT'', Cmd (''ATD'' @ phone @ '';''), PortClosed AT_PORT]"
  using assms by (simp add: retest_write_main_def diag_session_def open_serial_def diag_body_def send_only_def send_at_def send_until_def note_act_def
      method_defs diag_finally_def)

text \<open>What is reported adds up: the bytes of the reports and those still in the buffer are the bytes read.\<close>

fun good_ticks :: "audio_tick list \<Rightarrow> bytes" where
  "good_ticks [] = []"
| "good_ticks ((now, r) # ts) = (case r of Inl _ \<Rightarrow> [] | Inr b \<Rightarrow> b @ good_ticks ts)"

lemma audio_read_simps [simp]:
  "audio_read [] = []" "audio_read (l @ l') = audio_read l @ audio_read l'" "audio_read (a # l) = (case a of AudioRead b \<Rightarrow> b | _ \<Rightarrow> []) @ audio_read l"
  by (simp_all add: audio_read_def)

theorem listen_accounts_for_bytes:
  assumes "listen wr ph se buf ts l = (Inr rs, l')"
  shows "audio_read l' = audio_read l @ good_ticks ts \<and> sum_list (map fst rs) \<le> length buf + length (good_ticks ts)"
  using assms
proof (induction wr ph se buf ts arbitrary: l rs rule: listen.induct)
  case (2 wr ph se buf now r ts)
  show ?case
  proof (cases r)
    case (Inl e)
    with 2(3) show ?thesis by (simp add: raise_def)
  next
    case (Inr chunk)
    let ?l = "l @ [AudioRead chunk] @ (case wr ph chunk of None \<Rightarrow> [] | Some b \<Rightarrow> [AudioWrote b])"
    have pre: "seqm (note_act (AudioRead chunk)) (seqm (case wr ph chunk of None \<Rightarrow> ret () | Some b \<Rightarrow> note_act (AudioWrote b)) k) l = k ?l"
      for k :: "(diag_act list, (nat \<times> nat) list) proc"
      by (simp add: note_act_def method_defs split: option.splits)
    have read: "audio_read ?l = audio_read l @ chunk" by (simp split: option.splits)
    show ?thesis
    proof (cases "se \<le> now")
      case True
      with 2(3) Inr obtain rs0 where rs: "rs = (length (buf @ chunk), peak_amp (buf @ chunk)) # rs0"
        and run: "listen wr (ph + length chunk div 2) (se + 1000) [] ts ?l = (Inr rs0, l')"
        by (auto simp: pre bindm_eq_Inr ret_def)
      from 2(1) [OF Inr True run] show ?thesis using Inr rs read by simp
    next
      case False
      with 2(3) Inr have run: "listen wr (ph + length chunk div 2) se (buf @ chunk) ts ?l = (Inr rs, l')" by (simp add: pre)
      from 2(2) [OF Inr False run] show ?thesis using Inr read by simp
    qed
  qed
qed (simp add: ret_def)

text \<open>A read of an odd number of bytes is not answered with as many: the tone has whole samples.\<close>

lemma odd_read_short_answer:
  assumes "\<And>p n. length (tone p n) = n" and "odd (length chunk)"
  shows "\<exists>b. answer_bytes False tone ph chunk = Some b \<and> length b + 1 = length chunk"
proof -
  have "length (to_bytes ss) = 2 * length ss" for ss by (induction ss) (simp_all add: to_bytes_def sample_bytes_def)
  then show ?thesis using assms by (auto simp: answer_bytes_def intro: odd_two_times_div_two_succ)
qed

end
