(* ===== verification/Shared_Handle.thy ===== *)
theory Shared_Handle imports Modem_Diag Audio_Backends begin

text \<open>
  The check of the shared audio handle (\<open>validate_shared_handle_dial.py\<close>): the script dials like the other diagnostics, then
  capture and playback of the program itself (\<open>Audio_Backends\<close>) read and write one handle in two tasks. What the ports
  give, and how the tasks take turns, is an input.
\<close>

record shared_run =
  sd_log :: "diag_act list"
  sd_cap :: "holder option"
  sd_play :: "holder option"
  sd_ports :: "port_call list"
  sd_read :: nat
  sd_out :: bytes
  sd_reading :: bool
  sd_writing :: bool

definition shared_init :: shared_run where
  "shared_init = \<lparr>sd_log = [], sd_cap = None, sd_play = None, sd_ports = [], sd_read = 0, sd_out = [], sd_reading = False, sd_writing = False\<rparr>"

definition on_diag :: "(diag_act list, 'a) proc \<Rightarrow> (shared_run, 'a) proc" where
  "on_diag m s = (case m (sd_log s) of (r, l) \<Rightarrow> (r, s\<lparr>sd_log := l\<rparr>))"

text \<open>Building both backends, opening the capture, and handing its handle to the playback.\<close>

definition share_handle :: "string \<Rightarrow> pyexn + nat \<Rightarrow> (shared_run, unit) proc" where
  "share_handle path opened s =
     (case open_port opened (holder_init path, sd_ports s) of
        (Inl e, (cap, l)) \<Rightarrow> raise e (s\<lparr>sd_cap := Some cap, sd_play := Some (holder_init path), sd_ports := l\<rparr>)
      | (Inr _, (cap, l)) \<Rightarrow> (case adopt_serial_from cap (holder_init path) of (r, play) \<Rightarrow>
          (r, s\<lparr>sd_cap := Some cap, sd_play := Some play, sd_ports := l, sd_reading := (r = Inr ()), sd_writing := (r = Inr ())\<rparr>)))"

text \<open>A turn of a task: one chunk read or written. A task that raises ends; \<open>gather\<close> returns its exception, so the other goes on.\<close>

datatype pump_turn = ReadTurn "(pyexn + bytes) list" | WriteTurn write_result bytes

definition pump_step :: "pyexn + nat \<Rightarrow> shared_run \<Rightarrow> pump_turn \<Rightarrow> shared_run" where
  "pump_step opened s t = (case t of
       ReadTurn reads \<Rightarrow> (case sd_cap s of
           Some cap \<Rightarrow> if sd_reading s
             then (case serial_read_chunk opened reads 320 ((cap, sd_ports s), None) of
                 (Inl e, ((cap', l), _)) \<Rightarrow> s\<lparr>sd_cap := Some cap', sd_ports := l, sd_reading := False\<rparr>
               | (Inr d, ((cap', l), _)) \<Rightarrow> s\<lparr>sd_cap := Some cap', sd_ports := l, sd_read := sd_read s + length d\<rparr>) else s
         | None \<Rightarrow> s)
     | WriteTurn res pcm \<Rightarrow> (case sd_play s of
           Some play \<Rightarrow> if sd_writing s
             then (case serial_write_chunk opened res pcm ((play, sd_ports s), sd_out s) of
                 (Inl e, ((play', l), out)) \<Rightarrow> s\<lparr>sd_play := Some play', sd_ports := l, sd_out := out, sd_writing := False\<rparr>
               | (Inr _, ((play', l), out)) \<Rightarrow> s\<lparr>sd_play := Some play', sd_ports := l, sd_out := out\<rparr>) else s
         | None \<Rightarrow> s))"

definition pump_both :: "pyexn + nat \<Rightarrow> pump_turn list \<Rightarrow> (shared_run, unit) proc" where
  "pump_both opened turns s = ret () ((foldl (pump_step opened) s turns)\<lparr>sd_reading := False, sd_writing := False\<rparr>)"

definition close_both :: "(shared_run, unit) proc" where
  "close_both s =
     (let s1 = (case sd_play s of None \<Rightarrow> s
           | Some h \<Rightarrow> (case close_port (h, sd_ports s) of (h', l) \<Rightarrow> s\<lparr>sd_play := Some h', sd_ports := l\<rparr>))
      in ret () (case sd_cap s1 of None \<Rightarrow> s1
           | Some h \<Rightarrow> (case close_port (h, sd_ports s1) of (h', l) \<Rightarrow> s1\<lparr>sd_cap := Some h', sd_ports := l\<rparr>)))"

definition shared_prep :: "diag_world \<Rightarrow> (diag_act list, unit) proc" where
  "shared_prep w = seqm (clean_start w) (send_only w ''AT+CPCMFRM=0'')"

definition shared_body :: "diag_world \<Rightarrow> string \<Rightarrow> string \<Rightarrow> pyexn + nat \<Rightarrow> pump_turn list \<Rightarrow> (shared_run, unit) proc" where
  "shared_body w phone path opened turns =
     seqm (on_diag (seqm (shared_prep w) (seqm (send_only w (''ATD'' @ phone @ '';'')) (note_act CallUp))))
       (bindm (on_diag (voice_begun w)) (\<lambda>up. if \<not> up then ret ()
          else seqm (on_diag (send_only w ''AT+CPCMREG=1'')) (seqm (share_handle path opened)
            (seqm (pump_both opened turns) (on_diag (send_only w ''AT+CPCMREG=0''))))))"

definition shared_main :: "diag_world \<Rightarrow> string \<Rightarrow> string \<Rightarrow> pyexn + nat \<Rightarrow> pump_turn list \<Rightarrow> (shared_run, unit) proc" where
  "shared_main w phone path opened turns = seqm (on_diag (open_serial w AT_PORT))
     (finallym (shared_body w phone path opened turns) (seqm close_both (on_diag (diag_finally w [AT_PORT]))))"


section \<open>One handle, closed once, and the call hung up\<close>

text \<open>Before the handle is shared, and while it is: playback has the capture's handle and does not own it.\<close>

definition handle_ok :: "pyexn + nat \<Rightarrow> shared_run \<Rightarrow> bool" where
  "handle_ok opened s \<longleftrightarrow> (sd_cap s = None \<and> sd_play s = None \<and> sd_ports s = [])
     \<or> (\<exists>cap play. sd_cap s = Some cap \<and> sd_play s = Some play \<and> \<not> ho_closed cap \<and> \<not> ho_closed play \<and> ho_handle play = ho_handle cap
         \<and> ((ho_handle cap = None \<and> sd_ports s = [] \<and> \<not> sd_reading s \<and> \<not> sd_writing s)
            \<or> (\<exists>n. opened = Inr n \<and> ho_handle cap = Some n \<and> sd_ports s = [PortOpened n] \<and> ho_opened cap \<and> ho_opened play \<and> ho_owns cap \<and> \<not> ho_owns play)))"

definition handle_kept :: "(shared_run, 'a) proc \<Rightarrow> pyexn + nat \<Rightarrow> bool" where
  "handle_kept m opened \<longleftrightarrow> (\<forall>s. handle_ok opened s \<longrightarrow> handle_ok opened (snd (m s)))"

lemma kept_on_diag: "handle_kept (on_diag m) opened"
  by (auto simp: handle_kept_def on_diag_def handle_ok_def split: prod.splits)

lemma kept_bindm:
  assumes "handle_kept m opened" and "\<And>x. handle_kept (k x) opened"
  shows "handle_kept (bindm m k) opened"
  unfolding handle_kept_def
proof (intro allI impI)
  fix s assume s: "handle_ok opened s"
  obtain r t where m: "m s = (r, t)" by (cases "m s")
  have "handle_ok opened t" using assms(1) s m unfolding handle_kept_def by (metis snd_conv)
  with assms(2) m show "handle_ok opened (snd (bindm m k s))" by (cases r) (simp_all add: bindm_def handle_kept_def)
qed

lemma kept_seqm: "handle_kept m opened \<Longrightarrow> handle_kept k opened \<Longrightarrow> handle_kept (seqm m k) opened"
  unfolding seqm_def by (rule kept_bindm)

lemma read_keeps_holder:
  assumes "ho_opened h"
  shows "snd (serial_read_chunk opened reads n ((h, l), None)) = ((h, l), None)"
  using assms by (simp add: serial_read_chunk_def ret_def raise_def)

lemma write_keeps_holder:
  assumes "ho_opened h"
  shows "fst (snd (serial_write_chunk opened res pcm ((h, l), out))) = (h, l)"
  using assms by (cases res) (simp_all add: serial_write_chunk_def ret_def raise_def)

lemma pump_step_keeps:
  "handle_ok opened s \<Longrightarrow> handle_ok opened (pump_step opened s t)"
proof (cases t)
  case (ReadTurn reads)
  assume s: "handle_ok opened s"
  show ?thesis
  proof (cases "sd_cap s = None \<or> \<not> sd_reading s")
    case True
    with s show ?thesis by (auto simp: ReadTurn pump_step_def split: option.splits)
  next
    case False
    then obtain cap where cap: "sd_cap s = Some cap" by auto
    with s False have "ho_opened cap" by (auto simp: handle_ok_def)
    from read_keeps_holder [OF this, of "opened" reads 320 "sd_ports s"] obtain r where
      "serial_read_chunk opened reads 320 ((cap, sd_ports s), None) = (r, ((cap, sd_ports s), None))"
      by (cases "serial_read_chunk opened reads 320 ((cap, sd_ports s), None)") auto
    with s cap show ?thesis by (cases r) (auto simp: ReadTurn pump_step_def handle_ok_def)
  qed
next
  case (WriteTurn res pcm)
  assume s: "handle_ok opened s"
  show ?thesis
  proof (cases "sd_play s = None \<or> \<not> sd_writing s")
    case True
    with s show ?thesis by (auto simp: WriteTurn pump_step_def split: option.splits)
  next
    case False
    then obtain play where play: "sd_play s = Some play" by auto
    with s False have "ho_opened play" by (auto simp: handle_ok_def)
    from write_keeps_holder [OF this, of "opened" res pcm "sd_ports s" "sd_out s"] obtain r out where
      "serial_write_chunk opened res pcm ((play, sd_ports s), sd_out s) = (r, ((play, sd_ports s), out))"
      by (cases "serial_write_chunk opened res pcm ((play, sd_ports s), sd_out s)") auto
    with s play show ?thesis by (cases r) (auto simp: WriteTurn pump_step_def handle_ok_def)
  qed
qed

lemma kept_pump: "handle_kept (pump_both opened turns) opened"
proof -
  have "handle_ok opened s \<Longrightarrow> handle_ok opened (foldl (pump_step opened) s turns)" for s
    by (induction turns arbitrary: s) (simp_all add: pump_step_keeps)
  moreover have "handle_ok opened s \<Longrightarrow> handle_ok opened (s\<lparr>sd_reading := False, sd_writing := False\<rparr>)" for s
    by (auto simp: handle_ok_def)
  ultimately show ?thesis by (simp add: handle_kept_def pump_both_def ret_def)
qed

lemma share_handle_ok:
  assumes "sd_ports s = []" and "\<not> sd_reading s" and "\<not> sd_writing s"
  shows "handle_ok opened (snd (share_handle path opened s))"
  using assms by (cases "opened")
    (auto simp: share_handle_def open_port_def adopt_serial_from_def holder_init_def handle_ok_def ret_def raise_def)

lemma close_both_ports:
  assumes "handle_ok opened s"
  shows "fst (close_both s) = Inr () \<and> sd_log (snd (close_both s)) = sd_log s
    \<and> sd_ports (snd (close_both s)) = (case sd_ports s of [] \<Rightarrow> [] | _ \<Rightarrow> (case opened of Inr n \<Rightarrow> [PortOpened n, Audio_Backends.PortClosed n] | Inl _ \<Rightarrow> []))"
  using assms by (auto simp: handle_ok_def close_both_def close_port_def Let_def ret_def)

definition fresh :: "shared_run \<Rightarrow> bool" where
  "fresh s \<longleftrightarrow> sd_cap s = None \<and> sd_play s = None \<and> sd_ports s = [] \<and> \<not> sd_reading s \<and> \<not> sd_writing s"

lemma fresh_on_diag: "fresh s \<Longrightarrow> fresh (snd (on_diag m s))" "fresh s \<Longrightarrow> handle_ok opened s"
  by (auto simp: fresh_def on_diag_def handle_ok_def split: prod.splits)

lemma body_ok:
  assumes "fresh s"
  shows "handle_ok opened (snd (shared_body w phone path opened turns s))"
proof -
  have rest: "handle_ok opened (snd (seqm (share_handle path opened) (seqm (pump_both opened turns) (on_diag (send_only w ''AT+CPCMREG=0''))) t))"
    if "fresh t" for t
  proof -
    have "handle_ok opened (snd (share_handle path opened t))" using that by (intro share_handle_ok) (simp_all add: fresh_def)
    moreover have "handle_kept (seqm (pump_both opened turns) (on_diag (send_only w ''AT+CPCMREG=0''))) opened"
      by (intro kept_seqm kept_pump kept_on_diag)
    moreover obtain r u where "share_handle path opened t = (r, u)" by (cases "share_handle path opened t")
    ultimately show ?thesis by (cases r) (simp_all add: seqm_def bindm_def handle_kept_def)
  qed
  have step: "handle_ok opened (snd (bindm (on_diag m) k t))" if "fresh t" "\<And>x u. fresh u \<Longrightarrow> handle_ok opened (snd (k x u))"
    for m :: "(diag_act list, 'x) proc" and k :: "'x \<Rightarrow> (shared_run, unit) proc" and t
  proof -
    obtain r u where m: "on_diag m t = (r, u)" by (cases "on_diag m t")
    with fresh_on_diag(1) [OF that(1), of m] have "fresh u" by simp
    with m that(2) show ?thesis by (cases r) (simp_all add: bindm_def fresh_on_diag(2))
  qed
  show ?thesis
    unfolding shared_body_def seqm_def [of "on_diag _"]
  proof (rule step [OF assms], rule step)
    fix up t assume "fresh t"
    then show "handle_ok opened (snd ((if \<not> up then ret () else bindm (on_diag (send_only w ''AT+CPCMREG=1''))
        (\<lambda>_. seqm (share_handle path opened) (seqm (pump_both opened turns) (on_diag (send_only w ''AT+CPCMREG=0''))))) t))"
      by (cases up) (simp_all add: ret_def fresh_on_diag(2) step rest)
  qed
qed

text \<open>However the check ends, the handle that was opened is closed once, and after that the call is hung up if it was dialled and
  the AT port closed.\<close>

theorem shared_handle_released:
  assumes "dx_open w AT_PORT = None" and "dx_cmd w ''ATH'' \<noteq> Inl Cancelled"
    and "snd (shared_main w phone path opened turns shared_init) = s"
  shows "sd_ports s \<in> {[], case opened of Inr n \<Rightarrow> [PortOpened n, Audio_Backends.PortClosed n] | Inl _ \<Rightarrow> []}
    \<and> (\<exists>k. sd_log s = k @ (if CallUp \<in> set k then [Cmd ''ATH''] else []) @ [Modem_Diag.PortClosed AT_PORT])"
proof -
  define s0 where "s0 = shared_init\<lparr>sd_log := [PortOpen AT_PORT]\<rparr>"
  have start: "on_diag (open_serial w AT_PORT) shared_init = (Inr (), s0)"
    using assms(1) by (simp add: on_diag_def open_serial_def note_act_def modify_def s0_def shared_init_def)
  have "fresh s0" by (simp add: fresh_def s0_def shared_init_def)
  obtain r s1 where body: "shared_body w phone path opened turns s0 = (r, s1)" by (cases "shared_body w phone path opened turns s0")
  with body_ok [OF \<open>fresh s0\<close>, of "opened" w phone path turns] have ok: "handle_ok opened s1" by simp
  obtain s2 where closed: "close_both s1 = (Inr (), s2)" "sd_log s2 = sd_log s1"
    "sd_ports s2 = (case sd_ports s1 of [] \<Rightarrow> [] | _ \<Rightarrow> (case opened of Inr n \<Rightarrow> [PortOpened n, Audio_Backends.PortClosed n] | Inl _ \<Rightarrow> []))"
    using close_both_ports [OF ok] by (cases "close_both s1") auto
  have last: "on_diag (diag_finally w [AT_PORT]) s2
    = (Inr (), s2\<lparr>sd_log := sd_log s1 @ (if CallUp \<in> set (sd_log s1) then [Cmd ''ATH''] else []) @ [Modem_Diag.PortClosed AT_PORT]\<rparr>)"
    by (simp add: on_diag_def diag_finally_log [OF assms(2)] closed(2))
  have "s = s2\<lparr>sd_log := sd_log s1 @ (if CallUp \<in> set (sd_log s1) then [Cmd ''ATH''] else []) @ [Modem_Diag.PortClosed AT_PORT]\<rparr>"
    using assms(3) by (simp add: shared_main_def seqm_def bindm_def finallym_def start body closed(1) last del: if_split_asm)
  then show ?thesis using closed(3) by (auto split: list.splits)
qed

text \<open>A chunk that a write time-out cuts short is not sent again.\<close>

lemma timed_out_write_loses_rest:
  assumes "sd_play s = Some play" and "sd_writing s" and "ho_opened play" and "ho_handle play = Some n"
  shows "sd_out (pump_step opened s (WriteTurn (Audio_Backends.WriteTimeout k) pcm)) = sd_out s @ take k pcm"
  using assms by (simp add: pump_step_def serial_write_chunk_def ret_def)

end
