(* ===== verification/Rtc_Smoke.thy ===== *)
theory Rtc_Smoke imports Mac_Dingrtc begin

text \<open>
  The smoke tests of the RTC SDKs: the binding of Windows by itself (\<open>scripts/windows_dingrtc_smoke.py\<close>), and the sessions of
  Windows and macOS with audio in both directions (\<open>scripts/windows_dingrtc_session_smoke.py\<close>,
  \<open>scripts/macos_dingrtc_smoke.py\<close>), over the models of both sessions. The SDKs, the token server and the turns of the two
  audio tasks are inputs.
\<close>

section \<open>Credentials\<close>

text \<open>\<open>SystemExit\<close> is not an \<open>Exception\<close>; a process that it ends, or an exception nobody catches, exits with status 1.\<close>

datatype 'a outcome = Done 'a | SysExit string | Uncaught pyexn

text \<open>The answer of the token server: the fields of the envelope's \<open>data\<close>, or those of the envelope itself.\<close>

record login =
  lg_token :: "string option"
  lg_gslb :: "string list option"

definition fetch_demo_token :: "pyexn + login option \<times> login \<Rightarrow> (string \<times> string list) outcome" where
  "fetch_demo_token answer = (case answer of Inl e \<Rightarrow> Uncaught e
     | Inr (data, whole) \<Rightarrow>
         let d = (case data of Some x \<Rightarrow> x | None \<Rightarrow> whole);
             token = (case lg_token d of Some t \<Rightarrow> t | None \<Rightarrow> []);
             gslbs = (case lg_gslb d of Some g \<Rightarrow> g | None \<Rightarrow> [])
         in if token = [] then SysExit ''demo-app-server returned no token'' else Done (token, gslbs))"

record issuer_world =
  is_import :: bool
  is_env :: "string \<Rightarrow> string option"
  is_sign :: "string \<Rightarrow> string \<Rightarrow> pyexn + string"

definition env_or_empty :: "issuer_world \<Rightarrow> string \<Rightarrow> string" where
  "env_or_empty w k = (case is_env w k of Some v \<Rightarrow> v | None \<Rightarrow> [])"

definition sign_real_token :: "issuer_world \<Rightarrow> string outcome" where
  "sign_real_token w = (if \<not> is_import w then SysExit ''--real requires sibling isales-engine''
     else let app = env_or_empty w ''ISALES_RTC_APP_ID''; key = env_or_empty w ''ISALES_RTC_APP_KEY'' in
       if app = [] \<or> key = [] then SysExit ''--real requires ISALES_RTC_APP_ID + ISALES_RTC_APP_KEY env''
       else (case is_sign w app key of Inl e \<Rightarrow> Uncaught e | Inr token \<Rightarrow> Done token))"

definition DEMO_APPID :: string where "DEMO_APPID = ''a4zfr1hn''"
definition DEFAULT_GSLB :: string where "DEFAULT_GSLB = ''https://gslb.dingrtc.com''"

text \<open>The application, the token and the servers a run uses.\<close>

definition credentials :: "bool \<Rightarrow> issuer_world \<Rightarrow> pyexn + login option \<times> login \<Rightarrow> (string \<times> string \<times> string list) outcome" where
  "credentials use_real w answer =
     (if use_real then
        (if env_or_empty w ''ISALES_RTC_APP_ID'' = [] then SysExit ''--real requires ISALES_RTC_APP_ID env''
         else (case sign_real_token w of Done t \<Rightarrow> Done (env_or_empty w ''ISALES_RTC_APP_ID'', t, []) | SysExit m \<Rightarrow> SysExit m | Uncaught e \<Rightarrow> Uncaught e))
      else (case fetch_demo_token answer of Done (t, gslbs) \<Rightarrow> Done (DEMO_APPID, t, gslbs) | SysExit m \<Rightarrow> SysExit m | Uncaught e \<Rightarrow> Uncaught e))"

definition first_or :: "string \<Rightarrow> string list \<Rightarrow> string" where
  "first_or d gslbs = (case gslbs of [] \<Rightarrow> d | g # _ \<Rightarrow> g)"


section \<open>The binding by itself\<close>

text \<open>Loading the extension: both directories must exist and the import must work.\<close>

definition load_binding :: "bool \<Rightarrow> bool \<Rightarrow> bool \<Rightarrow> unit outcome" where
  "load_binding dlls built imports_ok = (if \<not> dlls then SysExit ''DingRTC vendor DLL dir not found''
     else if \<not> built then SysExit ''dingrtc_pywrap build output dir not found''
     else if \<not> imports_ok then SysExit ''failed to import dingrtc_pywrap'' else Done ())"

definition binding_setup :: "string \<Rightarrow> string \<Rightarrow> string \<Rightarrow> string \<Rightarrow> string \<Rightarrow> int \<Rightarrow> sdk_call list" where
  "binding_setup room uid app token gslb rate = [Create, SetListener, RegisterObserver, EnableObserver, ExternalSource rate 1,
     PublishAudio, NoVideo, SubscribeAll, JoinChannel room uid app token gslb]"

text \<open>The polls for the join callback: the time and the last result reported by then.\<close>

fun await_callback :: "real \<Rightarrow> (real \<times> int option) list \<Rightarrow> int option option" where
  "await_callback deadline [] = None"
| "await_callback deadline ((now, fired) # polls) =
     (if fired \<noteq> None \<or> deadline \<le> now then Some fired else await_callback deadline polls)"

text \<open>Leaving and destroying in one \<open>try\<close>: \<open>failing\<close> is the index of the call that raises.\<close>

definition binding_cleanup :: "nat option \<Rightarrow> sdk_call list \<times> bool" where
  "binding_cleanup failing = (let calls = [LeaveChannel, UnregisterObserver, Destroy] in
     case failing of Some k \<Rightarrow> if k < length calls then (take (Suc k) calls, False) else (calls, True) | None \<Rightarrow> (calls, True))"

record binding_world =
  bw_setup :: "(nat \<times> pyexn) option"
  bw_polls :: "(real \<times> int option) list"
  bw_cleanup :: "nat option"

text \<open>The calls made and how the run ends; \<open>None\<close> while the callback is awaited.\<close>

definition binding_run :: "binding_world \<Rightarrow> sdk_call list \<Rightarrow> real \<Rightarrow> (sdk_call list \<times> nat outcome) option" where
  "binding_run w calls deadline =
     (case (case bw_setup w of Some (k, e) \<Rightarrow> if k < length calls then Some (k, e) else None | None \<Rightarrow> None) of
        Some (k, e) \<Rightarrow> Some (take (Suc k) calls, Uncaught e)
      | None \<Rightarrow> (case await_callback deadline (bw_polls w) of None \<Rightarrow> None
         | Some fired \<Rightarrow> (case binding_cleanup (bw_cleanup w) of (cs, clean) \<Rightarrow>
             Some (calls @ cs, Done (case fired of None \<Rightarrow> 2 | Some rc \<Rightarrow> if rc \<noteq> 0 then 1 else if clean then 0 else 3)))))"

definition windows_smoke :: "bool \<Rightarrow> issuer_world \<Rightarrow> pyexn + login option \<times> login \<Rightarrow> string \<Rightarrow> string \<Rightarrow> int \<Rightarrow> binding_world \<Rightarrow> real
    \<Rightarrow> (sdk_call list \<times> nat outcome) option" where
  "windows_smoke use_real iw answer room uid rate w deadline = (case credentials use_real iw answer of
       SysExit m \<Rightarrow> Some ([], SysExit m)
     | Uncaught e \<Rightarrow> Some ([], Uncaught e)
     | Done (app, token, gslbs) \<Rightarrow> binding_run w (binding_setup room uid app token (first_or DEFAULT_GSLB gslbs) rate) deadline)"


section \<open>The session of Windows\<close>

text \<open>The turns of the two tasks and of the session's own drainer: pushing a chunk, frames that arrive, taking a frame at a time
  of the clock, and the time-out of draining.\<close>

datatype smoke_turn = PushTurn "nat option" | Arrive "raw_frame list" | DrainTurn real | DrainTimeout

record session_smoke =
  ss_ws :: win_session
  ss_chunks :: nat
  ss_pushed :: nat
  ss_total :: nat
  ss_frames :: nat
  ss_bytes :: nat
  ss_first :: nat
  ss_last :: int
  ss_drained :: bool

definition chunk_bytes :: "int \<Rightarrow> nat" where
  "chunk_bytes rate = nat (rate div 1000 * 100 * 2)"

definition silent_chunks :: "nat \<Rightarrow> nat" where
  "silent_chunks ms = max 1 (ms div 100)"

definition smoke_begin :: "nat \<Rightarrow> win_session \<Rightarrow> session_smoke" where
  "smoke_begin ms ws = \<lparr>ss_ws = ws, ss_chunks = silent_chunks ms, ss_pushed = 0, ss_total = 0, ss_frames = 0, ss_bytes = 0, ss_first = 0,
     ss_last = 0, ss_drained = False\<rparr>"

definition push_turn :: "int \<Rightarrow> int \<Rightarrow> nat option \<Rightarrow> (session_smoke, unit) proc" where
  "push_turn rate base failing s = (if ss_pushed s = ss_chunks s then ret () s
     else (case win_push failing (replicate (chunk_bytes rate) 0) (base + int (ss_pushed s) * 100) (ss_ws s) of
         (Inl e, ws) \<Rightarrow> raise e (s\<lparr>ss_ws := ws\<rparr>)
       | (Inr _, ws) \<Rightarrow> ret () (s\<lparr>ss_ws := ws, ss_pushed := ss_pushed s + 1, ss_total := ss_total s + chunk_bytes rate\<rparr>)))"

definition drain_turn :: "real \<Rightarrow> real \<Rightarrow> (session_smoke, unit) proc" where
  "drain_turn deadline now s = (if ss_drained s then ret () s
     else (case frames_start (ss_ws s) of (Inl e, ws) \<Rightarrow> raise e s
       | (Inr _, _) \<Rightarrow> (case frames_next (ss_ws s) of
             (Waiting, ws) \<Rightarrow> ret () s
           | (Ended, ws) \<Rightarrow> ret () (s\<lparr>ss_ws := ws, ss_drained := True\<rparr>)
           | (Yielded f, ws) \<Rightarrow> ret () (s\<lparr>ss_ws := ws, ss_frames := ss_frames s + 1, ss_bytes := ss_bytes s + length (pf_pcm f),
                ss_first := (if ss_first s = 0 then length (pf_pcm f) else ss_first s), ss_last := pf_timestamp f,
                ss_drained := (deadline \<le> now)\<rparr>))))"

definition smoke_step :: "int \<Rightarrow> int \<Rightarrow> real \<Rightarrow> smoke_turn \<Rightarrow> (session_smoke, unit) proc" where
  "smoke_step rate base deadline t s = (case t of
       PushTurn failing \<Rightarrow> push_turn rate base failing s
     | Arrive raws \<Rightarrow> ret () (s\<lparr>ss_ws := drain_pass raws (ss_ws s)\<rparr>)
     | DrainTurn now \<Rightarrow> drain_turn deadline now s
     | DrainTimeout \<Rightarrow> ret () (s\<lparr>ss_drained := True\<rparr>))"

text \<open>\<open>gather\<close>: until both tasks are done or one raises.\<close>

fun gather :: "int \<Rightarrow> int \<Rightarrow> real \<Rightarrow> smoke_turn list \<Rightarrow> session_smoke \<Rightarrow> (pyexn option \<times> session_smoke) option" where
  "gather rate base deadline [] s = None"
| "gather rate base deadline (t # ts) s = (case smoke_step rate base deadline t s of
       (Inl e, s') \<Rightarrow> Some (Some e, s')
     | (Inr _, s') \<Rightarrow> if ss_pushed s' = ss_chunks s' \<and> ss_drained s' then Some (None, s') else gather rate base deadline ts s')"

text \<open>The run behind the credentials: the exit status with the session that is left. The session's \<open>leave\<close> does not raise.\<close>

definition session_run :: "nat option \<Rightarrow> join_outcome \<Rightarrow> string \<Rightarrow> string \<Rightarrow> string \<Rightarrow> int \<Rightarrow> nat \<Rightarrow> int \<Rightarrow> real \<Rightarrow> smoke_turn list \<Rightarrow> win_session
    \<Rightarrow> (nat outcome \<times> session_smoke) option" where
  "session_run setup joining room token uid rate ms base deadline turns ws =
     (case win_join setup joining room token uid rate 1 ws of
        (Inl e, ws1) \<Rightarrow> Some (if is_exception e then Done 2 else Uncaught e, smoke_begin ms ws1)
      | (Inr _, ws1) \<Rightarrow> (case gather rate base deadline turns (smoke_begin ms ws1) of
            None \<Rightarrow> None
          | Some (Some e, s) \<Rightarrow> if is_exception e then Some (Done 3, s\<lparr>ss_ws := win_leave (ss_ws s)\<rparr>) else Some (Uncaught e, s)
          | Some (None, s) \<Rightarrow> Some (Done 0, s\<lparr>ss_ws := win_leave (ss_ws s)\<rparr>)))"

text \<open>An application and a token from outside win over the server's.\<close>

definition session_credentials :: "string \<Rightarrow> string \<Rightarrow> string \<Rightarrow> pyexn + login option \<times> login \<Rightarrow> (string \<times> string \<times> string) outcome" where
  "session_credentials app token gslb answer =
     (if app \<noteq> [] \<and> token \<noteq> [] then Done (app, token, if gslb \<noteq> [] then gslb else DEFAULT_GSLB)
      else (case fetch_demo_token answer of Done (t, gslbs) \<Rightarrow> Done (DEMO_APPID, t, first_or DEFAULT_GSLB gslbs)
        | SysExit m \<Rightarrow> SysExit m | Uncaught e \<Rightarrow> Uncaught e))"


section \<open>The session of macOS\<close>

datatype mac_turn = MacPush selector | MacArrive "raw_frame list" | MacDrain real

record mac_smoke =
  ms_session :: ding_session
  ms_pushing :: bool
  ms_count :: nat
  ms_ts :: int
  ms_draining :: bool
  ms_frames :: nat
  ms_bytes :: nat
  ms_first :: "real option"

definition mac_begin :: "bool \<Rightarrow> bool \<Rightarrow> ding_session \<Rightarrow> mac_smoke" where
  "mac_begin push drain s = \<lparr>ms_session = s, ms_pushing = push, ms_count = 0, ms_ts = 0, ms_draining = drain, ms_frames = 0, ms_bytes = 0,
     ms_first = None\<rparr>"

definition mac_silence :: "int \<Rightarrow> bytes" where
  "mac_silence rate = replicate (2 * nat (rate * 100 div 1000)) 0"

text \<open>A push that raises ends the pushing, nothing else; frames are counted while the session is drained.\<close>

definition mac_step :: "int \<Rightarrow> mac_turn \<Rightarrow> mac_smoke \<Rightarrow> mac_smoke" where
  "mac_step rate t m = (case t of
       MacPush sel \<Rightarrow> if \<not> ms_pushing m then m
         else (case ding_push sel (mac_silence rate) (ms_ts m) (ms_session m) of
             (Inl e, s) \<Rightarrow> m\<lparr>ms_session := s, ms_pushing := False\<rparr>
           | (Inr _, s) \<Rightarrow> m\<lparr>ms_session := s, ms_count := ms_count m + 1, ms_ts := ms_ts m + 100\<rparr>)
     | MacArrive raws \<Rightarrow> m\<lparr>ms_session := fold on_audio_frame raws (ms_session m)\<rparr>
     | MacDrain now \<Rightarrow> if \<not> ms_draining m then m
         else (case ding_frames_start (ms_session m) of (Inl e, s) \<Rightarrow> m\<lparr>ms_draining := False\<rparr>
           | (Inr _, _) \<Rightarrow> (case ding_frames_next (ms_session m) of
               (Waiting, s) \<Rightarrow> m
             | (Ended, s) \<Rightarrow> m\<lparr>ms_session := s, ms_draining := False\<rparr>
             | (Yielded f, s) \<Rightarrow> m\<lparr>ms_session := s, ms_frames := ms_frames m + 1, ms_bytes := ms_bytes m + length (pf_pcm f),
                 ms_first := (case ms_first m of None \<Rightarrow> Some now | Some u \<Rightarrow> Some u)\<rparr>)))"

record mac_world_in =
  mi_sdk :: ding_sdk
  mi_ends :: ding_ends
  mi_leave :: selector
  mi_turns :: "mac_turn list"

text \<open>The turns are those before the duration is over; then both tasks are cancelled and the session is left.\<close>

definition mac_run :: "mac_world_in \<Rightarrow> string \<Rightarrow> string \<Rightarrow> string \<Rightarrow> int \<Rightarrow> bool \<Rightarrow> bool \<Rightarrow> ding_session \<Rightarrow> (pyexn + mac_smoke) \<times> ding_session" where
  "mac_run w room token uid rate push drain s =
     (case ding_join (mi_sdk w) (mi_ends w) room token uid rate 1 s of
        (Inl e, s1) \<Rightarrow> (Inl e, s1)
      | (Inr _, s1) \<Rightarrow> let m = foldl (\<lambda>m t. mac_step rate t m) (mac_begin push drain s1) (mi_turns w);
                          s2 = ding_leave (mi_leave w) (mi_ends w) (ms_session m)
                      in (Inr (m\<lparr>ms_session := s2, ms_pushing := False, ms_draining := False\<rparr>), s2))"

definition mac_session_for :: "string \<Rightarrow> string list \<Rightarrow> ding_session" where
  "mac_session_for app gslbs = ding_init 64 None app (first_or DEFAULT_GSLB gslbs)"

text \<open>\<open>main\<close>: an \<open>Exception\<close> gives status 1, \<open>SystemExit\<close> passes.\<close>

definition mac_main :: "bool \<Rightarrow> issuer_world \<Rightarrow> pyexn + login option \<times> login \<Rightarrow> mac_world_in \<Rightarrow> string \<Rightarrow> string \<Rightarrow> int \<Rightarrow> bool \<Rightarrow> bool
    \<Rightarrow> nat outcome \<times> ding_session option" where
  "mac_main use_real iw answer w room uid rate push drain = (case credentials use_real iw answer of
       SysExit m \<Rightarrow> (SysExit m, None)
     | Uncaught e \<Rightarrow> (if is_exception e then Done 1 else Uncaught e, None)
     | Done (app, token, gslbs) \<Rightarrow> (case mac_run w room token uid rate push drain (mac_session_for app gslbs) of
           (Inl e, s) \<Rightarrow> (if is_exception e then Done 1 else Uncaught e, Some s)
         | (Inr _, s) \<Rightarrow> (Done 0, Some s)))"


section \<open>The binding: what is released\<close>

text \<open>The exit status tells the cases apart: 0 when the join was reported with result 0 and everything was released.\<close>

theorem binding_status:
  assumes "binding_run w calls deadline = Some (cs, Done n)"
  shows "\<exists>fired. await_callback deadline (bw_polls w) = Some fired
    \<and> cs = calls @ fst (binding_cleanup (bw_cleanup w))
    \<and> (n = 0 \<longleftrightarrow> fired = Some 0 \<and> snd (binding_cleanup (bw_cleanup w)))
    \<and> (n = 1 \<longleftrightarrow> (\<exists>rc. fired = Some rc \<and> rc \<noteq> 0)) \<and> (n = 2 \<longleftrightarrow> fired = None)
    \<and> (n = 3 \<longleftrightarrow> fired = Some 0 \<and> \<not> snd (binding_cleanup (bw_cleanup w)))"
  using assms by (auto simp: binding_run_def split: option.splits if_splits prod.splits)

text \<open>The engine is destroyed unless a set-up call raises, or leaving or unregistering does: the three calls share one
  \<open>try\<close>. The session of the program itself destroys it in both cases.\<close>

lemma cleanup_destroys: "Destroy \<in> set (fst (binding_cleanup failing)) \<longleftrightarrow> failing \<noteq> Some 0 \<and> failing \<noteq> Some 1"
proof (cases failing)
  case (Some k)
  consider "k = 0" | "k = 1" | "k = 2" | "3 \<le> k" by linarith
  then show ?thesis by cases (simp_all add: Some binding_cleanup_def numeral_2_eq_2)
qed (simp add: binding_cleanup_def)

theorem binding_destroys_engine:
  assumes "binding_run w (binding_setup room uid app token gslb rate) deadline = Some (cs, r)"
  shows "Destroy \<in> set cs \<longleftrightarrow> (\<forall>k e. bw_setup w = Some (k, e) \<longrightarrow> 9 \<le> k) \<and> bw_cleanup w \<noteq> Some 0 \<and> bw_cleanup w \<noteq> Some 1"
proof -
  let ?calls = "binding_setup room uid app token gslb rate"
  have no: "Destroy \<notin> set ?calls" and len: "length ?calls = 9" by (auto simp: binding_setup_def)
  show ?thesis
  proof (cases "\<exists>k e. bw_setup w = Some (k, e) \<and> k < 9")
    case True
    then obtain k e where k: "bw_setup w = Some (k, e)" "k < 9" by blast
    with assms have "cs = take (Suc k) ?calls" by (simp add: binding_run_def len)
    then have "set cs \<subseteq> set ?calls" using set_take_subset by metis
    with no have "Destroy \<notin> set cs" by blast
    with k show ?thesis by simp
  next
    case False
    with assms len have "cs = ?calls @ fst (binding_cleanup (bw_cleanup w))"
      by (auto simp: binding_run_def split: option.splits if_splits prod.splits)
    with no False show ?thesis by (auto simp: cleanup_destroys)
  qed
qed

text \<open>The wait for the callback ends once a poll is made at or after the deadline.\<close>

lemma await_ends: "\<exists>p \<in> set polls. deadline \<le> fst p \<Longrightarrow> \<exists>fired. await_callback deadline polls = Some fired"
  by (induction deadline polls rule: await_callback.induct) auto


section \<open>The session: what is pushed, counted and released\<close>

definition smoke_ok :: "int \<Rightarrow> nat \<Rightarrow> session_smoke \<Rightarrow> bool" where
  "smoke_ok rate chunks s \<longleftrightarrow> win_reach (ss_ws s) \<and> ss_chunks s = chunks \<and> ss_pushed s \<le> chunks \<and> ss_total s = ss_pushed s * chunk_bytes rate"

lemma smoke_ok_step:
  assumes "smoke_ok rate chunks s"
  shows "smoke_ok rate chunks (snd (smoke_step rate base deadline t s))"
proof (cases t)
  case (PushTurn failing)
  obtain r ws where push: "win_push failing (replicate (chunk_bytes rate) 0) (base + int (ss_pushed s) * 100) (ss_ws s) = (r, ws)"
    using prod.exhaust by blast
  have "win_reach ws" using assms win_reach.push [OF _ push] by (simp add: smoke_ok_def)
  with assms push show ?thesis
    by (cases r; cases "ss_pushed s = ss_chunks s")
      (simp_all add: PushTurn smoke_step_def push_turn_def smoke_ok_def ret_def raise_def)
next
  case (Arrive raws)
  with assms win_reach.drain show ?thesis by (simp add: smoke_step_def smoke_ok_def ret_def)
next
  case (DrainTurn now)
  obtain st ws where "next": "frames_next (ss_ws s) = (st, ws)" by (cases "frames_next (ss_ws s)")
  have "win_reach ws" using assms win_reach.frame [OF _ "next"] by (simp add: smoke_ok_def)
  moreover obtain q v where start: "frames_start (ss_ws s) = (q, v)" by (cases "frames_start (ss_ws s)")
  ultimately show ?thesis
    using assms "next" by (cases "ss_drained s"; cases q; cases st) (simp_all add: DrainTurn smoke_step_def drain_turn_def smoke_ok_def ret_def raise_def)
next
  case DrainTimeout
  with assms show ?thesis by (simp add: smoke_step_def smoke_ok_def ret_def)
qed

lemma gather_ok:
  "gather rate base deadline ts s = Some (r, s') \<Longrightarrow> smoke_ok rate chunks s \<Longrightarrow>
    smoke_ok rate chunks s' \<and> (r = None \<longrightarrow> ss_pushed s' = chunks \<and> ss_drained s')"
proof (induction ts arbitrary: s)
  case (Cons t ts)
  obtain q u where step: "smoke_step rate base deadline t s = (q, u)" by (cases "smoke_step rate base deadline t s")
  have u: "smoke_ok rate chunks u" using smoke_ok_step [OF Cons(3), of base deadline t] step by simp
  show ?case
  proof (cases q)
    case (Inl e)
    with Cons(2) step u show ?thesis by auto
  next
    case (Inr x)
    show ?thesis
    proof (cases "ss_pushed u = ss_chunks u \<and> ss_drained u")
      case True
      with Cons(2) step Inr have "r = None" "s' = u" by simp_all
      with True u show ?thesis by (simp add: smoke_ok_def)
    next
      case False
      with Cons(2) step Inr have "gather rate base deadline ts u = Some (r, s')" by simp
      from Cons(1) [OF this u] show ?thesis .
    qed
  qed
qed simp

text \<open>Whatever the SDK does and however the tasks interleave: a run that exits with status 0 pushed every chunk, and each run that
  ends, except by a cancellation, leaves a session whose engines are all destroyed.\<close>

theorem session_smoke_releases:
  assumes "win_init app gslb capacity = Inr ws" and "session_run setup joining room token uid rate ms base deadline turns ws = Some (Done n, s)"
  shows "(n = 0 \<longrightarrow> ss_total s = silent_chunks ms * chunk_bytes rate)
    \<and> count_list (ws_calls (ss_ws s)) (e, Create) = count_list (ws_calls (ss_ws s)) (e, Destroy)"
proof -
  have engine: "ws_engine ws = None" "win_reach ws" using assms(1) win_reach.init by (auto simp: win_init_def split: if_splits)
  obtain r ws1 where join: "win_join setup joining room token uid rate 1 ws = (r, ws1)" by (cases "win_join setup joining room token uid rate 1 ws")
  have reach1: "win_reach ws1" using win_reach.join [OF engine(2) _ join] engine(1) by simp
  have balanced: "count_list (ws_calls v) (e, Create) = count_list (ws_calls v) (e, Destroy)" if "win_reach v" "ws_engine v = None" for v
    using win_reach_inv [OF that(1)] that(2) by (simp add: win_inv_def)
  have left: "ws_engine (win_leave v) = None" if "win_reach v" for v
    using win_reach_inv [OF that] by (auto simp: win_leave_def win_inv_def)
  show ?thesis
  proof (cases r)
    case (Inl x)
    with join assms(2) have s: "s = smoke_begin ms ws1" "n = 2" "is_exception x"
      by (auto simp: session_run_def split: if_splits)
    have "ws_engine ws1 = None"
      using join Inl s(3) engine(1) by (auto simp: win_join_def raise_def ret_def sdk_def is_exception_def Let_def split: if_splits option.splits join_outcome.splits)
    with balanced [OF reach1] s show ?thesis by (simp add: smoke_begin_def)
  next
    case (Inr x)
    have begin_ok: "smoke_ok rate (silent_chunks ms) (smoke_begin ms ws1)" using reach1 by (simp add: smoke_ok_def smoke_begin_def)
    from assms(2) join Inr obtain q u where g: "gather rate base deadline turns (smoke_begin ms ws1) = Some (q, u)"
      and s: "s = u\<lparr>ss_ws := win_leave (ss_ws u)\<rparr>" and n: "n = 0 \<longleftrightarrow> q = None"
      by (auto simp: session_run_def split: option.splits if_splits)
    from gather_ok [OF g begin_ok] have u: "smoke_ok rate (silent_chunks ms) u" "q = None \<longrightarrow> ss_pushed u = silent_chunks ms" by auto
    then have "win_reach (ss_ws u)" by (simp add: smoke_ok_def)
    from balanced [OF win_reach.leave [OF this] left [OF this]] u s n show ?thesis by (auto simp: smoke_ok_def)
  qed
qed


section \<open>The session of macOS: audio does not matter\<close>

text \<open>The test succeeds when the join does, with the same status whether a single chunk could be pushed or a single frame came in.\<close>

theorem mac_smoke_status:
  assumes "credentials use_real iw answer = Done (app, token, gslbs)"
  shows "fst (mac_main use_real iw answer w room uid rate push drain) = Done 0 \<longleftrightarrow>
    fst (ding_join (mi_sdk w) (mi_ends w) room token uid rate 1 (mac_session_for app gslbs)) = Inr ()"
  using assms by (auto simp: mac_main_def mac_run_def Let_def split: prod.splits sum.splits)

text \<open>What is counted adds up, and the session is left in every run that joined.\<close>

lemma mac_left: "mac_run w room token uid rate push drain s = (Inr m, s') \<Longrightarrow> dg_closed s' \<and> \<not> dg_joined s'"
  by (auto simp: mac_run_def ding_leave_def Let_def split: prod.splits sum.splits if_splits)

lemma mac_push_stamps:
  "ms_ts (foldl (\<lambda>m t. mac_step rate t m) m ts) = ms_ts m + 100 * (int (ms_count (foldl (\<lambda>m t. mac_step rate t m) m ts)) - int (ms_count m))"
proof (induction ts arbitrary: m)
  case (Cons t ts)
  have "ms_ts (mac_step rate t m) = ms_ts m + 100 * (int (ms_count (mac_step rate t m)) - int (ms_count m))"
    by (auto simp: mac_step_def split: mac_turn.splits prod.splits sum.splits frame_step.splits)
  with Cons show ?case by simp
qed simp

end
