(* ===== verification/Poc_Spikes.thy ===== *)
theory Poc_Spikes imports Link_Smoke Usb_Watch Audio_Backends begin

unbundle bit_operations_syntax

text \<open>
  The experiments of \<open>scripts/d1_poc\<close>: the jitter of the sound card under WASAPI (\<open>poc_wasapi_latency.py\<close>), the desktop
  libraries running together (\<open>poc_tray_qasync.py\<close>), and the ports of the real modem (\<open>poc_serial_pcm_spike.py\<close>, over the
  models of the AT client, of port discovery and of the audio port). What the libraries and the clock give is an input.
\<close>

section \<open>Jitter of the sound card\<close>

record run_result =
  rr_exclusive :: bool
  rr_blocksize :: nat
  rr_block_ms :: real
  rr_duration :: real
  rr_callbacks :: nat
  rr_overflows :: int
  rr_underflows :: int
  rr_p50 :: "real option"
  rr_p95 :: "real option"
  rr_p99 :: "real option"
  rr_max :: "real option"

text \<open>\<open>None\<close> is \<open>nan\<close>. The stream calls back with the clock and the status flags.\<close>

record meter =
  me_last :: "real option"
  me_gaps :: "real list"
  me_over :: nat
  me_under :: nat

definition meter_init :: meter where
  "meter_init = \<lparr>me_last = None, me_gaps = [], me_over = 0, me_under = 0\<rparr>"

definition SAMPLE_RATE_HZ :: nat where "SAMPLE_RATE_HZ = 16000"

definition block_ms :: "nat \<Rightarrow> real" where
  "block_ms blocksize = real blocksize / real SAMPLE_RATE_HZ * 1000"

definition callback :: "nat \<Rightarrow> meter \<Rightarrow> real \<times> nat \<Rightarrow> meter" where
  "callback blocksize m ev = (case ev of (now, status) \<Rightarrow>
     let m1 = m\<lparr>me_last := Some now, me_gaps := (case me_last m of None \<Rightarrow> me_gaps m
           | Some t \<Rightarrow> me_gaps m @ [(now - t) * 1000 - block_ms blocksize])\<rparr>;
         m2 = (if status AND 4 \<noteq> 0 then m1\<lparr>me_over := me_over m1 + 1\<rparr> else m1)
     in if status AND 1 \<noteq> 0 then m2\<lparr>me_under := me_under m2 + 1\<rparr> else m2)"

definition percentile :: "nat \<Rightarrow> real list \<Rightarrow> real" where
  "percentile q xs = xs ! min (length xs - 1) (q * length xs div 100)"

definition no_jitter :: "bool \<Rightarrow> nat \<Rightarrow> real \<Rightarrow> int \<times> int \<Rightarrow> run_result" where
  "no_jitter exclusive blocksize duration xruns =
     \<lparr>rr_exclusive = exclusive, rr_blocksize = blocksize, rr_block_ms = block_ms blocksize, rr_duration = duration, rr_callbacks = 0,
      rr_overflows = fst xruns, rr_underflows = snd xruns, rr_p50 = None, rr_p95 = None, rr_p99 = None, rr_max = None\<rparr>"

definition jitter_of :: "bool \<Rightarrow> nat \<Rightarrow> real \<Rightarrow> meter \<Rightarrow> run_result" where
  "jitter_of exclusive blocksize duration m =
     (if me_gaps m = [] then no_jitter exclusive blocksize duration (int (me_over m), int (me_under m))
      else let xs = sort (map abs (me_gaps m)) in
        \<lparr>rr_exclusive = exclusive, rr_blocksize = blocksize, rr_block_ms = block_ms blocksize, rr_duration = duration,
         rr_callbacks = length xs + 1, rr_overflows = int (me_over m), rr_underflows = int (me_under m), rr_p50 = Some (median xs),
         rr_p95 = Some (percentile 95 xs), rr_p99 = Some (percentile 99 xs), rr_max = Some (last xs)\<rparr>)"

text \<open>The sound library: its host APIs, whether it has exclusive settings, its default devices, its devices (host API, inputs,
  outputs), and the stream of a run on two devices: an exception or what it calls back with.\<close>

record sound_world =
  so_apis :: "string list"
  so_exclusive :: bool
  so_default :: "nat option \<times> nat option"
  so_devices :: "(nat \<times> nat \<times> nat) list"
  so_stream :: "bool \<Rightarrow> nat \<Rightarrow> nat \<Rightarrow> nat \<Rightarrow> pyexn + (real \<times> nat) list"

fun first_index :: "('a \<Rightarrow> bool) \<Rightarrow> 'a list \<Rightarrow> nat option" where
  "first_index P [] = None"
| "first_index P (x # xs) = (if P x then Some 0 else map_option Suc (first_index P xs))"

definition choose_devices :: "sound_world \<Rightarrow> nat \<Rightarrow> pyexn + nat \<times> nat" where
  "choose_devices w api = (case so_default w of
       (Some i, Some out) \<Rightarrow> Inr (i, out)
     | _ \<Rightarrow> (case (first_index (\<lambda>(h, ins, outs). h = api \<and> 0 < ins) (so_devices w),
               first_index (\<lambda>(h, ins, outs). h = api \<and> 0 < outs) (so_devices w)) of
             (Some i, Some out) \<Rightarrow> Inr (i, out)
           | _ \<Rightarrow> Inl (RuntimeError ''No WASAPI input/output device found'')))"

definition measure_run :: "sound_world \<Rightarrow> real \<Rightarrow> nat \<Rightarrow> bool \<Rightarrow> pyexn + run_result" where
  "measure_run w duration blocksize exclusive =
     (case first_index (\<lambda>name. contains_str ''wasapi'' (lower name)) (so_apis w) of
        None \<Rightarrow> Inl (RuntimeError ''WASAPI host API not found'')
      | Some api \<Rightarrow>
          if exclusive \<and> \<not> so_exclusive w then Inr (no_jitter True blocksize 0 (-1, -1))
          else (case choose_devices w api of
              Inl e \<Rightarrow> Inl e
            | Inr (i, out) \<Rightarrow> (case so_stream w exclusive blocksize i out of
                  Inl e \<Rightarrow> if is_exception e then Inr (no_jitter exclusive blocksize 0 (-1, -1)) else Inl e
                | Inr evs \<Rightarrow> Inr (jitter_of exclusive blocksize duration (foldl (callback blocksize) meter_init evs)))))"

fun measure_all :: "sound_world \<Rightarrow> real \<Rightarrow> (nat \<times> bool) list \<Rightarrow> pyexn + run_result list" where
  "measure_all w duration [] = Inr []"
| "measure_all w duration ((blocksize, exclusive) # runs) = (case measure_run w duration blocksize exclusive of
       Inl e \<Rightarrow> Inl e
     | Inr r \<Rightarrow> (case measure_all w duration runs of Inl e \<Rightarrow> Inl e | Inr rs \<Rightarrow> Inr (r # rs)))"

definition WASAPI_RUNS :: "(nat \<times> bool) list" where
  "WASAPI_RUNS = [(320, False), (320, True), (160, False), (160, True), (80, False), (80, True)]"

definition clears :: "run_result \<Rightarrow> bool" where
  "clears r \<longleftrightarrow> 0 < rr_callbacks r \<and> rr_overflows r = 0 \<and> rr_underflows r = 0
     \<and> (case rr_p95 r of None \<Rightarrow> False | Some p \<Rightarrow> p \<le> 10)"

text \<open>The row that is recommended, if any passes.\<close>

definition wasapi_verdict :: "run_result list \<Rightarrow> run_result option" where
  "wasapi_verdict rs = (let passing = filter clears rs; shared = filter (\<lambda>r. \<not> rr_exclusive r) passing in
     if passing = [] then None else if shared \<noteq> [] then Some (hd shared) else Some (hd passing))"

definition wasapi_main :: "sound_world \<Rightarrow> real \<Rightarrow> pyexn + run_result list \<times> run_result option" where
  "wasapi_main w duration = (case measure_all w duration WASAPI_RUNS of Inl e \<Rightarrow> Inl e
     | Inr rs \<Rightarrow> Inr (rs, wasapi_verdict rs))"


section \<open>The desktop libraries together\<close>

record run_stats =
  st_started :: real
  st_ended :: real
  st_ticks :: nat
  st_shows :: nat
  st_hides :: nat
  st_reason :: string
  st_errors :: nat

text \<open>The task that ticks once a second sleeps in one of two places, or has ended; the signals it emits are queued for the Qt
  thread, \<open>True\<close> to show the window. \<open>dm_runner\<close>: the task that waits for the duration still runs.\<close>

datatype ticker = Counting | Shown | TickerDone

record demo =
  dm_stats :: run_stats
  dm_ticker :: ticker
  dm_queue :: "bool list"
  dm_runner :: bool
  dm_stop :: bool

definition demo_init :: "real \<Rightarrow> demo" where
  "demo_init now = \<lparr>dm_stats = \<lparr>st_started = now, st_ended = 0, st_ticks = 0, st_shows = 0, st_hides = 0, st_reason = [], st_errors = 0\<rparr>,
     dm_ticker = Counting, dm_queue = [], dm_runner = True, dm_stop = False\<rparr>"

text \<open>\<open>SleepOver False\<close> is a sleep after which emitting raises; \<open>StopRuns\<close> is the turn in which the loop runs the stop that a click
  on the tray has scheduled.\<close>

datatype demo_event = SleepOver bool | QtTurn | DurationOver | TrayQuit | StopRuns | LoopRaises

definition ticker_fails :: "demo \<Rightarrow> demo" where
  "ticker_fails d = d\<lparr>dm_ticker := TickerDone, dm_stats := (dm_stats d)\<lparr>st_errors := st_errors (dm_stats d) + 1\<rparr>\<rparr>"

definition tick_task :: "bool \<Rightarrow> demo \<Rightarrow> demo" where
  "tick_task emits d = (case dm_ticker d of
       TickerDone \<Rightarrow> d
     | Counting \<Rightarrow>
         let n = st_ticks (dm_stats d) + 1; d1 = d\<lparr>dm_stats := (dm_stats d)\<lparr>st_ticks := n\<rparr>\<rparr> in
         if n mod 30 \<noteq> 0 then d1
         else if emits then d1\<lparr>dm_queue := dm_queue d1 @ [True], dm_ticker := Shown\<rparr> else ticker_fails d1
     | Shown \<Rightarrow> if emits then d\<lparr>dm_queue := dm_queue d @ [False], dm_ticker := Counting\<rparr> else ticker_fails d)"

definition qt_turn :: "demo \<Rightarrow> demo" where
  "qt_turn d = (case dm_queue d of [] \<Rightarrow> d
     | True # q \<Rightarrow> d\<lparr>dm_queue := q, dm_stats := (dm_stats d)\<lparr>st_shows := st_shows (dm_stats d) + 1\<rparr>\<rparr>
     | False # q \<Rightarrow> d\<lparr>dm_queue := q, dm_stats := (dm_stats d)\<lparr>st_hides := st_hides (dm_stats d) + 1\<rparr>\<rparr>)"

definition set_reason :: "string \<Rightarrow> demo \<Rightarrow> demo" where
  "set_reason r d = d\<lparr>dm_stats := (dm_stats d)\<lparr>st_reason := r\<rparr>\<rparr>"

definition demo_step :: "demo \<Rightarrow> demo_event \<Rightarrow> demo" where
  "demo_step d ev = (case ev of
       SleepOver emits \<Rightarrow> tick_task emits d
     | QtTurn \<Rightarrow> qt_turn d
     | DurationOver \<Rightarrow> if dm_runner d then (set_reason ''duration_elapsed'' d)\<lparr>dm_ticker := TickerDone, dm_runner := False\<rparr> else d
     | TrayQuit \<Rightarrow> (if st_reason (dm_stats d) = [] then set_reason ''tray_quit'' d else d)\<lparr>dm_stop := True\<rparr>
     | StopRuns \<Rightarrow> d
     | LoopRaises \<Rightarrow> set_reason ''exception'' (d\<lparr>dm_stats := (dm_stats d)\<lparr>st_errors := st_errors (dm_stats d) + 1\<rparr>\<rparr>))"

text \<open>\<open>run_forever\<close>: \<open>None\<close> while nothing stops the loop.\<close>

fun demo_run :: "demo \<Rightarrow> demo_event list \<Rightarrow> demo option" where
  "demo_run d [] = None"
| "demo_run d (ev # evs) = (let d' = demo_step d ev in
     if ev = LoopRaises \<or> ev = StopRuns \<and> dm_stop d then Some d' else demo_run d' evs)"

datatype demo_verdict = FailErrors nat | PassQuit | PassRan | FailShort

definition tray_verdict :: "real \<Rightarrow> run_stats \<Rightarrow> demo_verdict" where
  "tray_verdict target s = (if 0 < st_errors s then FailErrors (st_errors s)
     else if st_reason s = ''tray_quit'' then PassQuit
     else if target * 95 / 100 \<le> st_ended s - st_started s then PassRan else FailShort)"

text \<open>\<open>main\<close>: the verdict and the exit status; \<open>cancel\<close> is what cancelling the waiting task raises once the loop is closed.\<close>

definition tray_main :: "real \<Rightarrow> real \<Rightarrow> real \<Rightarrow> pyexn option \<Rightarrow> demo_event list \<Rightarrow> (pyexn + demo_verdict \<times> nat) option" where
  "tray_main target started ended cancel evs = (case demo_run (demo_init started) evs of
       None \<Rightarrow> None
     | Some d \<Rightarrow> (case (if dm_runner d then cancel else None) of Some e \<Rightarrow> Some (Inl e)
         | None \<Rightarrow> let v = tray_verdict target ((dm_stats d)\<lparr>st_ended := ended\<rparr>) in
             Some (Inr (v, if v = PassQuit \<or> v = PassRan then 0 else 1))))"


section \<open>The ports of the modem\<close>

text \<open>The AT client of type \<open>'c\<close>, how often it was opened and closed, and the capture with the driver's log.\<close>

record 'c spike =
  sp_client :: 'c
  sp_opened :: nat
  sp_closed :: nat
  sp_cap :: "(holder \<times> port_call list) \<times> fake_wav option"

fun spike_ports :: "string option \<times> string option \<times> string option \<Rightarrow> port_info list \<Rightarrow> string option \<times> string option \<times> string option" where
  "spike_ports acc [] = acc"
| "spike_ports (atp, audio, usb) (p # ps) =
     (if vid_pid_hex (pi_vid p) = Some ''1e0e'' \<and> vid_pid_hex (pi_pid p) = Some ''9001''
      then spike_ports
        (if contains_str ''AT PORT'' (case pi_description p of None \<Rightarrow> [] | Some d \<Rightarrow> d) then (Some (pi_device p), audio, pi_serial p)
         else if contains_str ''Audio'' (case pi_description p of None \<Rightarrow> [] | Some d \<Rightarrow> d) then (atp, Some (pi_device p), pi_serial p)
         else (atp, audio, pi_serial p)) ps
      else spike_ports (atp, audio, usb) ps)"

definition on_client :: "('c, 'a) proc \<Rightarrow> ('c spike, 'a) proc" where
  "on_client m s = (case m (sp_client s) of (r, c) \<Rightarrow> (r, s\<lparr>sp_client := c\<rparr>))"

definition on_capture :: "((holder \<times> port_call list) \<times> fake_wav option, 'a) proc \<Rightarrow> ('c spike, 'a) proc" where
  "on_capture m s = (case m (sp_cap s) of (r, c) \<Rightarrow> (r, s\<lparr>sp_cap := c\<rparr>))"

definition assert_that :: "bool \<Rightarrow> ('s, unit) proc" where
  "assert_that b = (if b then ret () else raise (OtherError ''AssertionError''))"

definition DEFAULT_CHUNK_BYTES :: nat where "DEFAULT_CHUNK_BYTES = 320"

text \<open>The capture: \<open>opening\<close> is the driver's answer, \<open>reads\<close> its reads, \<open>None\<close> when they do not end within a second.\<close>

definition spike_capture :: "string \<Rightarrow> pyexn + nat \<Rightarrow> (pyexn + bytes) list option \<Rightarrow> ('c spike, unit) proc" where
  "spike_capture path opening reads = seqm (modify (\<lambda>s. s\<lparr>sp_cap := ((holder_init path, snd (fst (sp_cap s))), None)\<rparr>)) (finallym
     (seqm (on_capture (\<lambda>(hl, f). case open_port opening hl of (r, hl') \<Rightarrow> (r, (hl', f))))
       (bindm (case reads of None \<Rightarrow> raise (OtherError ''TimeoutError'')
           | Some rs \<Rightarrow> on_capture (serial_read_chunk opening rs DEFAULT_CHUNK_BYTES))
         (\<lambda>buf. assert_that (length buf \<le> DEFAULT_CHUNK_BYTES))))
     (on_capture (\<lambda>(hl, f). (Inr (), (close_port hl, f)))))"

text \<open>The part between opening and closing the client; \<open>2\<close> when switching PCM on succeeds outside a call.\<close>

definition spike_at :: "(string \<Rightarrow> ('c, at_response) proc) \<Rightarrow> string \<Rightarrow> pyexn + nat \<Rightarrow> (pyexn + bytes) list option \<Rightarrow> ('c spike, nat) proc" where
  "spike_at send audio opening reads =
     bindm (on_client (send ''AT+CPCMREG=?'')) (\<lambda>r. seqm (assert_that (\<exists>l \<in> set (ar_lines r). contains_str ''0-1'' l))
       (bindm (catchm (bindm (on_client (cpcmreg_enable send)) (\<lambda>_. ret False))
          (\<lambda>e. case e of PcmEnableError _ \<Rightarrow> Some (ret True) | _ \<Rightarrow> None))
        (\<lambda>refused. if \<not> refused then ret 2
          else seqm (on_client (cpcmreg_disable send)) (seqm (spike_capture audio opening reads) (ret 0)))))"

definition open_client :: "(string \<Rightarrow> pyexn option) \<Rightarrow> string \<Rightarrow> ('c spike, unit) proc" where
  "open_client fails path = (case fails path of Some e \<Rightarrow> raise e | None \<Rightarrow> modify (\<lambda>s. s\<lparr>sp_opened := sp_opened s + 1\<rparr>))"

definition close_client :: "pyexn option \<Rightarrow> ('c spike, unit) proc" where
  "close_client fails = seqm (modify (\<lambda>s. s\<lparr>sp_closed := sp_closed s + 1\<rparr>)) (case fails of None \<Rightarrow> ret () | Some e \<Rightarrow> raise e)"

definition spike_main :: "(string \<Rightarrow> ('c, at_response) proc) \<Rightarrow> port_info list \<Rightarrow> pyexn + port_info list \<Rightarrow> (string \<Rightarrow> pyexn option) \<Rightarrow> pyexn option
    \<Rightarrow> pyexn + nat \<Rightarrow> (pyexn + bytes) list option \<Rightarrow> ('c spike, nat) proc" where
  "spike_main send ports scan open_fails close_fails opening reads = (case spike_ports (None, None, None) ports of (atp, audio, usb) \<Rightarrow>
     if atp = None \<or> atp = Some [] \<or> audio = None \<or> audio = Some [] then ret 1
     else seqm (assert_that (find_audio_serial_path usb (Some ''1e0e'') (Some ''9001'') scan = audio))
       (seqm (open_client open_fails (case atp of Some p \<Rightarrow> p | None \<Rightarrow> []))
         (finallym (spike_at send (case audio of Some p \<Rightarrow> p | None \<Rightarrow> []) opening reads) (close_client close_fails))))"

section \<open>What the verdict of the jitter means\<close>

lemma sorted_rank_le:
  fixes xs :: "'a :: linorder list"
  assumes "sorted xs" and "k < length xs"
  shows "xs ! k \<le> x \<longleftrightarrow> k < length (filter (\<lambda>d. d \<le> x) xs)"
  using assms
proof (induction xs arbitrary: k)
  case (Cons y ys)
  show ?case
  proof (cases "y \<le> x")
    case True
    with Cons show ?thesis by (cases k) auto
  next
    case False
    then have none: "\<forall>d \<in> set (y # ys). \<not> d \<le> x" using Cons.prems(1) by auto
    then have "\<not> (y # ys) ! k \<le> x" using Cons.prems(2) nth_mem by blast
    with none show ?thesis by simp
  qed
qed simp

lemma percentile_at_most:
  assumes "xs \<noteq> []"
  shows "percentile q (sort xs) \<le> x \<longleftrightarrow> min (length xs - 1) (q * length xs div 100) < length (filter (\<lambda>d. d \<le> x) xs)"
proof -
  have "min (length xs - 1) (q * length xs div 100) < length (sort xs)" using assms by (cases xs) auto
  from sorted_rank_le [OF sorted_sort this, of x] show ?thesis by (simp add: percentile_def filter_sort)
qed

lemma callback_sels:
  "me_last (callback b m ev) = Some (fst ev)"
  "me_gaps (callback b m ev) = (case me_last m of None \<Rightarrow> me_gaps m | Some t \<Rightarrow> me_gaps m @ [(fst ev - t) * 1000 - block_ms b])"
  "me_over (callback b m ev) = me_over m + (if snd ev AND 4 \<noteq> 0 then 1 else 0)"
  "me_under (callback b m ev) = me_under m + (if snd ev AND 1 \<noteq> 0 then 1 else 0)"
  by (simp_all add: callback_def Let_def prod.case_eq_if)

lemma callback_fold:
  "me_over (foldl (callback b) m evs) = me_over m + length (filter (\<lambda>(t, s). s AND 4 \<noteq> 0) evs)"
  "me_under (foldl (callback b) m evs) = me_under m + length (filter (\<lambda>(t, s). s AND 1 \<noteq> 0) evs)"
  "length (me_gaps (foldl (callback b) m evs)) = length (me_gaps m) + (length evs - (if me_last m = None then 1 else 0))"
  by (induction evs arbitrary: m) (auto simp: callback_sels split: option.splits)

text \<open>The gaps between one callback and the next, against the length of a block.\<close>

fun gaps :: "real \<Rightarrow> real list \<Rightarrow> real list" where
  "gaps b (t # u # ts) = ((u - t) * 1000 - b) # gaps b (u # ts)"
| "gaps b ts = []"

lemma callback_gaps:
  "me_gaps (foldl (callback b) m evs) = me_gaps m
     @ gaps (block_ms b) ((case me_last m of None \<Rightarrow> [] | Some t \<Rightarrow> [t]) @ map fst evs)"
proof (induction evs arbitrary: m)
  case (Cons ev evs)
  show ?case by (simp add: Cons callback_sels split: option.splits)
qed (auto split: option.splits)

lemma clears_jitter:
  "clears (jitter_of exclusive b duration (foldl (callback b) meter_init evs)) \<longleftrightarrow> 2 \<le> length evs
     \<and> (\<forall>(t, s) \<in> set evs. s AND 4 = 0 \<and> s AND 1 = 0)
     \<and> min (length evs - 2) (95 * (length evs - 1) div 100)
        < length (filter (\<lambda>g. \<bar>g\<bar> \<le> 10) (gaps (block_ms b) (map fst evs)))"
proof -
  let ?m = "foldl (callback b) meter_init evs"
  have gs: "me_gaps ?m = gaps (block_ms b) (map fst evs)" by (simp add: callback_gaps meter_init_def)
  have len: "length (me_gaps ?m) = length evs - 1" by (simp add: callback_fold meter_init_def)
  have flags: "int (me_over ?m) = 0 \<and> int (me_under ?m) = 0 \<longleftrightarrow> (\<forall>(t, s) \<in> set evs. s AND 4 = 0 \<and> s AND 1 = 0)"
    by (auto simp: callback_fold meter_init_def filter_empty_conv)
  show ?thesis
  proof (cases "me_gaps ?m = []")
    case True
    with len show ?thesis by (auto simp: jitter_of_def no_jitter_def clears_def)
  next
    case False
    then have "2 \<le> length evs" using len by (cases evs; cases "tl evs") auto
    have "map abs (me_gaps ?m) \<noteq> []" using False by simp
    from percentile_at_most [OF this, of 95 10]
    have "percentile 95 (sort (map abs (me_gaps ?m))) \<le> 10 \<longleftrightarrow>
      min (length evs - 2) (95 * (length evs - 1) div 100) < length (filter (\<lambda>g. \<bar>g\<bar> \<le> 10) (me_gaps ?m))"
      by (simp add: len filter_map comp_def numeral_2_eq_2)
    with False flags \<open>2 \<le> length evs\<close> show ?thesis
      by (auto simp: jitter_of_def clears_def Let_def gs)
  qed
qed

lemma wasapi_verdict_None: "wasapi_verdict rs = None \<longleftrightarrow> (\<forall>r \<in> set rs. \<not> clears r)"
  by (auto simp: wasapi_verdict_def Let_def filter_empty_conv)

lemma wasapi_verdict_Some:
  assumes "wasapi_verdict rs = Some r"
  shows "r \<in> set rs \<and> clears r \<and> (rr_exclusive r \<longrightarrow> (\<forall>s \<in> set rs. rr_exclusive s \<or> \<not> clears s))"
proof -
  let ?shared = "filter (\<lambda>r. \<not> rr_exclusive r) (filter clears rs)"
  show ?thesis
  proof (cases "?shared = []")
    case True
    then have none: "\<forall>s \<in> set rs. rr_exclusive s \<or> \<not> clears s" by (auto simp: filter_empty_conv)
    from assms True have "filter clears rs \<noteq> []" and "r = hd (filter clears rs)" by (auto simp: wasapi_verdict_def Let_def split: if_splits)
    then have "r \<in> set (filter clears rs)" using hd_in_set by blast
    with none show ?thesis by auto
  next
    case False
    with assms have "r = hd ?shared" by (auto simp: wasapi_verdict_def Let_def split: if_splits)
    with False have "r \<in> set ?shared" using hd_in_set by blast
    then show ?thesis by auto
  qed
qed

lemma measured_rows:
  "measure_all w duration runs = Inr rs \<Longrightarrow> r \<in> set rs \<Longrightarrow> \<exists>(b, e) \<in> set runs. measure_run w duration b e = Inr r"
proof (induction w duration runs arbitrary: rs rule: measure_all.induct)
  case (2 w duration b e runs)
  then obtain r0 rs0 where "measure_run w duration b e = Inr r0" and "measure_all w duration runs = Inr rs0" and "rs = r0 # rs0"
    by (auto split: sum.splits)
  with 2 show ?case by auto
qed simp

text \<open>A recommended row was measured on a stream that called back at least twice, never with flag 1 or 4, and of whose gaps
  nineteen in twenty were within 10 ms of a block. An exclusive row is recommended only if no shared one passes.\<close>

theorem recommendation_measured:
  assumes "wasapi_main w duration = Inr (rs, Some r)"
  shows "(\<exists>evs i out. so_stream w (rr_exclusive r) (rr_blocksize r) i out = Inr evs \<and> 2 \<le> length evs
       \<and> (\<forall>(t, s) \<in> set evs. s AND 4 = 0 \<and> s AND 1 = 0)
       \<and> min (length evs - 2) (95 * (length evs - 1) div 100)
          < length (filter (\<lambda>g. \<bar>g\<bar> \<le> 10) (gaps (block_ms (rr_blocksize r)) (map fst evs))))
     \<and> (rr_exclusive r \<longrightarrow> (\<forall>s \<in> set rs. rr_exclusive s \<or> \<not> clears s))"
proof -
  from assms have all: "measure_all w duration WASAPI_RUNS = Inr rs" and v: "wasapi_verdict rs = Some r"
    by (auto simp: wasapi_main_def split: sum.splits)
  from wasapi_verdict_Some [OF v] have mem: "r \<in> set rs" and ok: "clears r"
    and last: "rr_exclusive r \<longrightarrow> (\<forall>s \<in> set rs. rr_exclusive s \<or> \<not> clears s)" by auto
  from measured_rows [OF all mem] obtain b e where run: "measure_run w duration b e = Inr r" by blast
  with ok obtain i out evs where stream: "so_stream w e b i out = Inr evs"
    and r: "r = jitter_of e b duration (foldl (callback b) meter_init evs)"
    by (auto simp: measure_run_def no_jitter_def clears_def split: option.splits if_splits sum.splits prod.splits)
  have "rr_exclusive r = e" "rr_blocksize r = b" by (simp_all add: r jitter_of_def no_jitter_def Let_def)
  moreover from ok r clears_jitter [of e b duration evs] have "2 \<le> length evs
      \<and> (\<forall>(t, s) \<in> set evs. s AND 4 = 0 \<and> s AND 1 = 0)
      \<and> min (length evs - 2) (95 * (length evs - 1) div 100) < length (filter (\<lambda>g. \<bar>g\<bar> \<le> 10) (gaps (block_ms b) (map fst evs)))" by simp
  ultimately show ?thesis using stream last by (intro conjI exI [of _ evs] exI [of _ i] exI [of _ out]) simp_all
qed

text \<open>PortAudio reports an input overflow as flag 2: a stream that overflows at every callback counts none.\<close>

lemma input_overflow_not_counted:
  assumes "\<forall>(t, s) \<in> set evs. s = 2"
  shows "rr_overflows (jitter_of e b duration (foldl (callback b) meter_init evs)) = 0
    \<and> rr_underflows (jitter_of e b duration (foldl (callback b) meter_init evs)) = 0"
proof -
  have "\<forall>x \<in> set evs. snd x AND 4 = 0 \<and> snd x AND 1 = 0" using assms by (auto simp: and_nat_def)
  then have "filter (\<lambda>(t, s). s AND 4 \<noteq> 0) evs = []" "filter (\<lambda>(t, s). s AND 1 \<noteq> 0) evs = []"
    by (auto simp: filter_empty_conv)
  then show ?thesis by (simp add: jitter_of_def no_jitter_def Let_def callback_fold meter_init_def)
qed

section \<open>Runs of the desktop demo\<close>

text \<open>Signals alternate, starting with the given one.\<close>

fun alternate :: "bool \<Rightarrow> bool list \<Rightarrow> bool" where
  "alternate b [] \<longleftrightarrow> True"
| "alternate b (x # xs) \<longleftrightarrow> x = b \<and> alternate (\<not> b) xs"

lemma alternate_snoc: "alternate b (xs @ [x]) \<longleftrightarrow> alternate b xs \<and> x = (b = even (length xs))"
  by (induction b xs rule: alternate.induct) auto

definition window_shown :: "run_stats \<Rightarrow> bool" where
  "window_shown s \<longleftrightarrow> st_shows s = st_hides s + 1"

text \<open>The window's state when the queue has run.\<close>

definition shown_later :: "demo \<Rightarrow> bool" where
  "shown_later d \<longleftrightarrow> window_shown (dm_stats d) = even (length (dm_queue d))"

definition demo_inv :: "demo \<Rightarrow> bool" where
  "demo_inv d \<longleftrightarrow> (st_shows (dm_stats d) = st_hides (dm_stats d) \<or> window_shown (dm_stats d))
     \<and> alternate (\<not> window_shown (dm_stats d)) (dm_queue d)
     \<and> st_shows (dm_stats d) + length (filter id (dm_queue d)) \<le> st_ticks (dm_stats d) div 30
     \<and> (dm_ticker d = Counting \<longrightarrow> \<not> shown_later d \<and> st_shows (dm_stats d) + length (filter id (dm_queue d)) = st_ticks (dm_stats d) div 30)
     \<and> (dm_ticker d = Shown \<longrightarrow> shown_later d \<and> st_shows (dm_stats d) + length (filter id (dm_queue d)) = st_ticks (dm_stats d) div 30)"

lemma demo_inv_init: "demo_inv (demo_init now)"
  by (simp add: demo_inv_def demo_init_def window_shown_def shown_later_def)

lemma next_tick: "Suc n mod 30 \<noteq> 0 \<Longrightarrow> Suc n div 30 = n div (30::nat)" "Suc n mod 30 = 0 \<Longrightarrow> Suc n div 30 = n div (30::nat) + 1"
  by (simp_all add: div_Suc)

lemma demo_inv_tick: "demo_inv d \<Longrightarrow> demo_inv (tick_task emits d)"
  by (cases "Suc (st_ticks (dm_stats d)) mod 30 = 0"; cases "dm_ticker d")
    (auto simp: demo_inv_def tick_task_def ticker_fails_def window_shown_def shown_later_def alternate_snoc Let_def next_tick)

lemma demo_inv_qt: "demo_inv d \<Longrightarrow> demo_inv (qt_turn d)"
  by (cases "dm_queue d")
    (auto simp: demo_inv_def qt_turn_def window_shown_def shown_later_def split: bool.splits)

lemma demo_inv_step: "demo_inv d \<Longrightarrow> demo_inv (demo_step d ev)"
  by (cases ev) (auto simp: demo_step_def demo_inv_tick demo_inv_qt, auto simp: demo_inv_def set_reason_def window_shown_def shown_later_def)

text \<open>In every run the window is shown at most once for thirty ticks, and hidden before it is shown again.\<close>

theorem demo_window_alternates:
  assumes "demo_run (demo_init now) evs = Some d"
  shows "st_hides (dm_stats d) \<le> st_shows (dm_stats d) \<and> st_shows (dm_stats d) \<le> st_hides (dm_stats d) + 1
    \<and> 30 * st_shows (dm_stats d) \<le> st_ticks (dm_stats d)"
proof -
  have "demo_run d0 evs = Some d \<Longrightarrow> demo_inv d0 \<Longrightarrow> demo_inv d" for d0
  proof (induction evs arbitrary: d0)
    case (Cons ev evs)
    note inv = demo_inv_step [OF Cons(3), of ev]
    show ?case
    proof (cases "ev = LoopRaises \<or> ev = StopRuns \<and> dm_stop d0")
      case True
      with Cons(2) have "d = demo_step d0 ev" by (simp add: Let_def)
      with inv show ?thesis by simp
    next
      case False
      with Cons(2) have "demo_run (demo_step d0 ev) evs = Some d" by (simp add: Let_def)
      from Cons(1) [OF this inv] show ?thesis .
    qed
  qed simp
  from this [OF assms demo_inv_init] have "st_shows (dm_stats d) = st_hides (dm_stats d) \<or> st_shows (dm_stats d) = st_hides (dm_stats d) + 1"
    and "st_shows (dm_stats d) + length (filter id (dm_queue d)) \<le> st_ticks (dm_stats d) div 30"
    by (simp_all add: demo_inv_def window_shown_def)
  then show ?thesis by auto
qed

text \<open>The demo passes only when the user has clicked: that the duration is over does not stop the loop.\<close>

lemma only_click_stops: "ev \<noteq> TrayQuit \<Longrightarrow> dm_stop (demo_step d ev) = dm_stop d"
  by (cases ev) (auto simp: demo_step_def set_reason_def qt_turn_def tick_task_def ticker_fails_def Let_def
      split: list.splits bool.splits ticker.splits)

lemma stopped_by_click:
  "demo_run d evs = Some d' \<Longrightarrow> \<not> dm_stop d \<Longrightarrow> TrayQuit \<in> set evs \<or> st_errors (dm_stats d') \<noteq> 0"
proof (induction evs arbitrary: d)
  case (Cons ev evs)
  show ?case
  proof (cases "ev = TrayQuit \<or> ev = LoopRaises")
    case True
    with Cons(2) show ?thesis by (auto simp: demo_step_def set_reason_def Let_def)
  next
    case False
    then have same: "dm_stop (demo_step d ev) = dm_stop d" by (simp add: only_click_stops)
    with False Cons(2,3) have "demo_run (demo_step d ev) evs = Some d'" by (simp add: Let_def)
    from Cons(1) [OF this] same Cons(3) show ?thesis by simp
  qed
qed simp

theorem demo_passes_only_on_click:
  assumes "tray_main target started ended cancel evs = Some (Inr (v, 0))"
  shows "TrayQuit \<in> set evs"
proof (cases "demo_run (demo_init started) evs")
  case None
  with assms show ?thesis by (simp add: tray_main_def)
next
  case (Some d)
  define t where "t = (dm_stats d)\<lparr>st_ended := ended\<rparr>"
  from Some assms have "tray_verdict target t = PassQuit \<or> tray_verdict target t = PassRan"
    by (simp add: tray_main_def t_def [symmetric] Let_def split: option.splits if_splits)
  then have "st_errors t = 0" by (cases "st_errors t") (simp_all add: tray_verdict_def)
  with stopped_by_click [OF Some] show ?thesis by (simp add: t_def demo_init_def)
qed

lemma click_at_once_passes: "tray_main 600 0 0 None [TrayQuit, StopRuns] = Some (Inr (PassQuit, 0))"
  by (simp add: tray_main_def demo_init_def demo_step_def set_reason_def tray_verdict_def Let_def)


section \<open>The spike releases what it opened\<close>

definition keeps :: "('s \<Rightarrow> 'b) \<Rightarrow> ('s, 'a) proc \<Rightarrow> bool" where
  "keeps f m \<longleftrightarrow> (\<forall>s. f (snd (m s)) = f s)"

named_theorems keeps_rules \<open>steps that leave a part of the state alone\<close>

lemma keeps_basic [keeps_rules]: "keeps f (ret x)" "keeps f (raise e)"
  by (simp_all add: keeps_def method_defs)

lemma keepsD: "keeps f m \<Longrightarrow> m s = (r, t) \<Longrightarrow> f t = f s"
  unfolding keeps_def by (metis snd_conv)

lemma keeps_bindm [keeps_rules]:
  assumes "keeps f m" and "\<And>x. keeps f (k x)"
  shows "keeps f (bindm m k)"
  unfolding keeps_def
proof
  fix s
  obtain r t where m: "m s = (r, t)" by (cases "m s")
  from keepsD [OF assms(1) m] show "f (snd (bindm m k s)) = f s"
    using m assms(2) by (cases r) (simp_all add: bindm_def keeps_def)
qed

lemma keeps_seqm [keeps_rules]: "keeps f m \<Longrightarrow> keeps f k \<Longrightarrow> keeps f (seqm m k)"
  unfolding seqm_def by (rule keeps_bindm)

lemma keeps_catchm [keeps_rules]:
  assumes "keeps f m" and "\<And>e k. h e = Some k \<Longrightarrow> keeps f k"
  shows "keeps f (catchm m h)"
  unfolding keeps_def
proof
  fix s
  obtain r t where m: "m s = (r, t)" by (cases "m s")
  note t = keepsD [OF assms(1) m]
  show "f (snd (catchm m h s)) = f s"
  proof (cases r)
    case (Inl e)
    with m t show ?thesis
      using assms(2) [of e] by (cases "h e") (simp_all add: catchm_def keeps_def)
  next
    case (Inr x)
    with m t show ?thesis by (simp add: catchm_def)
  qed
qed

lemma keeps_finallym [keeps_rules]:
  assumes "keeps f m" and "keeps f k"
  shows "keeps f (finallym m k)"
  unfolding keeps_def
proof
  fix s
  obtain r t where m: "m s = (r, t)" by (cases "m s")
  obtain r' t' where k: "k t = (r', t')" by (cases "k t")
  from keepsD [OF assms(1) m] keepsD [OF assms(2) k] show "f (snd (finallym m k s)) = f s"
    using m k by (cases r') (simp_all add: finallym_def)
qed

definition handles :: "'c spike \<Rightarrow> nat \<times> nat" where
  "handles s = (sp_opened s, sp_closed s)"

definition port_log :: "'c spike \<Rightarrow> port_call list" where
  "port_log s = snd (fst (sp_cap s))"

lemma keeps_lifted [keeps_rules]:
  "keeps handles (on_client m)" "keeps handles (on_capture m')" "keeps port_log (on_client m)"
  "keeps f (assert_that b)"
  by (simp_all add: keeps_def handles_def port_log_def on_client_def on_capture_def assert_that_def method_defs split: prod.splits)

lemma keeps_cap_set [keeps_rules]: "keeps handles (modify (\<lambda>s. s\<lparr>sp_cap := g s\<rparr>))"
  by (simp add: keeps_def handles_def modify_def)

definition opened_port :: "pyexn + nat \<Rightarrow> port_call list" where
  "opened_port opening = (case opening of Inl _ \<Rightarrow> [] | Inr n \<Rightarrow> [PortOpened n, PortClosed n])"

lemma capture_closed: "port_log (snd (spike_capture path opening reads s)) = port_log s @ opened_port opening"
  by (cases "opening"; cases reads)
    (simp_all add: spike_capture_def port_log_def opened_port_def on_capture_def open_port_def close_port_def holder_init_def
      serial_read_chunk_def assert_that_def method_defs split: sum.splits)

lemma spike_at_handles: "keeps handles (spike_at send audio opening reads)"
  unfolding spike_at_def spike_capture_def
  by (auto intro!: keeps_rules split: if_splits option.splits pyexn.splits)

definition adds_log :: "port_call list \<Rightarrow> ('c spike, 'a) proc \<Rightarrow> bool" where
  "adds_log l m \<longleftrightarrow> (\<forall>s. port_log (snd (m s)) = port_log s \<or> port_log (snd (m s)) = port_log s @ l)"

lemma keeps_adds: "keeps port_log m \<Longrightarrow> adds_log l m"
  by (simp add: keeps_def adds_log_def)

lemma adds_log_after:
  assumes "keeps port_log m" and "\<And>x. adds_log l (k x)"
  shows "adds_log l (bindm m k)"
  unfolding adds_log_def
proof
  fix s
  obtain r t where m: "m s = (r, t)" by (cases "m s")
  have k: "port_log (snd (k x t)) = port_log t \<or> port_log (snd (k x t)) = port_log t @ l" for x
    using assms(2) unfolding adds_log_def by blast
  from keepsD [OF assms(1) m] show "port_log (snd (bindm m k s)) = port_log s \<or> port_log (snd (bindm m k s)) = port_log s @ l"
    using m k by (cases r) (simp_all add: bindm_def)
qed

lemma adds_log_before:
  assumes "adds_log l m" and "keeps port_log k"
  shows "adds_log l (seqm m k)"
  unfolding adds_log_def
proof
  fix s
  obtain r t where m: "m s = (r, t)" by (cases "m s")
  with assms(1) have "port_log t = port_log s \<or> port_log t = port_log s @ l" unfolding adds_log_def by (metis snd_conv)
  then show "port_log (snd (seqm m k s)) = port_log s \<or> port_log (snd (seqm m k s)) = port_log s @ l"
    using m assms(2) by (cases r) (auto simp: seqm_def bindm_def keeps_def)
qed

lemma spike_at_log: "adds_log (opened_port opening) (spike_at send audio opening reads)"
proof -
  have "adds_log (opened_port opening) (spike_capture audio opening reads)"
    by (simp add: adds_log_def capture_closed)
  then have "adds_log (opened_port opening) (seqm (spike_capture audio opening reads) (ret 0))"
    by (rule adds_log_before) (rule keeps_rules)
  then show ?thesis
    unfolding spike_at_def seqm_def [of "assert_that _"] seqm_def [of "on_client _"]
    by (auto intro!: adds_log_after keeps_rules keeps_adds [OF keeps_basic(1)] split: if_splits option.splits pyexn.splits)
qed

text \<open>However the spike ends, it closes the client as often as it opened it, and the port if it opened it.\<close>

theorem spike_releases:
  assumes "handles s = (n, n)"
  shows "(\<exists>k. handles (snd (spike_main send ports scan open_fails close_fails opening reads s)) = (k, k))
    \<and> port_log (snd (spike_main send ports scan open_fails close_fails opening reads s)) \<in> {port_log s, port_log s @ opened_port opening}"
proof -
  obtain atp audio usb where found: "spike_ports (None, None, None) ports = (atp, audio, usb)"
    by (cases "spike_ports (None, None, None) ports")
  define path where "path = (case audio of Some p \<Rightarrow> p | None \<Rightarrow> [])"
  define t where "t = s\<lparr>sp_opened := sp_opened s + 1\<rparr>"
  obtain r u where run: "spike_at send path opening reads t = (r, u)" by (cases "spike_at send path opening reads t")
  have u: "handles u = (n + 1, n)" "port_log u = port_log s \<or> port_log u = port_log s @ opened_port opening"
  proof -
    show "handles u = (n + 1, n)"
      using keepsD [OF spike_at_handles run] assms by (simp add: t_def handles_def)
    show "port_log u = port_log s \<or> port_log u = port_log s @ opened_port opening"
      using spike_at_log [of "opening" send path reads] run unfolding adds_log_def
      by (metis (no_types, lifting) port_log_def snd_conv spike.select_convs(4) spike.simps(4) spike.surjective spike.update_convs(2) t_def)
  qed
  have closed: "handles (snd (finallym (spike_at send path opening reads) (close_client close_fails) t)) = (n + 1, n + 1)"
    "port_log (snd (finallym (spike_at send path opening reads) (close_client close_fails) t)) = port_log u"
    using run u(1) by (auto simp: finallym_def close_client_def handles_def port_log_def method_defs split: option.splits)
  show ?thesis
  proof (cases "atp = None \<or> atp = Some [] \<or> audio = None \<or> audio = Some []
      \<or> find_audio_serial_path usb (Some ''1e0e'') (Some ''9001'') scan \<noteq> audio \<or> open_fails (the atp) \<noteq> None")
    case True
    then have "snd (spike_main send ports scan open_fails close_fails opening reads s) = s"
      by (auto simp: spike_main_def found open_client_def assert_that_def method_defs split: option.splits)
    then show ?thesis using assms by auto
  next
    case False
    then have "snd (spike_main send ports scan open_fails close_fails opening reads s)
      = snd (finallym (spike_at send path opening reads) (close_client close_fails) t)"
      by (auto simp: spike_main_def found open_client_def assert_that_def seqm_def bindm_def ret_def modify_def t_def path_def)
    then show ?thesis using closed u(2) by auto
  qed
qed

end
