(* ===== verification/Tray_Window.thy ===== *)
theory Tray_Window imports Win_Main begin

text \<open>
  The tray's menu and image (\<open>ui/tray.py\<close>) and the diagnostic window bound to the status bus (\<open>ui/diagnostic.py\<close>). The
  window is a subscriber that queues a rendering on the Qt thread for every status it is given; publishers on other
  threads may interleave with it. What the file manager and the file system raise is an input.
\<close>

section \<open>The menu\<close>

datatype menu_action = OpenDiagnostic | Reactivate | OpenLogFolder | QuitShell

text \<open>The handlers the bridge was built with; opening the log folder is not forwarded, though a handler for it is taken.\<close>

record 'f bridge =
  br_diagnostic :: "'f option"
  br_reactivate :: "'f option"
  br_log_folder :: "'f option"
  br_quit :: "'f option"

datatype host_step = MakeDir string | StartFile string | RunOpen string | RunXdgOpen string

record desk =
  dk_platform :: string
  dk_log_dir :: string
  dk_mkdir :: "pyexn option"
  dk_opener :: "pyexn option"

definition note_step :: "host_step \<Rightarrow> pyexn option \<Rightarrow> (host_step list, unit) proc" where
  "note_step h fails l = (case fails of None \<Rightarrow> (Inr (), l @ [h]) | Some e \<Rightarrow> (Inl e, l @ [h]))"

definition open_path_in_file_manager :: "desk \<Rightarrow> string \<Rightarrow> (host_step list, unit) proc" where
  "open_path_in_file_manager d p = suppress (note_step (if dk_platform d = ''win32'' then StartFile p
     else if dk_platform d = ''darwin'' then RunOpen p else RunXdgOpen p) (dk_opener d))"

definition open_log_folder :: "desk \<Rightarrow> (host_step list, unit) proc" where
  "open_log_folder d = seqm (note_step (MakeDir (dk_log_dir d)) (dk_mkdir d)) (open_path_in_file_manager d (dk_log_dir d))"

text \<open>A click in the tray's thread: what was queued on the loop, what was called at once, and the steps on the host.\<close>

definition menu_click :: "desk \<Rightarrow> 'f bridge \<Rightarrow> bool \<Rightarrow> menu_action \<Rightarrow> (('f list \<times> 'f list) \<times> host_step list, unit) proc" where
  "menu_click d b loop_closed a s = (case s of (q, l) \<Rightarrow> (case a of
       OpenDiagnostic \<Rightarrow> ret () (post loop_closed (br_diagnostic b) q, l)
     | Reactivate \<Rightarrow> ret () (post loop_closed (br_reactivate b) q, l)
     | OpenLogFolder \<Rightarrow> (case open_log_folder d l of (r, l') \<Rightarrow> (r, (q, l')))
     | QuitShell \<Rightarrow> ret () (post loop_closed (br_quit b) q, l)))"

text \<open>The items of the menu in order, \<open>None\<close> for the separator.\<close>

definition tray_menu :: "menu_action option list" where
  "tray_menu = [Some OpenDiagnostic, Some Reactivate, Some OpenLogFolder, None, Some QuitShell]"

text \<open>The image: fill and outline as red, green, blue and alpha.\<close>

type_synonym rgba = "nat \<times> nat \<times> nat \<times> nat"

definition icon_image :: "tray_colour \<Rightarrow> rgba \<times> rgba" where
  "icon_image c = (if c = GREEN then (40, 200, 80, 255) else (220, 40, 40, 255), if c = GREEN then (20, 90, 40, 255) else (110, 20, 20, 255))"


section \<open>The diagnostic window\<close>

text \<open>The window with the renderings queued for the Qt thread; it is subscriber \<open>wd_id\<close> of the bus.\<close>

record window =
  wd_id :: nat
  wd_view :: diagnostic_view
  wd_queue :: "edge_status list"
  wd_subscribed :: bool
  wd_visible :: bool

definition window_init :: "nat \<Rightarrow> bus \<Rightarrow> window \<times> bus" where
  "window_init n b = (let b' = subscribe n b in
     (\<lparr>wd_id = n, wd_view = diagnostic_render (bs_status b'), wd_queue = [], wd_subscribed = True, wd_visible = False\<rparr>, b'))"

definition window_show :: "window \<Rightarrow> window" where
  "window_show w = w\<lparr>wd_visible := True\<rparr>"

definition window_close :: "window \<times> bus \<Rightarrow> window \<times> bus" where
  "window_close wb = (case wb of (w, b) \<Rightarrow>
     (w\<lparr>wd_subscribed := False, wd_visible := False\<rparr>, if wd_subscribed w then unsubscribe (wd_id w) b else b))"

text \<open>\<open>_on_status_thread_safe\<close>, and the queued call in the Qt thread.\<close>

definition window_notify :: "edge_status \<Rightarrow> window \<Rightarrow> window" where
  "window_notify s w = w\<lparr>wd_queue := wd_queue w @ [s]\<rparr>"

definition window_render :: "window \<Rightarrow> window" where
  "window_render w = (case wd_queue w of [] \<Rightarrow> w | s # q \<Rightarrow> w\<lparr>wd_view := diagnostic_render s, wd_queue := q\<rparr>)"

text \<open>One delivery of a publication under way, to the window if it is the next subscriber.\<close>

definition deliver_window :: "nat \<Rightarrow> window \<times> bus \<Rightarrow> window \<times> bus" where
  "deliver_window i wb = (case wb of (w, b) \<Rightarrow>
     (if i < length (bs_pending b) then (case bs_pending b ! i of
          (s, n # ns) \<Rightarrow> if n = wd_id w then window_notify s w else w
        | (s, []) \<Rightarrow> w) else w, deliver i b))"

datatype window_step = Publish "edge_status \<Rightarrow> edge_status" | DeliverStep nat | QtRender | ShowStep | CloseStep

definition window_step :: "window_step \<Rightarrow> window \<times> bus \<Rightarrow> window \<times> bus" where
  "window_step x wb = (case x of
       Publish f \<Rightarrow> (fst wb, publish f (snd wb))
     | DeliverStep i \<Rightarrow> deliver_window i wb
     | QtRender \<Rightarrow> (window_render (fst wb), snd wb)
     | ShowStep \<Rightarrow> (window_show (fst wb), snd wb)
     | CloseStep \<Rightarrow> window_close wb)"


section \<open>What the menu does\<close>

text \<open>An item never waits for the loop: it queues its handler, or calls it when the loop is closed, so that quitting works in
  both cases. Opening the log folder touches neither.\<close>

lemma menu_click_effect:
  "menu_click d b loop_closed a ((queued, called), l) =
     (if a = OpenLogFolder then (fst (open_log_folder d l), (queued, called), snd (open_log_folder d l))
      else let f = (case a of OpenDiagnostic \<Rightarrow> br_diagnostic b | Reactivate \<Rightarrow> br_reactivate b | _ \<Rightarrow> br_quit b);
               new = (case f of None \<Rightarrow> [] | Some g \<Rightarrow> [g])
           in (Inr (), (if loop_closed then (queued, called @ new) else (queued @ new, called)), l))"
  by (cases a) (auto simp: menu_click_def post_def ret_def Let_def split: option.splits prod.splits)

text \<open>The file manager's failure is swallowed, that of creating the directory is not.\<close>

lemma log_folder_result:
  assumes "dk_opener d \<noteq> Some Cancelled"
  shows "open_log_folder d l = (case dk_mkdir d of Some e \<Rightarrow> (Inl e, l @ [MakeDir (dk_log_dir d)])
    | None \<Rightarrow> (Inr (), l @ [MakeDir (dk_log_dir d), if dk_platform d = ''win32'' then StartFile (dk_log_dir d)
        else if dk_platform d = ''darwin'' then RunOpen (dk_log_dir d) else RunXdgOpen (dk_log_dir d)]))"
  using assms by (simp add: open_log_folder_def open_path_in_file_manager_def note_step_def method_defs is_exception_def split: option.splits)

lemma icon_image_distinct: "icon_image c = icon_image c' \<longleftrightarrow> c = c'"
  by (cases c; cases c') (simp_all add: icon_image_def)


section \<open>What the window shows\<close>

definition given_to :: "nat \<Rightarrow> bus \<Rightarrow> edge_status list" where
  "given_to n b = map snd (filter (\<lambda>g. fst g = n) (bs_given b))"

definition shows_given :: "edge_status \<Rightarrow> edge_status list \<Rightarrow> window \<times> bus \<Rightarrow> bool" where
  "shows_given s0 g0 wb \<longleftrightarrow> (\<exists>ren. g0 @ ren @ wd_queue (fst wb) = given_to (wd_id (fst wb)) (snd wb)
     \<and> wd_view (fst wb) = diagnostic_render (last (s0 # ren)))"

lemma deliver_given:
  "given_to n (deliver i b) = given_to n b @ (if i < length (bs_pending b) then (case bs_pending b ! i of
     (s, m # ms) \<Rightarrow> if m = n then [s] else [] | (s, []) \<Rightarrow> []) else [])"
  by (auto simp: given_to_def deliver_def split: prod.splits list.splits)

lemma window_step_id: "wd_id (fst (window_step x wb)) = wd_id (fst wb)"
  by (cases wb) (auto simp: window_step_def deliver_window_def window_notify_def window_render_def window_show_def window_close_def
      split: window_step.splits prod.splits list.splits)

lemma shows_givenI:
  "g0 @ ren @ wd_queue w = given_to (wd_id w) b \<Longrightarrow> wd_view w = diagnostic_render (last (s0 # ren)) \<Longrightarrow> shows_given s0 g0 (w, b)"
  unfolding shows_given_def fst_conv snd_conv by (intro exI [of _ ren] conjI)

lemma given_to_unchanged: "given_to n (publish f b) = given_to n b" "given_to n (unsubscribe m b) = given_to n b"
  by (simp_all add: given_to_def publish_def unsubscribe_def)

lemma shows_given_step:
  assumes "shows_given s0 g0 wb"
  shows "shows_given s0 g0 (window_step x wb)"
proof -
  obtain w b where wb: "wb = (w, b)" by (cases wb)
  from assms [unfolded shows_given_def wb fst_conv snd_conv] obtain ren where d: "g0 @ ren @ wd_queue w = given_to (wd_id w) b" "wd_view w = diagnostic_render (last (s0 # ren))"
    by (elim exE conjE) (rule that)
  show ?thesis
  proof (cases x)
    case (DeliverStep i)
    let ?new = "if i < length (bs_pending b) then (case bs_pending b ! i of
      (s, m # ms) \<Rightarrow> if m = wd_id w then [s] else [] | (s, []) \<Rightarrow> []) else []"
    have w: "deliver_window i (w, b) = (w\<lparr>wd_queue := wd_queue w @ ?new\<rparr>, deliver i b)"
      by (auto simp: deliver_window_def window_notify_def split: prod.splits list.splits)
    have "g0 @ ren @ wd_queue w @ ?new = given_to (wd_id w) (deliver i b)"
      unfolding deliver_given d(1) [symmetric] by simp
    then show ?thesis
      unfolding DeliverStep wb window_step_def window_step.case w by (intro shows_givenI [of _ ren]) (simp_all add: d(2))
  next
    case QtRender
    show ?thesis
    proof (cases "wd_queue w")
      case Nil
      with d show ?thesis
        unfolding QtRender wb window_step_def by (simp add: window_render_def) (rule shows_givenI [of _ ren], simp_all)
    next
      case (Cons s q)
      with d(1) have "g0 @ (ren @ [s]) @ q = given_to (wd_id w) b" by simp
      with Cons show ?thesis
        unfolding QtRender wb window_step_def by (simp add: window_render_def) (rule shows_givenI [of _ "ren @ [s]"], simp_all)
    qed
  next
    case (Publish f)
    show ?thesis
      unfolding Publish wb window_step_def by simp (rule shows_givenI [of _ ren], simp_all add: given_to_unchanged d)
  next
    case ShowStep
    show ?thesis
      unfolding ShowStep wb window_step_def by (simp add: window_show_def) (rule shows_givenI [of _ ren], simp_all add: d)
  next
    case CloseStep
    show ?thesis
      unfolding CloseStep wb window_step_def
      by (simp add: window_close_def) (intro conjI impI; rule shows_givenI [of _ ren], simp_all add: given_to_unchanged d)
  qed
qed

text \<open>Whenever no rendering is queued, the window shows the last status it was given, or the one it was opened with.\<close>

theorem window_shows_last_given:
  assumes "\<forall>s. (n, s) \<notin> set (bs_given b)" and "fold window_step xs (window_init n b) = (w, b')" and "wd_queue w = []"
  shows "wd_view w = diagnostic_render (last (bs_status b # given_to n b'))"
proof -
  have none: "given_to n b = []" using assms(1) by (auto simp: given_to_def filter_empty_conv)
  have start: "shows_given (bs_status b) [] (window_init n b)"
    using none by (simp add: shows_given_def window_init_def subscribe_def given_to_def Let_def)
  have "shows_given (bs_status b) [] (fold window_step xs wb)" if "shows_given (bs_status b) [] wb" for wb
    using that by (induction xs arbitrary: wb) (simp_all add: shows_given_step)
  from this [OF start] have g: "shows_given (bs_status b) [] (w, b')" using assms(2) by simp
  have "wd_id (fst (fold window_step xs wb)) = wd_id (fst wb)" for wb
    by (induction xs arbitrary: wb) (simp_all add: window_step_id)
  from this [of "window_init n b"] have "wd_id w = n" using assms(2) by (simp add: window_init_def Let_def)
  with g assms(3) show ?thesis by (auto simp: shows_given_def)
qed

text \<open>That need not be the status of the bus: two publications delivered in the other order leave the older one in the window.\<close>

lemma window_can_stay_stale:
  "let (w, b) = fold window_step [Publish (set_link DISCONNECTED), Publish (set_link CONNECTED_LINK), DeliverStep 1, DeliverStep 0, QtRender, QtRender]
     (window_init 0 (bus_init None))
   in wd_queue w = [] \<and> es_link (bs_status b) = CONNECTED_LINK \<and> dv_cloud (wd_view w) = connection_label @ '': '' @ link_value DISCONNECTED"
  by (simp add: window_init_def bus_init_def subscribe_def window_step_def deliver_window_def deliver_def publish_def window_notify_def
      window_render_def set_link_def default_status_def diagnostic_render_def)

text \<open>Once closed, the window is given nothing that is published later.\<close>

lemma closed_window_unsubscribed:
  assumes "n \<notin> set (bs_subs b)" and "window_close (window_init n b) = (w, b')"
  shows "n \<notin> set (bs_subs b') \<and> window_close (w, b') = (w, b')"
  using assms by (auto simp: window_close_def window_init_def subscribe_def unsubscribe_def Let_def remove1_append)

end
