(* ===== verification/Playback_Log.thy ===== *)
theory Playback_Log imports Mac_Dingrtc Capture_Recover Call_Verdict begin

text \<open>
  The level log of the playback on macOS (\<open>onPlaybackAudioFrame_\<close> of \<open>audio_bridge/macos_dingrtc_pyobjc.py\<close>) and its way
  into the verdict on a call (\<open>scripts/mac_dev_auto_analyze.py\<close>), which reads the peaks off the lines of this log. The
  clock is an input; times are seconds.
\<close>

section \<open>The level of a frame\<close>

text \<open>Every \<open>n // 16\<close>th sample is looked at: \<open>range(0, n, stride)\<close>.\<close>

definition sample_points :: "nat \<Rightarrow> nat list" where
  "sample_points n = filter (\<lambda>i. i mod max 1 (n div 16) = 0) [0..<n]"

definition sampled_peak :: "bytes \<Rightarrow> nat" where
  "sampled_peak pcm = (let ss = amplitudes pcm in foldl (\<lambda>p i. max p (nat \<bar>ss ! i\<bar>)) 0 (sample_points (length ss)))"

record level =
  lv_last :: real
  lv_peak :: nat
  lv_count :: nat

definition level_init :: level where "level_init = \<lparr>lv_last = 0, lv_peak = 0, lv_count = 0\<rparr>"

text \<open>One frame: the level, and the frames and the peak of the line it writes, if it writes one.\<close>

definition level_frame :: "real \<Rightarrow> bytes \<Rightarrow> level \<Rightarrow> (nat \<times> nat) option \<times> level" where
  "level_frame now pcm lv = (let peak = max (lv_peak lv) (sampled_peak pcm); n = lv_count lv + 1 in
     if 1 \<le> now - lv_last lv then (Some (n, peak), \<lparr>lv_last = now, lv_peak = 0, lv_count = 0\<rparr>)
     else (None, lv\<lparr>lv_peak := peak, lv_count := n\<rparr>))"

definition int_str :: "int \<Rightarrow> string" where
  "int_str i = (if i < 0 then CHR ''-'' # nat_str (nat (- i)) else nat_str (nat i))"

definition level_line :: "nat \<times> nat \<Rightarrow> raw_frame \<Rightarrow> string" where
  "level_line fp raw = ''dev_playback_recv_1s frames='' @ nat_str (fst fp) @ '' peak='' @ nat_str (snd fp) @ '' sr='' @
     nat_str (case rw_rate raw of Some r \<Rightarrow> r | None \<Rightarrow> 0) @ '' ch='' @ nat_str (case rw_channels raw of Some c \<Rightarrow> c | None \<Rightarrow> 0) @
     '' ts_ms='' @ int_str (case rw_timestamp raw of Some t \<Rightarrow> t | None \<Rightarrow> 0)"

text \<open>The callback of the SDK: the frame it hands to the session, and the log.\<close>

definition on_playback :: "(nat \<Rightarrow> nat \<Rightarrow> bytes option) \<Rightarrow> real \<times> audio_sample \<Rightarrow> level \<times> string list \<Rightarrow> raw_frame \<times> level \<times> string list" where
  "on_playback mem x s = (case x of (now, smp) \<Rightarrow> case s of (lv, lines) \<Rightarrow>
     let raw = playback_frame mem smp in
     if rw_pcm raw \<noteq> [] \<and> safe_call (as_width smp) 2 = 2
     then (case level_frame now (rw_pcm raw) lv of (row, lv') \<Rightarrow>
       (raw, lv', lines @ (case row of None \<Rightarrow> [] | Some fp \<Rightarrow> [level_line fp raw])))
     else (raw, lv, lines))"


section \<open>What the lines say\<close>

definition true_peak :: "bytes \<Rightarrow> nat" where
  "true_peak pcm = fst (amp_stats pcm)"

lemma foldl_max_le:
  fixes f :: "'a \<Rightarrow> nat"
  shows "foldl (\<lambda>p i. max p (f i)) a is \<le> k \<longleftrightarrow> a \<le> k \<and> (\<forall>i \<in> set is. f i \<le> k)"
  by (induction "is" arbitrary: a) auto

text \<open>The sampled peak never exceeds the true one, and is the true one for frames of fewer than 32 samples.\<close>

lemma sampled_peak_le: "sampled_peak pcm \<le> true_peak pcm"
proof -
  let ?ss = "amplitudes pcm"
  have all: "\<forall>s \<in> set ?ss. nat \<bar>s\<bar> \<le> true_peak pcm"
    using foldl_max_le [of "\<lambda>s. nat \<bar>s\<bar>" 0 ?ss "true_peak pcm"] by (simp add: true_peak_def amp_stats_def Let_def)
  then have "\<forall>i \<in> set (sample_points (length ?ss)). nat \<bar>?ss ! i\<bar> \<le> true_peak pcm" by (auto simp: sample_points_def)
  then have "foldl (\<lambda>p i. max p (nat \<bar>?ss ! i\<bar>)) 0 (sample_points (length ?ss)) \<le> true_peak pcm" unfolding foldl_max_le by simp
  then show ?thesis by (simp add: sampled_peak_def Let_def)
qed

lemma sampled_peak_short:
  assumes "length (amplitudes pcm) < 32"
  shows "sampled_peak pcm = true_peak pcm"
proof (rule antisym [OF sampled_peak_le])
  let ?ss = "amplitudes pcm"
  have points: "sample_points (length ?ss) = [0..<length ?ss]" using assms by (simp add: sample_points_def)
  have "foldl (\<lambda>p i. max p (nat \<bar>?ss ! i\<bar>)) 0 (sample_points (length ?ss)) \<le> sampled_peak pcm" by (simp add: sampled_peak_def Let_def)
  then have "\<forall>i < length ?ss. nat \<bar>?ss ! i\<bar> \<le> sampled_peak pcm" unfolding foldl_max_le points by simp
  then have "\<forall>s \<in> set ?ss. nat \<bar>s\<bar> \<le> sampled_peak pcm" by (simp add: all_set_conv_all_nth)
  then show "true_peak pcm \<le> sampled_peak pcm"
    using foldl_max_le [of "\<lambda>s. nat \<bar>s\<bar>" 0 ?ss "sampled_peak pcm"] by (simp add: true_peak_def amp_stats_def Let_def)
qed

text \<open>A tone that lies between the sampled points is logged as silence.\<close>

lemma amplitudes_tone: "amplitudes (concat (replicate n [0, 0, 100, 0])) = concat (replicate n [0, 100])"
proof -
  have one: "sample_of 0 0 = 0" "sample_of 100 0 = 100" by code_simp+
  have top: "sint (100 :: sample) = 100" by simp
  have "samples (concat (replicate n [0, 0, 100, 0])) = Some (concat (replicate n [0, 100]))"
    by (induction n) (simp_all add: one)
  moreover have "length (concat (replicate n [0, 0, 100, 0 :: byte])) mod 2 = 0" by (induction n) simp_all
  moreover have "map sint (concat (replicate n [0, 100 :: sample])) = concat (replicate n [0, 100])"
    by (induction n) (simp_all add: top)
  ultimately show ?thesis by (simp add: amplitudes_def)
qed

lemma sampled_peak_misses: "sampled_peak (concat (replicate 16 [0, 0, 100, 0])) = 0 \<and> true_peak (concat (replicate 16 [0, 0, 100, 0])) = 100"
  unfolding sampled_peak_def true_peak_def amp_stats_def amplitudes_tone Let_def fst_conv by code_simp

text \<open>A run of frames: the rows logged.\<close>

fun level_run :: "(real \<times> bytes) list \<Rightarrow> level \<Rightarrow> (nat \<times> nat) list \<times> level" where
  "level_run [] lv = ([], lv)"
| "level_run ((now, pcm) # xs) lv = (case level_frame now pcm lv of (row, lv1) \<Rightarrow>
     (case level_run xs lv1 of (rows, lv2) \<Rightarrow> ((case row of None \<Rightarrow> rows | Some fp \<Rightarrow> fp # rows), lv2)))"

text \<open>Every frame is counted in exactly one line or is still to come, and no line shows more than the loudest frame.\<close>

theorem level_rows_account:
  assumes "level_run xs lv = (rows, lv')"
  shows "sum_list (map fst rows) + lv_count lv' = lv_count lv + length xs
    \<and> (\<forall>p. lv_peak lv \<le> p \<longrightarrow> (\<forall>x \<in> set xs. true_peak (snd x) \<le> p) \<longrightarrow> (\<forall>r \<in> set rows. snd r \<le> p))"
  using assms
proof (induction xs arbitrary: lv rows)
  case (Cons x xs)
  obtain now pcm where x: "x = (now, pcm)" by (cases x)
  obtain row lv1 where f: "level_frame now pcm lv = (row, lv1)" by (cases "level_frame now pcm lv")
  obtain rest where run: "level_run xs lv1 = (rest, lv')" and rows: "rows = (case row of None \<Rightarrow> rest | Some fp \<Rightarrow> fp # rest)"
    using Cons.prems f by (auto simp: x split: prod.splits)
  have peak: "sampled_peak pcm \<le> true_peak pcm" by (rule sampled_peak_le)
  show ?case
  proof (cases "1 \<le> now - lv_last lv")
    case True
    with f have "row = Some (lv_count lv + 1, max (lv_peak lv) (sampled_peak pcm))" "lv_count lv1 = 0" "lv_peak lv1 = 0"
      by (auto simp: level_frame_def Let_def)
    with Cons.IH [OF run] peak rows show ?thesis by (auto simp: x)
  next
    case False
    with f have "row = None" "lv_count lv1 = lv_count lv + 1" "lv_peak lv1 = max (lv_peak lv) (sampled_peak pcm)"
      by (auto simp: level_frame_def Let_def)
    with Cons.IH [OF run] peak rows show ?thesis by (auto simp: x)
  qed
qed simp


section \<open>Into the verdict\<close>

definition LEVEL_MARK :: string where "LEVEL_MARK = ''dev_playback_recv_1s frames=''"

lemma mark_no_border: "\<forall>k < length LEVEL_MARK. 0 < k \<longrightarrow> take (length LEVEL_MARK - k) LEVEL_MARK \<noteq> drop k LEVEL_MARK"
proof -
  have "list_all (\<lambda>k. take (length LEVEL_MARK - k) LEVEL_MARK \<noteq> drop k LEVEL_MARK) [1..<length LEVEL_MARK]" by code_simp
  then show ?thesis by (auto simp: list_all_iff)
qed

lemma startswith_take: "startswith t s \<Longrightarrow> k \<le> length t \<Longrightarrow> take k s = take k t"
  by (auto simp: startswith_iff)

lemma mark_first:
  assumes "\<not> contains_str LEVEL_MARK pre" and "i < length pre"
  shows "\<not> startswith LEVEL_MARK (drop i (pre @ LEVEL_MARK @ rest))"
proof
  assume st: "startswith LEVEL_MARK (drop i (pre @ LEVEL_MARK @ rest))"
  let ?k = "length pre - i"
  have d: "drop i (pre @ LEVEL_MARK @ rest) = drop i pre @ LEVEL_MARK @ rest" using assms(2) by simp
  have k: "0 < ?k" "length (drop i pre) = ?k" using assms(2) by simp_all
  show False
  proof (cases "length LEVEL_MARK \<le> ?k")
    case True
    with st d k have "startswith LEVEL_MARK (drop i pre)" by (simp add: startswith_def)
    then obtain v where "drop i pre = LEVEL_MARK @ v" by (auto simp: startswith_iff)
    then have "pre = take i pre @ LEVEL_MARK @ v" by (metis append_take_drop_id)
    with assms(1) show False by (metis contains_mid)
  next
    case False
    have "take (length LEVEL_MARK) (drop i pre @ LEVEL_MARK @ rest) = LEVEL_MARK" using st unfolding d startswith_def .
    moreover have "take (length LEVEL_MARK) (drop i pre @ LEVEL_MARK @ rest) = drop i pre @ take (length LEVEL_MARK - ?k) LEVEL_MARK"
      using False unfolding take_append k(2) by (simp add: k(2))
    ultimately have e: "drop i pre @ take (length LEVEL_MARK - ?k) LEVEL_MARK = LEVEL_MARK" by simp
    then have "take (length LEVEL_MARK - ?k) LEVEL_MARK = drop ?k LEVEL_MARK" using k(2) by (metis append_eq_conv_conj)
    with mark_no_border k(1) False show False unfolding not_le by blast
  qed
qed

lemma gap_skips:
  "(\<And>i. i < length pre \<Longrightarrow> match_here ps (drop i (pre @ s)) = None) \<Longrightarrow> match_here (Gap # ps) (pre @ s) = match_here (Gap # ps) s"
proof (induction pre)
  case (Cons c pre)
  have "match_here ps ((c # pre) @ s) = None" using Cons.prems [of 0] by simp
  moreover have "match_here (Gap # ps) (pre @ s) = match_here (Gap # ps) s"
    using Cons.IH Cons.prems [of "Suc i" for i] by simp
  ultimately show ?case by simp
qed simp

lemma takeWhile_digits: "\<not> is_digit c \<Longrightarrow> takeWhile is_digit (nat_str n @ c # s) = nat_str n \<and> dropWhile is_digit (nat_str n @ c # s) = c # s"
  using nat_str_digits by (simp add: takeWhile_append2 dropWhile_append2)

lemma number_nat_str: "number (nat_str n) = n"
  by (simp add: number_def digits_val_nat_str)

text \<open>The verdict reads back what the session has logged, whatever the logger writes before the message.\<close>

theorem level_line_read_back:
  assumes "\<not> contains_str LEVEL_MARK pre"
  shows "search RE_PLAYBACK (pre @ level_line (n, p) raw) = Some [nat_str n, nat_str p]"
proof -
  let ?rest = "nat_str n @ '' peak='' @ nat_str p @ '' sr='' @
     nat_str (case rw_rate raw of Some r \<Rightarrow> r | None \<Rightarrow> 0) @ '' ch='' @ nat_str (case rw_channels raw of Some c \<Rightarrow> c | None \<Rightarrow> 0) @
     '' ts_ms='' @ int_str (case rw_timestamp raw of Some t \<Rightarrow> t | None \<Rightarrow> 0)"
  have line: "level_line (n, p) raw = LEVEL_MARK @ ?rest" by (simp add: level_line_def LEVEL_MARK_def)
  have pat: "RE_PLAYBACK = Lit LEVEL_MARK # [Num, Lit '' peak='', Num]" by (simp add: RE_PLAYBACK_def LEVEL_MARK_def)
  have none: "match_here RE_PLAYBACK (drop i (pre @ LEVEL_MARK @ ?rest)) = None" if "i < length pre" for i
    using mark_first [OF assms that] unfolding pat match_here.simps(2) by (simp only: if_False)
  have space: "\<not> is_digit (CHR '' '')" by code_simp
  have peak: "'' peak='' @ s = CHR '' '' # ''peak='' @ s" "'' sr='' @ s = CHR '' '' # ''sr='' @ s" for s by simp_all
  have lit: "match_here (Lit t # ps) (t @ s) = match_here ps s" for t ps s by simp
  have num: "match_here (Num # ps) (nat_str k @ CHR '' '' # s) = map_option (Cons (nat_str k)) (match_here ps (CHR '' '' # s))" for ps k s
    using takeWhile_digits [OF space, of k s] by simp
  have here: "match_here RE_PLAYBACK (LEVEL_MARK @ nat_str n @ '' peak='' @ nat_str p @ '' sr='' @ s) = Some [nat_str n, nat_str p]" for s
    unfolding pat lit peak num unfolding peak [symmetric] lit unfolding peak num by simp
  have skip: "match_here (Gap # RE_PLAYBACK) (pre @ LEVEL_MARK @ ?rest) = match_here (Gap # RE_PLAYBACK) (LEVEL_MARK @ ?rest)"
    by (rule gap_skips, rule none)
  show ?thesis
    unfolding line search_def skip by (simp only: match_here.simps(6) here option.case)
qed

text \<open>So the peaks of the verdict are those the session measured.\<close>

lemma level_line_peak:
  assumes "\<not> contains_str LEVEL_MARK pre"
  shows "ed_peaks (read_edge_line cid (pre @ level_line (n, p) raw) e) = ed_peaks e @ [p]"
  unfolding read_edge_line_def Let_def level_line_read_back [OF assms]
  by (auto simp: number_nat_str split: option.splits list.splits)

end
