(* ===== verification/Mock_Client.thy ===== *)
theory Mock_Client imports At_Client begin

text \<open>
  The mock client of \<open>modem_controller/at_client.py\<close> as a whole: the registry of cancellers, the event objects its generators
  hold, and the timers. \<open>At_Client\<close> has the generator itself (\<open>mock_pull\<close>). Identifiers come from a counter in place of \<open>uuid4\<close>.
\<close>

section \<open>State\<close>

text \<open>A generator is suspended somewhere or finished; suspended at its last yield it has not run its \<open>finally\<close> yet.\<close>

datatype mock_gen = Suspended mock_stream | Finished

record mock_client =
  mk_calls :: nat
  mk_cancellers :: "nat set"
  mk_set :: "nat \<Rightarrow> bool"
  mk_gen :: "nat \<Rightarrow> mock_gen"

definition mock_init :: mock_client where
  "mock_init = \<lparr>mk_calls = 0, mk_cancellers = {}, mk_set = (\<lambda>_. False), mk_gen = (\<lambda>_. Finished)\<rparr>"

text \<open>A delay in milliseconds.\<close>

definition ms_env :: "(string \<rightharpoonup> string) \<Rightarrow> string \<Rightarrow> int \<Rightarrow> int" where
  "ms_env env name dflt = (case env name of None \<Rightarrow> dflt
     | Some raw \<Rightarrow> (case py_int raw of None \<Rightarrow> dflt | Some n \<Rightarrow> n))"

definition mock_delay :: "(string \<rightharpoonup> string) \<Rightarrow> mock_stream \<Rightarrow> int" where
  "mock_delay env st = (case st of MockDialing _ \<Rightarrow> ms_env env ''MOCK_DIAL_DELAY_MS'' 1000
     | _ \<Rightarrow> ms_env env ''MOCK_CALL_DURATION_MS'' 5000)"

text \<open>Whether the wait ran its full time. \<open>wait_for\<close> with no time left cancels what it waits for before it has run, and so
  never sees that the event is set.\<close>

definition wait_or_cancelled :: "int \<Rightarrow> bool \<Rightarrow> bool" where
  "wait_or_cancelled ms set_in_time \<longleftrightarrow> ms \<le> 0 \<or> \<not> set_in_time"


section \<open>Operations\<close>

definition mock_dial :: "mock_client \<Rightarrow> nat \<times> mock_client" where
  "mock_dial c = (let cid = mk_calls c in (cid, c\<lparr>mk_calls := cid + 1, mk_cancellers := insert cid (mk_cancellers c),
     mk_set := (mk_set c)(cid := False), mk_gen := (mk_gen c)(cid := Suspended (MockDialing cid))\<rparr>))"

definition mock_hangup :: "nat \<Rightarrow> mock_client \<Rightarrow> mock_client" where
  "mock_hangup cid c = (if cid \<in> mk_cancellers c then c\<lparr>mk_set := (mk_set c)(cid := True)\<rparr> else c)"

text \<open>The \<open>finally\<close> of a generator, after which it is finished.\<close>

definition mock_finally :: "nat \<Rightarrow> mock_client \<Rightarrow> mock_client" where
  "mock_finally cid c = c\<lparr>mk_cancellers := mk_cancellers c - {cid}, mk_gen := (mk_gen c)(cid := Finished)\<rparr>"

text \<open>How a pull ends: its wait runs out of time, a hang-up comes in before that, or the task that pulls is cancelled.\<close>

datatype pull_end = TimedOut | HungUp | PullCancelled

definition mock_next :: "(string \<rightharpoonup> string) \<Rightarrow> pull_end \<Rightarrow> nat \<Rightarrow> mock_client \<Rightarrow> at_event option \<times> mock_client" where
  "mock_next env how cid c = (case mk_gen c cid of
       Finished \<Rightarrow> (None, c)
     | Suspended MockOver \<Rightarrow> (None, mock_finally cid c)
     | Suspended st \<Rightarrow>
        (if how = PullCancelled then (None, mock_finally cid c)
         else let c' = (if how = HungUp then mock_hangup cid c else c);
                  (ev, st') = mock_pull (wait_or_cancelled (mock_delay env st) (mk_set c' cid)) st
              in (ev, c'\<lparr>mk_gen := (mk_gen c')(cid := Suspended st')\<rparr>)))"

text \<open>Closing a generator that never ran skips its body, and with it the \<open>finally\<close>.\<close>

definition mock_close :: "nat \<Rightarrow> mock_client \<Rightarrow> mock_client" where
  "mock_close cid c = (case mk_gen c cid of
       Finished \<Rightarrow> c
     | Suspended (MockDialing _) \<Rightarrow> c\<lparr>mk_gen := (mk_gen c)(cid := Finished)\<rparr>
     | Suspended _ \<Rightarrow> mock_finally cid c)"

definition mock_get_signal :: int where "mock_get_signal = 22"
definition mock_get_iccid :: string where "mock_get_iccid = ''8986'' @ replicate 16 (CHR ''0'')"
definition mock_get_imei :: string where "mock_get_imei = replicate 15 (CHR ''0'')"


section \<open>Any number of calls, in any order\<close>

datatype mock_step = DialStep | HangupStep nat | NextStep pull_end nat | CloseStep nat

text \<open>One step, with what the stream of a call yields in it.\<close>

fun mock_run :: "(string \<rightharpoonup> string) \<Rightarrow> mock_step \<Rightarrow> mock_client \<Rightarrow> at_event list \<times> mock_client" where
  "mock_run env DialStep c = ([], snd (mock_dial c))"
| "mock_run env (HangupStep cid) c = ([], mock_hangup cid c)"
| "mock_run env (NextStep how cid) c = (case mock_next env how cid c of (ev, c') \<Rightarrow> (opt_list ev, c'))"
| "mock_run env (CloseStep cid) c = ([], mock_close cid c)"

fun mock_runs :: "(string \<rightharpoonup> string) \<Rightarrow> mock_step list \<Rightarrow> mock_client \<Rightarrow> at_event list \<times> mock_client" where
  "mock_runs env [] c = ([], c)"
| "mock_runs env (s # ss) c = (case mock_run env s c of (evs, c') \<Rightarrow>
     (case mock_runs env ss c' of (evs', c'') \<Rightarrow> (evs @ evs', c'')))"

fun gen_stage :: "mock_gen \<Rightarrow> nat" where
  "gen_stage Finished = 2" | "gen_stage (Suspended st) = mock_stage st"

fun gen_call :: "mock_gen \<Rightarrow> nat option" where
  "gen_call (Suspended (MockDialing cid)) = Some cid" | "gen_call (Suspended (MockTalking cid)) = Some cid" | "gen_call _ = None"

text \<open>What holds between steps: a generator yields events of its own call only, a canceller that is registered belongs to a call
  that was dialled, and a call whose generator is between its first wait and its \<open>finally\<close> has one.\<close>

definition mock_ok :: "mock_client \<Rightarrow> bool" where
  "mock_ok c \<longleftrightarrow> (\<forall>cid. (\<forall>n. gen_call (mk_gen c cid) = Some n \<longrightarrow> n = cid)
     \<and> (cid \<in> mk_cancellers c \<longrightarrow> cid < mk_calls c) \<and> (mk_gen c cid \<noteq> Finished \<longrightarrow> cid \<in> mk_cancellers c))"

lemma mock_ok_init: "mock_ok mock_init"
  by (simp add: mock_ok_def mock_init_def)

lemma mock_ok_hangup: "mock_ok c \<Longrightarrow> mock_ok (mock_hangup cid c)"
  by (simp add: mock_ok_def mock_hangup_def)

lemma mock_ok_finally: "mock_ok c \<Longrightarrow> mock_ok (mock_finally cid c)"
  by (simp add: mock_ok_def mock_finally_def)

lemma mock_ok_gen:
  assumes "mock_ok c" and "cid \<in> mk_cancellers c" and "\<And>n. gen_call g = Some n \<Longrightarrow> n = cid"
  shows "mock_ok (c\<lparr>mk_gen := (mk_gen c)(cid := g)\<rparr>)"
  using assms by (simp add: mock_ok_def)

lemma gen_of_pull: "gen_call (Suspended (snd (mock_pull b st))) = Some n \<Longrightarrow> gen_call (Suspended st) = Some n"
  by (cases st) (auto split: if_splits)

lemma hangup_keeps [simp]:
  "mk_gen (mock_hangup cid c) = mk_gen c" "mk_cancellers (mock_hangup cid c) = mk_cancellers c" "mk_calls (mock_hangup cid c) = mk_calls c"
  by (simp_all add: mock_hangup_def)

text \<open>A pull that is neither cancelled nor past the end is one of the generator's.\<close>

definition before_wait :: "pull_end \<Rightarrow> nat \<Rightarrow> mock_client \<Rightarrow> mock_client" where
  "before_wait how cid c = (if how = HungUp then mock_hangup cid c else c)"

definition waited :: "(string \<rightharpoonup> string) \<Rightarrow> pull_end \<Rightarrow> nat \<Rightarrow> mock_stream \<Rightarrow> mock_client \<Rightarrow> at_event option \<times> mock_stream" where
  "waited env how cid st c = mock_pull (wait_or_cancelled (mock_delay env st) (mk_set (before_wait how cid c) cid)) st"

lemma mock_next_pull:
  assumes "mk_gen c cid = Suspended st" and "st \<noteq> MockOver" and "how \<noteq> PullCancelled"
  shows "mock_next env how cid c = (fst (waited env how cid st c), (before_wait how cid c)
    \<lparr>mk_gen := (mk_gen (before_wait how cid c))(cid := Suspended (snd (waited env how cid st c)))\<rparr>)"
  using assms unfolding waited_def before_wait_def by (cases st) (simp_all add: mock_next_def Let_def split_def)

lemma before_wait_keeps [simp]:
  "mk_gen (before_wait how cid c) = mk_gen c" "mk_cancellers (before_wait how cid c) = mk_cancellers c"
  "mk_calls (before_wait how cid c) = mk_calls c" "mock_ok c \<Longrightarrow> mock_ok (before_wait how cid c)"
  by (simp_all add: before_wait_def mock_ok_hangup)

lemma mock_ok_next: "mock_ok c \<Longrightarrow> mock_ok (snd (mock_next env how cid c))"
proof (cases "mk_gen c cid")
  case Finished
  then show "mock_ok c \<Longrightarrow> ?thesis" by (simp add: mock_next_def)
next
  case (Suspended st)
  assume ok: "mock_ok c"
  show ?thesis
  proof (cases "st = MockOver \<or> how = PullCancelled")
    case True
    with Suspended have "snd (mock_next env how cid c) = mock_finally cid c" by (cases st) (auto simp: mock_next_def)
    with mock_ok_finally [OF ok] show ?thesis by simp
  next
    case False
    then have go: "st \<noteq> MockOver" "how \<noteq> PullCancelled" by simp_all
    have "mock_ok (before_wait how cid c)" and reg: "cid \<in> mk_cancellers (before_wait how cid c)"
      using ok Suspended by (simp_all add: mock_ok_def [of c])
    moreover have "n = cid" if "gen_call (Suspended (snd (mock_pull b st))) = Some n" for n b
      using gen_of_pull [OF that] ok Suspended by (simp add: mock_ok_def)
    ultimately show ?thesis unfolding mock_next_pull [OF Suspended go] snd_conv waited_def by (rule mock_ok_gen)
  qed
qed

lemma mock_ok_close: "mock_ok c \<Longrightarrow> mock_ok (mock_close cid c)"
  by (cases "mk_gen c cid")
    (auto simp: mock_close_def mock_ok_finally mock_ok_def mock_finally_def split: mock_stream.splits)

lemma mock_ok_dial: "mock_ok c \<Longrightarrow> mock_ok (snd (mock_dial c))"
  by (auto simp: mock_ok_def mock_dial_def Let_def)

lemma mock_ok_run: "mock_ok c \<Longrightarrow> mock_ok (snd (mock_run env s c))"
  using mock_ok_next [of c env] by (cases s) (simp_all add: mock_ok_dial mock_ok_hangup mock_ok_close split_def)

lemma mock_ok_runs: "mock_ok c \<Longrightarrow> mock_ok (snd (mock_runs env ss c))"
proof (induction ss arbitrary: c)
  case Nil
  then show ?case by simp
next
  case (Cons s ss)
  from Cons.IH [OF mock_ok_run [OF Cons.prems, of env s]] show ?case by (simp add: split_def)
qed

text \<open>The stage of a call: a call that is yet to be dialled has all its events before it.\<close>

definition call_stage :: "nat \<Rightarrow> mock_client \<Rightarrow> nat" where
  "call_stage cid c = (if cid < mk_calls c then gen_stage (mk_gen c cid) else 0)"

definition events_of :: "nat \<Rightarrow> at_event list \<Rightarrow> at_event list" where
  "events_of cid evs = filter (\<lambda>e. ae_call e = cid) evs"

lemma pull_call: "fst (mock_pull b st) = Some ev \<Longrightarrow> gen_call (Suspended st) = Some (ae_call ev)"
  by (cases st) (auto split: if_splits)

lemma run_stage:
  assumes "mock_ok c" and "stage_events (call_stage cid c) evs"
  shows "stage_events (call_stage cid (snd (mock_run env s c))) (evs @ events_of cid (fst (mock_run env s c)))"
proof (cases s)
  case DialStep
  have "stage_events (call_stage cid (snd (mock_dial c))) evs"
    using assms(2) by (auto simp: call_stage_def mock_dial_def Let_def)
  then show ?thesis by (simp add: DialStep events_of_def)
next
  case (HangupStep n)
  then have "call_stage cid (snd (mock_run env s c)) = call_stage cid c" by (simp add: call_stage_def)
  with assms(2) HangupStep show ?thesis by (simp add: events_of_def)
next
  case (CloseStep n)
  have "call_stage cid c \<le> call_stage cid (mock_close n c)"
    by (cases "mk_gen c n") (auto simp: mock_close_def mock_finally_def call_stage_def split: mock_stream.splits)
  from stage_events_mono [OF assms(2) this] show ?thesis by (simp add: CloseStep events_of_def)
next
  case (NextStep how n)
  show ?thesis
  proof (cases "\<exists>st. mk_gen c n = Suspended st \<and> st \<noteq> MockOver \<and> how \<noteq> PullCancelled")
    case False
    then have none: "fst (mock_next env how n c) = None" and "snd (mock_next env how n c) \<in> {c, mock_finally n c}"
      by (auto simp: mock_next_def split: mock_gen.splits mock_stream.splits)
    moreover from this(2) have "call_stage cid c \<le> call_stage cid (snd (mock_next env how n c))"
      by (cases "mk_gen c n"; cases "case mk_gen c n of Suspended st \<Rightarrow> st | _ \<Rightarrow> MockOver") (auto simp: call_stage_def mock_finally_def)
    from stage_events_mono [OF assms(2) this] none show ?thesis by (simp add: NextStep events_of_def split_def)
  next
    case True
    then obtain st where st: "mk_gen c n = Suspended st" "st \<noteq> MockOver" "how \<noteq> PullCancelled" by blast
    define b where "b = wait_or_cancelled (mock_delay env st) (mk_set (before_wait how n c) n)"
    have nxt: "fst (mock_next env how n c) = fst (mock_pull b st)"
      and gen: "mk_gen (snd (mock_next env how n c)) = (mk_gen c)(n := Suspended (snd (mock_pull b st)))"
      and calls: "mk_calls (snd (mock_next env how n c)) = mk_calls c"
      by (simp_all add: mock_next_pull [OF st] b_def waited_def)
    have "n < mk_calls c" using assms(1) st(1) unfolding mock_ok_def by (metis mock_gen.distinct(1))
    show ?thesis
    proof (cases "cid = n")
      case True
      with assms(2) st(1) \<open>n < mk_calls c\<close> have "stage_events (mock_stage st) evs" by (simp add: call_stage_def)
      from mock.pull_extends [OF this, of b]
      have ext: "stage_events (mock_stage (snd (mock_pull b st))) (evs @ opt_list (fst (mock_pull b st)))" .
      have "events_of cid (opt_list (fst (mock_pull b st))) = opt_list (fst (mock_pull b st))"
        using pull_call [of b st] st(1) assms(1) True by (cases "fst (mock_pull b st)") (auto simp: events_of_def mock_ok_def)
      with ext True \<open>n < mk_calls c\<close> show ?thesis by (simp add: NextStep split_def nxt call_stage_def gen calls)
    next
      case False
      have "events_of cid (opt_list (fst (mock_pull b st))) = []"
        using pull_call [of b st] st(1) assms(1) False by (cases "fst (mock_pull b st)") (auto simp: events_of_def mock_ok_def)
      moreover have "call_stage cid (snd (mock_next env how n c)) = call_stage cid c" using False by (simp add: call_stage_def gen calls)
      ultimately show ?thesis using assms(2) by (simp add: NextStep split_def nxt)
    qed
  qed
qed

lemma runs_stage:
  "mock_ok c \<Longrightarrow> stage_events (call_stage cid c) evs \<Longrightarrow> well_formed_call (evs @ events_of cid (fst (mock_runs env ss c)))"
proof (induction ss arbitrary: c evs)
  case Nil
  then show ?case by (simp add: events_of_def stage_events_wf)
next
  case (Cons s ss)
  from Cons.IH [OF mock_ok_run [OF Cons.prems(1), of env s] run_stage [OF Cons.prems, of env s]]
  show ?case by (simp add: split_def events_of_def)
qed

text \<open>Whatever the clients of the mock do, the stream of each call yields at most one \<open>connected\<close>, then at most one hang-up, and
  nothing after it.\<close>

theorem mock_calls_well_formed: "well_formed_call (events_of cid (fst (mock_runs env ss mock_init)))"
  using runs_stage [OF mock_ok_init, of cid "[]" env ss] by (simp add: call_stage_def mock_init_def)

text \<open>A hang-up during the wait ends the call, or one before it; with a delay of zero or less neither does.\<close>

theorem hangup_ends_mock_call:
  assumes "mock_ok c" and "mk_gen c cid = Suspended st" and "st \<noteq> MockOver"
  shows "fst (mock_next env HungUp cid c) = (if 0 < mock_delay env st then Some (hangup_event cid ''manual_hangup'')
      else fst (mock_next env TimedOut cid (c\<lparr>mk_set := \<lambda>_. False\<rparr>)))"
    and "fst (mock_next env TimedOut cid (mock_hangup cid c)) = fst (mock_next env HungUp cid c)"
proof -
  have reg: "cid \<in> mk_cancellers c" using assms(1,2) by (simp add: mock_ok_def)
  have own: "gen_call (Suspended st) = Some n \<Longrightarrow> n = cid" for n using assms(1,2) by (simp add: mock_ok_def)
  show "fst (mock_next env HungUp cid c) = (if 0 < mock_delay env st then Some (hangup_event cid ''manual_hangup'')
      else fst (mock_next env TimedOut cid (c\<lparr>mk_set := \<lambda>_. False\<rparr>)))"
    using reg own assms(2,3) by (cases st) (simp_all add: mock_next_pull waited_def before_wait_def wait_or_cancelled_def mock_hangup_def)
  show "fst (mock_next env TimedOut cid (mock_hangup cid c)) = fst (mock_next env HungUp cid c)"
    using reg assms(2,3) by (simp add: mock_next_pull waited_def before_wait_def mock_hangup_def)
qed

text \<open>A stream that nobody reads is closed without its \<open>finally\<close>: its canceller stays in the registry whatever happens later.\<close>

lemma leaked_step:
  assumes "cid \<in> mk_cancellers c" and "mk_gen c cid = Finished" and "cid < mk_calls c"
  shows "cid \<in> mk_cancellers (snd (mock_run env s c)) \<and> mk_gen (snd (mock_run env s c)) cid = Finished \<and> cid < mk_calls (snd (mock_run env s c))"
proof (cases s)
  case (NextStep how n)
  show ?thesis
  proof (cases "n = cid")
    case True
    with assms show ?thesis by (simp add: NextStep mock_next_def)
  next
    case False
    with assms show ?thesis
      by (auto simp: NextStep mock_next_def mock_finally_def Let_def split_def split: mock_gen.splits mock_stream.splits)
  qed
qed (use assms in \<open>auto simp: mock_dial_def mock_close_def mock_finally_def Let_def split: mock_gen.splits mock_stream.splits\<close>)

theorem unread_call_leaks:
  assumes "mock_ok c" and "mk_gen c cid = Suspended (MockDialing cid)"
  shows "cid \<in> mk_cancellers (snd (mock_runs env ss (mock_close cid c)))"
proof -
  have kept: "cid \<in> mk_cancellers c' \<Longrightarrow> mk_gen c' cid = Finished \<Longrightarrow> cid < mk_calls c' \<Longrightarrow> cid \<in> mk_cancellers (snd (mock_runs env ss c'))" for c'
  proof (induction ss arbitrary: c')
    case Nil
    then show ?case by simp
  next
    case (Cons s ss)
    from leaked_step [OF Cons.prems, of env s] Cons.IH show ?case by (simp add: split_def)
  qed
  have "cid \<in> mk_cancellers c" "cid < mk_calls c" using assms by (simp_all add: mock_ok_def)
  with assms(2) show ?thesis by (intro kept) (simp_all add: mock_close_def)
qed

end
