(* ===== verification/Socket_Lifecycle.thy ===== *)
theory Socket_Lifecycle imports Ipc_Server begin

text \<open>
  Starting, serving and stopping of the socket of \<open>modem_controller/ipc_server.py\<close>. asyncio's servers are objects by number,
  in the order they were made; what a call on one raises is an input. \<open>Ipc_Server\<close> has what a connection does.
\<close>

datatype socket_call = Listen string | Serve nat | CloseSocket nat | WaitClosed nat

record ipc_server =
  is_path :: string
  is_server :: "nat option"
  is_made :: nat
  is_calls :: "socket_call list"

definition ipc_init :: "string \<Rightarrow> ipc_server" where
  "ipc_init path = \<lparr>is_path = path, is_server = None, is_made = 0, is_calls = []\<rparr>"

type_synonym socket_world = "socket_call \<Rightarrow> pyexn option"

definition socket_call_of :: "socket_world \<Rightarrow> socket_call \<Rightarrow> (ipc_server, unit) proc" where
  "socket_call_of w a s = (case w a of None \<Rightarrow> ret () | Some e \<Rightarrow> raise e) (s\<lparr>is_calls := is_calls s @ [a]\<rparr>)"

definition ipc_start :: "socket_world \<Rightarrow> (ipc_server, unit) proc" where
  "ipc_start w s = seqm (socket_call_of w (Listen (is_path s)))
     (\<lambda>t. ret () (t\<lparr>is_server := Some (is_made t), is_made := is_made t + 1\<rparr>)) s"

text \<open>\<open>async with\<close> a server closes it and waits for that on the way out.\<close>

definition close_socket :: "socket_world \<Rightarrow> nat \<Rightarrow> (ipc_server, unit) proc" where
  "close_socket w n = seqm (socket_call_of w (CloseSocket n)) (socket_call_of w (WaitClosed n))"

definition ipc_serve_forever :: "socket_world \<Rightarrow> (ipc_server, unit) proc" where
  "ipc_serve_forever w = seqm (\<lambda>s. if is_server s = None then ipc_start w s else ret () s)
     (\<lambda>s. case is_server s of None \<Rightarrow> raise (OtherError ''AssertionError'') s
        | Some n \<Rightarrow> finallym (socket_call_of w (Serve n)) (close_socket w n) s)"

definition ipc_stop :: "socket_world \<Rightarrow> (ipc_server, unit) proc" where
  "ipc_stop w s = (case is_server s of None \<Rightarrow> ret () s
     | Some n \<Rightarrow> seqm (close_socket w n) (\<lambda>t. ret () (t\<lparr>is_server := None\<rparr>)) s)"


section \<open>Every socket that is served or stopped is closed\<close>

definition closes_quietly :: "socket_world \<Rightarrow> bool" where
  "closes_quietly w \<longleftrightarrow> (\<forall>n. w (CloseSocket n) = None \<and> w (WaitClosed n) = None)"

lemmas socket_defs = socket_call_of_def close_socket_def seqm_def bindm_def finallym_def ret_def raise_def

lemma close_socket_quiet:
  "closes_quietly w \<Longrightarrow> close_socket w n s = (Inr (), s\<lparr>is_calls := is_calls s @ [CloseSocket n, WaitClosed n]\<rparr>)"
  by (simp add: socket_defs closes_quietly_def)

lemma serve_closes:
  assumes "closes_quietly w" and "is_server s = Some n"
  shows "ipc_serve_forever w s = (case w (Serve n) of None \<Rightarrow> Inr () | Some e \<Rightarrow> Inl e,
    s\<lparr>is_calls := is_calls s @ [Serve n, CloseSocket n, WaitClosed n]\<rparr>)"
  using assms by (simp add: ipc_serve_forever_def finallym_def seqm_def bindm_def close_socket_quiet socket_call_of_def ret_def raise_def split: option.splits)

lemma stop_closes:
  assumes "closes_quietly w" and "is_server s = Some n"
  shows "ipc_stop w s = (Inr (), s\<lparr>is_server := None, is_calls := is_calls s @ [CloseSocket n, WaitClosed n]\<rparr>)"
  using assms by (simp add: ipc_stop_def seqm_def bindm_def close_socket_quiet ret_def)

lemma stopped_twice: "closes_quietly w \<Longrightarrow> ipc_stop w (snd (ipc_stop w s)) = (Inr (), snd (ipc_stop w s))"
  by (cases "is_server s") (simp_all add: stop_closes, simp_all add: ipc_stop_def ret_def)

text \<open>The controller's run: the socket is listened on once, served, and closed however the serving ends; then nothing is left to
  stop.\<close>

theorem served_socket_closed:
  assumes "closes_quietly w" and "w (Listen path) = None"
  shows "seqm (ipc_start w) (finallym (ipc_serve_forever w) (ipc_stop w)) (ipc_init path)
    = (case w (Serve 0) of None \<Rightarrow> Inr () | Some e \<Rightarrow> Inl e, \<lparr>is_path = path, is_server = None, is_made = 1,
       is_calls = [Listen path, Serve 0, CloseSocket 0, WaitClosed 0, CloseSocket 0, WaitClosed 0]\<rparr>)"
proof -
  have start: "ipc_start w (ipc_init path) = (Inr (), \<lparr>is_path = path, is_server = Some 0, is_made = 1, is_calls = [Listen path]\<rparr>)"
    using assms(2) by (simp add: ipc_start_def ipc_init_def socket_defs)
  show ?thesis by (simp add: seqm_def bindm_def finallym_def start serve_closes [OF assms(1)] stop_closes [OF assms(1)])
qed

text \<open>Starting twice is not refused: the socket of the first start is forgotten, and stopping closes only the second.\<close>

lemma second_start_forgets:
  assumes "closes_quietly w" and "w (Listen path) = None"
  shows "is_calls (snd (seqm (ipc_start w) (seqm (ipc_start w) (ipc_stop w)) (ipc_init path)))
    = [Listen path, Listen path, CloseSocket 1, WaitClosed 1]"
proof -
  have start: "is_path s = path \<Longrightarrow> ipc_start w s = (Inr (), s\<lparr>is_server := Some (is_made s), is_made := is_made s + 1, is_calls := is_calls s @ [Listen path]\<rparr>)" for s
    using assms(2) by (simp add: ipc_start_def socket_defs)
  show ?thesis by (simp add: seqm_def bindm_def start stop_closes [OF assms(1)] ipc_init_def)
qed

end
