(* ===== verification/Service_Main.thy ===== *)
theory Service_Main imports Ipc_Server Usb_Watch begin

text \<open>
  The entry points of the two services and their connections: the modem controller
  (\<open>modem_controller/main.py\<close>), the device API (\<open>api/main.py\<close>) and the session of a request (\<open>common/db.py\<close>). Each call
  of a part is named in a log; what it raises is an input.
\<close>

section \<open>Calls and their log\<close>

datatype service_call =
    MakeEngine
  | OpenClient client_choice
  | StartServer
  | StartWatcher
  | ServeForever
  | StopServer
  | CancelWatcher
  | CloseClient
  | DisposeEngine
  | StartScheduler
  | ServeRequests
  | ShutdownScheduler

record service_world =
  sv_env :: "string \<rightharpoonup> string"
  sv_platform :: string
  sv_pyudev :: bool
  sv_out :: "service_call \<Rightarrow> pyexn option"

definition step_call :: "service_world \<Rightarrow> service_call \<Rightarrow> (service_call list, unit) proc" where
  "step_call w c = (\<lambda>l. case sv_out w c of None \<Rightarrow> (Inr (), l @ [c]) | Some e \<Rightarrow> (Inl e, l @ [c]))"

definition of_sum :: "pyexn + 'a \<Rightarrow> (service_call list, 'a) proc" where
  "of_sum r = (case r of Inl e \<Rightarrow> raise e | Inr x \<Rightarrow> ret x)"

definition env_value :: "service_world \<Rightarrow> string \<Rightarrow> string" where
  "env_value w name = (case sv_env w name of None \<Rightarrow> [] | Some v \<Rightarrow> v)"


text \<open>\<open>url or os.environ[name]\<close>.\<close>

definition url_or_env :: "string \<Rightarrow> string option \<Rightarrow> (string \<rightharpoonup> string) \<Rightarrow> pyexn + string" where
  "url_or_env name url env = (case url of Some (c # u) \<Rightarrow> Inr (c # u)
     | _ \<Rightarrow> (case env name of None \<Rightarrow> Inl (OtherError ''KeyError'') | Some v \<Rightarrow> Inr v))"

definition get_engine :: "string option \<Rightarrow> (string \<rightharpoonup> string) \<Rightarrow> pyexn + string" where
  "get_engine = url_or_env ''ISALES_DATABASE_URL''"

definition get_redis :: "string option \<Rightarrow> (string \<rightharpoonup> string) \<Rightarrow> pyexn + string" where
  "get_redis = url_or_env ''ISALES_REDIS_URL''"


section \<open>The modem controller\<close>

definition has_database :: "service_world \<Rightarrow> bool" where
  "has_database w \<longleftrightarrow> env_value w ''ISALES_DATABASE_URL'' \<noteq> []"

text \<open>Whether a watcher task was started; without a database none is tried.\<close>

definition start_watcher :: "service_world \<Rightarrow> (service_call list, bool) proc" where
  "start_watcher w = (if \<not> has_database w then ret False
     else seqm (step_call w StartWatcher)
       (bindm (of_sum (start_udev_watcher (sv_env w ''ISALES_SKIP_UDEV'') (sv_platform w) (sv_pyudev w))) (\<lambda>t. ret (t \<noteq> None))))"

text \<open>The client on a serial port has an \<open>aclose\<close>, the mock has none.\<close>

definition closes :: "client_choice \<Rightarrow> bool" where
  "closes c \<longleftrightarrow> (case c of UseSerial _ _ \<Rightarrow> True | UseMock \<Rightarrow> False)"

definition controller_setup :: "service_world \<Rightarrow> (service_call list, client_choice \<times> bool) proc" where
  "controller_setup w =
     seqm (if has_database w then step_call w MakeEngine else ret ())
     (bindm (of_sum (make_at_client (sv_env w))) (\<lambda>choice. seqm (step_call w (OpenClient choice))
     (seqm (step_call w StartServer)
     (bindm (start_watcher w) (\<lambda>watching. ret (choice, watching))))))"

definition controller_finally :: "service_world \<Rightarrow> client_choice \<Rightarrow> bool \<Rightarrow> (service_call list, unit) proc" where
  "controller_finally w choice watching =
     seqm (step_call w StopServer)
     (seqm (if watching then step_call w CancelWatcher else ret ())
     (seqm (if closes choice then suppress (step_call w CloseClient) else ret ())
     (if has_database w then step_call w DisposeEngine else ret ())))"

definition controller_main :: "service_world \<Rightarrow> (service_call list, unit) proc" where
  "controller_main w = bindm (controller_setup w) (\<lambda>(choice, watching).
     finallym (step_call w ServeForever) (controller_finally w choice watching))"

text \<open>\<open>asyncio.run\<close> turns the cancellation of an interrupt into \<open>KeyboardInterrupt\<close>, which \<open>run\<close> swallows.\<close>

definition controller_run :: "bool \<Rightarrow> service_world \<Rightarrow> (service_call list, unit) proc" where
  "controller_run interrupted w = catchm (controller_main w) (\<lambda>e. if e = Cancelled \<and> interrupted then Some (ret ()) else None)"


section \<open>The device API\<close>

definition lifespan :: "service_world \<Rightarrow> (service_call list, unit) proc" where
  "lifespan w = seqm (bindm (of_sum (get_engine None (sv_env w))) (\<lambda>_. step_call w MakeEngine))
     (seqm (step_call w StartScheduler)
       (finallym (step_call w ServeRequests) (seqm (step_call w ShutdownScheduler) (step_call w DisposeEngine))))"

record api_app =
  ap_routes :: "string list"
  ap_lifespan :: bool

definition create_app :: "(string \<rightharpoonup> string) \<Rightarrow> api_app" where
  "create_app env = \<lparr>ap_routes = [''/health'', ''devices'', ''sim_cards'', ''device_sim_bindings'', ''select''],
     ap_lifespan = (case env ''ISALES_DATABASE_URL'' of None \<Rightarrow> False | Some u \<Rightarrow> u \<noteq> [])\<rparr>"

definition serve_api :: "service_world \<Rightarrow> (service_call list, unit) proc" where
  "serve_api w = (if ap_lifespan (create_app (sv_env w)) then lifespan w else step_call w ServeRequests)"


section \<open>The session of a request\<close>

text \<open>What the database holds and what the session has made of it; leaving the session drops what is not committed.\<close>

record 'd session =
  ss_saved :: 'd
  ss_work :: 'd

definition commit :: "pyexn option \<Rightarrow> ('d session, unit) proc" where
  "commit failure = (case failure of None \<Rightarrow> modify (\<lambda>s. s\<lparr>ss_saved := ss_work s\<rparr>) | Some e \<Rightarrow> raise e)"

definition rollback :: "('d session, unit) proc" where
  "rollback = modify (\<lambda>s. s\<lparr>ss_work := ss_saved s\<rparr>)"

definition on_work :: "('d, 'a) proc \<Rightarrow> ('d session, 'a) proc" where
  "on_work f s = (case f (ss_work s) of (r, d) \<Rightarrow> (r, s\<lparr>ss_work := d\<rparr>))"

definition session_dependency :: "pyexn option \<Rightarrow> ('d, 'a) proc \<Rightarrow> ('d, 'a) proc" where
  "session_dependency failure f d = (case catchm (bindm (on_work f) (\<lambda>x. seqm (commit failure) (ret x)))
         (\<lambda>e. if is_exception e then Some (seqm rollback (raise e)) else None) \<lparr>ss_saved = d, ss_work = d\<rparr> of
       (r, s) \<Rightarrow> (r, ss_saved s))"

section \<open>Order of stopping\<close>

text \<open>The session of a request keeps all of its changes or none of them, like the one the routers use.\<close>

lemma session_all_or_nothing:
  "session_dependency failure f d = (case f d of (Inl e, _) \<Rightarrow> (Inl e, d)
     | (Inr x, d') \<Rightarrow> (case failure of None \<Rightarrow> (Inr x, d') | Some e \<Rightarrow> (Inl e, d)))"
  by (auto simp: session_dependency_def on_work_def commit_def rollback_def method_defs split: prod.splits sum.splits option.splits)

lemma session_dependency_is_get_session: "session_dependency None f = with_session f"
  by (rule ext) (simp add: session_all_or_nothing with_session_def split: prod.splits sum.splits)

text \<open>The calls of stopping, up to the first that raises; closing the client may only be cancelled.\<close>

definition stop_calls :: "service_world \<Rightarrow> client_choice \<Rightarrow> bool \<Rightarrow> service_call list" where
  "stop_calls w choice watching = StopServer # (if watching then [CancelWatcher] else []) @ (if closes choice then [CloseClient] else [])
     @ (if has_database w then [DisposeEngine] else [])"

definition stops_here :: "service_world \<Rightarrow> service_call \<Rightarrow> bool" where
  "stops_here w c \<longleftrightarrow> (case sv_out w c of None \<Rightarrow> False | Some e \<Rightarrow> c \<noteq> CloseClient \<or> \<not> is_exception e)"

fun upto_failure :: "service_world \<Rightarrow> service_call list \<Rightarrow> service_call list" where
  "upto_failure w [] = []"
| "upto_failure w (c # cs) = (if stops_here w c then [c] else c # upto_failure w cs)"

lemma controller_finally_log:
  "snd (controller_finally w choice watching l) = l @ upto_failure w (stop_calls w choice watching)"
  by (auto simp: controller_finally_def stop_calls_def stops_here_def step_call_def method_defs split: option.splits)

text \<open>A controller that was set up stops its parts once each in a fixed order, however serving ended, up to the first call that raises;
  an error of closing the client is logged and skipped.\<close>

theorem controller_stop_order:
  assumes "controller_setup w l = (Inr (choice, watching), l1)"
  shows "snd (controller_main w l) = l1 @ [ServeForever] @ upto_failure w (stop_calls w choice watching)"
proof -
  have "snd (finallym (step_call w ServeForever) (controller_finally w choice watching) l1)
    = snd (controller_finally w choice watching (l1 @ [ServeForever]))"
    by (auto simp: finallym_def step_call_def split: option.splits prod.splits sum.splits)
  then show ?thesis using assms by (simp add: controller_main_def bindm_def controller_finally_log)
qed

text \<open>A controller whose socket cannot be opened closes neither the modem nor the database engine.\<close>

lemma failed_controller_start_leaks:
  assumes "sv_out w StartServer = Some e" and "make_at_client (sv_env w) = Inr choice" and "sv_out w (OpenClient choice) = None"
    and "has_database w" and "sv_out w MakeEngine = None"
  shows "controller_main w [] = (Inl e, [MakeEngine, OpenClient choice, StartServer])"
  using assms by (simp add: controller_main_def controller_setup_def step_call_def of_sum_def method_defs)

text \<open>The API stops its scheduler before it disposes of the engine; a scheduler that does not stop leaves the engine.\<close>

lemma api_stop_order:
  assumes "sv_env w ''ISALES_DATABASE_URL'' \<noteq> None" and "sv_out w MakeEngine = None" and "sv_out w StartScheduler = None"
  shows "snd (lifespan w l) = l @ [MakeEngine, StartScheduler, ServeRequests, ShutdownScheduler]
    @ (if sv_out w ShutdownScheduler = None then [DisposeEngine] else [])"
  using assms by (auto simp: lifespan_def get_engine_def url_or_env_def of_sum_def step_call_def method_defs split: option.splits)

text \<open>A service without a database has no lifespan: nothing is built and nothing released.\<close>

lemma api_without_database:
  assumes "env_value w ''ISALES_DATABASE_URL'' = []"
  shows "snd (serve_api w l) = l @ [ServeRequests]"
  using assms by (auto simp: serve_api_def create_app_def env_value_def step_call_def split: option.splits)

end
