(* ===== verification/Upload_Queue.thy ===== *)
theory Upload_Queue imports Recorder begin

text \<open>
  The upload list of finished recordings (\<open>RedisRecordingQueue\<close> and \<open>file_sha256\<close> of
  \<open>modem_controller/recorder.py\<close>). The hash of the standard library is a parameter with its three steps; the redis
  server is its lists.
\<close>

definition HASH_BLOCK :: nat where "HASH_BLOCK = push_bit 20 1"

text \<open>The blocks \<open>f.read(1 << 20)\<close> gives until the first empty one.\<close>

function read_blocks :: "nat \<Rightarrow> bytes \<Rightarrow> bytes list" where
  "read_blocks n bs = (if bs = [] \<or> n = 0 then [] else take n bs # read_blocks n (drop n bs))"
  by pat_completeness auto
termination by (relation "measure (\<lambda>(_, bs). length bs)") auto

declare read_blocks.simps [simp del]

definition file_sha256 :: "('h \<Rightarrow> bytes \<Rightarrow> 'h) \<Rightarrow> 'h \<Rightarrow> ('h \<Rightarrow> string) \<Rightarrow> bytes \<Rightarrow> string" where
  "file_sha256 update init digest bs = digest (foldl update init (read_blocks HASH_BLOCK bs))"

record upload =
  up_call :: string
  up_path :: string
  up_sha :: string
  up_bytes :: nat

text \<open>A redis client: whether it has an \<open>rpush\<close>, how that fails, and the lists.\<close>

record redis =
  rd_rpush :: bool
  rd_failure :: "pyexn option"
  rd_lists :: "string \<Rightarrow> upload list"

definition enqueue :: "(bytes \<Rightarrow> string) \<Rightarrow> (string \<rightharpoonup> bytes) \<Rightarrow> string \<Rightarrow> string \<Rightarrow> string \<Rightarrow> (redis, unit) proc" where
  "enqueue sha files name cid path r = (case files path of
       None \<Rightarrow> raise (OSError ''No such file or directory'') r
     | Some bs \<Rightarrow>
         if \<not> rd_rpush r then raise (RuntimeError ''redis client missing rpush'') r
         else (case rd_failure r of Some e \<Rightarrow> raise e r
           | None \<Rightarrow> ret () (r\<lparr>rd_lists := (rd_lists r)(name := rd_lists r name @
               [\<lparr>up_call = cid, up_path = path, up_sha = sha bs, up_bytes = length bs\<rparr>])\<rparr>)))"

lemma read_blocks_concat: "0 < n \<Longrightarrow> concat (read_blocks n bs) = bs"
  by (induction n bs rule: read_blocks.induct) (simp add: read_blocks.simps)

lemma read_blocks_sizes: "b \<in> set (read_blocks n bs) \<Longrightarrow> b \<noteq> [] \<and> length b \<le> n"
  by (induction n bs rule: read_blocks.induct) (subst (asm) (2) read_blocks.simps, auto split: if_splits)

text \<open>Hashing block by block gives the hash of the whole file, for every hash whose updates add up.\<close>

lemma file_hash_is_whole_hash:
  assumes "\<And>s a b. update (update s a) b = update s (a @ b)" and "\<And>s. update s [] = s"
  shows "file_sha256 update init digest bs = digest (update init bs)"
proof -
  have "foldl update s bss = update s (concat bss)" for s bss
    by (induction bss arbitrary: s) (simp_all add: assms)
  moreover have "0 < HASH_BLOCK" by (simp add: HASH_BLOCK_def)
  ultimately show ?thesis by (simp add: file_sha256_def read_blocks_concat)
qed

text \<open>A recording is queued last in its list with its own hash and size, or every list stays as it was.\<close>

lemma enqueue_appends:
  assumes "enqueue sha files name cid path r = (q, r')"
  shows "rd_lists r' k = rd_lists r k @ (case files path of
      Some bs \<Rightarrow> if k = name \<and> q = Inr () then [\<lparr>up_call = cid, up_path = path, up_sha = sha bs, up_bytes = length bs\<rparr>] else []
    | None \<Rightarrow> [])"
  using assms by (auto simp: enqueue_def raise_def ret_def split: option.splits if_splits)

end
