(* ===== verification/Spec2Isabelle.thy ===== *)
theory Spec2Isabelle imports Call_Lifecycle At_Probe Win_Main Capture_Recover Call_Timeline Smoke_Scripts
  Link_Smoke Modem_Diag Shared_Handle Rtc_Smoke Poc_Spikes Tray_Window Playback_Log
  Mock_Client Socket_Lifecycle Service_Main Upload_Queue begin

text \<open>
  Verification of isales-telephony, the telephony side of a call centre: an edge process places calls on a GSM
  modem, carries their audio to a cloud engine over DingRTC, reports to the cloud over a gRPC stream, and shares a
  device table with the services around it. Paths below are under \<open>src/isales_telephony\<close>; those that begin with
  \<open>scripts\<close> are under \<open>src\<close>.

  The program. A dial message arrives on the cloud stream (\<open>transport/grpc_client.py\<close>) and reaches the orchestrator
  (\<open>edge/orchestrator.py\<close>), which dials through the AT client (\<open>modem_controller/at_client.py\<close>). That client speaks
  AT commands (\<open>serial_protocol.py\<close>) through a vendor driver (\<open>drivers.py\<close>) over a locked serial port
  (\<open>platforms\<close>). When the modem reports an answer, the orchestrator switches the PCM port on, joins an RTC session
  (\<open>audio_bridge\<close>) and starts the pumps between modem, rings and bridge; a recorder keeps both tracks. A hang-up, from
  either side, tears this down and is reported. Messages that cannot be sent are buffered in memory or in SQLite
  (\<open>transport/sqlite_buffer.py\<close>) and replayed on reconnect. Two entry points build these parts: the daemon
  (\<open>edge/main.py\<close>) and the Windows shell (\<open>main_windows.py\<close>, \<open>ui\<close>). A second program, the modem controller,
  offers the AT client to the engine over a Unix socket (\<open>ipc_server.py\<close>, \<open>handlers.py\<close>) and watches USB; a third, the
  device API (\<open>api\<close>), keeps devices, SIM cards and their bindings. The scripts diagnose calls and modems.

  Conventions (\<open>Prelude\<close>). A method is a function from its state to a result and a state, \<open>('s, 'a) proc\<close>; the result
  is \<open>Inl\<close> an exception of the datatype \<open>pyexn\<close> or \<open>Inr\<close> a value. \<open>bindm\<close>, \<open>catchm\<close>, \<open>suppress\<close> and \<open>finallym\<close> are
  sequencing, \<open>except\<close>, \<open>contextlib.suppress(Exception)\<close> and \<open>finally\<close>; cancellation is an exception that
  \<open>except Exception\<close> lets through. A coroutine that waits is split into the steps between its awaits wherever
  another task can observe the difference, so that an interleaving is a list of steps. A loop that may wait for
  ever returns an option, and \<open>None\<close> is not returning. Objects shared by reference (call contexts, generators,
  queues, serial ports) live in a store and are named by references. Bytes and samples are words of 8 and 16 bits;
  Python integers are \<open>int\<close> or \<open>nat\<close>; strings are ASCII. Recursion is structural or has a termination proof: no
  definition takes fuel. Lists of inputs (answers, ticks, polls) bound a run from outside, and the theorems hold for
  lists of every length.

  What is an input. Code outside the repository is a parameter or a list of answers: the modem's lines, the
  gRPC stream, SQLite's failures, the DingRTC SDKs, PortAudio, the file system's errors, the clock, the
  interpolation of numpy and scipy, protobuf encoding (an arbitrary type with a parse function), JSON decoding,
  and what a user answers. Logs record the calls made on such code, so that order and pairing can be stated.

  Calls.
    \<open>Orchestrator\<close> holds the handlers of \<open>edge/orchestrator.py\<close> on a state of contexts, call table and log;
    \<open>Orchestrator_Inv\<close> what one handler may do to one call (\<open>step_ok\<close>) and the invariant \<open>orch_inv\<close>;
    \<open>Call_Lifecycle\<close> the runs (\<open>orch_reach\<close>) and the properties of whole calls: each call is reported as connected
    and as ended at most once and in this order, a call that has left the table holds nothing, the exact effects of
    an answered call and of one whose PCM switch fails, and idempotent dialling.
    \<open>At_Client\<close> is the serial and the mock client, with the event streams of calls as suspended generators. The locale
    \<open>call_stream\<close> is what both promise a consumer: connected at most once, then a hang-up at most once and last
    (interpretations \<open>mock\<close>, \<open>serial\<close>); runs of the serial client (\<open>reachable\<close>) give one call at a time, no connected
    without a report of the modem, and a client that is free after a hang-up. \<open>Mock_Client\<close> has the mock's registry of
    cancellers and its timers: the stream of each of any number of interleaved calls is well formed.
    \<open>Serial_Protocol\<close> classifies lines and runs a command; \<open>Drivers\<close> has the vendor dialects and the causes of a
    failed dial; \<open>Serial_Transport\<close> has the lock and the reader thread, whose lines do not depend on how the bytes are
    chunked; \<open>At_Probe\<close> finds the AT channel of a modem and its identity.

  Audio.
    \<open>Ring_Buffer\<close> has the PCM ring, bounded in bytes, and the jitter buffer; \<open>Drop_Oldest\<close> is the contract of a
    buffer that makes room by dropping its oldest elements (locale \<open>drop_oldest\<close>, interpretations \<open>ring\<close>, \<open>jitter\<close>), from
    which order and loss of the elements follow.
    \<open>Audio_Bridge\<close> has the resampler, both loops of the bridge and the pumps of the modem's port: every chunk is
    pushed once and in order across back-pressure, only the peer is played, and the modem gets whole frames.
    \<open>Recorder\<close> has the tracks, the wav file (both tracks complete, the shorter padded) and retention; \<open>Upload_Queue\<close> the
    upload list and the hash by blocks.
    \<open>Audio_Backends\<close> and \<open>Core_Audio\<close> have the Windows port shared by capture and playback, the microphone of the
    development mode, the audio pipe, and the macOS streams.
    \<open>Rtc_Session\<close> has the Windows session (\<open>win_reach\<close>: every engine is destroyed once) and the in-memory session
    (\<open>mac_reach\<close>); \<open>Mac_Dingrtc\<close> the session over the Objective-C SDK. The locale \<open>closing_session\<close> is that a session that was
    left is inert (interpretations \<open>win_closing\<close>, \<open>ding_closing\<close>).

  Cloud link.
    \<open>Event_Buffer\<close> is the SQLite buffer with its capacity, its reading by pages and its termination.
    \<open>Grpc_Client\<close> has sending, reconnecting with backoff and the flush. The locale \<open>frame_buffer\<close> is what the client needs of a
    buffer (interpretation \<open>frames\<close>, over the memory and the SQLite backend), and an outage is replayed in order, the
    newest frames up to the limit.

  Services.
    \<open>Device_Table\<close> has the tables, the handlers of \<open>api/routers\<close>, the health scan and the heartbeat, with the selection of
    the longest idle device. \<open>Usb_Watch\<close> has the scans, the polling watchers (locale \<open>scan_difference\<close>, interpretations \<open>win\<close>,
    \<open>mac\<close>: replaying the events gives the last scan) and modem discovery. \<open>Ipc_Server\<close> has framing, dispatch, handlers and
    event pumps of the controller socket (\<open>ipc_reach\<close>), \<open>Socket_Lifecycle\<close> its starting and closing. \<open>Service_Main\<close> builds and stops the controller and the API and has
    the session of a request, which keeps all of its changes or none.

  Processes and shell.
    \<open>Edge_Main\<close> builds, serves and stops the daemon in both modes: the parts are stopped once each in a fixed order,
    and a daemon that fails while it is built releases nothing. \<open>Env_File\<close> rewrites the environment file and reads it back.
    \<open>Edge_Ui\<close> has the status bus, activation, restarter, watcher and heartbeat; \<open>Win_Main\<close> the task group, the
    cleanup, menu, tray and diagnostic text of the Windows shell. \<open>Tray_Window\<close> has the tray's menu and the diagnostic
    window as a subscriber of the bus: with no rendering queued it shows the last status it was given, which need
    not be the newest.

  Scripts.
    \<open>Capture_Recover\<close> is the recovery ladder (\<open>scripts/modem_capture_recover.py\<close>): the rungs in order, the first that cures, the
    measurement. \<open>Call_Verdict\<close> cuts one call out of both logs and judges it (\<open>scripts/mac_dev_auto_analyze.py\<close>); its statuses
    are an instance of \<open>linorder\<close>. \<open>Playback_Log\<close> has the level log of the macOS session and reads its lines back as the
    verdict does: the peaks judged are those measured, which may miss what lies between the sampled points. \<open>Call_Timeline\<close> merges the logs (\<open>scripts/call_timeline.py\<close>). \<open>Smoke_Scripts\<close> has the two
    end-to-end scripts with their polls, exit status and cleanup, and \<open>Link_Smoke\<close> the tests of the cloud stream and of one
    dialled call. \<open>Modem_Diag\<close> has the one-off diagnostics of the audio port, which hang up and close their ports however the
    measurement ends. \<open>Shared_Handle\<close> has the check of the handle
    that capture and playback share, over the models of both backends. \<open>Rtc_Smoke\<close> runs the sessions of both platforms as their smoke tests do, two audio tasks interleaved, and the
    binding by itself; \<open>Poc_Spikes\<close> has the experiments of \<open>scripts/d1_poc\<close>: jitter and its verdict, the desktop demo, and a
    spike that joins port discovery, AT client and audio port.

  Properties. The statements numbered C1 to C40 stand beside the definitions they rest on, each before its
  theorem; those of \<open>Call_Lifecycle\<close>, \<open>Edge_Main\<close>, \<open>Win_Main\<close> and \<open>Ipc_Server\<close> span components. A theorem with a hypothesis is
  followed by a witness that applies it to a concrete input. Lemmas that are not numbered include the behaviours
  that differ from what comments or their callers expect, each with the input that shows it.

  Not modelled. Widgets and windows of the desktop shell (their callbacks and texts are), menus drawn by the
  operating system, the wording of log lines and printed reports, binding of Objective-C protocols, creation of
  the FastAPI, SQLAlchemy and gRPC objects, and protobuf and JSON encoding: all of them are calls of libraries. The
  launchers in the root of the repository set search paths and start an entry point. Time is an input: that a time-out expires is an outcome, not a duration, except
  where the code computes with times (backoff, rate limits, timelines, the soak). Threads interleave at the calls
  that the components name; data races inside a library are not considered.
\<close>

end
